(* ===== verification/Prelude.thy ===== *)
theory Prelude imports Main "HOL-Library.Word" Complex_Main begin

text \<open>
  What every component shares: the result type of code that can throw, the numbers of JavaScript
  and the tests the code makes on them (\<open>Number.isInteger\<close>, \<open>Number.isSafeInteger\<close>), the
  string operations \<open>split\<close> and \<open>join\<close> on a one-character separator, and sequencing over lists.
  Strings are lists of 8-bit code units.
\<close>

unbundle bit_operations_syntax

named_theorems split_join \<open>laws of splitting and joining strings\<close>
named_theorems js_number \<open>tests on JavaScript numbers\<close>

section \<open>Results\<close>

text \<open>
  A function that can throw returns \<open>Inl\<close> of the error it throws or \<open>Inr\<close> of its result.
  \<open>bindR\<close> is sequencing: the rest runs only when the first part did not throw.
\<close>

type_synonym byte = "8 word"
type_synonym bytes = "byte list"

fun bindR :: "'e + 'a \<Rightarrow> ('a \<Rightarrow> 'e + 'b) \<Rightarrow> 'e + 'b" where
  "bindR (Inl e) k = Inl e"
| "bindR (Inr x) k = k x"

lemma bindR_cong [fundef_cong]:
  "m = m' \<Longrightarrow> (\<And>x. m' = Inr x \<Longrightarrow> k x = k' x) \<Longrightarrow> bindR m k = bindR m' k'"
  by (cases m') auto

lemma bindR_eq_Inr [simp]: "bindR m k = Inr y \<longleftrightarrow> (\<exists>x. m = Inr x \<and> k x = Inr y)"
  by (cases m) auto

lemma bindR_eq_Inl: "bindR m k = Inl e \<longleftrightarrow> m = Inl e \<or> (\<exists>x. m = Inr x \<and> k x = Inl e)"
  by (cases m) auto

text \<open>The same for a first part that returns a tuple.\<close>

lemma bindR_pair: "bindR m (\<lambda>(a, b). k a b) = Inr y \<longleftrightarrow> (\<exists>a b. m = Inr (a, b) \<and> k a b = Inr y)"
  by (cases m) auto

lemma bindR_triple: "bindR m (\<lambda>(a, b, c). k a b c) = Inr y \<longleftrightarrow> (\<exists>a b c. m = Inr (a, b, c) \<and> k a b c = Inr y)"
  by (cases m) auto

lemma bindR_quad:
  "bindR m (\<lambda>(a, b, c, d). k a b c d) = Inr y \<longleftrightarrow> (\<exists>a b c d. m = Inr (a, b, c, d) \<and> k a b c d = Inr y)"
  by (cases m) auto

lemmas bindR_tuples = bindR_quad bindR_triple bindR_pair

fun isOk :: "'e + 'a \<Rightarrow> bool" where
  "isOk (Inl e) = False"
| "isOk (Inr x) = True"

lemma isOk_iff: "isOk r \<longleftrightarrow> (\<exists>x. r = Inr x)"
  by (cases r) auto

text \<open>A check that throws \<open>e\<close> unless \<open>b\<close> holds.\<close>

definition ensure :: "bool \<Rightarrow> 'e \<Rightarrow> 'e + unit" where
  "ensure b e = (if b then Inr () else Inl e)"

lemma ensure_eq_Inr [simp]: "ensure b e = Inr u \<longleftrightarrow> b"
  by (simp add: ensure_def)

lemma ensure_simps [simp]: "ensure True e = Inr ()" "ensure False e = Inl e"
  by (simp_all add: ensure_def)

text \<open>A loop that applies a step that can throw to each element, in order.\<close>

fun mapR :: "('a \<Rightarrow> 'e + 'b) \<Rightarrow> 'a list \<Rightarrow> 'e + 'b list" where
  "mapR f [] = Inr []"
| "mapR f (x # xs) = bindR (f x) (\<lambda>y. bindR (mapR f xs) (\<lambda>ys. Inr (y # ys)))"

lemma mapR_cong [fundef_cong]:
  "xs = ys \<Longrightarrow> (\<And>x. x \<in> set ys \<Longrightarrow> f x = g x) \<Longrightarrow> mapR f xs = mapR g ys"
  by (induction ys arbitrary: xs) auto

lemma mapR_length: "mapR f xs = Inr ys \<Longrightarrow> length ys = length xs"
  by (induction xs arbitrary: ys) auto

lemma mapR_Inr: "(\<And>x. x \<in> set xs \<Longrightarrow> f x = Inr (g x)) \<Longrightarrow> mapR f xs = Inr (map g xs)"
  by (induction xs) auto

lemma mapR_nth: "mapR f xs = Inr ys \<Longrightarrow> i < length xs \<Longrightarrow> f (xs ! i) = Inr (ys ! i)"
  by (induction xs arbitrary: ys i) (auto simp: nth_Cons split: nat.splits)

lemma mapR_set: "mapR f xs = Inr ys \<Longrightarrow> y \<in> set ys \<Longrightarrow> \<exists>x \<in> set xs. f x = Inr y"
  by (induction xs arbitrary: ys) auto

fun foldR :: "('s \<Rightarrow> 'a \<Rightarrow> 'e + 's) \<Rightarrow> 's \<Rightarrow> 'a list \<Rightarrow> 'e + 's" where
  "foldR f s [] = Inr s"
| "foldR f s (x # xs) = bindR (f s x) (\<lambda>s'. foldR f s' xs)"

lemma foldR_cong [fundef_cong]:
  "s = s' \<Longrightarrow> xs = ys \<Longrightarrow> (\<And>t x. x \<in> set ys \<Longrightarrow> f t x = g t x) \<Longrightarrow> foldR f s xs = foldR g s' ys"
proof (induction ys arbitrary: s s' xs)
  case Nil
  then show ?case by simp
next
  case (Cons y ys)
  then have "f s' y = g s' y" by simp
  moreover have "foldR f t ys = foldR g t ys" for t
    using Cons.IH Cons.prems(3) by simp
  ultimately show ?case using Cons.prems by (cases "g s' y") auto
qed

lemma foldR_invariant:
  assumes "foldR f s xs = Inr t" and "P s"
    and "\<And>u x v. x \<in> set xs \<Longrightarrow> P u \<Longrightarrow> f u x = Inr v \<Longrightarrow> P v"
  shows "P t"
  using assms by (induction xs arbitrary: s) auto

lemma foldR_append: "foldR f s (xs @ ys) = bindR (foldR f s xs) (\<lambda>t. foldR f t ys)"
proof (induction xs arbitrary: s)
  case (Cons x xs)
  then show ?case by (cases "f s x") auto
qed simp

lemma bindR_right [simp]: "bindR m Inr = m"
  by (cases m) auto

lemma foldR_snoc: "foldR f s (xs @ [x]) = Inr t \<longleftrightarrow> (\<exists>u. foldR f s xs = Inr u \<and> f u x = Inr t)"
  by (simp add: foldR_append)

section \<open>Numbers\<close>

text \<open>
  A JavaScript number: every finite double is a rational, and the other values are NaN and the two
  infinities. The code tests its arguments with \<open>Number.isInteger\<close> before it uses them as indices
  or as counts; \<open>intOf\<close> is that test together with the integer it finds.
\<close>

datatype jsnum = Num rat | NaN | PosInf | NegInf

definition jint :: "int \<Rightarrow> jsnum" where
  "jint z = Num (of_int z)"

fun intOf :: "jsnum \<Rightarrow> int option" where
  "intOf (Num q) = (let r = quotient_of q in if snd r = 1 then Some (fst r) else None)"
| "intOf _ = None"

definition isInteger :: "jsnum \<Rightarrow> bool" where
  "isInteger v = (intOf v \<noteq> None)"

definition maxSafe :: int where
  "maxSafe = 2 ^ 53 - 1"

definition safeIntOf :: "jsnum \<Rightarrow> int option" where
  "safeIntOf v = (case intOf v of None \<Rightarrow> None
     | Some z \<Rightarrow> if \<bar>z\<bar> \<le> maxSafe then Some z else None)"

lemma intOf_jint [simp, js_number]: "intOf (jint z) = Some z"
  by (simp add: jint_def)

lemma jint_inject [simp]: "jint a = jint b \<longleftrightarrow> a = b"
  by (simp add: jint_def)

lemma intOf_Some: "intOf v = Some z \<Longrightarrow> v = jint z"
proof (cases v)
  case (Num q)
  assume "intOf v = Some z"
  then have "quotient_of q = (z, 1)"
    using Num by (auto simp: Let_def prod_eq_iff split: if_splits)
  then have "q = of_int z" using quotient_of_div by fastforce
  then show ?thesis using Num by (simp add: jint_def)
qed auto

lemma isInteger_jint [simp, js_number]: "isInteger (jint z)"
  by (simp add: isInteger_def)

lemma safeIntOf_jint [js_number]: "safeIntOf (jint z) = (if \<bar>z\<bar> \<le> maxSafe then Some z else None)"
  by (simp add: safeIntOf_def)

lemma safeIntOf_Some: "safeIntOf v = Some z \<Longrightarrow> v = jint z \<and> \<bar>z\<bar> \<le> maxSafe"
  by (auto simp: safeIntOf_def intOf_Some split: option.splits if_splits)

section \<open>Lists and strings\<close>

text \<open>\<open>s.split(c)\<close> and \<open>parts.join(c)\<close> for a separator of one character.\<close>

fun splitOn :: "char \<Rightarrow> string \<Rightarrow> string list" where
  "splitOn c [] = [[]]"
| "splitOn c (x # xs) =
     (if x = c then [] # splitOn c xs
      else (case splitOn c xs of [] \<Rightarrow> [[x]] | p # ps \<Rightarrow> (x # p) # ps))"

fun joinWith :: "string \<Rightarrow> string list \<Rightarrow> string" where
  "joinWith sep [] = []"
| "joinWith sep [p] = p"
| "joinWith sep (p # q # ps) = p @ sep @ joinWith sep (q # ps)"

lemma splitOn_not_Nil [simp]: "splitOn c s \<noteq> []"
  by (induction s) (auto split: list.splits)

lemma joinWith_Cons: "ps \<noteq> [] \<Longrightarrow> joinWith sep (p # ps) = p @ sep @ joinWith sep ps"
  by (cases ps) auto

lemma joinWith_splitOn [split_join]: "joinWith [c] (splitOn c s) = s"
proof (induction s)
  case (Cons x s)
  show ?case
  proof (cases "x = c")
    case True
    then show ?thesis using Cons by (simp add: joinWith_Cons)
  next
    case False
    obtain p ps where "splitOn c s = p # ps" by (cases "splitOn c s") auto
    then show ?thesis using Cons False by (cases ps) auto
  qed
qed simp

lemma joinWith_append: "xs \<noteq> [] \<Longrightarrow> ys \<noteq> [] \<Longrightarrow> joinWith sep (xs @ ys) = joinWith sep xs @ sep @ joinWith sep ys"
proof (induction xs)
  case (Cons a xs)
  then show ?case by (cases "xs = []") (auto simp: joinWith_Cons)
qed simp

text \<open>Joining the disclosures first and the parts then is joining all the parts.\<close>

lemma joinWith_nested:
  "joinWith sep ([a] @ (if length ds > 0 then [joinWith sep ds] else []) @ [b]) = joinWith sep (a # ds @ [b])"
proof (cases "ds = []")
  case False
  then show ?thesis using joinWith_append [of ds "[b]" sep] by (simp add: joinWith_Cons)
qed simp

lemma splitOn_plain: "c \<notin> set s \<Longrightarrow> splitOn c s = [s]"
  by (induction s) auto

lemma splitOn_append: "c \<notin> set p \<Longrightarrow> splitOn c (p @ c # s) = p # splitOn c s"
  by (induction p) auto

lemma splitOn_joinWith [split_join]:
  "ps \<noteq> [] \<Longrightarrow> (\<And>p. p \<in> set ps \<Longrightarrow> c \<notin> set p) \<Longrightarrow> splitOn c (joinWith [c] ps) = ps"
proof (induction ps)
  case (Cons p ps)
  then show ?case
    by (cases "ps = []") (auto simp: splitOn_plain splitOn_append joinWith_Cons)
qed simp

lemma splitOn_parts: "p \<in> set (splitOn c s) \<Longrightarrow> c \<notin> set p"
proof (induction s arbitrary: p)
  case (Cons x s)
  obtain q qs where "splitOn c s = q # qs" by (cases "splitOn c s") auto
  then show ?case using Cons by (auto split: if_splits)
qed simp

lemma set_joinWith: "set (joinWith sep ps) \<subseteq> \<Union> (set ` set ps) \<union> set sep"
  by (induction sep ps rule: joinWith.induct) auto

text \<open>Positions of an element: \<open>indexOf\<close> is -1 when it is not there, as in JavaScript.\<close>

fun indexOf :: "'a list \<Rightarrow> 'a \<Rightarrow> int" where
  "indexOf [] c = -1"
| "indexOf (x # xs) c = (if x = c then 0 else let r = indexOf xs c in if r < 0 then -1 else r + 1)"

lemma indexOf_ge: "indexOf xs c \<ge> -1"
  by (induction xs) (auto simp: Let_def)

lemma indexOf_absent: "indexOf xs c < 0 \<longleftrightarrow> c \<notin> set xs"
  by (induction xs) (auto simp: Let_def)

lemma indexOf_nth: "distinct xs \<Longrightarrow> i < length xs \<Longrightarrow> indexOf xs (xs ! i) = int i"
  by (induction xs arbitrary: i) (force simp: Let_def nth_Cons indexOf_absent split: nat.splits)+

lemma nth_indexOf: "c \<in> set xs \<Longrightarrow> xs ! nat (indexOf xs c) = c \<and> nat (indexOf xs c) < length xs"
proof (induction xs)
  case (Cons x xs)
  show ?case
  proof (cases "x = c")
    case False
    then have c: "c \<in> set xs" using Cons.prems by simp
    then have "\<not> indexOf xs c < 0" by (simp add: indexOf_absent)
    then show ?thesis using False Cons.IH [OF c]
      by (simp add: Let_def nat_add_distrib)
  qed simp
qed simp

text \<open>Reading an array: out of range is \<open>undefined\<close>, here \<open>None\<close>.\<close>

definition elemAt :: "'a list \<Rightarrow> nat \<Rightarrow> 'a option" where
  "elemAt xs i = (if i < length xs then Some (xs ! i) else None)"

lemma elemAt_simps [simp]:
  "elemAt [] i = None" "elemAt (x # xs) 0 = Some x" "elemAt (x # xs) (Suc i) = elemAt xs i"
  by (simp_all add: elemAt_def)

lemma those_Some: "those xs = Some ys \<longleftrightarrow> xs = map Some ys"
  by (induction xs arbitrary: ys) (auto split: option.splits simp: map_eq_Cons_conv)

lemma list_all_update: "list_all P xs \<Longrightarrow> P x \<Longrightarrow> list_all P (xs[i := x])"
  using set_update_subsetI [of xs "Collect P" x i] by (auto simp: list_all_iff)

text \<open>Rounding up, as \<open>Math.ceil(a / b)\<close> for a positive \<open>b\<close>.\<close>

definition ceilDiv :: "nat \<Rightarrow> nat \<Rightarrow> nat" where
  "ceilDiv a b = (a + b - 1) div b"

lemma ceilDiv_mult: "b > 0 \<Longrightarrow> ceilDiv (q * b) b = q"
proof -
  assume b: "b > 0"
  then have "q * b + b - 1 = (b - 1) + q * b" by simp
  then have "ceilDiv (q * b) b = ((b - 1) + q * b) div b" by (simp only: ceilDiv_def)
  also have "\<dots> = q" using b by (simp only: div_mult_self1) simp
  finally show ?thesis .
qed

lemma ceilDiv_ge: "b > 0 \<Longrightarrow> a \<le> ceilDiv a b * b"
proof -
  assume b: "b > 0"
  have "ceilDiv a b * b + (a + b - 1) mod b = a + b - 1"
    unfolding ceilDiv_def by (rule div_mult_mod_eq)
  moreover have "(a + b - 1) mod b < b" using b by simp
  ultimately show ?thesis by linarith
qed

lemma ceilDiv_less: "b > 0 \<Longrightarrow> ceilDiv a b * b < a + b"
proof -
  assume b: "b > 0"
  have "ceilDiv a b * b + (a + b - 1) mod b = a + b - 1"
    unfolding ceilDiv_def by (rule div_mult_mod_eq)
  then show ?thesis using b by linarith
qed

end
