(* ===== verification/BitStrings.thy ===== *)
theory BitStrings imports Prelude begin

text \<open>
  The binary strings \<open>packages/token-status-list/src/status-list.ts\<close> builds its bytes from:
  \<open>Number.prototype.toString(2)\<close>, \<open>padStart\<close> with zeros and \<open>Number.parseInt(_, 2)\<close> on
  strings of binary digits.
\<close>

named_theorems bit_strings \<open>values and lengths of binary strings\<close>

definition bitChar :: "nat \<Rightarrow> char" where
  "bitChar b = (if b = 0 then CHR ''0'' else CHR ''1'')"

fun toBin :: "nat \<Rightarrow> string" where
  "toBin n = (if n < 2 then [bitChar n] else toBin (n div 2) @ [bitChar (n mod 2)])"

declare toBin.simps [simp del]

definition padStart :: "nat \<Rightarrow> string \<Rightarrow> string" where
  "padStart k s = replicate (k - length s) (CHR ''0'') @ s"

definition parseBin :: "string \<Rightarrow> nat" where
  "parseBin s = foldl (\<lambda>a c. 2 * a + (if c = CHR ''1'' then 1 else 0)) 0 s"

lemma parseBin_Nil [simp]: "parseBin [] = 0"
  by (simp add: parseBin_def)

lemma parseBin_snoc [simp]: "parseBin (s @ [c]) = 2 * parseBin s + (if c = CHR ''1'' then 1 else 0)"
  by (simp add: parseBin_def)

lemma parseBin_append [bit_strings]: "parseBin (xs @ ys) = parseBin xs * 2 ^ length ys + parseBin ys"
proof (induction ys rule: rev_induct)
  case (snoc y ys)
  have "parseBin (xs @ ys @ [y]) = 2 * parseBin (xs @ ys) + (if y = CHR ''1'' then 1 else 0)"
    by (metis append.assoc parseBin_snoc)
  then show ?case using snoc by simp
qed simp

lemma parseBin_less: "parseBin s < 2 ^ length s"
  by (induction s rule: rev_induct) auto

lemma parseBin_zeros [simp]: "parseBin (replicate k (CHR ''0'')) = 0"
proof (induction k)
  case (Suc k)
  have "replicate (Suc k) (CHR ''0'') = replicate k (CHR ''0'') @ [CHR ''0'']"
    by (metis replicate_Suc replicate_append_same)
  then show ?case using Suc by simp
qed simp

lemma parseBin_padStart [bit_strings]: "parseBin (padStart k s) = parseBin s"
  by (simp add: padStart_def parseBin_append)

lemma parseBin_toBin [bit_strings]: "parseBin (toBin n) = n"
proof (induction n rule: toBin.induct)
  case (1 n)
  show ?case
  proof (cases "n < 2")
    case True
    then have "n = 0 \<or> n = 1" by auto
    then show ?thesis by (auto simp: toBin.simps [of n] parseBin_def bitChar_def)
  next
    case False
    then have "parseBin (toBin (n div 2)) = n div 2" by (rule "1.IH")
    then show ?thesis using False
      by (subst toBin.simps) (auto simp: bitChar_def; presburger)
  qed
qed

lemma length_toBin: "n < 2 ^ k \<Longrightarrow> 0 < k \<Longrightarrow> length (toBin n) \<le> k"
proof (induction n arbitrary: k rule: toBin.induct)
  case (1 n)
  show ?case
  proof (cases "n < 2")
    case True
    then show ?thesis using "1.prems" by (simp add: toBin.simps)
  next
    case False
    then obtain j where j: "k = Suc j" "0 < j"
      using "1.prems" by (cases k; cases "k = 1") auto
    then have "n div 2 < 2 ^ j" using "1.prems" by auto
    then have "length (toBin (n div 2)) \<le> j" using "1.IH" False j by blast
    then show ?thesis using False j by (subst toBin.simps) simp
  qed
qed

lemma length_padStart [bit_strings]: "length s \<le> k \<Longrightarrow> length (padStart k s) = k"
  by (simp add: padStart_def)

text \<open>The value of \<open>s.slice(k, k + m)\<close> for a string of binary digits.\<close>

lemma parseBin_slice:
  assumes "k + m \<le> length s"
  shows "parseBin (take m (drop k s)) = parseBin s div 2 ^ (length s - (k + m)) mod 2 ^ m"
proof -
  let ?z = "drop (k + m) s" and ?y = "take m (drop k s)"
  have s: "s = take k s @ ?y @ ?z"
    by (metis append_take_drop_id drop_drop add.commute)
  have y: "length ?y = m" using assms by simp
  have "parseBin s = (parseBin (take k s) * 2 ^ m + parseBin ?y) * 2 ^ length ?z + parseBin ?z"
    using y by (subst s) (simp add: parseBin_append algebra_simps power_add)
  then have "parseBin s div 2 ^ length ?z = parseBin (take k s) * 2 ^ m + parseBin ?y"
    using parseBin_less [of ?z] by simp
  then have "parseBin s div 2 ^ length ?z mod 2 ^ m = parseBin ?y"
    using parseBin_less [of ?y] y by simp
  then show ?thesis by simp
qed

end
