(* ===== verification/Base64.thy ===== *)
theory Base64 imports Prelude begin

text \<open>
  Layer 1 and 3 of \<open>packages/identity-common/src/base64url.ts\<close> (bytes to and from base64 and
  base64url), the byte helpers of that file, and \<open>packages/identity-common/src/hex.ts\<close>.
  The chunk arithmetic is done on 32-bit words, as the bitwise operators of JavaScript do, and the
  bytes that come out are what a \<open>Uint8Array\<close> keeps of it, the low 8 bits.
\<close>

section \<open>Alphabets and errors\<close>

datatype commonError = IdentityCommonError string

datatype alphabet = Base64 | Base64url

definition base64Common :: string where
  "base64Common = ''ABCDEFGHIJKLMNOPQRSTUVWXYZabcdefghijklmnopqrstuvwxyz0123456789''"

fun alphabetChars :: "alphabet \<Rightarrow> string" where
  "alphabetChars Base64 = base64Common @ ''+/''"
| "alphabetChars Base64url = base64Common @ ''-_''"

fun alphabetName :: "alphabet \<Rightarrow> string" where
  "alphabetName Base64 = ''base64''"
| "alphabetName Base64url = ''base64url''"

text \<open>
  The two regular expressions of \<open>VALID_INPUT\<close>: base64 is a run of its characters followed by at
  most two \<open>=\<close>, base64url a run of its characters.
\<close>

fun validInput :: "alphabet \<Rightarrow> string \<Rightarrow> bool" where
  "validInput Base64 s =
     (let rest = dropWhile (\<lambda>c. c \<in> set (alphabetChars Base64)) s
      in rest = [] \<or> rest = ''='' \<or> rest = ''=='')"
| "validInput Base64url s = (\<forall>c \<in> set s. c \<in> set (alphabetChars Base64url))"

section \<open>Encoding\<close>

definition sextet :: "alphabet \<Rightarrow> 32 word \<Rightarrow> char" where
  "sextet al w = alphabetChars al ! unat (w AND 63)"

definition chunk3 :: "byte \<Rightarrow> byte \<Rightarrow> byte \<Rightarrow> 32 word" where
  "chunk3 x y z = (push_bit 16 (ucast x) OR push_bit 8 (ucast y)) OR ucast z"

fun encodeBase64 :: "alphabet \<Rightarrow> bytes \<Rightarrow> string" where
  "encodeBase64 al [] = []"
| "encodeBase64 al [x] =
     (let chunk = chunk3 x 0 0
      in [sextet al (drop_bit 18 chunk), sextet al (drop_bit 12 chunk)]
         @ (if al = Base64 then ''=='' else []))"
| "encodeBase64 al [x, y] =
     (let chunk = chunk3 x y 0
      in [sextet al (drop_bit 18 chunk), sextet al (drop_bit 12 chunk), sextet al (drop_bit 6 chunk)]
         @ (if al = Base64 then ''='' else []))"
| "encodeBase64 al (x # y # z # rest) =
     (let chunk = chunk3 x y z
      in [sextet al (drop_bit 18 chunk), sextet al (drop_bit 12 chunk),
          sextet al (drop_bit 6 chunk), sextet al chunk] @ encodeBase64 al rest)"

section \<open>Decoding\<close>

definition charCode :: "alphabet \<Rightarrow> char \<Rightarrow> 32 word" where
  "charCode al c = of_int (indexOf (alphabetChars al) c)"

definition byteA :: "32 word \<Rightarrow> 32 word \<Rightarrow> byte" where
  "byteA a b = ucast (push_bit 2 a OR drop_bit 4 b)"

definition byteB :: "32 word \<Rightarrow> 32 word \<Rightarrow> byte" where
  "byteB b c = ucast (push_bit 4 (b AND 15) OR drop_bit 2 c)"

definition byteC :: "32 word \<Rightarrow> 32 word \<Rightarrow> byte" where
  "byteC c d = ucast (push_bit 6 (c AND 3) OR d)"

text \<open>
  One group of four characters per turn of the loop. A last group of one character would read
  \<open>undefined\<close>, which is not a character of the alphabet (index -1); the length check before the
  loop excludes it.
\<close>

fun decodeGroups :: "alphabet \<Rightarrow> string \<Rightarrow> bytes" where
  "decodeGroups al [] = []"
| "decodeGroups al [a] = [byteA (charCode al a) (-1)]"
| "decodeGroups al [a, b] = [byteA (charCode al a) (charCode al b)]"
| "decodeGroups al [a, b, c] =
     [byteA (charCode al a) (charCode al b), byteB (charCode al b) (charCode al c)]"
| "decodeGroups al (a # b # c # d # rest) =
     [byteA (charCode al a) (charCode al b), byteB (charCode al b) (charCode al c),
      byteC (charCode al c) (charCode al d)] @ decodeGroups al rest"

definition unpad :: "string \<Rightarrow> string" where
  "unpad s = (if length s \<ge> 2 \<and> drop (length s - 2) s = ''=='' then take (length s - 2) s
              else if length s \<ge> 1 \<and> drop (length s - 1) s = ''='' then take (length s - 1) s
              else s)"

definition decodeBase64 :: "alphabet \<Rightarrow> string \<Rightarrow> commonError + bytes" where
  "decodeBase64 al input =
     (if \<not> validInput al input
      then Inl (IdentityCommonError (''Invalid '' @ alphabetName al @ '' string: contains invalid characters''))
      else let unpadded = unpad input in
        if length unpadded mod 4 = 1
        then Inl (IdentityCommonError (''Invalid '' @ alphabetName al @ '' string: invalid length''))
        else Inr (decodeGroups al unpadded))"

definition uint8ArrayToBase64Url :: "bytes \<Rightarrow> string" where
  "uint8ArrayToBase64Url = encodeBase64 Base64url"

definition base64UrlToUint8Array :: "string \<Rightarrow> commonError + bytes" where
  "base64UrlToUint8Array = decodeBase64 Base64url"

section \<open>Facts about the alphabets\<close>

lemma length_alphabet [simp]: "length (alphabetChars al) = 64"
  by (cases al) (simp_all add: base64Common_def)

lemma distinct_alphabet [simp]: "distinct (alphabetChars al)"
  by (cases al) (simp_all add: base64Common_def)

lemma pad_not_in_alphabet [simp]: "CHR ''='' \<notin> set (alphabetChars al)"
  by (cases al) (simp_all add: base64Common_def)

lemma separators_not_in_base64url:
  "CHR ''~'' \<notin> set (alphabetChars Base64url)" "CHR ''.'' \<notin> set (alphabetChars Base64url)"
  by (simp_all add: base64Common_def)

lemma and63_eq: "unat ((w :: 32 word) AND 63) = unat w mod 64"
proof -
  have "w AND 63 = take_bit 6 w" by (simp add: take_bit_eq_mask mask_eq_exp_minus_1)
  then show ?thesis by (simp only: unsigned_take_bit_eq) (simp add: take_bit_eq_mod)
qed

lemma and63_less: "unat ((w :: 32 word) AND 63) < 64"
  by (simp add: and63_eq)

lemma sextet_in [simp]: "sextet al w \<in> set (alphabetChars al)"
  using and63_less [of w] by (simp add: sextet_def)

lemma charCode_sextet [simp]: "charCode al (sextet al w) = w AND 63"
proof -
  have "indexOf (alphabetChars al) (sextet al w) = int (unat (w AND 63))"
    unfolding sextet_def using and63_less [of w] by (intro indexOf_nth) simp_all
  then show ?thesis by (simp add: charCode_def)
qed

lemma unat_charCode:
  assumes "c \<in> set (alphabetChars al)"
  shows "unat (charCode al c) = nat (indexOf (alphabetChars al) c)" "unat (charCode al c) < 64"
proof -
  let ?i = "indexOf (alphabetChars al) c"
  have i: "0 \<le> ?i" using assms indexOf_absent [of "alphabetChars al" c] by simp
  have n: "nat ?i < 64" using nth_indexOf [OF assms] by simp
  have "charCode al c = of_nat (nat ?i)" using i by (simp add: charCode_def)
  then show "unat (charCode al c) = nat ?i" "unat (charCode al c) < 64"
    using n by (simp_all add: unat_of_nat take_bit_nat_eq_self)
qed

lemma sextet_charCode: "c \<in> set (alphabetChars al) \<Longrightarrow> sextet al (charCode al c) = c"
  using nth_indexOf [of c "alphabetChars al"] unat_charCode [of c al]
  by (simp add: sextet_def and63_eq)


section \<open>Round trip\<close>

lemma masks: "(63 :: 32 word) = mask 6" "(15 :: 32 word) = mask 4" "(3 :: 32 word) = mask 2"
  by (simp_all add: mask_eq_exp_minus_1)

lemma bit_byte_ge [simp]: "8 \<le> n \<Longrightarrow> \<not> bit (x :: byte) n"
  using bit_imp_le_length [of x n] by auto

lemmas groupBits = byteA_def byteB_def byteC_def chunk3_def masks bit_simps

lemma byteA_chunk: "byteA (drop_bit 18 (chunk3 x y z) AND 63) (drop_bit 12 (chunk3 x y z) AND 63) = x"
proof (rule bit_word_eqI)
  fix n assume "n < LENGTH(8)"
  then show "bit (byteA (drop_bit 18 (chunk3 x y z) AND 63) (drop_bit 12 (chunk3 x y z) AND 63)) n = bit x n"
    by (cases "2 \<le> n") (auto simp: groupBits)
qed

lemma byteB_chunk: "byteB (drop_bit 12 (chunk3 x y z) AND 63) (drop_bit 6 (chunk3 x y z) AND 63) = y"
proof (rule bit_word_eqI)
  fix n assume "n < LENGTH(8)"
  then show "bit (byteB (drop_bit 12 (chunk3 x y z) AND 63) (drop_bit 6 (chunk3 x y z) AND 63)) n = bit y n"
    by (cases "4 \<le> n") (auto simp: groupBits)
qed

lemma byteC_chunk: "byteC (drop_bit 6 (chunk3 x y z) AND 63) (chunk3 x y z AND 63) = z"
proof (rule bit_word_eqI)
  fix n assume "n < LENGTH(8)"
  then show "bit (byteC (drop_bit 6 (chunk3 x y z) AND 63) (chunk3 x y z AND 63)) n = bit z n"
    by (cases "6 \<le> n") (auto simp: groupBits)
qed

lemmas chunk_bytes = byteA_chunk byteB_chunk byteC_chunk

text \<open>The characters of the encoding before its padding, and the padding.\<close>

fun codeChars :: "alphabet \<Rightarrow> bytes \<Rightarrow> string" where
  "codeChars al [] = []"
| "codeChars al [x] =
     [sextet al (drop_bit 18 (chunk3 x 0 0)), sextet al (drop_bit 12 (chunk3 x 0 0))]"
| "codeChars al [x, y] =
     [sextet al (drop_bit 18 (chunk3 x y 0)), sextet al (drop_bit 12 (chunk3 x y 0)),
      sextet al (drop_bit 6 (chunk3 x y 0))]"
| "codeChars al (x # y # z # rest) =
     [sextet al (drop_bit 18 (chunk3 x y z)), sextet al (drop_bit 12 (chunk3 x y z)),
      sextet al (drop_bit 6 (chunk3 x y z)), sextet al (chunk3 x y z)] @ codeChars al rest"

definition padding :: "alphabet \<Rightarrow> nat \<Rightarrow> string" where
  "padding al n = (if al = Base64url \<or> n mod 3 = 0 then [] else if n mod 3 = 1 then ''=='' else ''='')"

lemma encodeBase64_split: "encodeBase64 al bs = codeChars al bs @ padding al (length bs)"
proof (induction al bs rule: encodeBase64.induct)
  case (2 al x)
  then show ?case by (cases al) (simp_all add: Let_def padding_def)
next
  case (3 al x y)
  then show ?case by (cases al) (simp_all add: Let_def padding_def)
next
  case (4 al x y z rest)
  then show ?case by (simp add: Let_def padding_def)
qed (simp add: padding_def)

lemma codeChars_alphabet: "c \<in> set (codeChars al bs) \<Longrightarrow> c \<in> set (alphabetChars al)"
  by (induction al bs rule: codeChars.induct) auto

lemma length_codeChars: "length (codeChars al bs) = ceilDiv (4 * length bs) 3"
proof (induction al bs rule: codeChars.induct)
  case (4 al x y z rest)
  have "ceilDiv (4 * length (x # y # z # rest)) 3 = 4 + ceilDiv (4 * length rest) 3"
    by (simp add: ceilDiv_def)
  then show ?case using 4 by simp
qed (simp_all add: ceilDiv_def)

lemma decodeGroups_codeChars: "decodeGroups al (codeChars al bs) = bs"
proof (induction al bs rule: codeChars.induct)
  case (2 al x)
  then show ?case using byteA_chunk [of x 0 0] by simp
next
  case (3 al x y)
  then show ?case using byteA_chunk [of x y 0] byteB_chunk [of x y 0] by simp
qed (simp_all add: chunk_bytes)

lemma unpad_plain: "CHR ''='' \<notin> set s \<Longrightarrow> unpad s = s"
proof -
  assume a: "CHR ''='' \<notin> set s"
  have "drop k s \<noteq> ''=''" "drop k s \<noteq> ''==''" for k
    using a set_drop_subset [of k s] by (metis list.set_intros(1) subsetD)+
  then show ?thesis by (simp add: unpad_def)
qed

lemma unpad_padding:
  assumes "CHR ''='' \<notin> set s"
  shows "unpad (s @ padding al n) = s"
proof (cases "padding al n = ''=''")
  case True
  show ?thesis
  proof (cases s rule: rev_cases)
    case Nil
    then show ?thesis using True by (simp add: unpad_def)
  next
    case (snoc t c)
    then have "c \<noteq> CHR ''=''" using assms by auto
    then show ?thesis using True snoc by (simp add: unpad_def)
  qed
next
  case False
  then show ?thesis using assms unpad_plain [OF assms]
    by (auto simp: padding_def unpad_def split: if_splits)
qed

lemma validInput_alphabet: "set s \<subseteq> set (alphabetChars al) \<Longrightarrow> validInput al s"
  by (cases al) (auto simp: Let_def dropWhile_eq_Nil_conv)

lemma dropWhile_prefix: "(\<And>c. c \<in> set xs \<Longrightarrow> P c) \<Longrightarrow> dropWhile P (xs @ ys) = dropWhile P ys"
  by (induction xs) auto

lemma validInput_encode: "validInput al (encodeBase64 al bs)"
proof (cases al)
  case Base64
  let ?P = "\<lambda>c. c \<in> set (alphabetChars Base64)"
  have "dropWhile ?P (codeChars Base64 bs @ padding Base64 n) = dropWhile ?P (padding Base64 n)" for n
    by (rule dropWhile_prefix) (rule codeChars_alphabet)
  moreover have "dropWhile ?P (padding Base64 n) \<in> {[], ''='', ''==''}" for n
    by (auto simp: padding_def base64Common_def)
  ultimately show ?thesis using Base64 by (auto simp: encodeBase64_split Let_def)
next
  case Base64url
  then show ?thesis using codeChars_alphabet [of _ Base64url bs]
    by (auto simp: encodeBase64_split padding_def)
qed

lemma code_length_mod4: "ceilDiv (4 * n) 3 mod 4 \<noteq> 1"
  unfolding ceilDiv_def by presburger

lemma unpad_encode: "unpad (encodeBase64 al bs) = codeChars al bs"
  unfolding encodeBase64_split
  by (rule unpad_padding) (use codeChars_alphabet [of "CHR ''=''" al bs] in auto)

section \<open>Properties of base64 and base64url\<close>

lemma base64_decode_encode: "decodeBase64 al (encodeBase64 al bs) = Inr bs"
  using code_length_mod4 [of "length bs"]
  by (simp add: decodeBase64_def validInput_encode unpad_encode length_codeChars decodeGroups_codeChars)

text \<open>Decoding the base64 or base64url encoding of any byte array gives the byte array back.\<close>

theorem base64_roundtrip: "decodeBase64 al (encodeBase64 al bs) = Inr bs"
  by (rule base64_decode_encode)

text \<open>
  The decoder accepts exactly the strings the regular expression matches whose unpadded length
  leaves no single trailing character, and it fills the array it allocates.
\<close>

lemma base64url_plain: "CHR ''.'' \<notin> set (uint8ArrayToBase64Url bs)" "CHR ''~'' \<notin> set (uint8ArrayToBase64Url bs)"
  using validInput_encode [of Base64url bs] separators_not_in_base64url
  by (auto simp: uint8ArrayToBase64Url_def simp del: alphabetChars.simps)

lemma length_decodeGroups: "length s mod 4 \<noteq> 1 \<Longrightarrow> length (decodeGroups al s) = length s * 3 div 4"
proof (induction al s rule: decodeGroups.induct)
  case (5 al a b c d rest)
  then have "length (decodeGroups al rest) = length rest * 3 div 4" by simp
  moreover have "(length rest + 4) * 3 div 4 = length rest * 3 div 4 + 3" by simp
  ultimately show ?case by (simp add: add.commute)
qed auto

lemma decodeBase64_ok: "decodeBase64 al s = Inr bs \<longleftrightarrow>
    validInput al s \<and> length (unpad s) mod 4 \<noteq> 1 \<and> bs = decodeGroups al (unpad s)"
  by (auto simp: decodeBase64_def Let_def)

text \<open>The decoder fails, with an \<open>IdentityCommonError\<close>, exactly on a string its regular expression
  rejects or whose unpadded length is 1 modulo 4; otherwise it returns three bytes for every four
  characters, rounded down, which is the size of the array it allocates.\<close>

theorem base64_decode_total:
  "(if validInput al s \<and> length (unpad s) mod 4 \<noteq> 1
    then \<exists>bs. decodeBase64 al s = Inr bs \<and> length bs = length (unpad s) * 3 div 4
    else \<exists>msg. decodeBase64 al s = Inl (IdentityCommonError msg))"
  by (auto simp: decodeBase64_def Let_def length_decodeGroups)

section \<open>Canonical encodings\<close>

definition small :: "32 word \<Rightarrow> bool" where
  "small w = (\<forall>n \<ge> 6. \<not> bit w n)"

lemma small_charCode: "c \<in> set (alphabetChars al) \<Longrightarrow> small (charCode al c)"
proof -
  assume "c \<in> set (alphabetChars al)"
  then have "unat (charCode al c) < 2 ^ 6" using unat_charCode(2) by simp
  then have "take_bit 6 (charCode al c) = charCode al c"
    by (metis take_bit_nat_eq_self_iff unsigned_take_bit_eq unsigned_word_eqI)
  then show ?thesis by (metis bit_take_bit_iff not_le small_def)
qed

lemma suc2: "\<not> n < 2 \<Longrightarrow> Suc (Suc (n - 2)) = n"
  by simp

lemma chunk_groups:
  "small a \<Longrightarrow> small b \<Longrightarrow> drop_bit 18 (chunk3 (byteA a b) y z) AND 63 = a"
  "small b \<Longrightarrow> small c \<Longrightarrow> drop_bit 12 (chunk3 (byteA a b) (byteB b c) z) AND 63 = b"
  "small c \<Longrightarrow> small d \<Longrightarrow> drop_bit 6 (chunk3 x (byteB b c) (byteC c d)) AND 63 = c"
  "small d \<Longrightarrow> chunk3 x y (byteC c d) AND 63 = d"
proof -
  show "drop_bit 18 (chunk3 (byteA a b) y z) AND 63 = a" if "small a" "small b"
  proof (rule bit_word_eqI)
    fix n assume "n < LENGTH(32)"
    then show "bit (drop_bit 18 (chunk3 (byteA a b) y z) AND 63) n = bit a n"
      using that by (cases "n < 6") (auto simp: groupBits small_def)
  qed
  show "drop_bit 12 (chunk3 (byteA a b) (byteB b c) z) AND 63 = b" if "small b" "small c"
  proof (rule bit_word_eqI)
    fix n assume "n < LENGTH(32)"
    then show "bit (drop_bit 12 (chunk3 (byteA a b) (byteB b c) z) AND 63) n = bit b n"
      using that by (cases "n < 4"; cases "n < 6") (auto simp: groupBits small_def)
  qed
  show "drop_bit 6 (chunk3 x (byteB b c) (byteC c d)) AND 63 = c" if "small c" "small d"
  proof (rule bit_word_eqI)
    fix n assume "n < LENGTH(32)"
    then show "bit (drop_bit 6 (chunk3 x (byteB b c) (byteC c d)) AND 63) n = bit c n"
      using that suc2 [of n] by (cases "n < 2"; cases "n < 6") (auto simp: groupBits small_def)
  qed
  show "chunk3 x y (byteC c d) AND 63 = d" if "small d"
  proof (rule bit_word_eqI)
    fix n assume "n < LENGTH(32)"
    then show "bit (chunk3 x y (byteC c d) AND 63) n = bit d n"
      using that by (cases "n < 6") (auto simp: groupBits small_def)
  qed
qed

text \<open>The bits of the last character that no byte takes are zero.\<close>

definition canonicalCode :: "alphabet \<Rightarrow> string \<Rightarrow> bool" where
  "canonicalCode al s =
     (if length s mod 4 = 2 then charCode al (last s) AND 15 = 0
      else if length s mod 4 = 3 then charCode al (last s) AND 3 = 0
      else True)"

lemma last_groups:
  assumes "small b"
  shows "drop_bit 12 (chunk3 (byteA a b) 0 0) AND 63 = b \<longleftrightarrow> b AND 15 = 0"
    and "drop_bit 6 (chunk3 x (byteB a b) 0) AND 63 = b \<longleftrightarrow> b AND 3 = 0"
proof -
  have "bit (drop_bit 12 (chunk3 (byteA a b) 0 0) AND 63) n = (bit b n \<and> 4 \<le> n)" for n
    using assms by (cases "n < 4"; cases "n < 6") (auto simp: groupBits small_def)
  moreover have "(\<forall>n. bit b n \<longrightarrow> 4 \<le> n) \<longleftrightarrow> b AND 15 = 0"
    unfolding masks using bit_imp_le_length [of b] by (force simp: bit_eq_iff bit_simps not_le)
  ultimately show "drop_bit 12 (chunk3 (byteA a b) 0 0) AND 63 = b \<longleftrightarrow> b AND 15 = 0"
    by (metis bit_word_eqI)
  have "bit (drop_bit 6 (chunk3 x (byteB a b) 0) AND 63) n = (bit b n \<and> 2 \<le> n)" for n
    using assms suc2 [of n] by (cases "n < 2"; cases "n < 6") (auto simp: groupBits small_def)
  moreover have "(\<forall>n. bit b n \<longrightarrow> 2 \<le> n) \<longleftrightarrow> b AND 3 = 0"
    unfolding masks using bit_imp_le_length [of b] by (force simp: bit_eq_iff bit_simps not_le)
  ultimately show "drop_bit 6 (chunk3 x (byteB a b) 0) AND 63 = b \<longleftrightarrow> b AND 3 = 0"
    by (metis bit_word_eqI)
qed

lemma sextet_eq_iff:
  "c \<in> set (alphabetChars al) \<Longrightarrow> sextet al w = c \<longleftrightarrow> w AND 63 = charCode al c"
  using nth_indexOf [of c "alphabetChars al"] unat_charCode(1) [of c al] charCode_sextet [of al w]
  by (auto simp: sextet_def)

lemma codeChars_decodeGroups:
  "set s \<subseteq> set (alphabetChars al) \<Longrightarrow> length s mod 4 \<noteq> 1 \<Longrightarrow>
   codeChars al (decodeGroups al s) = s \<longleftrightarrow> canonicalCode al s"
proof (induction al s rule: decodeGroups.induct)
  case (3 al a b)
  then show ?case
    by (simp add: sextet_eq_iff chunk_groups last_groups small_charCode canonicalCode_def)
next
  case (4 al a b c)
  then show ?case
    by (simp add: sextet_eq_iff chunk_groups last_groups small_charCode canonicalCode_def)
next
  case (5 al a b c d rest)
  have m: "length (a # b # c # d # rest) mod 4 = length rest mod 4" by simp
  then have "canonicalCode al (a # b # c # d # rest) = canonicalCode al rest"
    by (cases "rest = []") (simp_all only: canonicalCode_def m last.simps list.simps if_False, simp_all)
  then show ?case using 5 m
    by (simp add: sextet_eq_iff chunk_groups small_charCode)
qed (simp_all add: canonicalCode_def)

text \<open>C27. A base64url string that decodes is the encoding of the bytes it decodes to exactly when the
  bits of its last character that no byte takes are zero; the decoder does not check them, so other
  strings decode to the same bytes.\<close>

theorem base64url_canonical:
  assumes "base64UrlToUint8Array s = Inr bs"
  shows "uint8ArrayToBase64Url bs = s \<longleftrightarrow> canonicalCode Base64url s"
proof -
  have v: "\<forall>c \<in> set s. c \<in> set (alphabetChars Base64url)"
    and l: "length (unpad s) mod 4 \<noteq> 1" and b: "bs = decodeGroups Base64url (unpad s)"
    using assms by (auto simp: base64UrlToUint8Array_def decodeBase64_ok simp del: alphabetChars.simps)
  have "CHR ''='' \<notin> set s" using v pad_not_in_alphabet [of Base64url] by blast
  then have u: "unpad s = s" by (rule unpad_plain)
  have "codeChars Base64url bs = s \<longleftrightarrow> canonicalCode Base64url s"
    unfolding b u using v l u by (intro codeChars_decodeGroups) auto
  then show ?thesis
    by (simp add: uint8ArrayToBase64Url_def encodeBase64_split padding_def)
qed

theorem base64url_canonical_witness:
  "base64UrlToUint8Array ''QR'' = Inr [65] \<and> uint8ArrayToBase64Url [65] = ''QQ''
   \<and> \<not> canonicalCode Base64url ''QR''"
proof -
  have d: "base64UrlToUint8Array ''QR'' = Inr [65]" by code_simp
  have e: "uint8ArrayToBase64Url [65] = ''QQ''" by code_simp
  show ?thesis using base64url_canonical [OF d] d e by simp
qed

end
