(* ===== verification/Bytes.thy ===== *)
theory Bytes imports Base64 begin

text \<open>
  Byte arrays of a fixed size and the operations the code uses on them: \<open>Uint8Array.set\<close>,
  \<open>concatBytes\<close> and \<open>compareBytes\<close> of \<open>packages/identity-common/src/base64url.ts\<close>, and the
  hexadecimal codec of \<open>packages/identity-common/src/hex.ts\<close>.
\<close>

section \<open>Writing into a byte array\<close>

text \<open>\<open>target.set(source, offset)\<close>; a source that does not fit throws a \<open>RangeError\<close> (\<open>None\<close>).\<close>

definition setBytes :: "'a list \<Rightarrow> 'a list \<Rightarrow> nat \<Rightarrow> 'a list option" where
  "setBytes target source offset =
     (if offset + length source \<le> length target
      then Some (take offset target @ source @ drop (offset + length source) target) else None)"

lemma setBytes_length: "setBytes t s i = Some u \<Longrightarrow> length u = length t"
  by (auto simp: setBytes_def split: if_splits)

lemma setBytes_Some: "i + length s \<le> length t \<Longrightarrow>
    setBytes t s i = Some (take i t @ s @ drop (i + length s) t)"
  by (simp add: setBytes_def)

text \<open>\<open>concatBytes\<close> allocates the result and copies each array at the running offset.\<close>

fun concatLoop :: "byte list list \<Rightarrow> bytes \<Rightarrow> nat \<Rightarrow> bytes option" where
  "concatLoop [] result offset = Some result"
| "concatLoop (entry # rest) result offset =
     (case setBytes result entry offset of None \<Rightarrow> None
      | Some result' \<Rightarrow> concatLoop rest result' (offset + length entry))"

definition concatBytes :: "byte list list \<Rightarrow> bytes option" where
  "concatBytes byteArrays =
     concatLoop byteArrays (replicate (fold (\<lambda>a n. n + length a) byteArrays 0) 0) 0"

lemma concatLoop_eq:
  "length result = offset + length (concat es) \<Longrightarrow>
   concatLoop es result offset = Some (take offset result @ concat es)"
proof (induction es arbitrary: result offset)
  case (Cons e es)
  then have "setBytes result e offset
      = Some (take offset result @ e @ drop (offset + length e) result)"
    by (intro setBytes_Some) simp
  then show ?case using Cons by simp
qed simp

lemma fold_lengths: "fold (\<lambda>a n. n + length a) es k = k + length (concat es)"
  by (induction es arbitrary: k) auto

lemma concatBytes_eq: "concatBytes es = Some (concat es)"
  unfolding concatBytes_def by (subst concatLoop_eq) (simp_all add: fold_lengths)

definition compareBytes :: "bytes \<Rightarrow> bytes \<Rightarrow> bool" where
  "compareBytes lhs rhs =
     (length lhs = length rhs \<and> (\<forall>i < length lhs. elemAt lhs i = elemAt rhs i))"

lemma compareBytes_eq: "compareBytes lhs rhs \<longleftrightarrow> lhs = rhs"
  by (auto simp: compareBytes_def elemAt_def list_eq_iff_nth_eq)

section \<open>Hexadecimal\<close>

definition hexChars :: string where
  "hexChars = ''0123456789abcdef''"

definition hexDigit :: "byte \<Rightarrow> char" where
  "hexDigit w = hexChars ! unat (w AND 15)"

fun hexEncode :: "bytes \<Rightarrow> string" where
  "hexEncode [] = []"
| "hexEncode (b # bs) = [hexDigit (drop_bit 4 b), hexDigit b] @ hexEncode bs"

definition toLowerHex :: "char \<Rightarrow> char" where
  "toLowerHex c = (let i = indexOf ''ABCDEF'' c in if i < 0 then c else ''abcdef'' ! nat i)"

definition hexValue :: "char \<Rightarrow> 32 word" where
  "hexValue c = of_int (indexOf hexChars (toLowerHex c))"

fun hexPairs :: "string \<Rightarrow> bytes" where
  "hexPairs (high # low # rest) =
     ucast (push_bit 4 (hexValue high) OR hexValue low) # hexPairs rest"
| "hexPairs _ = []"

definition validHex :: "string \<Rightarrow> bool" where
  "validHex s = (\<forall>c \<in> set s. c \<in> set (hexChars @ ''ABCDEF''))"

definition hexDecode :: "string \<Rightarrow> commonError + bytes" where
  "hexDecode hex =
     (if \<not> validHex hex
      then Inl (IdentityCommonError ''Invalid hex string: contains invalid characters'')
      else Inr (hexPairs (if length hex mod 2 \<noteq> 0 then CHR ''0'' # hex else hex)))"

lemma hexChars_facts [simp]: "length hexChars = 16" "distinct hexChars"
  by (simp_all add: hexChars_def)

lemma and15_less: "unat ((w :: byte) AND 15) < 16"
proof -
  have "w AND 15 = take_bit 4 w" by (simp add: take_bit_eq_mask mask_eq_exp_minus_1)
  then have "unat (w AND 15) = take_bit 4 (unat w)" by (simp only: unsigned_take_bit_eq)
  then show ?thesis by (simp add: take_bit_eq_mod)
qed

lemma hexDigit_in: "hexDigit w \<in> set hexChars"
  unfolding hexDigit_def by (rule nth_mem) (simp add: and15_less)

lemma toLowerHex_lower: "c \<in> set hexChars \<Longrightarrow> toLowerHex c = c"
  by (auto simp: toLowerHex_def hexChars_def)

lemma hexValue_digit: "hexValue (hexDigit w) = ucast (w AND 15)"
proof -
  have "indexOf hexChars (hexDigit w) = int (unat (w AND 15))"
    unfolding hexDigit_def using and15_less [of w] by (intro indexOf_nth) simp_all
  then show ?thesis by (simp add: hexValue_def toLowerHex_lower [OF hexDigit_in])
qed

lemma mask8: "(15 :: byte) = mask 4"
  by (simp add: mask_eq_exp_minus_1)

lemma hex_pair: "ucast (push_bit 4 (ucast (drop_bit 4 (b :: byte) AND 15) :: 32 word) OR ucast (b AND 15)) = b"
proof (rule bit_word_eqI)
  fix n assume "n < LENGTH(8)"
  then show "bit (ucast (push_bit 4 (ucast (drop_bit 4 b AND 15) :: 32 word) OR ucast (b AND 15)) :: byte) n = bit b n"
    unfolding mask8 by (cases "4 \<le> n") (auto simp: bit_simps)
qed

lemma hexPairs_encode: "hexPairs (hexEncode bs) = bs"
  by (induction bs) (simp_all add: hexValue_digit hex_pair)

lemma validHex_encode: "validHex (hexEncode bs)"
  by (induction bs) (simp_all add: validHex_def hexDigit_in)

lemma length_hexEncode: "length (hexEncode bs) = 2 * length bs"
  by (induction bs) simp_all

text \<open>Hexadecimal decoding gives back the bytes of a hexadecimal encoding, and rejects a string
  exactly when it has a character that is not a hexadecimal digit; an odd number of digits is read
  with a leading zero.\<close>

theorem hex_roundtrip:
  "hexDecode (hexEncode bs) = Inr bs \<and> (isOk (hexDecode s) \<longleftrightarrow> validHex s)
   \<and> hexDecode (hexDigit d # hexEncode bs) = Inr ((d AND 15) # bs)"
proof -
  have "hexPairs (CHR ''0'' # hexDigit d # hexEncode bs) = (d AND 15) # bs"
  proof -
    have "hexValue (CHR ''0'') = 0" by code_simp
    then have "hexPairs (CHR ''0'' # hexDigit d # hexEncode bs)
        = ucast (ucast (d AND 15) :: 32 word) # hexPairs (hexEncode bs)"
      by (simp add: hexValue_digit)
    also have "(ucast (ucast (d AND 15) :: 32 word) :: byte) = d AND 15"
      by (rule bit_word_eqI) (simp add: bit_simps)
    finally show ?thesis by (simp add: hexPairs_encode)
  qed
  moreover have "validHex (hexDigit d # hexEncode bs)"
    using validHex_encode [of bs] by (simp add: validHex_def hexDigit_in)
  ultimately show ?thesis
    by (simp add: hexDecode_def validHex_encode hexPairs_encode length_hexEncode)
qed

end
