(* ===== verification/StatusList.thy ===== *)
theory StatusList imports BitStrings Bytes begin

text \<open>
  \<open>packages/token-status-list/src/status-list.ts\<close>: the class \<open>StatusList\<close>, its encoding into
  bytes and back, \<open>verifyStatusValid\<close> and the bounded inflation. zlib (\<open>pako\<close>) is a
  parameter: \<open>deflate\<close>, and \<open>inflate\<close> as the chunks it delivers with the error it ends with.
\<close>

section \<open>State and errors\<close>

datatype statusError =
    StatusValueOutOfRange nat "jsnum option" nat
  | IndexOutOfBounds jsnum nat
  | BadBitsPerStatus nat
  | ListTooLarge nat
  | InflateFailed string

datatype statusIssue =
    InvalidStatusList statusError
  | IndexOutOfRangeIssue jsnum nat
  | StatusNotValidIssue jsnum "jsnum option"

text \<open>
  \<open>_statusList\<close> holds JavaScript numbers: the list is exposed through a getter, so what it holds
  when it is encoded is checked again. \<open>totalStatuses\<close> is fixed by the constructor.
\<close>

record statusList =
  sl_statuses :: "jsnum list"
  sl_bits :: nat
  sl_total :: nat
  sl_aggregationUri :: "string option"
  sl_isModified :: bool

section \<open>Operations\<close>

definition maxStatus :: "nat \<Rightarrow> int" where
  "maxStatus bitsPerStatus = 2 ^ bitsPerStatus - 1"

definition assertStatusValue :: "jsnum option \<Rightarrow> nat \<Rightarrow> nat \<Rightarrow> statusError + nat" where
  "assertStatusValue value bitsPerStatus index =
     (case value of None \<Rightarrow> Inl (StatusValueOutOfRange index value bitsPerStatus)
      | Some v \<Rightarrow> (case intOf v of None \<Rightarrow> Inl (StatusValueOutOfRange index value bitsPerStatus)
        | Some z \<Rightarrow> if z < 0 \<or> z > maxStatus bitsPerStatus
                    then Inl (StatusValueOutOfRange index value bitsPerStatus) else Inr (nat z)))"

definition indexOfList :: "statusList \<Rightarrow> jsnum \<Rightarrow> nat option" where
  "indexOfList s index = (case intOf index of None \<Rightarrow> None
     | Some z \<Rightarrow> if z \<ge> 0 \<and> z < int (sl_total s) then Some (nat z) else None)"

definition newStatusList :: "jsnum list \<Rightarrow> nat \<Rightarrow> string option \<Rightarrow> statusError + statusList" where
  "newStatusList statuses bitsPerStatus aggregationUri =
     (if bitsPerStatus \<notin> set [1, 2, 4, 8] then Inl (BadBitsPerStatus bitsPerStatus)
      else bindR (mapR (\<lambda>i. assertStatusValue (elemAt statuses i) bitsPerStatus i) [0..<length statuses])
        (\<lambda>_. Inr \<lparr>sl_statuses = statuses, sl_bits = bitsPerStatus, sl_total = length statuses,
                  sl_aggregationUri = aggregationUri, sl_isModified = False\<rparr>))"

definition getStatus :: "statusList \<Rightarrow> jsnum \<Rightarrow> statusError + jsnum option" where
  "getStatus s index = (case indexOfList s index of
       None \<Rightarrow> Inl (IndexOutOfBounds index (sl_total s))
     | Some i \<Rightarrow> Inr (elemAt (sl_statuses s) i))"

definition setStatus :: "statusList \<Rightarrow> jsnum \<Rightarrow> jsnum \<Rightarrow> statusError + statusList" where
  "setStatus s index value = (case indexOfList s index of
       None \<Rightarrow> Inl (IndexOutOfBounds index (sl_total s))
     | Some i \<Rightarrow> bindR (assertStatusValue (Some value) (sl_bits s) i) (\<lambda>_.
         Inr (s\<lparr>sl_statuses := (sl_statuses s)[i := value], sl_isModified := True\<rparr>)))"

definition verifyStatusValid :: "statusList \<Rightarrow> jsnum \<Rightarrow> statusIssue list + unit" where
  "verifyStatusValid s idx = (case indexOfList s idx of
       None \<Rightarrow> Inl [IndexOutOfRangeIssue idx (sl_total s)]
     | Some i \<Rightarrow> (let status = elemAt (sl_statuses s) i
         in if status \<noteq> Some (jint 0) then Inl [StatusNotValidIssue idx status] else Inr ()))"

section \<open>Encoding into bytes\<close>

text \<open>One turn of the loop of \<open>encodeStatusListIntoByteArray\<close>, on
  (\<open>bitIndex\<close>, \<open>currentByte\<close>, \<open>byteIndex\<close>, \<open>byteArray\<close>).\<close>

type_synonym encodeState = "nat \<times> string \<times> nat \<times> bytes"

fun encodeStep :: "statusList \<Rightarrow> encodeState \<Rightarrow> nat \<Rightarrow> statusError + encodeState" where
  "encodeStep s (bitIndex, currentByte, byteIndex, byteArray) i =
     bindR (assertStatusValue (elemAt (sl_statuses s) i) (sl_bits s) i) (\<lambda>status.
       let cur = padStart (sl_bits s) (toBin status) @ currentByte;
           bitIndex' = bitIndex + sl_bits s
       in if bitIndex' \<ge> 8 \<or> i = sl_total s - 1
          then let cur' = (if i = sl_total s - 1 \<and> bitIndex' mod 8 \<noteq> 0 then padStart 8 cur else cur)
               in Inr (0, [], Suc byteIndex, byteArray[byteIndex := word_of_nat (parseBin cur')])
          else Inr (bitIndex', cur, byteIndex, byteArray))"

definition encodeStatusListIntoByteArray :: "statusList \<Rightarrow> statusError + bytes" where
  "encodeStatusListIntoByteArray s =
     bindR (foldR (encodeStep s) (0, [], 0, replicate (ceilDiv (sl_total s * sl_bits s) 8) 0)
              [0..<sl_total s])
       (\<lambda>(_, _, _, byteArray). Inr byteArray)"

section \<open>Decoding from bytes\<close>

text \<open>
  The array of statuses starts with holes; \<open>NaN\<close> stands for a hole, which no check for an integer
  accepts either. \<open>bitIndex\<close> and the array are the state of the loop.
\<close>

definition decodePosition :: "nat \<Rightarrow> nat \<Rightarrow> nat" where
  "decodePosition numBits i =
     (let per = 8 div numBits; group = i div per; indexInGroup = i mod per
      in group * per + (per - 1 - indexInGroup))"

definition byteString :: "byte \<Rightarrow> string" where
  "byteString b = padStart 8 (toBin (unat b))"

fun decodeStep :: "bytes \<Rightarrow> nat \<Rightarrow> nat \<times> jsnum list \<Rightarrow> nat \<Rightarrow> nat \<times> jsnum list" where
  "decodeStep byteArray numBits (bitIndex, statuses) i =
     (let status = take numBits (drop bitIndex (byteString (byteArray ! (i * numBits div 8))))
      in ((bitIndex + numBits) mod 8,
          statuses[decodePosition numBits i := jint (int (parseBin status))]))"

definition decodeStatusListFromByteArray :: "bytes \<Rightarrow> nat \<Rightarrow> jsnum list" where
  "decodeStatusListFromByteArray byteArray numBits =
     (let total = length byteArray * 8 div numBits
      in snd (foldl (decodeStep byteArray numBits) (0, replicate total NaN) [0..<total]))"

section \<open>Compression\<close>

definition compressStatusListToBytes :: "(bytes \<Rightarrow> bytes) \<Rightarrow> statusList \<Rightarrow> statusError + bytes" where
  "compressStatusListToBytes deflate s =
     bindR (encodeStatusListIntoByteArray s) (\<lambda>bs. Inr (deflate bs))"

fun collectChunks :: "nat \<Rightarrow> nat \<Rightarrow> bytes list \<Rightarrow> bytes list \<Rightarrow> statusError + bytes list" where
  "collectChunks maxBytes len acc [] = Inr acc"
| "collectChunks maxBytes len acc (chunk # rest) =
     (let len' = len + length chunk
      in if len' > maxBytes then Inl (ListTooLarge maxBytes)
         else collectChunks maxBytes len' (acc @ [chunk]) rest)"

definition inflateAtMost ::
  "(bytes \<Rightarrow> bytes list \<times> string option) \<Rightarrow> bytes \<Rightarrow> nat \<Rightarrow> statusError + bytes" where
  "inflateAtMost inflate compressed maxBytes =
     (let (delivered, err) = inflate compressed
      in bindR (collectChunks maxBytes 0 [] delivered) (\<lambda>chunks.
           case err of Some msg \<Rightarrow> Inl (InflateFailed msg)
           | None \<Rightarrow> (case concatBytes chunks of Some bs \<Rightarrow> Inr bs | None \<Rightarrow> Inl (InflateFailed []))))"

definition defaultMaxStatuses :: nat where
  "defaultMaxStatuses = 2 ^ 24"

definition decompressStatusListFromBytes ::
  "(bytes \<Rightarrow> bytes list \<times> string option) \<Rightarrow> bytes \<Rightarrow> nat \<Rightarrow> string option \<Rightarrow> nat option
   \<Rightarrow> statusIssue list + statusList" where
  "decompressStatusListFromBytes inflate compressed bitsPerStatus aggregationUri maxOpt =
     (let maxStatuses = (case maxOpt of None \<Rightarrow> defaultMaxStatuses | Some m \<Rightarrow> m);
          result = bindR (inflateAtMost inflate compressed (ceilDiv (maxStatuses * bitsPerStatus) 8))
            (\<lambda>decompressed. newStatusList (decodeStatusListFromByteArray decompressed bitsPerStatus)
                                          bitsPerStatus aggregationUri)
      in case result of Inl err \<Rightarrow> Inl [InvalidStatusList err] | Inr s \<Rightarrow> Inr s)"

section \<open>The invariant of a status list\<close>

definition validBits :: "nat \<Rightarrow> bool" where
  "validBits b = (b \<in> set [1, 2, 4, 8])"

definition statusValue :: "nat \<Rightarrow> jsnum \<Rightarrow> bool" where
  "statusValue b v = (case intOf v of None \<Rightarrow> False | Some z \<Rightarrow> 0 \<le> z \<and> z \<le> maxStatus b)"

definition wfList :: "statusList \<Rightarrow> bool" where
  "wfList s = (validBits (sl_bits s) \<and> sl_total s = length (sl_statuses s)
               \<and> list_all (statusValue (sl_bits s)) (sl_statuses s))"

definition valuesOf :: "jsnum list \<Rightarrow> nat list" where
  "valuesOf vs = map (\<lambda>v. nat (the (intOf v))) vs"

lemma assertStatusValue_Some:
  "assertStatusValue (Some v) b i = (if statusValue b v then Inr (nat (the (intOf v)))
     else Inl (StatusValueOutOfRange i (Some v) b))"
  by (auto simp: assertStatusValue_def statusValue_def split: option.splits)

lemma statusValue_less: "statusValue b v \<Longrightarrow> nat (the (intOf v)) < 2 ^ b"
  by (auto simp: statusValue_def maxStatus_def nat_less_iff split: option.splits)

lemma statusValue_jint: "statusValue b v \<Longrightarrow> v = jint (int (nat (the (intOf v))))"
  by (auto simp: statusValue_def intOf_Some split: option.splits)

lemma assertAll:
  "isOk (mapR (\<lambda>i. assertStatusValue (elemAt vs i) b i) [0..<length vs]) \<longleftrightarrow> list_all (statusValue b) vs"
proof -
  have "isOk (mapR (\<lambda>i. assertStatusValue (elemAt vs i) b i) is) \<longleftrightarrow> (\<forall>i \<in> set is. statusValue b (vs ! i))"
    if "set is \<subseteq> {..<length vs}" for "is"
    using that by (induction "is") (auto simp: isOk_iff elemAt_def assertStatusValue_Some split: if_splits)
  moreover have "set [0..<length vs] \<subseteq> {..<length vs}" by auto
  ultimately show ?thesis by (fastforce simp: list_all_length)
qed

lemma newStatusList_ok:
  "newStatusList vs b uri = Inr s \<longleftrightarrow> validBits b \<and> list_all (statusValue b) vs
     \<and> s = \<lparr>sl_statuses = vs, sl_bits = b, sl_total = length vs, sl_aggregationUri = uri, sl_isModified = False\<rparr>"
  unfolding newStatusList_def validBits_def assertAll [symmetric] isOk_iff by auto

lemma newStatusList_wf: "newStatusList vs b uri = Inr s \<Longrightarrow> wfList s"
  by (simp add: newStatusList_ok wfList_def)

lemma setStatus_wf: "wfList s \<Longrightarrow> setStatus s i v = Inr t \<Longrightarrow> wfList t"
  by (auto simp: setStatus_def wfList_def assertStatusValue_Some
      split: option.splits if_splits intro: list_all_update)

lemma setStatus_ok_iff:
  "isOk (setStatus s i v) \<longleftrightarrow> indexOfList s i \<noteq> None \<and> statusValue (sl_bits s) v"
  by (auto simp: setStatus_def assertStatusValue_Some split: option.splits)

lemma setStatus_fixed:
  "setStatus s i v = Inr t \<Longrightarrow> sl_bits t = sl_bits s \<and> sl_total t = sl_total s \<and> sl_isModified t"
  by (auto simp: setStatus_def split: option.splits)

text \<open>C28. However a list is built, by the constructor and then any sequence of accepted \<open>setStatus\<close> calls,
  it keeps the bits per status and the length it was created with, every status fits in those bits,
  it counts as modified exactly when there was a call, and the next \<open>setStatus\<close> is accepted exactly
  for an integer index of the list and a value that fits.\<close>

theorem statusList_invariant:
  assumes "newStatusList vs b uri = Inr s"
    and "foldR (\<lambda>u (i, v). setStatus u i v) s ops = Inr t"
  shows "wfList t \<and> sl_bits t = b \<and> sl_total t = length vs \<and> (sl_isModified t \<longleftrightarrow> ops \<noteq> [])
    \<and> (isOk (setStatus t i v) \<longleftrightarrow> indexOfList t i \<noteq> None \<and> statusValue b v)"
proof -
  have n: "wfList s" "sl_bits s = b" "sl_total s = length vs" "\<not> sl_isModified s"
    using newStatusList_wf [OF assms(1)] assms(1) by (auto simp: newStatusList_ok)
  have "wfList t \<and> sl_bits t = b \<and> sl_total t = length vs"
    by (rule foldR_invariant [OF assms(2)])
      (use n in \<open>auto dest: setStatus_fixed intro: setStatus_wf\<close>)
  moreover have "sl_isModified t \<longleftrightarrow> ops \<noteq> []"
  proof (cases ops rule: rev_cases)
    case Nil
    then show ?thesis using assms(2) n by auto
  next
    case (snoc os p)
    then show ?thesis using assms(2) by (cases p) (auto simp: foldR_append dest: setStatus_fixed)
  qed
  ultimately show ?thesis by (simp add: setStatus_ok_iff)
qed

theorem statusList_invariant_witness:
  "\<exists>t. foldR (\<lambda>u (i, v). setStatus u i v) \<lparr>sl_statuses = [jint 1, jint 0], sl_bits = 2, sl_total = 2,
       sl_aggregationUri = None, sl_isModified = False\<rparr> [(jint 1, jint 3)] = Inr t \<and> wfList t
     \<and> \<not> isOk (setStatus t (jint 0) (jint 4))"
proof -
  let ?s = "\<lparr>sl_statuses = [jint 1, jint 0], sl_bits = 2, sl_total = 2,
       sl_aggregationUri = None, sl_isModified = False\<rparr>"
  have new: "newStatusList [jint 1, jint 0] 2 None = Inr ?s"
    by (simp add: newStatusList_ok validBits_def statusValue_def maxStatus_def)
  have "\<exists>t. foldR (\<lambda>u (i, v). setStatus u i v) ?s [(jint 1, jint 3)] = Inr t"
    by (simp add: setStatus_def indexOfList_def assertStatusValue_def maxStatus_def)
  then obtain t where t: "foldR (\<lambda>u (i, v). setStatus u i v) ?s [(jint 1, jint 3)] = Inr t" by blast
  show ?thesis using statusList_invariant [OF new t, of "jint 0" "jint 4"] t
    by (simp add: statusValue_def maxStatus_def)
qed

section \<open>What the encoder computes\<close>

text \<open>The value of one byte: the first status takes its lowest bits.\<close>

fun packByte :: "nat \<Rightarrow> nat list \<Rightarrow> nat" where
  "packByte b [] = 0"
| "packByte b (v # vs) = v + 2 ^ b * packByte b vs"

definition groupOf :: "nat \<Rightarrow> nat list \<Rightarrow> nat \<Rightarrow> nat list" where
  "groupOf b vs k = take (8 div b) (drop (k * (8 div b)) vs)"

definition packBytes :: "nat \<Rightarrow> nat list \<Rightarrow> bytes" where
  "packBytes b vs = map (\<lambda>k. word_of_nat (packByte b (groupOf b vs k))) [0..<ceilDiv (length vs * b) 8]"

lemma packByte_append: "packByte b (xs @ ys) = packByte b xs + 2 ^ (b * length xs) * packByte b ys"
  by (induction xs) (simp_all add: algebra_simps power_add)

lemma packByte_less: "(\<And>v. v \<in> set vs \<Longrightarrow> v < 2 ^ b) \<Longrightarrow> packByte b vs < 2 ^ (b * length vs)"
proof (induction vs)
  case (Cons v vs)
  then have "v < 2 ^ b" "packByte b vs + 1 \<le> 2 ^ (b * length vs)" by (simp_all add: Suc_leI)
  then have "v + 2 ^ b * packByte b vs < 2 ^ b * (packByte b vs + 1)" by simp
  also have "\<dots> \<le> 2 ^ b * 2 ^ (b * length vs)"
    using \<open>packByte b vs + 1 \<le> _\<close> by (rule mult_left_mono) simp
  finally show ?case by (simp add: power_add)
qed simp

text \<open>Reading entry \<open>j\<close> of a packed byte.\<close>

lemma packByte_nth:
  "(\<And>v. v \<in> set vs \<Longrightarrow> v < 2 ^ b) \<Longrightarrow>
   packByte b vs div 2 ^ (b * j) mod 2 ^ b = (if j < length vs then vs ! j else 0)"
proof (induction vs arbitrary: j)
  case (Cons v vs)
  then have v: "v < 2 ^ b" by simp
  show ?case
  proof (cases j)
    case 0
    then show ?thesis using v by simp
  next
    case (Suc i)
    have "packByte b (v # vs) div 2 ^ (b * j) = (packByte b (v # vs) div 2 ^ b) div 2 ^ (b * i)"
      by (simp add: Suc power_add div_mult2_eq)
    also have "packByte b (v # vs) div 2 ^ b = packByte b vs" using v by simp
    finally show ?thesis using Cons.IH [of i] Cons.prems Suc by simp
  qed
qed simp

text \<open>The part of the current byte that is already there when status \<open>i\<close> is read.\<close>

definition curString :: "nat \<Rightarrow> nat list \<Rightarrow> string" where
  "curString b vs = concat (rev (map (\<lambda>v. padStart b (toBin v)) vs))"

lemma curString_snoc: "curString b (vs @ [v]) = padStart b (toBin v) @ curString b vs"
  by (simp add: curString_def)

lemma length_curString:
  "0 < b \<Longrightarrow> (\<And>v. v \<in> set vs \<Longrightarrow> v < 2 ^ b) \<Longrightarrow> length (curString b vs) = b * length vs"
  by (induction vs rule: rev_induct)
    (simp_all add: curString_snoc length_padStart length_toBin, simp add: curString_def)

lemma parse_curString:
  "0 < b \<Longrightarrow> (\<And>v. v \<in> set vs \<Longrightarrow> v < 2 ^ b) \<Longrightarrow> parseBin (curString b vs) = packByte b vs"
proof (induction vs rule: rev_induct)
  case (snoc v vs)
  then show ?case
    by (simp add: curString_snoc bit_strings length_curString packByte_append)
qed (simp add: curString_def)

text \<open>
  The loop state before status \<open>i\<close>: the full bytes are written, the current one holds the statuses
  since the last full byte.
\<close>

definition encodeAt :: "nat \<Rightarrow> nat list \<Rightarrow> nat \<Rightarrow> encodeState" where
  "encodeAt b vs i =
     (let per = 8 div b; q = i div per; P = packBytes b vs
      in if i = length vs \<and> 0 < i then (0, [], length P, P)
         else (i mod per * b, curString b (drop (q * per) (take i vs)), q,
               take q P @ replicate (length P - q) 0))"

lemma length_packBytes [simp]: "length (packBytes b vs) = ceilDiv (length vs * b) 8"
  by (simp add: packBytes_def)

lemma validBits_per: "validBits b \<Longrightarrow> 8 div b * b = 8 \<and> 0 < 8 div b \<and> 0 < b"
  by (auto simp: validBits_def)

lemma byte_count:
  assumes "validBits b" "i < n"
  shows "i div (8 div b) < ceilDiv (n * b) 8"
    and "Suc i = n \<Longrightarrow> ceilDiv (n * b) 8 = Suc (i div (8 div b))"
proof -
  define per where "per = 8 div b"
  have per: "per * b = 8" "0 < per" "0 < b" using validBits_per [OF assms(1)] by (simp_all add: per_def)
  have i: "i * b = i div per * 8 + i mod per * b"
    by (metis div_mult_mod_eq mult.assoc add_mult_distrib per(1))
  have r: "i mod per * b + b \<le> 8"
    by (metis Suc_leI add.commute mod_less_divisor mult_Suc mult_le_mono1 per(1,2))
  have "(i + 1) * b \<le> n * b" using assms(2) by (intro mult_le_mono1) simp
  moreover have "n * b \<le> ceilDiv (n * b) 8 * 8" by (rule ceilDiv_ge) simp
  ultimately have "i div per * 8 < ceilDiv (n * b) 8 * 8" using i per(3) by (simp add: algebra_simps)
  then show lt: "i div (8 div b) < ceilDiv (n * b) 8" by (simp add: per_def)
  assume "Suc i = n"
  then have "n * b = i * b + b" by auto
  moreover have "ceilDiv (n * b) 8 * 8 < n * b + 8" by (rule ceilDiv_less) simp
  ultimately have "ceilDiv (n * b) 8 * 8 < i div per * 8 + 16" using i r by linarith
  then show "ceilDiv (n * b) 8 = Suc (i div (8 div b))" using lt by (simp add: per_def)
qed

lemma packBytes_nth:
  "k < ceilDiv (length vs * b) 8 \<Longrightarrow> packBytes b vs ! k = word_of_nat (packByte b (groupOf b vs k))"
  by (simp add: packBytes_def)

lemma replicate_write: "q < length P \<Longrightarrow> w = P ! q \<Longrightarrow>
    (take q P @ replicate (length P - q) 0)[q := w] = take (Suc q) P @ replicate (length P - Suc q) 0"
  by (simp add: take_Suc_conv_app_nth list_update_append Suc_diff_Suc [symmetric])

lemma encodeStep_at:
  assumes b: "validBits (sl_bits s)" and i: "i < length vs"
    and val: "\<And>v. v \<in> set vs \<Longrightarrow> v < 2 ^ sl_bits s"
    and total: "sl_total s = length vs"
    and el: "assertStatusValue (elemAt (sl_statuses s) i) (sl_bits s) i = Inr (vs ! i)"
  shows "encodeStep s (encodeAt (sl_bits s) vs i) i = Inr (encodeAt (sl_bits s) vs (Suc i))"
proof -
  define b where "b = sl_bits s"
  define per where "per = 8 div b"
  define q where "q = i div per"
  define r where "r = i mod per"
  define P where "P = packBytes b vs"
  have per: "per * b = 8" "0 < per" "0 < b" using validBits_per b by (simp_all add: per_def b_def)
  have i_eq: "i = q * per + r" "r < per" using per(2) by (simp_all add: q_def r_def)
  have qN: "q < length P" using byte_count(1) [OF b i] by (simp add: P_def q_def per_def b_def)
  let ?cur = "curString b (drop (q * per) (take (Suc i) vs))"
  have cur: "padStart b (toBin (vs ! i)) @ curString b (drop (q * per) (take i vs)) = ?cur"
    using i i_eq by (simp add: take_Suc_conv_app_nth curString_snoc)
  have full: "r * b + b \<ge> 8 \<longleftrightarrow> Suc r = per"
    using per i_eq(2) by (metis Suc_leI add.commute antisym mult_Suc mult_le_cancel2 order_refl)
  have sub: "\<And>v. v \<in> set (drop (q * per) (take (Suc i) vs)) \<Longrightarrow> v < 2 ^ b"
    using val by (metis b_def in_set_dropD in_set_takeD)
  have parse: "parseBin ?cur = packByte b (drop (q * per) (take (Suc i) vs))"
    by (rule parse_curString [OF per(3) sub])
  have group: "drop (q * per) (take (Suc i) vs) = groupOf b vs q" if "Suc r = per \<or> Suc i = length vs"
    using that i_eq i by (auto simp: groupOf_def per_def [symmetric] drop_take Suc_diff_le)
  have start: "encodeAt b vs i = (r * b, curString b (drop (q * per) (take i vs)), q,
      take q P @ replicate (length P - q) 0)"
    using i by (simp add: encodeAt_def Let_def per_def [symmetric] q_def r_def P_def)
  show ?thesis
  proof (cases "Suc r = per \<or> Suc i = length vs")
    case True
    then have fl: "r * b + b \<ge> 8 \<or> i = sl_total s - 1" using full total by auto
    have w: "word_of_nat (packByte b (groupOf b vs q)) = P ! q"
      using qN by (simp add: P_def packBytes_nth)
    have "encodeStep s (encodeAt b vs i) i =
        Inr (0, [], Suc q, (take q P @ replicate (length P - q) 0)[q := P ! q])"
      using fl el cur parse group [OF True] w
      by (auto simp: start b_def [symmetric] Let_def parseBin_padStart)
    also have "(take q P @ replicate (length P - q) 0)[q := P ! q]
        = take (Suc q) P @ replicate (length P - Suc q) 0"
      by (rule replicate_write [OF qN refl])
    finally have step: "encodeStep s (encodeAt b vs i) i =
        Inr (0, [], Suc q, take (Suc q) P @ replicate (length P - Suc q) 0)" .
    show ?thesis
    proof (cases "Suc i = length vs")
      case True
      then have "length P = Suc q"
        using byte_count(2) [OF b i] by (simp add: P_def q_def per_def b_def)
      then have "encodeAt b vs (Suc i) = (0, [], Suc q, take (Suc q) P @ replicate (length P - Suc q) 0)"
        using True by (auto simp: encodeAt_def Let_def P_def)
      then show ?thesis using step by (simp only: b_def)
    next
      case False
      then have "Suc r = per" using True by simp
      then have "Suc i = Suc q * per" using i_eq by simp
      then have "Suc i mod per = 0" "Suc i div per = Suc q" using per(2) by simp_all
      then have "encodeAt b vs (Suc i) = (0, [], Suc q, take (Suc q) P @ replicate (length P - Suc q) 0)"
        using False \<open>Suc i = Suc q * per\<close>
        by (simp add: encodeAt_def Let_def P_def per_def [symmetric] curString_def)
      then show ?thesis using step by (simp only: b_def)
    qed
  next
    case False
    then have nf: "\<not> (r * b + b \<ge> 8 \<or> i = sl_total s - 1)" using full total i by auto
    have "Suc i mod per = Suc r" "Suc i div per = q"
      using False by (simp_all add: mod_Suc div_Suc q_def r_def)
    then have "encodeAt b vs (Suc i) = (Suc r * b, curString b (drop (q * per) (take (Suc i) vs)), q,
        take q P @ replicate (length P - q) 0)"
      using False by (simp add: encodeAt_def Let_def P_def per_def [symmetric])
    moreover have "encodeStep s (encodeAt b vs i) i = Inr (r * b + b, ?cur, q, take q P @ replicate (length P - q) 0)"
      using nf el cur by (auto simp: start Let_def b_def [symmetric])
    ultimately show ?thesis by (simp add: b_def add.commute)
  qed
qed

lemma encode_upto:
  assumes wf: "wfList s" and i: "i \<le> sl_total s"
  defines "vs \<equiv> valuesOf (sl_statuses s)"
  shows "foldR (encodeStep s) (encodeAt (sl_bits s) vs 0) [0..<i] = Inr (encodeAt (sl_bits s) vs i)"
  using i
proof (induction i)
  case (Suc i)
  have b: "validBits (sl_bits s)" and t: "sl_total s = length vs"
    and all: "list_all (statusValue (sl_bits s)) (sl_statuses s)"
    using wf by (simp_all add: wfList_def vs_def valuesOf_def)
  have val: "v < 2 ^ sl_bits s" if "v \<in> set vs" for v
    using that all statusValue_less by (auto simp: vs_def valuesOf_def list_all_iff)
  have "i < length (sl_statuses s)" using Suc.prems wf by (simp add: wfList_def)
  then have "assertStatusValue (elemAt (sl_statuses s) i) (sl_bits s) i = Inr (vs ! i)"
    using all by (simp add: elemAt_def assertStatusValue_Some vs_def valuesOf_def list_all_length)
  then have "encodeStep s (encodeAt (sl_bits s) vs i) i = Inr (encodeAt (sl_bits s) vs (Suc i))"
    using Suc.prems t by (intro encodeStep_at [OF b _ val t]) simp_all
  then show ?case using Suc by (simp add: foldR_append)
qed simp

lemma encode_packs:
  assumes "wfList s"
  shows "encodeStatusListIntoByteArray s = Inr (packBytes (sl_bits s) (valuesOf (sl_statuses s)))"
proof -
  let ?vs = "valuesOf (sl_statuses s)"
  have t: "sl_total s = length ?vs" using assms by (simp add: wfList_def valuesOf_def)
  have "encodeAt (sl_bits s) ?vs 0 = (0, [], 0, replicate (ceilDiv (sl_total s * sl_bits s) 8) 0)"
    by (simp add: encodeAt_def Let_def curString_def t)
  moreover have "snd (snd (snd (encodeAt (sl_bits s) ?vs (length ?vs)))) = packBytes (sl_bits s) ?vs"
    by (auto simp: encodeAt_def Let_def packBytes_def ceilDiv_def)
  ultimately show ?thesis
    using encode_upto [OF assms order_refl] t
    by (auto simp: encodeStatusListIntoByteArray_def split: prod.splits)
qed

section \<open>What the decoder computes\<close>

definition unpackStatus :: "bytes \<Rightarrow> nat \<Rightarrow> nat \<Rightarrow> nat" where
  "unpackStatus bs b i =
     unat (bs ! (i div (8 div b))) div 2 ^ (b * (i mod (8 div b))) mod 2 ^ b"

lemma byteString_facts: "length (byteString w) = 8" "parseBin (byteString w) = unat w"
proof -
  have "unat w < 2 ^ 8" using unsigned_less [of w, where 'a = nat] by simp
  then show "length (byteString w) = 8"
    by (simp add: byteString_def length_padStart length_toBin)
  show "parseBin (byteString w) = unat w" by (simp add: byteString_def bit_strings)
qed

lemma decodePosition_facts:
  assumes "validBits b"
  defines "per \<equiv> 8 div b"
  shows "decodePosition b i div per = i div per"
    and "decodePosition b i mod per = per - 1 - i mod per"
    and "decodePosition b (decodePosition b i) = i"
    and "i < n * per \<Longrightarrow> decodePosition b i < n * per"
proof -
  have per: "0 < per" using validBits_per assms by simp
  have pos: "decodePosition b i = i div per * per + (per - 1 - i mod per)"
    by (simp add: decodePosition_def Let_def per_def)
  have small: "per - 1 - i mod per < per" using per by simp
  show d: "decodePosition b i div per = i div per" using small per by (simp add: pos)
  show m: "decodePosition b i mod per = per - 1 - i mod per" using small by (simp add: pos)
  have "i mod per < per" using per by simp
  then have "per - 1 - (per - 1 - i mod per) = i mod per" by simp
  then have "decodePosition b (decodePosition b i) = i div per * per + i mod per"
    unfolding decodePosition_def [of b "decodePosition b i"] Let_def per_def [symmetric] d m by simp
  then show "decodePosition b (decodePosition b i) = i" by simp
  assume "i < n * per"
  then have "i div per < n" using per by (simp add: div_less_iff_less_mult)
  then show "decodePosition b i < n * per"
    using d per by (simp add: div_less_iff_less_mult [symmetric])
qed

lemma decode_slice:
  assumes "validBits b"
  shows "parseBin (take b (drop (i * b mod 8) (byteString (bs ! (i * b div 8)))))
       = unpackStatus bs b (decodePosition b i)"
proof -
  define per where "per = 8 div b"
  have per: "per * b = 8" "0 < per" using validBits_per assms by (simp_all add: per_def)
  define t where "t = i mod per"
  have "t < per" using per(2) by (simp add: t_def)
  then obtain d where d: "per = Suc (t + d)" using less_imp_Suc_add by blast
  have "i = i div per * per + t" by (simp add: t_def)
  then have ib: "i * b = i div per * 8 + t * b"
    by (metis add_mult_distrib mult.assoc per(1))
  have r: "t * b + b + b * d = 8"
    using per(1) by (simp add: d algebra_simps)
  have "0 < b" using validBits_per assms by simp
  then have "t * b < 8" using r by linarith
  then have dm: "i * b div 8 = i div per" "i * b mod 8 = t * b"
    using ib by simp_all
  have "8 - (t * b + b) = b * (per - 1 - t)"
    using r by (simp add: d)
  then show ?thesis
    using parseBin_slice [of "t * b" b "byteString (bs ! (i div per))"] r
      decodePosition_facts(1,2) [OF assms, of i]
    by (simp add: dm byteString_facts unpackStatus_def per_def [symmetric] t_def [symmetric])
qed

definition decodeUpto :: "bytes \<Rightarrow> nat \<Rightarrow> nat \<Rightarrow> nat \<times> jsnum list" where
  "decodeUpto bs b n =
     foldl (decodeStep bs b) (0, replicate (length bs * 8 div b) NaN) [0..<n]"

lemma decodeUpto_invariant:
  assumes b: "validBits b" and n: "n \<le> length bs * (8 div b)"
  shows "fst (decodeUpto bs b n) = n * b mod 8
    \<and> length (snd (decodeUpto bs b n)) = length bs * (8 div b)
    \<and> (\<forall>i < n. snd (decodeUpto bs b n) ! decodePosition b i
               = jint (int (unpackStatus bs b (decodePosition b i))))"
  using n
proof (induction n)
  case 0
  have "length bs * 8 div b = length bs * (8 div b)"
    using b by (auto simp: validBits_def)
  then show ?case by (simp add: decodeUpto_def)
next
  case (Suc n)
  let ?p = "decodePosition b n" and ?d = "decodeUpto bs b n"
  have lt: "?p < length bs * (8 div b)"
    using Suc.prems by (intro decodePosition_facts(4) [OF b]) simp
  have step: "decodeUpto bs b (Suc n) = ((n * b mod 8 + b) mod 8,
      (snd ?d)[?p := jint (int (unpackStatus bs b ?p))])"
    using Suc decode_slice [OF b, of n bs]
    by (cases ?d) (simp add: decodeUpto_def)
  have inj: "decodePosition b i = ?p \<longleftrightarrow> i = n" for i
    by (metis decodePosition_facts(3) [OF b])
  show ?case
    using Suc lt inj by (auto simp: step mod_add_right_eq add.commute nth_list_update less_Suc_eq)
qed

lemma decode_unpacks:
  assumes "validBits b"
  shows "decodeStatusListFromByteArray bs b
       = map (\<lambda>i. jint (int (unpackStatus bs b i))) [0..<length bs * (8 div b)]"
proof (rule nth_equalityI)
  let ?n = "length bs * (8 div b)"
  have n: "length bs * 8 div b = ?n" using assms by (auto simp: validBits_def)
  have d: "decodeStatusListFromByteArray bs b = snd (decodeUpto bs b ?n)"
    by (simp add: decodeStatusListFromByteArray_def decodeUpto_def n Let_def)
  note inv = decodeUpto_invariant [OF assms order_refl, of bs]
  show "length (decodeStatusListFromByteArray bs b)
      = length (map (\<lambda>i. jint (int (unpackStatus bs b i))) [0..<?n])"
    using inv by (simp add: d)
  fix i assume "i < length (decodeStatusListFromByteArray bs b)"
  then have i: "i < ?n" using inv by (simp add: d)
  then have "decodePosition b i < ?n" by (rule decodePosition_facts(4) [OF assms])
  then have "snd (decodeUpto bs b ?n) ! decodePosition b (decodePosition b i)
      = jint (int (unpackStatus bs b (decodePosition b (decodePosition b i))))"
    using inv by blast
  then show "decodeStatusListFromByteArray bs b ! i
      = map (\<lambda>i. jint (int (unpackStatus bs b i))) [0..<?n] ! i"
    using i by (simp add: d decodePosition_facts(3) [OF assms])
qed

lemma length_decode: "validBits b \<Longrightarrow> length (decodeStatusListFromByteArray bs b) = length bs * (8 div b)"
  by (simp add: decode_unpacks)

lemma unpack_pack:
  assumes b: "validBits b" and val: "\<And>v. v \<in> set vs \<Longrightarrow> v < 2 ^ b"
    and i: "i < ceilDiv (length vs * b) 8 * (8 div b)"
  shows "unpackStatus (packBytes b vs) b i = (if i < length vs then vs ! i else 0)"
proof -
  define per where "per = 8 div b"
  have per: "per * b = 8" "0 < per" using validBits_per b by (simp_all add: per_def)
  let ?g = "groupOf b vs (i div per)"
  have lg: "length ?g = min per (length vs - i div per * per)"
    by (simp add: groupOf_def per_def [symmetric])
  have valg: "v < 2 ^ b" if "v \<in> set ?g" for v
    using that val by (metis groupOf_def in_set_dropD in_set_takeD)
  have "b * length ?g \<le> b * per" using lg by (intro mult_le_mono2) simp
  then have "b * length ?g \<le> 8" using per(1) by (metis mult.commute)
  then have "(2::nat) ^ (b * length ?g) \<le> 2 ^ 8" by (intro power_increasing) simp_all
  moreover have "packByte b ?g < 2 ^ (b * length ?g)" by (rule packByte_less [OF valg])
  ultimately have "packByte b ?g < 2 ^ 8" by (meson less_le_trans)
  then have small: "packByte b ?g < 256" by simp
  have k: "i div per < ceilDiv (length vs * b) 8"
    using i per(2) by (simp add: per_def div_less_iff_less_mult)
  have "unat (packBytes b vs ! (i div per)) = packByte b ?g"
    using small by (simp add: packBytes_nth [OF k] unat_of_nat take_bit_nat_eq_self)
  then have "unpackStatus (packBytes b vs) b i = (if i mod per < length ?g then ?g ! (i mod per) else 0)"
    by (simp add: unpackStatus_def per_def [symmetric] packByte_nth valg)
  moreover have "i mod per < length ?g \<longleftrightarrow> i < length vs"
    using per(2) div_mult_mod_eq [of i per] lg by (auto simp: less_diff_conv)
  moreover have "?g ! (i mod per) = vs ! i" if "i < length vs"
  proof -
    have "i div per * per \<le> length vs" using that div_times_less_eq_dividend [of i per] by linarith
    then have "drop (i div per * per) vs ! (i mod per) = vs ! (i div per * per + i mod per)" by simp
    then show ?thesis using that per(2) by (simp add: groupOf_def per_def [symmetric])
  qed
  ultimately show ?thesis by auto
qed

section \<open>Round trip\<close>

lemma wf_values:
  assumes "wfList s"
  shows "validBits (sl_bits s)" "length (valuesOf (sl_statuses s)) = sl_total s"
    and "map (\<lambda>v. jint (int v)) (valuesOf (sl_statuses s)) = sl_statuses s"
    and "v \<in> set (valuesOf (sl_statuses s)) \<Longrightarrow> v < 2 ^ sl_bits s"
  using assms statusValue_less statusValue_jint [symmetric]
  by (auto simp: wfList_def valuesOf_def list_all_iff intro!: map_idI)

text \<open>
  Decoding what a well-formed list encodes to gives the statuses back, followed by zeros up to a
  full byte.
\<close>

definition paddedTotal :: "statusList \<Rightarrow> nat" where
  "paddedTotal s = ceilDiv (sl_total s * sl_bits s) 8 * (8 div sl_bits s)"

lemma total_le_padded: "wfList s \<Longrightarrow> sl_total s \<le> paddedTotal s"
proof -
  assume "wfList s"
  then have per: "8 div sl_bits s * sl_bits s = 8" "0 < sl_bits s"
    using wf_values(1) validBits_per by blast+
  have "sl_total s * sl_bits s \<le> ceilDiv (sl_total s * sl_bits s) 8 * 8" by (rule ceilDiv_ge) simp
  also have "\<dots> = paddedTotal s * sl_bits s" by (simp add: paddedTotal_def per(1) mult.assoc)
  finally show ?thesis using per(2) by simp
qed

lemma decode_encode:
  assumes wf: "wfList s"
  shows "\<exists>bs. encodeStatusListIntoByteArray s = Inr bs \<and> length bs = ceilDiv (sl_total s * sl_bits s) 8
    \<and> decodeStatusListFromByteArray bs (sl_bits s)
      = sl_statuses s @ replicate (paddedTotal s - sl_total s) (jint 0)"
proof -
  let ?vs = "valuesOf (sl_statuses s)" and ?b = "sl_bits s"
  note facts = wf_values [OF wf]
  let ?bs = "packBytes ?b ?vs"
  have len: "length ?bs = ceilDiv (sl_total s * ?b) 8" by (simp add: facts(2))
  have "decodeStatusListFromByteArray ?bs ?b
      = map (\<lambda>i. jint (int (if i < length ?vs then ?vs ! i else 0))) [0..<paddedTotal s]"
    using unpack_pack [OF facts(1,4)] len
    by (simp add: decode_unpacks [OF facts(1)] paddedTotal_def facts(2))
  also have "\<dots> = map (\<lambda>v. jint (int v)) ?vs @ replicate (paddedTotal s - sl_total s) (jint 0)"
    using total_le_padded [OF wf] facts(2)
    by (intro nth_equalityI) (auto simp: nth_append)
  finally show ?thesis using encode_packs [OF wf] len facts(3) by auto
qed

lemma collectChunks_eq:
  "collectChunks m len acc cs
   = (if len + length (concat cs) \<le> m \<or> cs = [] then Inr (acc @ cs) else Inl (ListTooLarge m))"
  by (induction cs arbitrary: len acc) (auto simp: Let_def)

lemma inflateAtMost_ok:
  "inflateAtMost inflate c m = Inr bs \<longleftrightarrow>
     (\<exists>chunks. inflate c = (chunks, None) \<and> bs = concat chunks \<and> (length bs \<le> m \<or> chunks = []))"
  by (cases "inflate c") (auto simp: inflateAtMost_def collectChunks_eq concatBytes_eq split: option.splits)

lemma decompress_ok:
  "decompressStatusListFromBytes inflate c b uri (Some m) = Inr s \<longleftrightarrow>
     (\<exists>bs. inflateAtMost inflate c (ceilDiv (m * b) 8) = Inr bs
          \<and> newStatusList (decodeStatusListFromByteArray bs b) b uri = Inr s)"
  by (auto simp: decompressStatusListFromBytes_def Let_def split: sum.splits
      elim!: bindR.elims dest: sym)

text \<open>C10. For a parameter \<open>deflate\<close> that \<open>inflate\<close> inverts, decompressing a compressed well-formed
  status list that is within the maximum gives a well-formed list with the same bits per status whose
  statuses are those of the original, in order, followed by Valid ones up to a full byte.\<close>

theorem statusList_roundtrip:
  assumes wf: "wfList s"
    and zlib: "\<And>bs. \<exists>chunks. inflate (deflate bs) = (chunks, None) \<and> concat chunks = bs"
    and fits: "ceilDiv (sl_total s * sl_bits s) 8 \<le> ceilDiv (m * sl_bits s) 8"
  shows "\<exists>c. compressStatusListToBytes deflate s = Inr c
    \<and> decompressStatusListFromBytes inflate c (sl_bits s) uri (Some m)
      = Inr \<lparr>sl_statuses = sl_statuses s @ replicate (paddedTotal s - sl_total s) (jint 0),
             sl_bits = sl_bits s, sl_total = paddedTotal s, sl_aggregationUri = uri, sl_isModified = False\<rparr>"
proof -
  obtain bs where enc: "encodeStatusListIntoByteArray s = Inr bs"
    and len: "length bs = ceilDiv (sl_total s * sl_bits s) 8"
    and dec: "decodeStatusListFromByteArray bs (sl_bits s)
      = sl_statuses s @ replicate (paddedTotal s - sl_total s) (jint 0)"
    using decode_encode [OF wf] by blast
  have "list_all (statusValue (sl_bits s)) (sl_statuses s @ replicate (paddedTotal s - sl_total s) (jint 0))"
    using wf by (auto simp: wfList_def list_all_iff statusValue_def maxStatus_def)
  moreover have "length (sl_statuses s @ replicate (paddedTotal s - sl_total s) (jint 0)) = paddedTotal s"
    using wf total_le_padded [OF wf] by (simp add: wfList_def)
  ultimately have "newStatusList (decodeStatusListFromByteArray bs (sl_bits s)) (sl_bits s) uri
      = Inr \<lparr>sl_statuses = sl_statuses s @ replicate (paddedTotal s - sl_total s) (jint 0),
             sl_bits = sl_bits s, sl_total = paddedTotal s, sl_aggregationUri = uri, sl_isModified = False\<rparr>"
    using wf_values(1) [OF wf] by (simp add: newStatusList_ok dec)
  moreover have "inflateAtMost inflate (deflate bs) (ceilDiv (m * sl_bits s) 8) = Inr bs"
    using zlib [of bs] len fits by (auto simp: inflateAtMost_ok)
  ultimately show ?thesis
    using enc by (auto simp: compressStatusListToBytes_def decompress_ok)
qed

theorem statusList_roundtrip_witness:
  "\<exists>c. compressStatusListToBytes (\<lambda>b. b) \<lparr>sl_statuses = [jint 1, jint 0, jint 2], sl_bits = 2,
       sl_total = 3, sl_aggregationUri = None, sl_isModified = False\<rparr> = Inr c
    \<and> decompressStatusListFromBytes (\<lambda>b. ([b], None)) c 2 None (Some 4)
      = Inr \<lparr>sl_statuses = [jint 1, jint 0, jint 2, jint 0], sl_bits = 2, sl_total = 4,
             sl_aggregationUri = None, sl_isModified = False\<rparr>"
proof -
  let ?s = "\<lparr>sl_statuses = [jint 1, jint 0, jint 2], sl_bits = 2, sl_total = 3,
             sl_aggregationUri = None, sl_isModified = False\<rparr>"
  have wf: "wfList ?s"
    by (simp add: wfList_def validBits_def statusValue_def maxStatus_def)
  have pad: "paddedTotal ?s = 4" by (simp add: paddedTotal_def ceilDiv_def)
  show ?thesis
    using statusList_roundtrip [OF wf, of "\<lambda>b. ([b], None)" "\<lambda>b. b" 4 None] pad
    by (simp add: ceilDiv_def)
qed

text \<open>C29. \<open>verifyStatusValid\<close> accepts exactly the integer indices of the list whose status is 0, on any list;
  an index that is not an integer, negative or past the end is reported as out of range.\<close>

theorem verifyStatusValid_iff:
  "(verifyStatusValid s idx = Inr () \<longleftrightarrow>
      (\<exists>i. idx = jint (int i) \<and> i < sl_total s \<and> elemAt (sl_statuses s) i = Some (jint 0)))
   \<and> (verifyStatusValid s idx = Inl [IndexOutOfRangeIssue idx (sl_total s)] \<longleftrightarrow>
      \<not> (\<exists>i. idx = jint (int i) \<and> i < sl_total s))"
proof -
  have ix: "indexOfList s idx = Some i \<longleftrightarrow> idx = jint (int i) \<and> i < sl_total s" for i
    by (auto simp: indexOfList_def split: option.splits dest: intOf_Some)
  then have none: "indexOfList s idx = None \<longleftrightarrow> \<not> (\<exists>i. idx = jint (int i) \<and> i < sl_total s)"
    by (metis not_Some_eq)
  show ?thesis
    using ix none by (auto simp: verifyStatusValid_def Let_def split: option.splits)
qed

text \<open>Writing one status changes that status and no other, and a later read sees it; two bits of
  neighbouring entries never mix in the bytes either: entry \<open>j\<close> of the encoding of the list written to
  is the old one unless \<open>j\<close> is the index written.\<close>

theorem setStatus_isolated:
  assumes wf: "wfList s" and set: "setStatus s (jint (int i)) v = Inr t" and j: "j < sl_total s"
  shows "getStatus t (jint (int j)) = Inr (Some (if j = i then v else sl_statuses s ! j))
    \<and> (\<exists>bs. encodeStatusListIntoByteArray t = Inr bs
        \<and> jint (int (unpackStatus bs (sl_bits t) j)) = (if j = i then v else sl_statuses s ! j))"
proof -
  have i: "i < sl_total s" and t: "t = s\<lparr>sl_statuses := (sl_statuses s)[i := v], sl_isModified := True\<rparr>"
    using set by (auto simp: setStatus_def indexOfList_def split: if_splits)
  have wft: "wfList t" using setStatus_wf [OF wf set] .
  note facts = wf_values [OF wft]
  have len: "length (sl_statuses s) = sl_total s" using wf by (simp add: wfList_def)
  have tj: "sl_statuses t ! j = (if j = i then v else sl_statuses s ! j)" "sl_total t = sl_total s"
    using i j len by (simp_all add: t nth_list_update)
  have enc: "encodeStatusListIntoByteArray t = Inr (packBytes (sl_bits t) (valuesOf (sl_statuses t)))"
    by (rule encode_packs [OF wft])
  have "j < paddedTotal t" using total_le_padded [OF wft] j tj by simp
  then have "unpackStatus (packBytes (sl_bits t) (valuesOf (sl_statuses t))) (sl_bits t) j
      = valuesOf (sl_statuses t) ! j"
    using unpack_pack [OF facts(1,4)] j tj(2) by (simp add: facts(2) paddedTotal_def)
  moreover have "jint (int (valuesOf (sl_statuses t) ! j)) = sl_statuses t ! j"
    by (metis facts(2,3) j length_map nth_map tj(2))
  ultimately show ?thesis
    using enc tj j len by (simp add: getStatus_def indexOfList_def elemAt_def t)
qed

theorem setStatus_isolated_witness:
  "\<exists>t. setStatus \<lparr>sl_statuses = [jint 0, jint 1], sl_bits = 1, sl_total = 2, sl_aggregationUri = None,
       sl_isModified = False\<rparr> (jint 0) (jint 1) = Inr t \<and> getStatus t (jint 1) = Inr (Some (jint 1))"
proof -
  let ?s = "\<lparr>sl_statuses = [jint 0, jint 1], sl_bits = 1, sl_total = 2, sl_aggregationUri = None,
             sl_isModified = False\<rparr>"
  have wf: "wfList ?s" by (simp add: wfList_def validBits_def statusValue_def maxStatus_def)
  have "\<exists>t. setStatus ?s (jint (int 0)) (jint 1) = Inr t"
    by (simp add: setStatus_def indexOfList_def assertStatusValue_def maxStatus_def)
  then obtain t where t: "setStatus ?s (jint (int 0)) (jint 1) = Inr t" by blast
  show ?thesis using setStatus_isolated [OF wf t, of 1] t by auto
qed

lemma validBits_1: "validBits 1"
  by (simp add: validBits_def)

text \<open>C30. Whatever the inflater delivers, decompression either reports one issue or returns a well-formed
  list, and the limit on the number of statuses holds up to a full byte: the list has fewer than
  \<open>maxStatuses\<close> + 8 / \<open>bitsPerStatus\<close> statuses. It can have more than \<open>maxStatuses\<close>, as the witness shows
  with a maximum of one status and a list of eight.\<close>

theorem decompress_bounded:
  assumes "decompressStatusListFromBytes inflate c b uri (Some m) = Inr s" and "0 < m"
  shows "wfList s \<and> sl_bits s = b \<and> sl_total s < m + 8 div b"
proof -
  obtain bs where inf: "inflateAtMost inflate c (ceilDiv (m * b) 8) = Inr bs"
    and new: "newStatusList (decodeStatusListFromByteArray bs b) b uri = Inr s"
    using assms(1) by (auto simp: decompress_ok)
  have b: "validBits b" and s: "sl_bits s = b" "sl_total s = length (decodeStatusListFromByteArray bs b)"
    using new by (auto simp: newStatusList_ok)
  have per: "8 div b * b = 8" "0 < b" using b validBits_per by blast+
  have "length bs \<le> ceilDiv (m * b) 8"
    using inf by (auto simp: inflateAtMost_ok)
  then have "length bs * 8 < m * b + 8" using ceilDiv_less [of 8 "m * b"] by linarith
  moreover have "sl_total s = length bs * (8 div b)"
    using decode_unpacks [OF b, of bs] s by simp
  then have "sl_total s * b = length bs * 8" by (simp add: per(1) mult.assoc)
  moreover have "m * b + 8 = (m + 8 div b) * b" by (simp add: add_mult_distrib per(1))
  ultimately have "sl_total s * b < (m + 8 div b) * b" by simp
  then show ?thesis using newStatusList_wf [OF new] s per by simp
qed

theorem decompress_bounded_witness:
  "\<exists>s. decompressStatusListFromBytes (\<lambda>b. ([b], None)) [255] 1 None (Some 1) = Inr s
     \<and> 1 < sl_total s \<and> sl_total s < 1 + 8 div 1"
proof -
  have "list_all (statusValue 1) (decodeStatusListFromByteArray [255] 1)"
    unfolding decode_unpacks [OF validBits_1]
    by (auto simp: list_all_iff statusValue_def maxStatus_def unpackStatus_def)
  moreover have "length (decodeStatusListFromByteArray [255] 1) = 8"
    unfolding decode_unpacks [OF validBits_1] by simp
  ultimately have "\<exists>s. decompressStatusListFromBytes (\<lambda>b. ([b], None)) [255] 1 None (Some 1) = Inr s
      \<and> sl_total s = 8"
    by (simp add: decompress_ok inflateAtMost_ok ceilDiv_def newStatusList_ok validBits_1 [simplified])
  then show ?thesis using decompress_bounded [of "\<lambda>b. ([b], None)" "[255]" 1 None 1] by auto
qed

end
