(* ===== verification/IndexAllocator.thy ===== *)
theory IndexAllocator imports Bytes "HOL-Library.Multiset" begin

text \<open>
  \<open>packages/token-status-list/src/status-list-index.ts\<close>: random numbers from a seed and the
  allocator that hands out the indices of a status list in the order of a seeded Fisher-Yates
  shuffle. The interface the two allocators of the package share, each index at most once, is the
  locale \<open>index_allocator\<close>. The hash function is a parameter. The rejection loop of \<open>nextInt\<close> may not
  end, so its result is an option, \<open>None\<close> when it does not return.
\<close>

datatype allocError =
    HasherTooShort nat
  | NoIndicesRemain
  | BadLength jsnum
  | BadPosition jsnum
  | EmptySeed
  | Ff1BadRadix
  | Ff1BadDomain
  | Ff1OutsideDomain
  | EncryptBlockLength nat

type_synonym hasher = "bytes \<Rightarrow> string \<Rightarrow> bytes"

text \<open>A computation that may not return (\<open>None\<close>) and that can throw.\<close>

type_synonym 'a partial = "(allocError + 'a) option"

fun bindP :: "'a partial \<Rightarrow> ('a \<Rightarrow> 'b partial) \<Rightarrow> 'b partial" where
  "bindP None k = None"
| "bindP (Some (Inl e)) k = Some (Inl e)"
| "bindP (Some (Inr x)) k = k x"

lemma bindP_eq_ok: "bindP m k = Some (Inr y) \<longleftrightarrow> (\<exists>x. m = Some (Inr x) \<and> k x = Some (Inr y))"
  by (cases "(m, k)" rule: bindP.cases) auto

section \<open>The interface of an allocator\<close>

text \<open>
  \<open>nxt\<close> is one call of \<open>next()\<close>: its result, or the error it throws, with the state it leaves.
  \<open>sequenceOf s i\<close> is the index the allocator gives at position \<open>i\<close>.
\<close>

fun drawN :: "('s \<Rightarrow> ((allocError + nat) \<times> 's) option) \<Rightarrow> nat \<Rightarrow> 's \<Rightarrow> ((allocError + nat list) \<times> 's) option" where
  "drawN nxt 0 s = Some (Inr [], s)"
| "drawN nxt (Suc n) s = (case nxt s of None \<Rightarrow> None
     | Some (Inl e, t) \<Rightarrow> Some (Inl e, t)
     | Some (Inr i, t) \<Rightarrow> (case drawN nxt n t of None \<Rightarrow> None
         | Some (Inl e, u) \<Rightarrow> Some (Inl e, u)
         | Some (Inr is, u) \<Rightarrow> Some (Inr (i # is), u)))"

locale index_allocator =
  fixes inv :: "'s \<Rightarrow> bool"
    and nxt :: "'s \<Rightarrow> ((allocError + nat) \<times> 's) option"
    and size_of :: "'s \<Rightarrow> nat"
    and position_of :: "'s \<Rightarrow> nat"
    and advance :: "'s \<Rightarrow> 's"
    and sequenceOf :: "'s \<Rightarrow> nat \<Rightarrow> nat"
  assumes next_more: "inv s \<Longrightarrow> position_of s < size_of s \<Longrightarrow>
      nxt s = Some (Inr (sequenceOf s (position_of s)), advance s)"
    and next_done: "inv s \<Longrightarrow> size_of s \<le> position_of s \<Longrightarrow> nxt s = Some (Inl NoIndicesRemain, s)"
    and advance: "inv s \<Longrightarrow> position_of s < size_of s \<Longrightarrow>
      inv (advance s) \<and> size_of (advance s) = size_of s \<and> position_of (advance s) = Suc (position_of s)
      \<and> sequenceOf (advance s) = sequenceOf s"
    and sequence_range: "inv s \<Longrightarrow> i < size_of s \<Longrightarrow> sequenceOf s i < size_of s"
    and sequence_inj: "inv s \<Longrightarrow> inj_on (sequenceOf s) {..<size_of s}"
begin

lemma drawN_eq:
  "inv s \<Longrightarrow> position_of s + n \<le> size_of s \<Longrightarrow>
   drawN nxt n s = Some (Inr (map (sequenceOf s) [position_of s..<position_of s + n]), (advance ^^ n) s)"
proof (induction n arbitrary: s)
  case (Suc n)
  then have p: "position_of s < size_of s" by simp
  note a = advance [OF Suc.prems(1) p]
  have "drawN nxt n (advance s) = Some (Inr (map (sequenceOf s)
      [Suc (position_of s)..<Suc (position_of s) + n]), (advance ^^ n) (advance s))"
    using Suc.IH [of "advance s"] Suc.prems a by simp
  moreover have "[position_of s..<position_of s + Suc n]
      = position_of s # [Suc (position_of s)..<Suc (position_of s) + n]"
    by (simp add: upt_conv_Cons del: upt_Suc)
  ultimately show ?case using next_more [OF Suc.prems(1) p]
    by (simp add: funpow_swap1 del: upt_Suc)
qed simp

lemma draw_fresh:
  assumes "inv s" "position_of s + n \<le> size_of s"
  shows "\<exists>is t. drawN nxt n s = Some (Inr is, t) \<and> length is = n \<and> distinct is \<and> set is \<subseteq> {..<size_of s}"
proof -
  have "distinct (map (sequenceOf s) [position_of s..<position_of s + n])"
    using sequence_inj [OF assms(1)] assms(2)
    by (auto simp: distinct_map intro: inj_on_subset)
  moreover have "set (map (sequenceOf s) [position_of s..<position_of s + n]) \<subseteq> {..<size_of s}"
    using sequence_range [OF assms(1)] assms(2) by auto
  ultimately show ?thesis using drawN_eq [OF assms] by auto
qed

lemma advance_n:
  "inv s \<Longrightarrow> position_of s + n \<le> size_of s \<Longrightarrow>
   inv ((advance ^^ n) s) \<and> size_of ((advance ^^ n) s) = size_of s
   \<and> position_of ((advance ^^ n) s) = position_of s + n"
  by (induction n) (auto simp: advance)

lemma draw_all:
  assumes "inv s" "position_of s = 0"
  shows "\<exists>is t. drawN nxt (size_of s) s = Some (Inr is, t) \<and> distinct is \<and> set is = {..<size_of s}
    \<and> nxt t = Some (Inl NoIndicesRemain, t)"
proof -
  obtain "is" t where d: "drawN nxt (size_of s) s = Some (Inr is, t)" "length is = size_of s"
    "distinct is" "set is \<subseteq> {..<size_of s}"
    using draw_fresh [OF assms(1), of "size_of s"] assms(2) by auto
  have "card (set is) = size_of s" using d(2,3) by (simp add: distinct_card)
  then have "set is = {..<size_of s}" using d(4) by (simp add: card_subset_eq)
  moreover have "t = (advance ^^ size_of s) s"
    using drawN_eq [OF assms(1), of "size_of s"] assms(2) d(1) by simp
  then have "nxt t = Some (Inl NoIndicesRemain, t)"
    using advance_n [OF assms(1), of "size_of s"] assms(2) by (intro next_done) simp_all
  ultimately show ?thesis using d by blast
qed

end

section \<open>Random numbers from a seed\<close>

record seededRandom =
  sr_seed :: bytes
  sr_counter :: nat
  sr_buffer :: bytes
  sr_offset :: nat

definition uint32BE :: "nat \<Rightarrow> bytes" where
  "uint32BE n = [word_of_nat (n div 2 ^ 24), word_of_nat (n div 2 ^ 16), word_of_nat (n div 2 ^ 8), word_of_nat n]"

definition getUint32 :: "bytes \<Rightarrow> nat \<Rightarrow> nat" where
  "getUint32 bs i = unat (bs ! i) * 2 ^ 24 + unat (bs ! (i + 1)) * 2 ^ 16
                    + unat (bs ! (i + 2)) * 2 ^ 8 + unat (bs ! (i + 3))"

definition newSeededRandom :: "bytes \<Rightarrow> seededRandom" where
  "newSeededRandom seed = \<lparr>sr_seed = seed, sr_counter = 0, sr_buffer = [], sr_offset = 0\<rparr>"

definition nextUint32 :: "hasher \<Rightarrow> seededRandom \<Rightarrow> allocError + nat \<times> seededRandom" where
  "nextUint32 h r =
     bindR (if sr_offset r + 4 > length (sr_buffer r)
            then let digest = h (sr_seed r @ uint32BE (sr_counter r)) ''sha-256''
                 in if length digest < 4 then Inl (HasherTooShort (length digest))
                    else Inr (r\<lparr>sr_counter := sr_counter r + 1, sr_buffer := digest, sr_offset := 0\<rparr>)
            else Inr r)
       (\<lambda>r'. Inr (getUint32 (sr_buffer r') (sr_offset r'), r'\<lparr>sr_offset := sr_offset r' + 4\<rparr>))"

definition uint32Range :: nat where
  "uint32Range = 2 ^ 32"

definition rejectLimit :: "nat \<Rightarrow> nat" where
  "rejectLimit maxExclusive = uint32Range - uint32Range mod maxExclusive"

partial_function (option) nextInt :: "hasher \<Rightarrow> nat \<Rightarrow> seededRandom \<Rightarrow> (nat \<times> seededRandom) partial" where
  "nextInt h maxExclusive r =
     (case nextUint32 h r of Inl e \<Rightarrow> Some (Inl e)
      | Inr (value, r') \<Rightarrow> (if value \<ge> rejectLimit maxExclusive then nextInt h maxExclusive r'
                            else Some (Inr (value mod maxExclusive, r'))))"

section \<open>The shuffling allocator\<close>

record allocator =
  al_indices :: "nat list"
  al_seed :: bytes
  al_position :: nat

text \<open>The loop of \<open>create\<close> from \<open>index\<close> down to 1, swapping each entry with one at or below it.\<close>

definition swapAt :: "'a list \<Rightarrow> nat \<Rightarrow> nat \<Rightarrow> 'a list" where
  "swapAt xs i j = (let value = xs ! i in (xs[i := xs ! j])[j := value])"

fun shuffle :: "hasher \<Rightarrow> nat \<Rightarrow> nat list \<Rightarrow> seededRandom \<Rightarrow> nat list partial" where
  "shuffle h 0 indices r = Some (Inr indices)"
| "shuffle h (Suc k) indices r =
     bindP (nextInt h (Suc k + 1) r) (\<lambda>(swapIndex, r'). shuffle h k (swapAt indices (Suc k) swapIndex) r')"

definition validateLength :: "jsnum \<Rightarrow> allocError + nat" where
  "validateLength len = (case safeIntOf len of None \<Rightarrow> Inl (BadLength len)
     | Some z \<Rightarrow> if z \<le> 0 \<or> z > 2 ^ 32 - 1 then Inl (BadLength len) else Inr (nat z))"

definition validatePosition :: "jsnum \<Rightarrow> nat \<Rightarrow> allocError + nat" where
  "validatePosition position len = (case safeIntOf position of None \<Rightarrow> Inl (BadPosition position)
     | Some z \<Rightarrow> if z < 0 \<or> z > int len then Inl (BadPosition position) else Inr (nat z))"

definition validateSeed :: "bytes \<Rightarrow> allocError + unit" where
  "validateSeed seed = (if length seed = 0 then Inl EmptySeed else Inr ())"

definition createStatusListIndexAllocator ::
  "hasher \<Rightarrow> jsnum \<Rightarrow> bytes \<Rightarrow> jsnum option \<Rightarrow> allocator partial" where
  "createStatusListIndexAllocator h len seed position =
     bindP (Some (validateLength len)) (\<lambda>n.
     bindP (Some (validateSeed seed)) (\<lambda>_.
     bindP (Some (validatePosition (case position of None \<Rightarrow> jint 0 | Some p \<Rightarrow> p) n)) (\<lambda>pos.
     bindP (shuffle h (n - 1) [0..<n] (newSeededRandom seed)) (\<lambda>indices.
       Some (Inr \<lparr>al_indices = indices, al_seed = seed, al_position = pos\<rparr>)))))"

definition nextIndex :: "allocator \<Rightarrow> (allocError + nat) \<times> allocator" where
  "nextIndex a = (if al_position a \<ge> length (al_indices a) then (Inl NoIndicesRemain, a)
     else (Inr (al_indices a ! al_position a), a\<lparr>al_position := al_position a + 1\<rparr>))"

definition remaining :: "allocator \<Rightarrow> nat" where
  "remaining a = length (al_indices a) - al_position a"

definition getState :: "allocator \<Rightarrow> nat \<times> nat \<times> bytes" where
  "getState a = (length (al_indices a), al_position a, al_seed a)"

section \<open>The shuffle is a permutation\<close>

lemma length_swapAt [simp]: "length (swapAt xs i j) = length xs"
  by (simp add: swapAt_def Let_def)

lemma mset_swapAt: "i < length xs \<Longrightarrow> j < length xs \<Longrightarrow> mset (swapAt xs i j) = mset xs"
  by (simp add: swapAt_def Let_def mset_swap)

lemma nextInt_less:
  assumes "nextInt h m r = Some (Inr (v, r'))" and "0 < m"
  shows "v < m"
proof -
  have "\<forall>v r'. res = Inr (v, r') \<longrightarrow> 0 < m \<longrightarrow> v < m" if "nextInt h m r = Some res" for res
  proof (rule nextInt.raw_induct [where P = "\<lambda>h m r res. \<forall>v r'. res = Inr (v, r') \<longrightarrow> 0 < m \<longrightarrow> v < m", OF _ that])
    fix f h m r res
    assume IH: "\<And>h m r res. f h m r = Some res \<Longrightarrow> \<forall>v r'. res = Inr (v, r') \<longrightarrow> 0 < m \<longrightarrow> v < m"
      and eq: "(case nextUint32 h r of Inl e \<Rightarrow> Some (Inl e)
        | Inr (value, r') \<Rightarrow> (if rejectLimit m \<le> value then f h m r' else Some (Inr (value mod m, r')))) = Some res"
    show "\<forall>v r'. res = Inr (v, r') \<longrightarrow> 0 < m \<longrightarrow> v < m"
      using eq by (auto split: sum.splits prod.splits if_splits dest: IH)
  qed
  then show ?thesis using assms by blast
qed

lemma shuffle_mset:
  "shuffle h k xs r = Some (Inr ys) \<Longrightarrow> k < length xs \<Longrightarrow> mset ys = mset xs \<and> length ys = length xs"
proof (induction k arbitrary: xs r)
  case (Suc k)
  then obtain j r' where n: "nextInt h (Suc k + 1) r = Some (Inr (j, r'))"
    and s: "shuffle h k (swapAt xs (Suc k) j) r' = Some (Inr ys)"
    by (auto simp: bindP_eq_ok)
  have "j \<le> Suc k" using nextInt_less [OF n] by simp
  then show ?case using Suc.IH [OF s] Suc.prems(2) by (simp add: mset_swapAt)
qed simp

definition allocatorInv :: "allocator \<Rightarrow> bool" where
  "allocatorInv a = (mset (al_indices a) = mset [0..<length (al_indices a)]
                    \<and> al_position a \<le> length (al_indices a))"

lemma create_ok:
  assumes "createStatusListIndexAllocator h len seed position = Some (Inr a)"
  shows "allocatorInv a" "len = jint (int (length (al_indices a)))" "al_seed a = seed"
    "0 < length (al_indices a)"
    "(case position of None \<Rightarrow> jint 0 | Some p \<Rightarrow> p) = jint (int (al_position a))"
proof -
  obtain n pos idx where n: "validateLength len = Inr n"
    and pos: "validatePosition (case position of None \<Rightarrow> jint 0 | Some p \<Rightarrow> p) n = Inr pos"
    and sh: "shuffle h (n - 1) [0..<n] (newSeededRandom seed) = Some (Inr idx)"
    and a: "a = \<lparr>al_indices = idx, al_seed = seed, al_position = pos\<rparr>"
    using assms by (auto simp: createStatusListIndexAllocator_def bindP_eq_ok)
  have len: "len = jint (int n)" "0 < n"
    using n by (auto simp: validateLength_def split: option.splits if_splits dest: safeIntOf_Some)
  have p: "(case position of None \<Rightarrow> jint 0 | Some p \<Rightarrow> p) = jint (int pos)" "pos \<le> n"
    using pos by (auto simp: validatePosition_def split: option.splits if_splits dest: safeIntOf_Some)
  have m: "mset idx = mset [0..<n]" "length idx = n"
    using shuffle_mset [OF sh] len(2) by auto
  show "allocatorInv a" "len = jint (int (length (al_indices a)))" "al_seed a = seed"
    "0 < length (al_indices a)" "(case position of None \<Rightarrow> jint 0 | Some p \<Rightarrow> p) = jint (int (al_position a))"
    using a len p m by (simp_all add: allocatorInv_def)
qed

lemma allocatorInv_distinct:
  assumes "allocatorInv a"
  shows "distinct (al_indices a)" "set (al_indices a) = {..<length (al_indices a)}"
proof -
  have m: "mset (al_indices a) = mset [0..<length (al_indices a)]" using assms by (simp add: allocatorInv_def)
  show "distinct (al_indices a)" using mset_eq_imp_distinct_iff [OF m] by simp
  have "set (al_indices a) = set [0..<length (al_indices a)]" by (rule mset_eq_setD [OF m])
  then show "set (al_indices a) = {..<length (al_indices a)}" by (simp only: set_upt atLeast0LessThan)
qed

interpretation shuffled: index_allocator allocatorInv "\<lambda>a. Some (nextIndex a)" "\<lambda>a. length (al_indices a)"
  al_position "\<lambda>a. a\<lparr>al_position := al_position a + 1\<rparr>" "\<lambda>a i. al_indices a ! i"
proof unfold_locales
  fix a i assume inv: "allocatorInv a"
  note d = allocatorInv_distinct [OF inv]
  show "i < length (al_indices a) \<Longrightarrow> al_indices a ! i < length (al_indices a)"
    using d(2) nth_mem [of i "al_indices a"] by auto
  show "inj_on ((!) (al_indices a)) {..<length (al_indices a)}"
    using d(1) by (simp add: inj_on_nth)
qed (auto simp: nextIndex_def allocatorInv_def)

section \<open>Creation returns\<close>

text \<open>
  A digest with a word whose top bit is clear ends the rejection loop, because at least half of the
  32-bit range is accepted. For creation to return it is enough that every digest has four bytes and
  that after every counter value some later digest has such a word.
\<close>

definition goodDigest :: "bytes \<Rightarrow> bool" where
  "goodDigest d = (\<exists>k. 4 * k + 4 \<le> length d \<and> unat (d ! (4 * k)) < 128)"

definition productive :: "hasher \<Rightarrow> bytes \<Rightarrow> bool" where
  "productive h seed = ((\<forall>c. 4 \<le> length (h (seed @ uint32BE c) ''sha-256''))
     \<and> (\<forall>c. \<exists>c' \<ge> c. goodDigest (h (seed @ uint32BE c') ''sha-256'')))"

lemma rejectLimit_half: "0 < m \<Longrightarrow> m < 2 ^ 32 \<Longrightarrow> 2 ^ 31 \<le> rejectLimit m"
proof -
  assume m: "0 < m" "m < 2 ^ 32"
  have "uint32Range mod m \<le> 2 ^ 31"
  proof (cases "m \<le> 2 ^ 31")
    case True
    then show ?thesis using mod_less_divisor [OF m(1), of uint32Range] by linarith
  next
    case False
    have "uint32Range mod m = (uint32Range - m) mod m"
      using m by (simp add: uint32Range_def le_mod_geq)
    also have "\<dots> \<le> uint32Range - m" by (rule mod_less_eq_dividend)
    finally show ?thesis using False by (simp add: uint32Range_def)
  qed
  then show ?thesis by (simp add: rejectLimit_def uint32Range_def)
qed

lemma getUint32_less:
  assumes "unat (bs ! i) < 128"
  shows "getUint32 bs i < 2 ^ 31"
proof -
  have "unat (bs ! j) < 256" for j using unsigned_less [of "bs ! j", where 'a = nat] by simp
  from this [of "i + 1"] this [of "i + 2"] this [of "i + 3"] show ?thesis
    using assms by (simp add: getUint32_def)
qed

definition returnsFor :: "hasher \<Rightarrow> bytes \<Rightarrow> nat \<Rightarrow> seededRandom \<Rightarrow> bool" where
  "returnsFor h seed m r = (\<exists>v r'. nextInt h m r = Some (Inr (v, r')) \<and> sr_seed r' = seed)"

lemma nextUint32_seed: "nextUint32 h r = Inr (v, r') \<Longrightarrow> sr_seed r' = sr_seed r"
  by (auto simp: nextUint32_def Let_def split: if_splits)

lemma returnsFor_step:
  assumes "nextUint32 h r = Inr (v, r1)" "sr_seed r = seed" "v < rejectLimit m \<or> returnsFor h seed m r1"
  shows "returnsFor h seed m r"
  using assms nextUint32_seed [OF assms(1)]
  by (cases "v < rejectLimit m") (auto simp: returnsFor_def nextInt.simps [of h m r])

lemma nextUint32_buffered:
  fixes r :: seededRandom
  shows  "sr_offset r + 4 \<le> length (sr_buffer r) \<Longrightarrow>
   nextUint32 h r = Inr (getUint32 (sr_buffer r) (sr_offset r), r\<lparr>sr_offset := sr_offset r + 4\<rparr>)"
  by (simp add: nextUint32_def)

lemma returnsFor_good:
  fixes r :: seededRandom
  assumes m: "0 < m" "m < 2 ^ 32"
    and r: "sr_seed r = seed" "sr_offset r = 4 * j" "j \<le> k"
    and k: "4 * k + 4 \<le> length (sr_buffer r)" "unat (sr_buffer r ! (4 * k)) < 128"
  shows "returnsFor h seed m r"
  using r k
proof (induction "k - j" arbitrary: j r)
  case 0
  then have "j = k" by simp
  then have "getUint32 (sr_buffer r) (sr_offset r) < rejectLimit m"
    using 0 getUint32_less [of "sr_buffer r" "4 * k"] rejectLimit_half [OF m] by simp
  then show ?case using 0 \<open>j = k\<close> by (intro returnsFor_step [OF nextUint32_buffered]) auto
next
  case (Suc x)
  have "returnsFor h seed m (r\<lparr>sr_offset := sr_offset r + 4\<rparr>)"
    using Suc.prems Suc.hyps(2) by (intro Suc.hyps(1) [of "Suc j"]) auto
  then show ?case using Suc.prems by (intro returnsFor_step [OF nextUint32_buffered]) auto
qed

definition readyFor :: "hasher \<Rightarrow> bytes \<Rightarrow> nat \<Rightarrow> nat \<Rightarrow> bool" where
  "readyFor h seed m c = (\<forall>r. sr_seed r = seed \<and> sr_counter r = c \<and> length (sr_buffer r) < sr_offset r + 4
     \<longrightarrow> returnsFor h seed m r)"

lemma returnsFor_drain:
  fixes r :: seededRandom
  assumes "readyFor h seed m (sr_counter r)" "sr_seed r = seed"
  shows "returnsFor h seed m r"
  using assms
proof (induction "length (sr_buffer r) - sr_offset r" arbitrary: r rule: less_induct)
  case (less r)
  show ?case
  proof (cases "sr_offset r + 4 \<le> length (sr_buffer r)")
    case True
    have "returnsFor h seed m (r\<lparr>sr_offset := sr_offset r + 4\<rparr>)"
      by (rule less.hyps) (use less.prems True in simp_all)
    then show ?thesis
      by (intro returnsFor_step [OF nextUint32_buffered [OF True] less.prems(2)] disjI2)
  next
    case False
    then show ?thesis using less.prems by (simp add: readyFor_def)
  qed
qed

lemma nextInt_refill:
  fixes r :: seededRandom
  assumes "length (sr_buffer r) < sr_offset r + 4"
    and "4 \<le> length (h (sr_seed r @ uint32BE (sr_counter r)) ''sha-256'')"
  shows "nextInt h m r = nextInt h m (r\<lparr>sr_counter := sr_counter r + 1,
           sr_buffer := h (sr_seed r @ uint32BE (sr_counter r)) ''sha-256'', sr_offset := 0\<rparr>)"
proof -
  let ?r = "r\<lparr>sr_counter := sr_counter r + 1,
           sr_buffer := h (sr_seed r @ uint32BE (sr_counter r)) ''sha-256'', sr_offset := 0\<rparr>"
  have "nextUint32 h r = nextUint32 h ?r"
    using assms by (simp add: nextUint32_def Let_def)
  then show ?thesis by (simp only: nextInt.simps [of h m r] nextInt.simps [of h m ?r])
qed

lemma readyFor_good:
  assumes m: "0 < m" "m < 2 ^ 32" and p: "productive h seed"
    and c: "goodDigest (h (seed @ uint32BE c) ''sha-256'')"
  shows "readyFor h seed m c"
  unfolding readyFor_def
proof (intro allI impI, elim conjE)
  fix r :: seededRandom
  let ?d = "h (seed @ uint32BE c) ''sha-256''"
  let ?r = "r\<lparr>sr_counter := c + 1, sr_buffer := ?d, sr_offset := 0\<rparr>"
  assume r: "sr_seed r = seed" "sr_counter r = c" "length (sr_buffer r) < sr_offset r + 4"
  have "nextInt h m r = nextInt h m ?r"
    using nextInt_refill [of r h m] r p by (simp add: productive_def)
  moreover obtain k where k: "4 * k + 4 \<le> length ?d" "unat (?d ! (4 * k)) < 128"
    using c by (auto simp: goodDigest_def)
  have "returnsFor h seed m ?r"
    by (rule returnsFor_good [OF m, of _ seed 0 k]) (use r k in simp_all)
  ultimately show "returnsFor h seed m r" by (simp add: returnsFor_def)
qed

lemma readyFor_Suc:
  assumes p: "productive h seed" and n: "readyFor h seed m (c + 1)"
  shows "readyFor h seed m c"
  unfolding readyFor_def
proof (intro allI impI, elim conjE)
  fix r :: seededRandom
  let ?r = "r\<lparr>sr_counter := c + 1, sr_buffer := h (seed @ uint32BE c) ''sha-256'', sr_offset := 0\<rparr>"
  assume r: "sr_seed r = seed" "sr_counter r = c" "length (sr_buffer r) < sr_offset r + 4"
  have "nextInt h m r = nextInt h m ?r"
    using nextInt_refill [of r h m] r p by (simp add: productive_def)
  moreover have "returnsFor h seed m ?r"
    by (rule returnsFor_drain) (use r n in simp_all)
  ultimately show "returnsFor h seed m r" by (simp add: returnsFor_def)
qed

lemma readyFor_all:
  assumes m: "0 < m" "m < 2 ^ 32" and p: "productive h seed"
  shows "readyFor h seed m c"
proof -
  obtain c' where "c \<le> c'" "goodDigest (h (seed @ uint32BE c') ''sha-256'')"
    using p by (auto simp: productive_def)
  then show ?thesis
  proof (induction rule: inc_induct)
    case base
    then show ?case by (rule readyFor_good [OF m p])
  next
    case (step n)
    then show ?case using readyFor_Suc [OF p] by simp
  qed
qed

lemma nextInt_returns:
  "0 < m \<Longrightarrow> m < 2 ^ 32 \<Longrightarrow> productive h seed \<Longrightarrow> sr_seed r = seed \<Longrightarrow> returnsFor h seed m r"
  by (intro returnsFor_drain readyFor_all)

lemma shuffle_returns:
  assumes "productive h seed" "k + 1 < 2 ^ 32" "sr_seed r = seed"
  shows "\<exists>ys. shuffle h k xs r = Some (Inr ys)"
  using assms(2,3)
proof (induction k arbitrary: xs r)
  case (Suc k)
  obtain j r' where "nextInt h (Suc k + 1) r = Some (Inr (j, r'))" "sr_seed r' = seed"
    using nextInt_returns [OF _ _ assms(1) Suc.prems(2), of "Suc k + 1"] Suc.prems(1)
    by (auto simp: returnsFor_def)
  then show ?case using Suc by simp
qed simp

section \<open>The allocator from its creation to its end\<close>

lemma create_returns:
  assumes "productive h seed" "0 < n" "n < 2 ^ 32" "seed \<noteq> []" "p \<le> n"
  shows "\<exists>a. createStatusListIndexAllocator h (jint (int n)) seed (Some (jint (int p))) = Some (Inr a)"
proof -
  obtain idx where "shuffle h (n - 1) [0..<n] (newSeededRandom seed) = Some (Inr idx)"
    using shuffle_returns [OF assms(1), of "n - 1" "newSeededRandom seed" "[0..<n]"] assms(2,3)
    by (auto simp: newSeededRandom_def)
  moreover have "validateLength (jint (int n)) = Inr n"
    using assms(2,3) by (simp add: validateLength_def safeIntOf_jint maxSafe_def)
  moreover have "validatePosition (jint (int p)) n = Inr p"
    using assms(3,5) by (simp add: validatePosition_def safeIntOf_jint maxSafe_def)
  ultimately show ?thesis
    using assms(4) by (simp add: createStatusListIndexAllocator_def validateSeed_def)
qed

text \<open>
  C31. For a hasher whose digests are usable, creation of the shuffling allocator returns although its
  rejection loop has no bound of its own, and drawing as many indices as the list is long gives every
  index of the list exactly once; one more call of \<open>next\<close> throws and leaves the allocator as it is.
\<close>

theorem allocator_complete:
  assumes "productive h seed" and "0 < n" and "n < 2 ^ 32" and "seed \<noteq> []"
  shows "\<exists>a is t. createStatusListIndexAllocator h (jint (int n)) seed None = Some (Inr a)
    \<and> drawN (\<lambda>a. Some (nextIndex a)) n a = Some (Inr is, t)
    \<and> distinct is \<and> set is = {..<n} \<and> nextIndex t = (Inl NoIndicesRemain, t)"
proof -
  obtain a where c: "createStatusListIndexAllocator h (jint (int n)) seed None = Some (Inr a)"
    using create_returns [OF assms, of 0] by (auto simp: createStatusListIndexAllocator_def)
  note ok = create_ok [OF c]
  have n: "length (al_indices a) = n" and p: "al_position a = 0" using ok(2,5) by simp_all
  show ?thesis using c shuffled.draw_all [OF ok(1) p] unfolding n by auto
qed

definition sampleHasher :: hasher where
  "sampleHasher input alg = [0, 0, 0, 5, last input, 7, 1, 2]"

lemma allocator_complete_witness:
  "\<exists>a is t. createStatusListIndexAllocator sampleHasher (jint (int 40)) [1, 2, 3] None = Some (Inr a)
    \<and> drawN (\<lambda>a. Some (nextIndex a)) 40 a = Some (Inr is, t)
    \<and> distinct is \<and> set is = {..<40} \<and> nextIndex t = (Inl NoIndicesRemain, t)"
proof (rule allocator_complete)
  have "goodDigest (sampleHasher x y)" for x y
    unfolding goodDigest_def by (rule exI [of _ 0]) (simp add: sampleHasher_def)
  then have g: "\<exists>c' \<ge> c. goodDigest (sampleHasher (x @ uint32BE c') y)" for c x y by blast
  then show "productive sampleHasher [1, 2, 3]"
    unfolding productive_def by (intro conjI allI g) (simp add: sampleHasher_def)
qed simp_all

lemma drawN_state:
  "drawN (\<lambda>a. Some (nextIndex a)) k a = Some (r, t) \<Longrightarrow>
   t = a\<lparr>al_position := al_position t\<rparr> \<and> (allocatorInv a \<longrightarrow> allocatorInv t)"
proof (induction k arbitrary: a r t)
  case (Suc k)
  obtain q b where n: "nextIndex a = (q, b)" by (cases "nextIndex a")
  then have b: "b = a\<lparr>al_position := al_position b\<rparr> \<and> (allocatorInv a \<longrightarrow> allocatorInv b)"
    by (auto simp: nextIndex_def allocatorInv_def split: if_splits)
  show ?case
  proof (cases q)
    case (Inl e)
    then show ?thesis using Suc.prems n b by simp
  next
    case (Inr i)
    then obtain r' where "drawN (\<lambda>a. Some (nextIndex a)) k b = Some (r', t)"
      using Suc.prems n by (auto split: option.splits sum.splits)
    from Suc.IH [OF this] b show ?thesis
      by (metis allocator.surjective allocator.update_convs(3))
  qed
qed simp

text \<open>
  The state an allocator reports is enough to resume it: after any number of calls of \<open>next\<close>,
  creating an allocator from the reported length, position and seed gives an allocator in exactly
  the same state, so the indices it hands out from there on are the ones not handed out before.
\<close>

theorem allocator_resume:
  assumes "createStatusListIndexAllocator h len seed position = Some (Inr a)"
    and "drawN (\<lambda>a. Some (nextIndex a)) k a = Some (r, t)"
    and "getState t = (n, p, s)"
  shows "createStatusListIndexAllocator h (jint (int n)) s (Some (jint (int p))) = Some (Inr t)"
proof -
  note ok = create_ok [OF assms(1)]
  note d = drawN_state [OF assms(2)]
  obtain m q idx where v: "validateLength len = Inr m" "validateSeed seed = Inr ()"
      "shuffle h (m - 1) [0..<m] (newSeededRandom seed) = Some (Inr idx)"
    and a: "a = \<lparr>al_indices = idx, al_seed = seed, al_position = q\<rparr>"
    using assms(1) by (auto simp: createStatusListIndexAllocator_def bindP_eq_ok)
  have m: "length idx = m" using shuffle_mset [OF v(3)] v(1)
    by (auto simp: validateLength_def split: option.splits if_splits)
  have len: "len = jint (int m)" using ok(2) a m by simp
  have t: "t = \<lparr>al_indices = idx, al_seed = seed, al_position = al_position t\<rparr>"
    using d a by (metis allocator.update_convs(3))
  then have st: "n = m" "s = seed" "p = al_position t"
    using assms(3) m by (metis getState_def prod.inject allocator.select_convs(1,2))+
  have "al_position t \<le> length (al_indices t)" using d ok(1) by (simp add: allocatorInv_def)
  moreover have "length (al_indices t) = m" using t m by (metis allocator.select_convs(1))
  ultimately have "p \<le> m" using st by simp
  moreover have "m < 2 ^ 32" using v(1) len
    by (auto simp: validateLength_def safeIntOf_jint split: option.splits if_splits)
  ultimately have "validatePosition (jint (int p)) m = Inr p"
    by (simp add: validatePosition_def safeIntOf_jint maxSafe_def)
  then show ?thesis using v len st t
    by (simp add: createStatusListIndexAllocator_def)
qed


lemma allocator_resume_witness:
  "\<exists>a t. createStatusListIndexAllocator sampleHasher (jint 3) [1] None = Some (Inr a)
    \<and> drawN (\<lambda>a. Some (nextIndex a)) 2 a = Some (Inr [1, 0], t)
    \<and> createStatusListIndexAllocator sampleHasher (jint (int 3)) [1] (Some (jint (int 2))) = Some (Inr t)"
proof -
  let ?r = "\<lparr>sr_seed = [1], sr_counter = 1, sr_buffer = [0, 0, 0, 5, 0, 7, 1, 2], sr_offset = 4\<rparr>"
  note draw = nextUint32_def newSeededRandom_def sampleHasher_def getUint32_def rejectLimit_def
    uint32Range_def uint32BE_def
  have n1: "nextInt sampleHasher 3 (newSeededRandom [1]) = Some (Inr (2, ?r))"
    by (subst nextInt.simps) (simp add: draw)
  have n2: "nextInt sampleHasher 2 ?r = Some (Inr (0, ?r\<lparr>sr_offset := 8\<rparr>))"
    by (subst nextInt.simps) (simp add: draw)
  have "validateLength (jint 3) = Inr 3" "validateSeed [1] = Inr ()" "validatePosition (jint 0) 3 = Inr 0"
    by code_simp+
  moreover have "shuffle sampleHasher 2 [0, 1, 2] (newSeededRandom [1]) = Some (Inr [1, 0, 2])"
  proof -
    have s: "swapAt [0, 1, 2::nat] 2 2 = [0, 1, 2]" "swapAt [0, 1, 2::nat] 1 0 = [1, 0, 2]" by code_simp+
    have "shuffle sampleHasher (Suc 1) [0, 1, 2] (newSeededRandom [1])
        = bindP (nextInt sampleHasher 3 (newSeededRandom [1]))
            (\<lambda>(i, r). shuffle sampleHasher 1 (swapAt [0, 1, 2] 2 i) r)"
      by (subst shuffle.simps(2)) (simp only: Suc_1 nat_1_add_1 [symmetric] add_2_eq_Suc' numeral_3_eq_3 Suc_eq_plus1 add.assoc add_0)
    also have "\<dots> = shuffle sampleHasher (Suc 0) [0, 1, 2] ?r" using n1 s(1) by simp
    also have "\<dots> = Some (Inr [1, 0, 2])" using n2 s(2) by (simp add: numeral_2_eq_2 [symmetric])
    finally show ?thesis by (simp only: Suc_1)
  qed
  moreover have "[0..<3] = [0, 1, 2::nat]" by code_simp
  ultimately have c: "createStatusListIndexAllocator sampleHasher (jint 3) [1] None
      = Some (Inr \<lparr>al_indices = [1, 0, 2], al_seed = [1], al_position = 0\<rparr>)"
    by (simp add: createStatusListIndexAllocator_def)
  have d: "drawN (\<lambda>a. Some (nextIndex a)) 2 \<lparr>al_indices = [1, 0, 2], al_seed = [1], al_position = 0\<rparr>
      = Some (Inr [1, 0], \<lparr>al_indices = [1, 0, 2], al_seed = [1], al_position = 2\<rparr>)"
    by code_simp
  show ?thesis using c d allocator_resume [OF c d] by (auto simp: getState_def)
qed

end
