(* ===== verification/Ff1.thy ===== *)
theory Ff1 imports IndexAllocator BitStrings begin

text \<open>
  \<open>packages/token-status-list/src/ff1.ts\<close>, the format-preserving encryption FF1 of NIST SP 800-38G, and
  \<open>status-list-index-feistel.ts\<close>, the allocator that hands out the indices of a status list by
  encrypting their positions. The block cipher is a parameter. BigInts are natural numbers; the loop
  of \<open>next\<close> may not end, so its result is an option.
\<close>

section \<open>Bytes and blocks\<close>

definition blockSize :: nat where "blockSize = 16"
definition ff1Rounds :: nat where "ff1Rounds = 10"
definition minDomainSize :: nat where "minDomainSize = 1000000"

fun toBytes :: "nat \<Rightarrow> nat \<Rightarrow> bytes" where
  "toBytes value 0 = []"
| "toBytes value (Suc n) = toBytes (value div 256) n @ [word_of_nat (value mod 256)]"

definition fromBytes :: "bytes \<Rightarrow> nat" where
  "fromBytes bs = foldl (\<lambda>v b. push_bit 8 v OR unat b) 0 bs"

definition xorBytes :: "bytes \<Rightarrow> bytes \<Rightarrow> bytes" where
  "xorBytes l r = map (\<lambda>i. l ! i XOR (if i < length r then r ! i else 0)) [0..<length l]"

type_synonym encryptBlock = "bytes \<Rightarrow> bytes"

definition cipher :: "encryptBlock \<Rightarrow> bytes \<Rightarrow> allocError + bytes" where
  "cipher enc block = (let output = enc block in
     if length output \<noteq> blockSize then Inl (EncryptBlockLength (length output)) else Inr output)"

function cbcMac :: "encryptBlock \<Rightarrow> bytes \<Rightarrow> bytes \<Rightarrow> allocError + bytes" where
  "cbcMac enc state input = (if input = [] then Inr state
     else bindR (cipher enc (xorBytes state (take 16 input))) (\<lambda>y. cbcMac enc y (drop 16 input)))"
  by pat_completeness auto

termination
  by (relation "measure (\<lambda>(enc, state, input). length input)") auto

declare cbcMac.simps [simp del]

section \<open>Encryption\<close>

text \<open>The blocks of the key stream after the first, as long as more bytes are needed.\<close>

function moreBlocks :: "encryptBlock \<Rightarrow> bytes \<Rightarrow> nat \<Rightarrow> nat \<Rightarrow> allocError + bytes" where
  "moreBlocks enc r outputLength block =
     (if block * 16 < outputLength
      then bindR (cipher enc (xorBytes r (toBytes block 16))) (\<lambda>s.
        bindR (moreBlocks enc r outputLength (block + 1)) (\<lambda>ss. Inr (s @ ss)))
      else Inr [])"
  by pat_completeness auto

termination
  by (relation "measure (\<lambda>(enc, r, n, block). n - block * 16)") auto

declare moreBlocks.simps [simp del]

text \<open>What the rounds share: the two moduli, the lengths and the prefix with the MAC of its whole blocks.\<close>

record ff1State =
  ff_radixU :: nat
  ff_radixV :: nat
  ff_byteLength :: nat
  ff_outputLength :: nat
  ff_rest :: bytes
  ff_mac :: bytes

definition ff1Prefix :: "nat \<Rightarrow> nat \<Rightarrow> bytes \<Rightarrow> nat \<Rightarrow> bytes" where
  "ff1Prefix radix len tweak byteLength =
     [1, 2, 1] @ toBytes radix 3 @ [10, word_of_nat (len div 2 mod 256)] @ toBytes len 4 @ toBytes (length tweak) 4
     @ tweak @ replicate (nat ((- int (length tweak) - int byteLength - 1) mod 16)) 0"

definition ff1Setup :: "encryptBlock \<Rightarrow> nat \<Rightarrow> nat \<Rightarrow> bytes \<Rightarrow> allocError + ff1State" where
  "ff1Setup enc radix len tweak =
     (let u = len div 2; v = len - u; radixU = radix ^ u; radixV = radix ^ v;
          byteLength = ceilDiv (length (toBin (radixV - 1))) 8;
          outputLength = 4 * ceilDiv byteLength 4 + 4;
          prefix = ff1Prefix radix len tweak byteLength;
          fixedLength = length prefix - length prefix mod blockSize in
      bindR (cbcMac enc (replicate 16 0) (take fixedLength prefix)) (\<lambda>fixedMac.
        Inr \<lparr>ff_radixU = radixU, ff_radixV = radixV, ff_byteLength = byteLength, ff_outputLength = outputLength,
             ff_rest = drop fixedLength prefix, ff_mac = fixedMac\<rparr>))"

text \<open>The pseudorandom number of a round.\<close>

definition ff1Number :: "encryptBlock \<Rightarrow> ff1State \<Rightarrow> nat \<Rightarrow> nat \<Rightarrow> allocError + nat" where
  "ff1Number enc f rnd b =
     bindR (cbcMac enc (ff_mac f) (ff_rest f @ [word_of_nat rnd] @ toBytes b (ff_byteLength f))) (\<lambda>r.
     bindR (moreBlocks enc r (ff_outputLength f) 1) (\<lambda>more.
       Inr (fromBytes (take (ff_outputLength f) (r @ more)))))"

definition ff1Round :: "encryptBlock \<Rightarrow> ff1State \<Rightarrow> nat \<times> nat \<Rightarrow> nat \<Rightarrow> allocError + nat \<times> nat" where
  "ff1Round enc f ab rnd =
     bindR (ff1Number enc f rnd (snd ab)) (\<lambda>y.
       Inr (snd ab, (fst ab + y) mod (if rnd mod 2 = 0 then ff_radixU f else ff_radixV f)))"

definition ff1Encrypt :: "encryptBlock \<Rightarrow> int \<Rightarrow> int \<Rightarrow> int \<Rightarrow> bytes \<Rightarrow> allocError + nat" where
  "ff1Encrypt enc value len radix tweak =
     (if radix < 2 \<or> radix > 2 ^ 16 then Inl Ff1BadRadix
      else if len < 2 \<or> len \<ge> 2 ^ 32 \<or> nat radix ^ nat len < minDomainSize then Inl Ff1BadDomain
      else if value < 0 \<or> value \<ge> radix ^ nat len then Inl Ff1OutsideDomain
      else bindR (ff1Setup enc (nat radix) (nat len) tweak) (\<lambda>f.
        bindR (foldR (ff1Round enc f) (nat value div ff_radixV f, nat value mod ff_radixV f) [0..<ff1Rounds]) (\<lambda>(a, b).
          Inr (a * ff_radixV f + b))))"

section \<open>The allocator\<close>

record feistelAllocator =
  fa_length :: nat
  fa_bits :: nat
  fa_tweak :: "bytes option"
  fa_position :: nat

definition minLength :: nat where "minLength = 1000000"

definition createFeistelAllocator :: "jsnum \<Rightarrow> jsnum option \<Rightarrow> bytes option \<Rightarrow> allocError + feistelAllocator" where
  "createFeistelAllocator len position tweak =
     (let pos = (case position of None \<Rightarrow> jint 0 | Some p \<Rightarrow> p) in
      case safeIntOf len of
        None \<Rightarrow> Inl (BadLength len)
      | Some n \<Rightarrow>
          if n < int minLength \<or> n > 0xffffffff then Inl (BadLength len)
          else (case safeIntOf pos of
              None \<Rightarrow> Inl (BadPosition pos)
            | Some k \<Rightarrow> if k < 0 \<or> k > n then Inl (BadPosition pos)
                else Inr \<lparr>fa_length = nat n, fa_bits = length (toBin (nat n - 1)), fa_tweak = tweak, fa_position = nat k\<rparr>))"

text \<open>Encrypting until the result lies in the list.\<close>

partial_function (option) cycleWalk :: "(nat \<Rightarrow> allocError + nat) \<Rightarrow> nat \<Rightarrow> nat \<Rightarrow> (allocError + nat) option" where
  "cycleWalk e len value = (case e value of
       Inl err \<Rightarrow> Some (Inl err)
     | Inr w \<Rightarrow> if w \<ge> len then cycleWalk e len w else Some (Inr w))"

definition encryptPosition :: "encryptBlock \<Rightarrow> feistelAllocator \<Rightarrow> nat \<Rightarrow> allocError + nat" where
  "encryptPosition enc a value = ff1Encrypt enc (int value) (int (fa_bits a)) 2
     (case fa_tweak a of None \<Rightarrow> [] | Some t \<Rightarrow> t)"

definition feistelNext :: "encryptBlock \<Rightarrow> feistelAllocator \<Rightarrow> ((allocError + nat) \<times> feistelAllocator) option" where
  "feistelNext enc a =
     (if fa_position a \<ge> fa_length a then Some (Inl NoIndicesRemain, a)
      else (case cycleWalk (encryptPosition enc a) (fa_length a) (fa_position a) of
          None \<Rightarrow> None
        | Some r \<Rightarrow> Some (r, a\<lparr>fa_position := fa_position a + 1\<rparr>)))"

definition feistelRemaining :: "feistelAllocator \<Rightarrow> nat" where
  "feistelRemaining a = fa_length a - fa_position a"

definition feistelState :: "feistelAllocator \<Rightarrow> nat \<times> nat \<times> bytes option" where
  "feistelState a = (fa_length a, fa_position a, fa_tweak a)"

section \<open>Every step returns\<close>

definition blockCipher :: "encryptBlock \<Rightarrow> bool" where
  "blockCipher enc = (\<forall>b. length b = 16 \<longrightarrow> length (enc b) = 16)"

lemma length_toBytes [simp]: "length (toBytes v n) = n"
  by (induction n arbitrary: v) auto

lemma length_xorBytes [simp]: "length (xorBytes l r) = length l"
  by (simp add: xorBytes_def)

lemma cipher_ok:
  assumes "blockCipher enc" "length b = 16"
  obtains s where "cipher enc b = Inr s" "length s = 16"
  using assms that by (auto simp: cipher_def blockCipher_def blockSize_def)

lemma cbcMac_ok: "blockCipher enc \<Longrightarrow> length state = 16 \<Longrightarrow> \<exists>y. cbcMac enc state input = Inr y \<and> length y = 16"
proof (induction enc state input rule: cbcMac.induct)
  case (1 enc state input)
  obtain s where "cipher enc (xorBytes state (take 16 input)) = Inr s" "length s = 16"
    by (rule cipher_ok [OF "1.prems"(1)]) (auto simp: "1.prems")
  then show ?case using 1 by (auto simp: cbcMac.simps [of enc state input])
qed

lemma moreBlocks_ok: "blockCipher enc \<Longrightarrow> length r = 16 \<Longrightarrow> \<exists>s. moreBlocks enc r n block = Inr s"
proof (induction enc r n block rule: moreBlocks.induct)
  case (1 enc r n block)
  obtain s where "cipher enc (xorBytes r (toBytes block 16)) = Inr s" "length s = 16"
    by (rule cipher_ok [OF "1.prems"(1)]) (auto simp: "1.prems")
  then show ?case using 1 by (auto simp: moreBlocks.simps [of enc r n block])
qed

lemma ff1Number_ok: "blockCipher enc \<Longrightarrow> length (ff_mac f) = 16 \<Longrightarrow> \<exists>y. ff1Number enc f rnd b = Inr y"
  unfolding ff1Number_def
  using cbcMac_ok [of enc "ff_mac f" "ff_rest f @ [word_of_nat rnd] @ toBytes b (ff_byteLength f)"]
    moreBlocks_ok [of enc] by fastforce

definition roundNumber :: "encryptBlock \<Rightarrow> ff1State \<Rightarrow> nat \<Rightarrow> nat \<Rightarrow> nat" where
  "roundNumber enc f rnd b = projr (ff1Number enc f rnd b)"

lemma ff1Round_eq: "blockCipher enc \<Longrightarrow> length (ff_mac f) = 16 \<Longrightarrow> ff1Round enc f ab rnd =
  Inr (snd ab, (fst ab + roundNumber enc f rnd (snd ab)) mod (if even rnd then ff_radixU f else ff_radixV f))"
  using ff1Number_ok [of enc f rnd "snd ab"] by (auto simp: ff1Round_def roundNumber_def even_iff_mod_2_eq_zero)

section \<open>The rounds are a permutation\<close>

text \<open>A Feistel network with two moduli, for any round function \<open>F\<close>.\<close>

fun feistel :: "nat \<Rightarrow> nat \<Rightarrow> (nat \<Rightarrow> nat \<Rightarrow> nat) \<Rightarrow> nat \<Rightarrow> nat \<times> nat \<Rightarrow> nat \<times> nat" where
  "feistel u v F 0 ab = ab"
| "feistel u v F (Suc n) ab = (let (a, b) = feistel u v F n ab in
     (b, (a + F n b) mod (if even n then u else v)))"

definition halves :: "nat \<Rightarrow> nat \<Rightarrow> nat \<Rightarrow> (nat \<times> nat) set" where
  "halves u v n = (if even n then {..<u} \<times> {..<v} else {..<v} \<times> {..<u})"

lemma feistel_range: "0 < u \<Longrightarrow> 0 < v \<Longrightarrow> ab \<in> halves u v 0 \<Longrightarrow> feistel u v F n ab \<in> halves u v n"
  by (induction n) (auto simp: halves_def Let_def split: prod.splits if_splits)

lemma mod_shift_le: "(a + y) mod m = (a' + y) mod m \<Longrightarrow> a' < m \<Longrightarrow> a \<le> a' \<Longrightarrow> a = (a'::nat)"
  using mod_eq_dvd_iff_nat [of "a + y" "a' + y" m] dvd_imp_le [of m "a' - a"] by fastforce

lemma mod_shift_inject: "(a + y) mod m = (a' + y) mod m \<Longrightarrow> a < m \<Longrightarrow> a' < m \<Longrightarrow> a = (a'::nat)"
  using mod_shift_le [of a y m a'] mod_shift_le [of a' y m a] by linarith

lemma feistel_inject:
  "0 < u \<Longrightarrow> 0 < v \<Longrightarrow> x \<in> halves u v 0 \<Longrightarrow> y \<in> halves u v 0 \<Longrightarrow> feistel u v F n x = feistel u v F n y \<Longrightarrow> x = y"
proof (induction n)
  case (Suc n)
  obtain a b a' b' where x: "feistel u v F n x = (a, b)" "feistel u v F n y = (a', b')" by (metis surj_pair)
  let ?m = "if even n then u else v"
  have e: "b = b'" "(a + F n b) mod ?m = (a' + F n b) mod ?m" using Suc.prems(5) x by auto
  have "a < ?m" "a' < ?m"
    using feistel_range [OF Suc.prems(1,2,3), of F n] feistel_range [OF Suc.prems(1,2,4), of F n] x
    by (auto simp: halves_def split: if_splits)
  then have "a = a'" using mod_shift_inject [OF e(2)] by blast
  then show ?case using Suc.IH Suc.prems x e(1) by simp
qed simp

lemma rounds_feistel:
  assumes "blockCipher enc" "length (ff_mac f) = 16"
  shows "foldR (ff1Round enc f) ab [0..<n] = Inr (feistel (ff_radixU f) (ff_radixV f) (roundNumber enc f) n ab)"
proof (induction n)
  case (Suc n)
  then show ?case
    by (simp add: foldR_append ff1Round_eq [OF assms] Let_def case_prod_beta del: upt_Suc add: upt_Suc_append)
qed simp

definition joinHalves :: "nat \<Rightarrow> nat \<times> nat \<Rightarrow> nat" where
  "joinHalves v ab = fst ab * v + snd ab"

lemma joinHalves_less: "ab \<in> halves u v 0 \<Longrightarrow> joinHalves v ab < u * v"
proof -
  assume "ab \<in> halves u v 0"
  then have ab: "Suc (fst ab) \<le> u" "snd ab < v" by (auto simp: halves_def)
  then have "Suc (fst ab) * v \<le> u * v" by (intro mult_le_mono1)
  then show ?thesis using ab(2) by (simp add: joinHalves_def)
qed

lemma joinHalves_div: "ab \<in> halves u v 0 \<Longrightarrow> joinHalves v ab div v = fst ab \<and> joinHalves v ab mod v = snd ab"
  by (auto simp: halves_def joinHalves_def)

lemma split_halves: "x < u * v \<Longrightarrow> (x div v, x mod v) \<in> halves u v 0"
  by (cases "v = 0") (auto simp: halves_def less_mult_imp_div_less)

lemma feistel_bij:
  assumes "0 < u" "0 < v" "even n"
  shows "bij_betw (\<lambda>x. joinHalves v (feistel u v F n (x div v, x mod v))) {..<u * v} {..<u * v}"
proof -
  let ?f = "\<lambda>x. feistel u v F n (x div v, x mod v)"
  have r: "?f x \<in> halves u v 0" if "x < u * v" for x
    using feistel_range [OF assms(1,2) split_halves [OF that], of F n] assms(3) by (simp add: halves_def)
  have "x = y" if xy: "x < u * v" "y < u * v" "joinHalves v (?f x) = joinHalves v (?f y)" for x y
  proof -
    have "fst (?f x) = fst (?f y)" "snd (?f x) = snd (?f y)"
      using joinHalves_div [OF r [OF xy(1)]] joinHalves_div [OF r [OF xy(2)]] xy(3) by simp_all
    then have "?f x = ?f y" by (rule prod_eqI)
    then have "(x div v, x mod v) = (y div v, y mod v)"
      by (rule feistel_inject [OF assms(1,2) split_halves [OF xy(1)] split_halves [OF xy(2)]])
    then show ?thesis by (metis div_mult_mod_eq prod.inject)
  qed
  then have "inj_on (\<lambda>x. joinHalves v (?f x)) {..<u * v}" by (intro inj_onI) simp
  moreover have "(\<lambda>x. joinHalves v (?f x)) ` {..<u * v} \<subseteq> {..<u * v}"
    using joinHalves_less [OF r] by auto
  ultimately show ?thesis by (simp add: bij_betw_def endo_inj_surj)
qed

lemma ff1Setup_ok:
  assumes "blockCipher enc"
  obtains f where "ff1Setup enc radix len tweak = Inr f" "ff_radixU f = radix ^ (len div 2)"
    "ff_radixV f = radix ^ (len - len div 2)" "length (ff_mac f) = 16"
proof -
  let ?b = "ceilDiv (length (toBin (radix ^ (len - len div 2) - 1))) 8"
  let ?p = "ff1Prefix radix len tweak ?b"
  obtain y where "cbcMac enc (replicate 16 0) (take (length ?p - length ?p mod blockSize) ?p) = Inr y" "length y = 16"
    using cbcMac_ok [OF assms, of "replicate 16 0"] by auto
  then show thesis by (intro that) (auto simp: ff1Setup_def Let_def)
qed

text \<open>The permutation FF1 computes for a key, a radix, a length and a tweak.\<close>

definition ff1Permutation :: "encryptBlock \<Rightarrow> nat \<Rightarrow> nat \<Rightarrow> bytes \<Rightarrow> nat \<Rightarrow> nat" where
  "ff1Permutation enc radix len tweak value = projr (ff1Encrypt enc (int value) (int len) (int radix) tweak)"

lemma ff1_eq:
  assumes "blockCipher enc" and "2 \<le> radix" "radix \<le> 2 ^ 16" "2 \<le> len" "len < 2 ^ 32" "minDomainSize \<le> radix ^ len"
  shows "(\<forall>value < radix ^ len. ff1Encrypt enc (int value) (int len) (int radix) tweak
       = Inr (ff1Permutation enc radix len tweak value))
    \<and> bij_betw (ff1Permutation enc radix len tweak) {..<radix ^ len} {..<radix ^ len}"
proof -
  obtain f where f: "ff1Setup enc radix len tweak = Inr f" "ff_radixU f = radix ^ (len div 2)"
    "ff_radixV f = radix ^ (len - len div 2)" "length (ff_mac f) = 16"
    by (rule ff1Setup_ok [OF assms(1)])
  let ?u = "radix ^ (len div 2)" and ?v = "radix ^ (len - len div 2)"
  let ?E = "\<lambda>x. joinHalves ?v (feistel ?u ?v (roundNumber enc f) ff1Rounds (x div ?v, x mod ?v))"
  have uv: "?u * ?v = radix ^ len" by (simp add: power_add [symmetric])
  have radix: "\<not> int radix < 2" "\<not> 2 ^ 16 < int radix" using assms(2,3) by simp_all
  have len: "\<not> int len < 2" "\<not> 2 ^ 32 \<le> int len" using assms(4,5) by simp_all
  have dom: "\<not> int radix ^ len \<le> int x" if "x < radix ^ len" for x
    using that by (metis not_le of_nat_le_iff of_nat_power)
  have e: "ff1Encrypt enc (int x) (int len) (int radix) tweak = Inr (?E x)" if "x < radix ^ len" for x
    unfolding ff1Encrypt_def
    using radix len dom [OF that] assms(6)
    by (simp add: f rounds_feistel [OF assms(1) f(4)] case_prod_beta joinHalves_def)
  then have p: "ff1Permutation enc radix len tweak x = ?E x" if "x < radix ^ len" for x
    using that by (simp add: ff1Permutation_def)
  have "bij_betw ?E {..<?u * ?v} {..<?u * ?v}"
    using assms(2) by (intro feistel_bij) (auto simp: ff1Rounds_def)
  then have "bij_betw (ff1Permutation enc radix len tweak) {..<radix ^ len} {..<radix ^ len}"
    unfolding uv by (subst bij_betw_cong [of _ _ ?E]) (auto simp: p)
  then show ?thesis using e p by simp
qed

text \<open>
  C16. FF1 is format preserving: under every block cipher with blocks of 16 bytes, and for every radix,
  length and tweak it accepts, encryption of the numbers of that length returns (no check fails, every
  block is a whole block) and is a permutation of them.
\<close>

theorem ff1_permutation:
  assumes "blockCipher enc" and "2 \<le> radix" "radix \<le> 2 ^ 16" "2 \<le> len" "len < 2 ^ 32" "1000000 \<le> radix ^ len"
  shows "\<exists>E. (\<forall>value < radix ^ len. ff1Encrypt enc (int value) (int len) (int radix) tweak = Inr (E value))
    \<and> bij_betw E {..<radix ^ len} {..<radix ^ len}"
  using ff1_eq [OF assms(1-5), of tweak] assms(6) unfolding minDomainSize_def by blast

theorem ff1_permutation_witness:
  "\<exists>E. (\<forall>value < 10 ^ 6. ff1Encrypt (map NOT) (int value) 6 10 [7] = Inr (E value))
    \<and> bij_betw E {..<10 ^ 6 :: nat} {..<10 ^ 6}"
  using ff1_permutation [of "map NOT" 10 6 "[7]"] by (simp add: blockCipher_def)

section \<open>Cycle walking\<close>

text \<open>The first return to the list of a permutation of a larger domain.\<close>

lemma iterate_in: "bij_betw E D D \<Longrightarrow> y \<in> D \<Longrightarrow> (E ^^ k) y \<in> D"
  by (induction k) (simp_all add: bij_betw_apply)

lemma iterate_inject:
  assumes b: "bij_betw E D D"
  shows "(E ^^ k) y = (E ^^ k) z \<Longrightarrow> y \<in> D \<Longrightarrow> z \<in> D \<Longrightarrow> y = z"
proof (induction k)
  case (Suc k)
  have "E ((E ^^ k) y) = E ((E ^^ k) z)" using Suc.prems(1) by simp
  then have "(E ^^ k) y = (E ^^ k) z"
    using iterate_in [OF b Suc.prems(2)] iterate_in [OF b Suc.prems(3)] bij_betw_imp_inj_on [OF b]
    by (simp add: inj_on_eq_iff)
  then show ?case using Suc by simp
qed simp

lemma returns_to:
  fixes E :: "nat \<Rightarrow> nat"
  assumes b: "bij_betw E D D" and "finite D" "x \<in> D"
  shows "\<exists>k. (E ^^ Suc k) x = x"
proof -
  have "range (\<lambda>k. (E ^^ k) x) \<subseteq> D" using iterate_in [OF b assms(3)] by auto
  then have "\<not> inj (\<lambda>k. (E ^^ k) x)"
    using assms(2) finite_imageD [of "\<lambda>k. (E ^^ k) x" UNIV] finite_subset by auto
  then obtain i j where ij: "i < j" "(E ^^ i) x = (E ^^ j) x"
    unfolding inj_def by (metis linorder_neqE_nat)
  obtain k where k: "j = i + Suc k" using less_imp_Suc_add [OF ij(1)] by auto
  have "(E ^^ i) x = (E ^^ i) ((E ^^ Suc k) x)"
    using ij(2) unfolding k funpow_add comp_apply .
  then have "x = (E ^^ Suc k) x"
    by (rule iterate_inject [OF b _ assms(3) iterate_in [OF b assms(3)]])
  then show ?thesis by metis
qed

definition stepsBack :: "(nat \<Rightarrow> nat) \<Rightarrow> nat \<Rightarrow> nat \<Rightarrow> nat" where
  "stepsBack E len x = (LEAST k. (E ^^ Suc k) x < len)"

definition firstReturn :: "(nat \<Rightarrow> nat) \<Rightarrow> nat \<Rightarrow> nat \<Rightarrow> nat" where
  "firstReturn E len x = (E ^^ Suc (stepsBack E len x)) x"

lemma firstReturn_less:
  assumes "bij_betw E {..<n} {..<n}" "len \<le> n" "x < len"
  shows "firstReturn E len x < len"
proof -
  obtain k where "(E ^^ Suc k) x = x" using returns_to [OF assms(1), of x] assms(2,3) by auto
  then have "(E ^^ Suc k) x < len" using assms(3) by simp
  then show ?thesis unfolding firstReturn_def stepsBack_def by (rule LeastI)
qed

lemma firstReturn_inj_le:
  assumes b: "bij_betw E {..<n} {..<n}" "len \<le> n" and xy: "x < len" "y < len"
    and eq: "firstReturn E len x = firstReturn E len y" and le: "stepsBack E len x \<le> stepsBack E len y"
  shows "x = y"
proof (rule ccontr)
  assume ne: "x \<noteq> y"
  let ?k = "Suc (stepsBack E len x)"
  obtain d where d: "stepsBack E len y = stepsBack E len x + d" using le le_Suc_ex by blast
  have dom: "x \<in> {..<n}" "y \<in> {..<n}" using xy b(2) by auto
  have "(E ^^ ?k) x = (E ^^ (?k + d)) y"
    using eq d unfolding firstReturn_def by (simp only: add_Suc)
  then have "(E ^^ ?k) x = (E ^^ ?k) ((E ^^ d) y)"
    by (simp only: funpow_add comp_apply)
  then have x: "x = (E ^^ d) y"
    by (rule iterate_inject [OF b(1) _ dom(1) iterate_in [OF b(1) dom(2)]])
  then obtain d' where d': "d = Suc d'" using ne by (cases d) auto
  have "(E ^^ Suc d') y < len" using xy(1) x unfolding d' by (simp only:)
  then have "stepsBack E len y \<le> d'" unfolding stepsBack_def by (rule Least_le)
  then show False using d d' by simp
qed

lemma firstReturn_inj:
  assumes "bij_betw E {..<n} {..<n}" "len \<le> n"
  shows "inj_on (firstReturn E len) {..<len}"
  using firstReturn_inj_le [OF assms] by (intro inj_onI) (metis lessThan_iff linear)

lemma cycleWalk_steps:
  assumes e: "\<And>y. y < n \<Longrightarrow> e y = Inr (E y)" and b: "bij_betw E {..<n} {..<n}"
  shows "x < n \<Longrightarrow> (E ^^ Suc k) x < len \<Longrightarrow> \<forall>j<k. \<not> (E ^^ Suc j) x < len \<Longrightarrow>
    cycleWalk e len x = Some (Inr ((E ^^ Suc k) x))"
proof (induction k arbitrary: x)
  case 0
  then show ?case by (subst cycleWalk.simps) (simp add: e)
next
  case (Suc k)
  have shift: "(E ^^ Suc j) (E x) = (E ^^ Suc (Suc j)) x" for j by (simp add: funpow_swap1)
  have "E x < n" using bij_betw_apply [OF b, of x] Suc.prems(1) by simp
  moreover have "\<forall>j<k. \<not> (E ^^ Suc j) (E x) < len" using Suc.prems(3) unfolding shift by auto
  ultimately have "cycleWalk e len (E x) = Some (Inr ((E ^^ Suc (Suc k)) x))"
    using Suc.IH [of "E x"] Suc.prems(2) unfolding shift by blast
  moreover have "\<not> E x < len" using Suc.prems(3) by force
  ultimately show ?case by (subst cycleWalk.simps) (simp add: e [OF Suc.prems(1)])
qed

lemma cycleWalk_firstReturn:
  assumes "\<And>y. y < n \<Longrightarrow> e y = Inr (E y)" "bij_betw E {..<n} {..<n}" "len \<le> n" "x < len"
  shows "cycleWalk e len x = Some (Inr (firstReturn E len x))"
  unfolding firstReturn_def
proof (rule cycleWalk_steps [OF assms(1,2)])
  show "(E ^^ Suc (stepsBack E len x)) x < len"
    using firstReturn_less [OF assms(2,3,4)] by (simp add: firstReturn_def)
  show "\<forall>j < stepsBack E len x. \<not> (E ^^ Suc j) x < len"
    unfolding stepsBack_def using not_less_Least by blast
qed (use assms in auto)

section \<open>The allocator hands out every index once\<close>

definition feistelInv :: "feistelAllocator \<Rightarrow> bool" where
  "feistelInv a = (minLength \<le> fa_length a \<and> fa_length a \<le> 0xffffffff
     \<and> fa_bits a = length (toBin (fa_length a - 1)) \<and> fa_position a \<le> fa_length a)"

definition tweakOf :: "feistelAllocator \<Rightarrow> bytes" where
  "tweakOf a = (case fa_tweak a of None \<Rightarrow> [] | Some t \<Rightarrow> t)"

definition feistelIndex :: "encryptBlock \<Rightarrow> feistelAllocator \<Rightarrow> nat \<Rightarrow> nat" where
  "feistelIndex enc a = firstReturn (ff1Permutation enc 2 (fa_bits a) (tweakOf a)) (fa_length a)"

lemma feistelInv_bits:
  assumes "feistelInv a"
  shows "fa_length a \<le> 2 ^ fa_bits a" "2 \<le> fa_bits a" "fa_bits a < 2 ^ 32" "minDomainSize \<le> 2 ^ fa_bits a"
proof -
  let ?n = "fa_length a"
  have n: "1000000 \<le> ?n" "?n \<le> 0xffffffff" "fa_bits a = length (toBin (?n - 1))"
    using assms by (auto simp: feistelInv_def minLength_def)
  have "?n - 1 < 2 ^ fa_bits a" using parseBin_less [of "toBin (?n - 1)"] by (simp add: parseBin_toBin n(3))
  then show a: "?n \<le> 2 ^ fa_bits a" using n(1) by simp
  then show "minDomainSize \<le> 2 ^ fa_bits a" using n(1) by (simp add: minDomainSize_def)
  show "2 \<le> fa_bits a"
  proof (rule ccontr)
    assume "\<not> 2 \<le> fa_bits a"
    then have "(2::nat) ^ fa_bits a \<le> 2 ^ 1" by (intro power_increasing) auto
    then show False using a n(1) by simp
  qed
  have "fa_bits a \<le> 32" unfolding n(3) using n(1,2) by (intro length_toBin) simp_all
  then show "fa_bits a < 2 ^ 32" by simp
qed

lemma cycleWalk_position:
  assumes "blockCipher enc" "feistelInv a" "i < fa_length a"
  shows "cycleWalk (encryptPosition enc a) (fa_length a) i = Some (Inr (feistelIndex enc a i))"
proof -
  note bits = feistelInv_bits [OF assms(2)]
  note p = ff1_eq [OF assms(1), of 2 "fa_bits a" "tweakOf a"]
  have "encryptPosition enc a y = Inr (ff1Permutation enc 2 (fa_bits a) (tweakOf a) y)" if "y < 2 ^ fa_bits a" for y
    using p bits that by (simp add: encryptPosition_def tweakOf_def)
  then show ?thesis unfolding feistelIndex_def
    by (rule cycleWalk_firstReturn) (use p bits assms(3) in simp_all)
qed

interpretation feistel: index_allocator "\<lambda>a. blockCipher enc \<and> feistelInv a" "feistelNext enc" fa_length fa_position
  "\<lambda>a. a\<lparr>fa_position := fa_position a + 1\<rparr>" "feistelIndex enc" for enc
proof unfold_locales
  fix a i assume inv: "blockCipher enc \<and> feistelInv a"
  note bits = feistelInv_bits [OF conjunct2 [OF inv]]
  have b: "bij_betw (ff1Permutation enc 2 (fa_bits a) (tweakOf a)) {..<2 ^ fa_bits a} {..<2 ^ fa_bits a}"
    using ff1_eq [OF conjunct1 [OF inv], of 2 "fa_bits a" "tweakOf a"] bits by simp
  show "i < fa_length a \<Longrightarrow> feistelIndex enc a i < fa_length a"
    unfolding feistelIndex_def by (rule firstReturn_less [OF b bits(1)])
  show "inj_on (feistelIndex enc a) {..<fa_length a}"
    unfolding feistelIndex_def by (rule firstReturn_inj [OF b bits(1)])
qed (auto simp: feistelNext_def cycleWalk_position feistelInv_def feistelIndex_def fun_eq_iff tweakOf_def)

lemma createFeistel_inv:
  assumes "createFeistelAllocator (jint n) position tweak = Inr a"
  shows "feistelInv a \<and> fa_length a = nat n \<and> fa_tweak a = tweak
    \<and> (case position of None \<Rightarrow> jint 0 | Some p \<Rightarrow> p) = jint (int (fa_position a))"
  using assms
  by (auto simp: createFeistelAllocator_def safeIntOf_jint feistelInv_def minLength_def Let_def
      dest!: safeIntOf_Some split: option.splits if_splits)

text \<open>
  C17. The Feistel allocator hands out every index of its list exactly once, in any order the key and the
  tweak give: a new allocator answers as many calls of \<open>next\<close> as the list has indices (the cycle walk
  always ends), the answers are all the indices without repetition, and the call after them throws.
\<close>

theorem feistel_complete:
  assumes "blockCipher enc" and "createFeistelAllocator (jint n) None tweak = Inr a"
  shows "\<exists>is t. drawN (feistelNext enc) (nat n) a = Some (Inr is, t) \<and> distinct is \<and> set is = {..<nat n}
    \<and> feistelNext enc t = Some (Inl NoIndicesRemain, t)"
proof -
  note a = createFeistel_inv [OF assms(2)]
  then have "fa_position a = 0" by simp
  with a show ?thesis using feistel.draw_all [of enc a] assms(1) by simp
qed

theorem feistel_complete_witness:
  "\<exists>a is t. createFeistelAllocator (jint 1000003) None (Some [1, 2]) = Inr a
    \<and> drawN (feistelNext (map NOT)) 1000003 a = Some (Inr is, t) \<and> distinct is \<and> set is = {..<1000003}
    \<and> feistelNext (map NOT) t = Some (Inl NoIndicesRemain, t)"
proof -
  obtain a where a: "createFeistelAllocator (jint 1000003) None (Some [1, 2]) = Inr a"
    by (simp add: createFeistelAllocator_def safeIntOf_jint maxSafe_def minLength_def)
  show ?thesis using feistel_complete [OF _ a, of "map NOT"] a by (simp add: blockCipher_def)
qed

end
