(* ===== verification/Json.thy ===== *)
theory Json imports Prelude "HOL-Library.List_Lexorder" "HOL-Library.Char_ord" begin

text \<open>
  The values the packages work on: what \<open>JSON.parse\<close> returns, \<open>undefined\<close>, and the properties every
  plain object inherits. An object is the list of its own properties in the order JavaScript
  enumerates them: integer keys first, in ascending order, then the others in the order of their
  creation. Strings are their UTF-8 code units.
\<close>

named_theorems json_object \<open>laws of reading and writing the properties of an object\<close>

section \<open>Values\<close>

text \<open>\<open>JBuiltin k\<close> is the value of the inherited property \<open>k\<close> of a plain object.\<close>

datatype json =
    JUndefined
  | JNull
  | JBool bool
  | JNum rat
  | JStr string
  | JArr "json list"
  | JObj "(string \<times> json) list"
  | JBuiltin string

type_synonym fields = "(string \<times> json) list"

text \<open>The properties of \<open>Object.prototype\<close>.\<close>

definition protoKeys :: "string list" where
  "protoKeys = [''constructor'', ''__defineGetter__'', ''__defineSetter__'', ''hasOwnProperty'',
     ''__lookupGetter__'', ''__lookupSetter__'', ''isPrototypeOf'', ''propertyIsEnumerable'',
     ''toString'', ''valueOf'', ''__proto__'', ''toLocaleString'']"

fun truthy :: "json \<Rightarrow> bool" where
  "truthy JUndefined = False"
| "truthy JNull = False"
| "truthy (JBool b) = b"
| "truthy (JNum q) = (q \<noteq> 0)"
| "truthy (JStr s) = (s \<noteq> [])"
| "truthy _ = True"

text \<open>\<open>typeof v === 'object'\<close>; the inherited \<open>__proto__\<close> is an object, the other inherited
  properties are functions.\<close>

fun typeofObject :: "json \<Rightarrow> bool" where
  "typeofObject JNull = True"
| "typeofObject (JArr _) = True"
| "typeofObject (JObj _) = True"
| "typeofObject (JBuiltin k) = (k = ''__proto__'')"
| "typeofObject _ = False"

section \<open>Properties of a plain object\<close>

text \<open>\<open>o[k]\<close>, \<open>k in o\<close>, \<open>Object.keys(o)\<close> and deletion by destructuring.\<close>

definition getProp :: "fields \<Rightarrow> string \<Rightarrow> json" where
  "getProp kvs k = (case map_of kvs k of Some v \<Rightarrow> v
     | None \<Rightarrow> if k \<in> set protoKeys then JBuiltin k else JUndefined)"

definition inObj :: "string \<Rightarrow> (string \<times> 'v) list \<Rightarrow> bool" where
  "inObj k kvs = (k \<in> fst ` set kvs \<or> k \<in> set protoKeys)"

definition without :: "string \<Rightarrow> (string \<times> 'v) list \<Rightarrow> (string \<times> 'v) list" where
  "without k kvs = filter (\<lambda>p. fst p \<noteq> k) kvs"

text \<open>An array index as a property key: a decimal numeral without leading zeros below $2^{32} - 1$.\<close>

definition isDigit :: "char \<Rightarrow> bool" where
  "isDigit c = (48 \<le> (of_char c :: nat) \<and> (of_char c :: nat) \<le> 57)"

definition decValue :: "string \<Rightarrow> nat" where
  "decValue s = foldl (\<lambda>n c. n * 10 + (of_char c - 48)) 0 s"

definition indexKey :: "string \<Rightarrow> nat option" where
  "indexKey s = (if s \<noteq> [] \<and> list_all isDigit s \<and> (hd s = CHR ''0'' \<longrightarrow> s = ''0'') \<and> decValue s < 2 ^ 32 - 1
     then Some (decValue s) else None)"

lemma indexKey_code [code]: "indexKey s = (if s \<noteq> [] \<and> list_all isDigit s \<and> (hd s = CHR ''0'' \<longrightarrow> s = ''0'')
     \<and> int (decValue s) < 4294967295 then Some (decValue s) else None)"
proof -
  have "decValue s < 2 ^ 32 - 1 \<longleftrightarrow> int (decValue s) < 4294967295" by simp
  then show ?thesis unfolding indexKey_def by (rule ssubst) (rule refl)
qed

text \<open>Creation of a property: an integer key goes before the larger integer keys and the other keys.\<close>

fun insertProp :: "string \<Rightarrow> 'v \<Rightarrow> (string \<times> 'v) list \<Rightarrow> (string \<times> 'v) list" where
  "insertProp k v [] = [(k, v)]"
| "insertProp k v ((l, w) # kvs) =
     (case indexKey k of
        None \<Rightarrow> (l, w) # insertProp k v kvs
      | Some i \<Rightarrow> (case indexKey l of
          None \<Rightarrow> (k, v) # (l, w) # kvs
        | Some j \<Rightarrow> if i < j then (k, v) # (l, w) # kvs else (l, w) # insertProp k v kvs))"

fun replaceProp :: "string \<Rightarrow> 'v \<Rightarrow> (string \<times> 'v) list \<Rightarrow> (string \<times> 'v) list" where
  "replaceProp k v [] = []"
| "replaceProp k v ((l, w) # kvs) = (if l = k then (l, v) # kvs else (l, w) # replaceProp k v kvs)"

text \<open>\<open>o[k] = v\<close>. Assigning to \<open>__proto__\<close> when it is not an own property does not create one.\<close>

definition setProp :: "string \<Rightarrow> 'v \<Rightarrow> (string \<times> 'v) list \<Rightarrow> (string \<times> 'v) list" where
  "setProp k v kvs = (if k \<in> fst ` set kvs then replaceProp k v kvs
     else if k = ''__proto__'' then kvs else insertProp k v kvs)"

definition assignProps :: "(string \<times> 'v) list \<Rightarrow> (string \<times> 'v) list \<Rightarrow> (string \<times> 'v) list" where
  "assignProps target source = foldl (\<lambda>t p. setProp (fst p) (snd p) t) target source"

text \<open>Object spread copies every own property as an own property, \<open>__proto__\<close> too.\<close>

definition defineProp :: "string \<Rightarrow> 'v \<Rightarrow> (string \<times> 'v) list \<Rightarrow> (string \<times> 'v) list" where
  "defineProp k v kvs = (if k \<in> fst ` set kvs then replaceProp k v kvs else insertProp k v kvs)"

definition spreadProps :: "(string \<times> 'v) list \<Rightarrow> (string \<times> 'v) list \<Rightarrow> (string \<times> 'v) list" where
  "spreadProps target source = foldl (\<lambda>t p. defineProp (fst p) (snd p) t) target source"

lemma set_insertProp [json_object]: "set (insertProp k v kvs) = insert (k, v) (set kvs)"
  by (induction k v kvs rule: insertProp.induct) (auto split: option.splits)

lemma length_insertProp [json_object]: "length (insertProp k v kvs) = Suc (length kvs)"
  by (induction k v kvs rule: insertProp.induct) (auto split: option.splits)

lemma distinct_insertProp [json_object]:
  "distinct (map fst (insertProp k v kvs)) \<longleftrightarrow> k \<notin> fst ` set kvs \<and> distinct (map fst kvs)"
  by (induction k v kvs rule: insertProp.induct) (auto simp: set_insertProp image_iff split: option.splits)

lemma keys_replaceProp [json_object]: "map fst (replaceProp k v kvs) = map fst kvs"
  by (induction kvs) auto

lemma replaceProp_same: "map_of kvs k = Some v \<Longrightarrow> replaceProp k v kvs = kvs"
  by (induction kvs) auto

lemma map_of_replaceProp [json_object]:
  "k \<in> fst ` set kvs \<Longrightarrow> map_of (replaceProp k v kvs) = (map_of kvs)(k \<mapsto> v)"
proof (induction kvs)
  case (Cons p kvs)
  then show ?case by (cases p; cases "fst p = k") (auto simp: fun_eq_iff)
qed simp

lemma map_of_insertProp [json_object]:
  "k \<notin> fst ` set kvs \<Longrightarrow> distinct (map fst kvs) \<Longrightarrow> map_of (insertProp k v kvs) = (map_of kvs)(k \<mapsto> v)"
proof (rule ext)
  fix l
  assume a: "k \<notin> fst ` set kvs" "distinct (map fst kvs)"
  then have d: "distinct (map fst (insertProp k v kvs))" by (simp add: distinct_insertProp)
  show "map_of (insertProp k v kvs) l = ((map_of kvs)(k \<mapsto> v)) l"
  proof (cases "map_of (insertProp k v kvs) l")
    case None
    then have "l \<noteq> k" "l \<notin> fst ` set kvs" by (auto simp: map_of_eq_None_iff set_insertProp)
    then show ?thesis using None by (metis fun_upd_apply map_of_eq_None_iff)
  next
    case (Some w)
    then have "(l, w) \<in> insert (k, v) (set kvs)"
      using d by (simp add: set_insertProp)
    then show ?thesis using Some a by (auto simp: image_iff)
  qed
qed

lemma map_of_insertProp_same: "k \<notin> fst ` set kvs \<Longrightarrow> map_of (insertProp k v kvs) k = Some v"
  by (induction k v kvs rule: insertProp.induct) (auto split: option.splits)

lemma map_of_insertProp_other: "k \<noteq> l \<Longrightarrow> map_of (insertProp k v kvs) l = map_of kvs l"
  by (induction k v kvs rule: insertProp.induct) (auto split: option.splits)

lemma map_of_replaceProp_same: "k \<in> fst ` set kvs \<Longrightarrow> map_of (replaceProp k v kvs) k = Some v"
proof (induction kvs)
  case (Cons p kvs)
  then show ?case by (cases p) auto
qed simp

lemma map_of_replaceProp_other: "k \<noteq> l \<Longrightarrow> map_of (replaceProp k v kvs) l = map_of kvs l"
  by (induction kvs) auto

lemma map_of_defineProp: "map_of (defineProp k v kvs) = (map_of kvs)(k \<mapsto> v)"
  by (auto simp: defineProp_def fun_eq_iff map_of_insertProp_same map_of_insertProp_other
      map_of_replaceProp_same map_of_replaceProp_other)

lemma distinct_defineProp: "distinct (map fst kvs) \<Longrightarrow> distinct (map fst (defineProp k v kvs))"
  by (simp add: defineProp_def keys_replaceProp distinct_insertProp)

lemma set_replaceProp: "(l, y) \<in> set (replaceProp k z us) \<Longrightarrow> (l = k \<and> y = z) \<or> ((l, y) \<in> set us \<and> l \<noteq> k) \<or> (l, y) \<in> set us"
  by (induction us) (auto split: if_splits)

lemma set_defineProp: "(l, y) \<in> set (defineProp k z us) \<Longrightarrow> (l = k \<and> y = z) \<or> (l, y) \<in> set us"
  using set_replaceProp [of l y k z us] by (auto simp: defineProp_def set_insertProp split: if_splits)

lemma map_of_setProp [json_object]:
  "distinct (map fst kvs) \<Longrightarrow> k \<noteq> ''__proto__'' \<Longrightarrow> map_of (setProp k v kvs) = (map_of kvs)(k \<mapsto> v)"
  by (simp add: setProp_def map_of_replaceProp map_of_insertProp)

lemma distinct_setProp [json_object]: "distinct (map fst kvs) \<Longrightarrow> distinct (map fst (setProp k v kvs))"
  by (simp add: setProp_def keys_replaceProp distinct_insertProp)

lemma keys_setProp [json_object]:
  "k \<noteq> ''__proto__'' \<Longrightarrow> fst ` set (setProp k v kvs) = insert k (fst ` set kvs)"
proof -
  have "fst ` set (replaceProp k v kvs) = fst ` set kvs"
    by (metis keys_replaceProp set_map)
  then show "k \<noteq> ''__proto__'' \<Longrightarrow> ?thesis" by (auto simp: setProp_def set_insertProp)
qed

lemma distinct_assignProps [json_object]: "distinct (map fst t) \<Longrightarrow> distinct (map fst (assignProps t s))"
  unfolding assignProps_def by (induction s arbitrary: t) (auto intro: distinct_setProp)

lemma map_of_assignProps [json_object]:
  "distinct (map fst t) \<Longrightarrow> distinct (map fst s) \<Longrightarrow> ''__proto__'' \<notin> fst ` set s \<Longrightarrow>
   map_of (assignProps t s) = map_of t ++ map_of s"
proof (induction s arbitrary: t)
  case (Cons p s)
  obtain k v where p: "p = (k, v)" by (cases p)
  have "k \<notin> dom (map_of s)" using Cons.prems(2) p by (auto simp: dom_map_of_conv_image_fst)
  moreover have "map_of (assignProps t (p # s)) = map_of (setProp k v t) ++ map_of s"
    using Cons.prems p by (simp add: assignProps_def Cons.IH [unfolded assignProps_def] distinct_setProp)
  ultimately show ?case
    using Cons.prems p by (auto simp: map_of_setProp map_add_def fun_eq_iff dom_def split: option.splits)
qed (simp add: assignProps_def)

lemma assignProps_Nil [simp]: "assignProps t [] = t"
  by (simp add: assignProps_def)

lemma keys_without [json_object]: "fst ` set (without k kvs) = fst ` set kvs - {k}"
  by (induction kvs) (auto simp: without_def)

lemma distinct_without [json_object]: "distinct (map fst kvs) \<Longrightarrow> distinct (map fst (without k kvs))"
  by (simp add: without_def distinct_map_filter)

lemma map_of_without [json_object]: "map_of (without k kvs) l = (if l = k then None else map_of kvs l)"
  by (induction kvs) (auto simp: without_def)

lemma without_absent [json_object]: "k \<notin> fst ` set kvs \<Longrightarrow> without k kvs = kvs"
  unfolding without_def by (rule filter_True) auto

section \<open>Enumeration\<close>

text \<open>A number as \<open>String(n)\<close> prints it, and the keys \<open>for (const k in v)\<close> visits.\<close>

fun natText :: "nat \<Rightarrow> string" where
  "natText n = (if n < 10 then [char_of (48 + n)] else natText (n div 10) @ [char_of (48 + n mod 10)])"

declare natText.simps [simp del]

lemma of_char_digit: "n < 10 \<Longrightarrow> (of_char (char_of (48 + n) :: char) :: nat) = 48 + n"
  by (simp add: of_char_of)

lemma natText_digits: "natText n \<noteq> [] \<and> list_all isDigit (natText n)"
proof (induction n rule: natText.induct)
  case (1 n)
  have "isDigit (char_of (48 + n mod 10))" by (simp add: isDigit_def of_char_digit less_Suc_eq_le [symmetric])
  moreover have "n < 10 \<Longrightarrow> isDigit (char_of (48 + n))" by (simp add: isDigit_def of_char_digit)
  ultimately show ?case using 1 by (subst (1 2) natText.simps) simp
qed

lemma decValue_snoc: "decValue (s @ [c]) = decValue s * 10 + (of_char c - 48)"
  by (simp add: decValue_def)

lemma decValue_natText: "decValue (natText n) = n"
proof (induction n rule: natText.induct)
  case (1 n)
  show ?case
  proof (cases "n < 10")
    case True
    then show ?thesis by (subst natText.simps) (simp add: decValue_def of_char_digit)
  next
    case False
    have "(of_char (char_of (48 + n mod 10) :: char) :: nat) = 48 + n mod 10" by (rule of_char_digit) simp
    then have "decValue (natText n) = n div 10 * 10 + n mod 10"
      using False 1 by (subst natText.simps) (simp add: decValue_snoc)
    then show ?thesis by simp
  qed
qed

lemma natText_inject [simp]: "natText i = natText j \<longleftrightarrow> i = j"
  by (metis decValue_natText)

lemma natText_hd: "isDigit (hd (natText n))"
  using natText_digits [of n] by (cases "natText n") auto

lemma natText_leading_zero: "hd (natText n) = CHR ''0'' \<Longrightarrow> n = 0"
proof (induction n rule: natText.induct)
  case (1 n)
  show ?case
  proof (cases "n < 10")
    case True
    then have "(of_char (char_of (48 + n) :: char) :: nat) = of_char CHR ''0''"
      using "1.prems" by (simp add: natText.simps [of n])
    then show ?thesis using True by (simp add: of_char_digit)
  next
    case False
    then have "natText n = natText (n div 10) @ [char_of (48 + n mod 10)]" by (subst natText.simps) simp
    then have "hd (natText (n div 10)) = CHR ''0''" using "1.prems" natText_digits [of "n div 10"] by simp
    then have "n div 10 = 0" using "1.IH" False by blast
    then show ?thesis using False by simp
  qed
qed

lemma indexKey_natText: "n < 2 ^ 32 - 1 \<Longrightarrow> indexKey (natText n) = Some n"
proof -
  assume "n < 2 ^ 32 - 1"
  moreover have "hd (natText n) = CHR ''0'' \<longrightarrow> natText n = ''0''"
    using natText_leading_zero [of n] by (auto simp: natText.simps [of 0])
  ultimately show ?thesis using natText_digits [of n] by (simp add: indexKey_def decValue_natText)
qed

fun forIn :: "json \<Rightarrow> (string \<times> json) list" where
  "forIn (JArr xs) = map (\<lambda>i. (natText i, xs ! i)) [0..<length xs]"
| "forIn (JStr s) = map (\<lambda>i. (natText i, JStr [s ! i])) [0..<length s]"
| "forIn (JObj kvs) = kvs"
| "forIn _ = []"

section \<open>Copies\<close>

text \<open>
  \<open>JSON.parse(JSON.stringify(v))\<close> without the text: functions and \<open>undefined\<close> are dropped from
  objects and are \<open>null\<close> in arrays; the inherited \<open>__proto__\<close> has no properties of its own.
\<close>

fun jclone :: "json \<Rightarrow> json" where
  "jclone (JArr xs) = JArr (map (\<lambda>x. case jclone x of JUndefined \<Rightarrow> JNull | y \<Rightarrow> y) xs)"
| "jclone (JObj kvs) = JObj (filter (\<lambda>p. snd p \<noteq> JUndefined) (map (\<lambda>p. (fst p, jclone (snd p))) kvs))"
| "jclone (JBuiltin k) = (if k = ''__proto__'' then JObj [] else JUndefined)"
| "jclone v = v"

text \<open>A JSON value proper: no \<open>undefined\<close>, no inherited property, keys without repetition.\<close>

fun isJson :: "json \<Rightarrow> bool" where
  "isJson JUndefined = False"
| "isJson (JBuiltin _) = False"
| "isJson (JArr xs) = list_all isJson xs"
| "isJson (JObj kvs) = (distinct (map fst kvs) \<and> list_all (\<lambda>p. isJson (snd p)) kvs)"
| "isJson _ = True"

lemma isJson_not_undefined: "isJson v \<Longrightarrow> v \<noteq> JUndefined"
  by auto

lemma jclone_id: "isJson v \<Longrightarrow> jclone v = v"
proof (induction v rule: jclone.induct)
  case (1 xs)
  then have "map (\<lambda>x. case jclone x of JUndefined \<Rightarrow> JNull | y \<Rightarrow> y) xs = xs"
    by (intro map_idI) (auto simp: list_all_iff split: json.splits)
  then show ?case by simp
next
  case (2 kvs)
  have "jclone (snd p) = snd p \<and> snd p \<noteq> JUndefined" if "p \<in> set kvs" for p
    using 2 that isJson_not_undefined by (auto simp: list_all_iff)
  then have "map (\<lambda>p. (fst p, jclone (snd p))) kvs = kvs" "filter (\<lambda>p. snd p \<noteq> JUndefined) kvs = kvs"
    by (auto intro!: map_idI filter_True)
  then show ?case by simp
qed auto

section \<open>Equality up to the order of keys\<close>

lemma size_zip_fst [termination_simp]:
  "(x, y) \<in> set (zip xs ys) \<Longrightarrow> f x < Suc (size_list f xs)"
  by (auto dest!: set_zip_leftD intro: size_list_estimation' le_imp_less_Suc)

lemma size_field [termination_simp]:
  "(k, v) \<in> set kvs \<Longrightarrow> size v < Suc (size_list (\<lambda>p. Suc (size (snd p))) kvs)"
proof (induction kvs)
  case (Cons p kvs)
  then show ?case by (cases "p = (k, v)") auto
qed simp

lemma size_snd_field [termination_simp]:
  "p \<in> set kvs \<Longrightarrow> size (snd p) < Suc (size_list (\<lambda>p. Suc (size (snd p))) kvs)"
  using size_field [of "fst p" "snd p"] by simp

lemma size_nth_le:
  fixes xs :: "json list"
  shows "i < length xs \<Longrightarrow> size (xs ! i) \<le> size_list size xs"
  by (metis nth_mem order_refl size_list_estimation')

fun sameJson :: "json \<Rightarrow> json \<Rightarrow> bool" where
  "sameJson (JArr xs) (JArr ys) = (length xs = length ys \<and> (\<forall>(x, y) \<in> set (zip xs ys). sameJson x y))"
| "sameJson (JObj kvs) (JObj lws) = (length kvs = length lws \<and> distinct (map fst kvs) \<and>
     (\<forall>(k, v) \<in> set kvs. case map_of lws k of None \<Rightarrow> False | Some w \<Rightarrow> sameJson v w))"
| "sameJson v w = (v = w)"

lemma sameJson_refl: "isJson v \<Longrightarrow> sameJson v v"
proof (induction v rule: isJson.induct)
  case (3 xs)
  then show ?case by (auto simp: list_all_iff set_zip) 
next
  case (4 kvs)
  then show ?case by (auto simp: list_all_iff)
qed auto

end
