(* ===== verification/Disclosure.thy ===== *)
theory Disclosure imports Json Bytes begin

text \<open>
  \<open>packages/sd-jwt-core\<close>: the errors, the constants and path encoding of \<open>types/type.ts\<close>, the class
  \<open>Disclosure\<close> of \<open>utils/disclosure.ts\<close>, the UTF-8 and JSON layers of base64url and \<open>decodeJwt\<close>.
  The hasher and the text of JSON values are parameters.
\<close>

section \<open>Errors, constants and parameters\<close>

datatype verificationErrorCode =
    HASHER_NOT_FOUND | VERIFIER_NOT_FOUND | INVALID_SD_JWT | INVALID_JWT_FORMAT | JWT_NOT_YET_VALID
  | JWT_EXPIRED | JWT_TOO_OLD | INVALID_JWT_SIGNATURE | INVALID_AUDIENCE | INVALID_ISSUER
  | INVALID_SUBJECT | INVALID_VCT | MISSING_REQUIRED_CLAIMS | KEY_BINDING_JWT_MISSING
  | KEY_BINDING_VERIFIER_NOT_FOUND | KEY_BINDING_SIGNATURE_INVALID | KEY_BINDING_SD_HASH_INVALID
  | KEY_BINDING_JWT_NOT_YET_VALID | KEY_BINDING_JWT_EXPIRED | KEY_BINDING_JWT_TOO_OLD
  | STATUS_VERIFICATION_FAILED | STATUS_INVALID | VCT_VERIFICATION_FAILED | UNKNOWN_ERROR

datatype timeClaim = Iat | Nbf | Exp

record timeClaimDetails =
  td_claim :: timeClaim
  td_value :: rat
  td_currentDate :: rat
  td_skewSeconds :: rat
  td_maxAgeSeconds :: "rat option"

text \<open>
  An \<open>SdJwtError\<close> without and with a code, a \<open>JwtTimeClaimError\<close> with its code and details, the
  \<open>TypeError\<close> of the engine and any other \<open>Error\<close>. \<open>OutOfFuel\<close> is of the model only.
\<close>

datatype sdError =
    SdJwtError string
  | SdJwtErrorCode verificationErrorCode string
  | JwtTimeClaimError verificationErrorCode string timeClaimDetails
  | TypeError
  | PlainError string
  | OutOfFuel

definition SD_SEPARATOR :: char where "SD_SEPARATOR = CHR ''~''"
definition SD_LIST_KEY :: string where "SD_LIST_KEY = ''...''"
definition SD_DIGEST :: string where "SD_DIGEST = ''_sd''"
definition SD_DECOY :: string where "SD_DECOY = ''_sd_decoy''"

lemmas sd_constants = SD_LIST_KEY_def SD_DIGEST_def SD_DECOY_def

text \<open>
  The hasher of the caller (data, algorithm) and the text conversion of JSON values by the engine.
\<close>

record platform =
  hashOf :: "string \<Rightarrow> string \<Rightarrow> bytes"
  stringify :: "json \<Rightarrow> string"
  parseJson :: "string \<Rightarrow> json option"

section \<open>Paths\<close>

definition encodePathSegment :: "string \<Rightarrow> string" where
  "encodePathSegment segment =
     concat (map (\<lambda>c. if c = CHR ''.'' then ''~1'' else [c])
       (concat (map (\<lambda>c. if c = CHR ''~'' then ''~0'' else [c]) segment)))"

definition encodePath :: "string list \<Rightarrow> string" where
  "encodePath segments = joinWith ''.'' (map encodePathSegment segments)"

lemma encodePathSegment_Nil [simp]: "encodePathSegment [] = []"
  by (simp add: encodePathSegment_def)

lemma encodePathSegment_Cons:
  "encodePathSegment (c # s) = (if c = CHR ''~'' then ''~0'' else if c = CHR ''.'' then ''~1'' else [c])
     @ encodePathSegment s"
  by (simp add: encodePathSegment_def)

lemma encodePathSegment_plain: "CHR ''.'' \<notin> set (encodePathSegment s)"
  by (induction s) (auto simp: encodePathSegment_Cons)

lemma encodePathSegment_inject: "encodePathSegment s = encodePathSegment t \<Longrightarrow> s = t"
proof (induction s arbitrary: t)
  case Nil
  then show ?case by (cases t) (auto simp: encodePathSegment_Cons split: if_splits)
next
  case (Cons c s)
  then obtain d t' where t: "t = d # t'"
    by (cases t) (auto simp: encodePathSegment_Cons split: if_splits)
  then have "c = d \<and> encodePathSegment s = encodePathSegment t'"
    using Cons.prems by (auto simp: encodePathSegment_Cons split: if_splits)
  then show ?case using Cons.IH t by blast
qed

text \<open>
  Paths of claims are never confused: two sequences of keys that are encoded to the same path are
  equal, whatever dots and tildes the keys contain. The only exception is the empty sequence, whose
  path is also that of the single empty key.
\<close>

theorem encodePath_inject:
  assumes "encodePath p = encodePath q" and "p \<noteq> []" and "q \<noteq> []"
  shows "p = q"
proof -
  have s: "splitOn CHR ''.'' (encodePath r) = map encodePathSegment r" if "r \<noteq> []" for r
    using that encodePathSegment_plain by (auto simp: encodePath_def intro!: splitOn_joinWith)
  have "map encodePathSegment p = map encodePathSegment q"
    using s [OF assms(2)] s [OF assms(3)] assms(1) by simp
  moreover have "inj encodePathSegment" by (auto intro: injI encodePathSegment_inject)
  ultimately show ?thesis by (metis inj_map_eq_map)
qed

theorem encodePath_inject_witness:
  "encodePath [''a.b'', ''c~1''] = ''a~1b.c~01'' \<and> encodePath [''a'', ''b.c~1''] \<noteq> ''a~1b.c~01''"
proof -
  have "encodePath [''a.b'', ''c~1''] = ''a~1b.c~01''" by code_simp
  then show ?thesis using encodePath_inject [of "[''a.b'', ''c~1'']" "[''a'', ''b.c~1'']"] by auto
qed

section \<open>Text and base64url\<close>

text \<open>\<open>TextEncoder\<close> and \<open>TextDecoder\<close> with \<open>fatal\<close>, on strings that are UTF-8 code units.\<close>

definition stringToBytes :: "string \<Rightarrow> bytes" where
  "stringToBytes s = map (\<lambda>c. word_of_nat (of_char c)) s"

fun continuation :: "byte \<Rightarrow> bool" where
  "continuation b = (0x80 \<le> b \<and> b \<le> 0xBF)"

fun validUtf8 :: "bytes \<Rightarrow> bool" where
  "validUtf8 [] = True"
| "validUtf8 (a # bs) =
     (if a < 0x80 then validUtf8 bs
      else if 0xC2 \<le> a \<and> a \<le> 0xDF then
        (case bs of b # r \<Rightarrow> continuation b \<and> validUtf8 r | _ \<Rightarrow> False)
      else if 0xE0 \<le> a \<and> a \<le> 0xEF then
        (case bs of b # c # r \<Rightarrow> continuation b \<and> continuation c
           \<and> (a = 0xE0 \<longrightarrow> 0xA0 \<le> b) \<and> (a = 0xED \<longrightarrow> b \<le> 0x9F) \<and> validUtf8 r | _ \<Rightarrow> False)
      else if 0xF0 \<le> a \<and> a \<le> 0xF4 then
        (case bs of b # c # d # r \<Rightarrow> continuation b \<and> continuation c \<and> continuation d
           \<and> (a = 0xF0 \<longrightarrow> 0x90 \<le> b) \<and> (a = 0xF4 \<longrightarrow> b \<le> 0x8F) \<and> validUtf8 r | _ \<Rightarrow> False)
      else False)"

definition bytesToStringFatal :: "bytes \<Rightarrow> commonError + string" where
  "bytesToStringFatal bs = (if validUtf8 bs then Inr (map (\<lambda>b. char_of (unat b)) bs)
     else Inl (IdentityCommonError ''Invalid UTF-8 byte sequence''))"

definition base64urlEncode :: "string \<Rightarrow> string" where
  "base64urlEncode input = uint8ArrayToBase64Url (stringToBytes input)"

definition base64urlDecodeFatal :: "string \<Rightarrow> commonError + string" where
  "base64urlDecodeFatal input = bindR (base64UrlToUint8Array input) bytesToStringFatal"

definition base64urlDecodeJson :: "platform \<Rightarrow> string \<Rightarrow> commonError + json" where
  "base64urlDecodeJson p input =
     (case base64urlDecodeFatal input of
        Inl e \<Rightarrow> Inl (IdentityCommonError ''Invalid base64url encoded JSON'')
      | Inr text \<Rightarrow> (case parseJson p text of
          None \<Rightarrow> Inl (IdentityCommonError ''Invalid base64url encoded JSON'')
        | Some v \<Rightarrow> Inr v))"

definition decodeBase64urlJsonStrict :: "platform \<Rightarrow> string \<Rightarrow> string \<Rightarrow> sdError + json" where
  "decodeBase64urlJsonStrict p encoded errorMessage =
     (case base64urlDecodeJson p encoded of Inl e \<Rightarrow> Inl (SdJwtError errorMessage) | Inr v \<Rightarrow> Inr v)"

section \<open>Decoding a JWT\<close>

record decodedJwt =
  dj_header :: json
  dj_payload :: json
  dj_signature :: string

definition decodeJwtCommon :: "platform \<Rightarrow> string \<Rightarrow> commonError + decodedJwt" where
  "decodeJwtCommon p jwt = (case splitOn CHR ''.'' jwt of
       [header, payload, signature] \<Rightarrow>
         (case base64urlDecodeJson p header of
            Inl e \<Rightarrow> Inl (IdentityCommonError ''Invalid JWT as input'')
          | Inr h \<Rightarrow> (case base64urlDecodeJson p payload of
              Inl e \<Rightarrow> Inl (IdentityCommonError ''Invalid JWT as input'')
            | Inr pl \<Rightarrow> Inr \<lparr>dj_header = h, dj_payload = pl, dj_signature = signature\<rparr>))
     | _ \<Rightarrow> Inl (IdentityCommonError ''Invalid JWT as input''))"

definition decodeJwt :: "platform \<Rightarrow> string \<Rightarrow> sdError + decodedJwt" where
  "decodeJwt p jwt = (case decodeJwtCommon p jwt of
     Inl e \<Rightarrow> Inl (SdJwtError ''Invalid JWT as input'') | Inr d \<Rightarrow> Inr d)"

section \<open>Disclosures\<close>

record disclosure =
  d_salt :: string
  d_key :: "string option"
  d_value :: json
  d_digest :: "string option"
  d_encoded :: "string option"

text \<open>The constructor, on any JSON value; the last argument is \<open>_meta\<close> (digest, encoded).\<close>

definition newDisclosure :: "json \<Rightarrow> (string \<times> string) option \<Rightarrow> sdError + disclosure" where
  "newDisclosure data meta =
     (case data of
        JArr [JStr salt, value] \<Rightarrow>
          Inr \<lparr>d_salt = salt, d_key = None, d_value = value,
               d_digest = map_option fst meta, d_encoded = map_option snd meta\<rparr>
      | JArr [JStr salt, JStr key, value] \<Rightarrow>
          if key = SD_DIGEST \<or> key = SD_LIST_KEY
          then Inl (SdJwtError (''Reserved disclosure claim name \"'' @ key @ ''\" is not allowed''))
          else Inr \<lparr>d_salt = salt, d_key = Some key, d_value = value,
                    d_digest = map_option fst meta, d_encoded = map_option snd meta\<rparr>
      | JArr [JStr salt, key, value] \<Rightarrow> Inl (SdJwtError ''Invalid disclosure claim name'')
      | JArr [salt, value] \<Rightarrow> Inl (SdJwtError ''Invalid disclosure salt'')
      | JArr [salt, key, value] \<Rightarrow> Inl (SdJwtError ''Invalid disclosure salt'')
      | _ \<Rightarrow> Inl (SdJwtError ''Invalid disclosure data''))"

definition digestOf :: "platform \<Rightarrow> string \<Rightarrow> string \<Rightarrow> string" where
  "digestOf p alg s = uint8ArrayToBase64Url (hashOf p s alg)"

definition disclosureFromEncode :: "platform \<Rightarrow> string \<Rightarrow> string \<Rightarrow> sdError + disclosure" where
  "disclosureFromEncode p alg s =
     bindR (decodeBase64urlJsonStrict p s ''Invalid disclosure data'') (\<lambda>item.
       newDisclosure item (Some (digestOf p alg s, s)))"

text \<open>
  \<open>decode\<close> leaves the key out when it is falsy, which the empty key is. \<open>encode\<close> and \<open>digest\<close> keep
  what they computed in the object; a kept empty string counts as nothing kept.
\<close>

definition disclosureData :: "disclosure \<Rightarrow> json" where
  "disclosureData d = (case d_key d of
      Some k \<Rightarrow> if k \<noteq> [] then JArr [JStr (d_salt d), JStr k, d_value d] else JArr [JStr (d_salt d), d_value d]
    | None \<Rightarrow> JArr [JStr (d_salt d), d_value d])"

definition cached :: "string option \<Rightarrow> bool" where
  "cached s = (case s of None \<Rightarrow> False | Some t \<Rightarrow> t \<noteq> [])"

definition encodeDisclosure :: "platform \<Rightarrow> disclosure \<Rightarrow> string \<times> disclosure" where
  "encodeDisclosure p d = (if cached (d_encoded d) then (the (d_encoded d), d)
     else let e = base64urlEncode (stringify p (disclosureData d)) in (e, d\<lparr>d_encoded := Some e\<rparr>))"

definition digestDisclosure :: "platform \<Rightarrow> string \<Rightarrow> disclosure \<Rightarrow> string \<times> disclosure" where
  "digestDisclosure p alg d = (if cached (d_digest d) then (the (d_digest d), d)
     else let (e, d') = encodeDisclosure p d; g = digestOf p alg e in (g, d'\<lparr>d_digest := Some g\<rparr>))"

end
