(* ===== verification/Unpack.thy ===== *)
theory Unpack imports Disclosure begin

text \<open>
  \<open>packages/sd-jwt-core/src/decode/decode.ts\<close>: the digest map of the disclosures and the recursion
  that replaces digests by the claims they stand for. The recursion follows digests into the values
  of disclosures, so it is not structural: it takes as fuel a bound on the nesting of disclosures,
  and a run that is given one more than the number of disclosures never runs out of it, because no
  digest is followed twice.
\<close>

section \<open>The digest map\<close>

type_synonym dmap = "(string \<times> disclosure) list"

text \<open>
  \<open>map[hash]\<close> where the result is used as a disclosure: its key and its value. The map is a plain
  object, so the name of an inherited property is found too; it has neither a key nor a value.
\<close>

definition getDisc :: "dmap \<Rightarrow> string \<Rightarrow> (string option \<times> json) option" where
  "getDisc m h = (case map_of m h of
       Some d \<Rightarrow> Some (d_key d, d_value d)
     | None \<Rightarrow> if h \<in> set protoKeys then Some (None, JUndefined) else None)"

text \<open>\<open>createHashMapping\<close>: the disclosures with the digests they now hold, by digest.\<close>

fun hashMappingLoop :: "platform \<Rightarrow> string \<Rightarrow> disclosure list \<Rightarrow> dmap \<Rightarrow> sdError + dmap" where
  "hashMappingLoop p alg [] m = Inr m"
| "hashMappingLoop p alg (d # ds) m =
     (let (g, d') = digestDisclosure p alg d
      in if inObj g m then Inl (SdJwtError ''Duplicate disclosure digest detected'')
         else hashMappingLoop p alg ds (setProp g d' m))"

definition createHashMapping :: "platform \<Rightarrow> string \<Rightarrow> disclosure list \<Rightarrow> sdError + dmap" where
  "createHashMapping p alg ds = hashMappingLoop p alg ds []"

section \<open>The recursion\<close>

type_synonym keymap = "(string \<times> string) list"

definition joinPath :: "string \<Rightarrow> string \<Rightarrow> string" where
  "joinPath prefix segment = (if prefix \<noteq> [] then prefix @ ''.'' @ segment else segment)"

definition cloneValue :: "json \<Rightarrow> json" where
  "cloneValue v = (if typeofObject v \<and> v \<noteq> JNull then jclone v else v)"

fun stringItems :: "json list \<Rightarrow> string list option" where
  "stringItems [] = Some []"
| "stringItems (JStr s # xs) = map_option (Cons s) (stringItems xs)"
| "stringItems (_ # xs) = None"

fun stringArray :: "json \<Rightarrow> string list option" where
  "stringArray (JArr xs) = stringItems xs"
| "stringArray _ = None"

text \<open>
  What \<open>unpackArray\<close> does with an element: an object with the key \<open>...\<close> is a placeholder and must
  have nothing else, other objects and arrays are unpacked, primitives are kept.
\<close>

datatype itemKind = Plain | Nested | Placeholder string | BadPlaceholder

fun arrayItem :: "json \<Rightarrow> itemKind" where
  "arrayItem (JArr xs) = Nested"
| "arrayItem (JObj kvs) = (case map_of kvs SD_LIST_KEY of
       None \<Rightarrow> Nested
     | Some v \<Rightarrow> (case v of
         JStr hash \<Rightarrow> if length kvs = 1 then Placeholder hash else BadPlaceholder
       | _ \<Rightarrow> BadPlaceholder))"
| "arrayItem _ = Plain"

fun sdDigests :: "fields \<Rightarrow> sdError + string list" where
  "sdDigests kvs = (case map_of kvs SD_DIGEST of
       None \<Rightarrow> Inr []
     | Some v \<Rightarrow> if v = JUndefined then Inr []
         else (case stringArray v of
             None \<Rightarrow> Inl (SdJwtError ''Invalid _sd claim: expected array of strings'')
           | Some hs \<Rightarrow> Inr hs))"

text \<open>
  The recursion below ends because the fuel goes down where a disclosure is followed, and the size of
  what is visited everywhere else.
\<close>

definition fieldsSize :: "fields \<Rightarrow> nat" where
  "fieldsSize kvs = size_list (\<lambda>p. Suc (size (snd p))) kvs"

lemma size_prod_snd: "size_prod (\<lambda>x. 0) size = (\<lambda>p. Suc (size (snd p)))"
  by (rule ext) (auto simp: size_prod_simp split: prod.splits)

lemma fieldsSize_simps [simp]:
  "size (JObj kvs) = Suc (fieldsSize kvs)"
  "fieldsSize ((k, v) # kvs) = Suc (Suc (size v + fieldsSize kvs))"
  "fieldsSize [] = 0"
  by (simp_all add: fieldsSize_def size_prod_snd)

text \<open>
  Each function returns the unpacked value, the paths of the disclosures it used with their digests,
  and the digests seen so far. \<open>unpackVal\<close> is \<open>unpackObjInternal\<close>, \<open>unpackArr\<close> the loop of
  \<open>unpackArray\<close>, \<open>unpackFields\<close> and \<open>unpackSd\<close> the two loops of \<open>unpackObjInternal\<close>.
\<close>

function (sequential) unpackVal :: "dmap \<Rightarrow> nat \<Rightarrow> string \<Rightarrow> json \<Rightarrow> string list \<Rightarrow> sdError + json \<times> keymap \<times> string list"
and unpackArr :: "dmap \<Rightarrow> nat \<Rightarrow> string \<Rightarrow> nat \<Rightarrow> json list \<Rightarrow> json list \<Rightarrow> keymap \<Rightarrow> string list
    \<Rightarrow> sdError + json list \<times> keymap \<times> string list"
and unpackFields :: "dmap \<Rightarrow> nat \<Rightarrow> string \<Rightarrow> fields \<Rightarrow> keymap \<Rightarrow> string list
    \<Rightarrow> sdError + fields \<times> keymap \<times> string list"
and unpackSd :: "dmap \<Rightarrow> nat \<Rightarrow> string \<Rightarrow> fields \<Rightarrow> fields \<Rightarrow> string list \<Rightarrow> keymap \<Rightarrow> string list
    \<Rightarrow> sdError + fields \<times> keymap \<times> string list"
where
  "unpackVal m n pre (JArr xs) seen =
     bindR (unpackArr m n pre 0 xs [] [] seen) (\<lambda>(ys, keys, seen'). Inr (JArr ys, keys, seen'))"
| "unpackVal m n pre (JObj kvs) seen =
     bindR (unpackFields m n pre kvs [] seen) (\<lambda>(kvs', keys, seen').
       let payload = without SD_DIGEST kvs' in
       bindR (sdDigests kvs') (\<lambda>hs.
       bindR (unpackSd m n pre payload [] hs keys seen') (\<lambda>(claims, keys', seen'').
         Inr (JObj (assignProps payload claims), keys', seen''))))"
| "unpackVal m n pre v seen = Inr (v, [], seen)"
| "unpackArr m n pre idx [] acc keys seen = Inr (acc, keys, seen)"
| "unpackArr m n pre idx (item # items) acc keys seen =
     (let here = joinPath pre (natText idx) in
      case arrayItem item of
        Plain \<Rightarrow> unpackArr m n pre (Suc idx) items (acc @ [item]) keys seen
      | Nested \<Rightarrow> bindR (unpackVal m n here item seen) (\<lambda>(v, ks, seen').
            unpackArr m n pre (Suc idx) items (acc @ [v]) (assignProps keys ks) seen')
      | BadPlaceholder \<Rightarrow> Inl (SdJwtError ''Invalid array disclosure placeholder'')
      | Placeholder hash \<Rightarrow>
          if hash \<in> set seen then Inl (SdJwtError ''Duplicate digest found in SD-JWT payload'')
          else (case getDisc m hash of
              None \<Rightarrow> unpackArr m n pre (Suc idx) items acc keys (hash # seen)
            | Some (key, v) \<Rightarrow>
                if key \<noteq> None
                then Inl (SdJwtError ''Object-property disclosure cannot be used as an array element'')
                else if n = 0 then Inl OutOfFuel
                else bindR (unpackVal m (n - 1) here (cloneValue v) (hash # seen)) (\<lambda>(v', ks, seen').
                  unpackArr m n pre (Suc idx) items (acc @ [v']) (assignProps (setProp here hash keys) ks) seen')))"
| "unpackFields m n pre [] keys seen = Inr ([], keys, seen)"
| "unpackFields m n pre ((k, v) # kvs) keys seen =
     (if pre \<noteq> [] \<and> k = ''_sd_alg'' then Inl (SdJwtError ''Nested _sd_alg is not allowed'')
      else if k \<noteq> SD_DIGEST \<and> k \<noteq> SD_LIST_KEY \<and> typeofObject v then
        bindR (unpackVal m n (joinPath pre (encodePathSegment k)) v seen) (\<lambda>(v', ks, seen').
        bindR (unpackFields m n pre kvs (assignProps keys ks) seen') (\<lambda>(kvs', keys', seen'').
          Inr ((k, v') # kvs', keys', seen'')))
      else bindR (unpackFields m n pre kvs keys seen) (\<lambda>(kvs', keys', seen').
          Inr ((k, v) # kvs', keys', seen')))"
| "unpackSd m n pre payload claims [] keys seen = Inr (claims, keys, seen)"
| "unpackSd m n pre payload claims (hash # hs) keys seen =
     (if hash \<in> set seen then Inl (SdJwtError ''Duplicate digest found in SD-JWT payload'')
      else (case getDisc m hash of
          None \<Rightarrow> unpackSd m n pre payload claims hs keys (hash # seen)
        | Some (key, v) \<Rightarrow>
            if key = None then Inl (SdJwtError ''Array disclosure cannot be used as an object property'')
            else let k = the key; here = joinPath pre (encodePathSegment k) in
            if inObj k payload
            then Inl (SdJwtError (''Disclosed claim name \"'' @ k @ ''\" conflicts with existing payload key''))
            else if inObj k claims
            then Inl (SdJwtError (''Disclosed claim name \"'' @ k @ ''\" conflicts with another disclosure''))
            else if n = 0 then Inl OutOfFuel
            else bindR (unpackVal m (n - 1) here (cloneValue v) (hash # seen)) (\<lambda>(v', ks, seen').
                unpackSd m n pre payload (setProp k v' claims) hs
                  (assignProps (setProp here hash keys) ks) seen')))"
  by pat_completeness auto

termination
  by (relation "measures
    [case_sum (case_sum (\<lambda>(m, n, pre, v, seen). n) (\<lambda>(m, n, pre, idx, xs, acc, keys, seen). n))
       (case_sum (\<lambda>(m, n, pre, kvs, keys, seen). n) (\<lambda>(m, n, pre, pl, cl, hs, keys, seen). n)),
     case_sum (case_sum (\<lambda>(m, n, pre, v, seen). size v) (\<lambda>(m, n, pre, idx, xs, acc, keys, seen). size_list size xs))
       (case_sum (\<lambda>(m, n, pre, kvs, keys, seen). fieldsSize kvs) (\<lambda>_. 0)),
     case_sum (\<lambda>_. 0) (case_sum (\<lambda>_. 0) (\<lambda>(m, n, pre, pl, cl, hs, keys, seen). size hs))]")
    (auto simp: fieldsSize_def size_prod_snd)

section \<open>The entry points\<close>

definition unpackObj :: "json \<Rightarrow> dmap \<Rightarrow> sdError + json \<times> keymap" where
  "unpackObj obj m =
     bindR (unpackVal m (Suc (length m)) [] (jclone obj) []) (\<lambda>(v, keys, seen).
       if filter (\<lambda>d. d \<notin> set seen) (map fst m) \<noteq> []
       then Inl (SdJwtError ''Unreferenced disclosure(s) detected in SD-JWT'') else Inr (v, keys))"

definition IANA_HASH_ALGORITHMS :: "string list" where
  "IANA_HASH_ALGORITHMS = [''sha-256'', ''sha-256-128'', ''sha-256-120'', ''sha-256-96'', ''sha-256-64'',
     ''sha-256-32'', ''sha-384'', ''sha-512'', ''sha3-224'', ''sha3-256'', ''sha3-384'', ''sha3-512'',
     ''blake2s-256'', ''blake2b-256'', ''blake2b-512'', ''k12-256'', ''k12-512'']"

definition DEFAULT_SECURE_HASH_ALGORITHMS :: "string list" where
  "DEFAULT_SECURE_HASH_ALGORITHMS = [''sha-256'', ''sha-384'', ''sha-512'', ''sha3-256'', ''sha3-384'',
     ''sha3-512'', ''blake2s-256'', ''blake2b-256'', ''blake2b-512'', ''k12-256'', ''k12-512'']"

definition getSdAlgAndPayload :: "fields \<Rightarrow> string list \<Rightarrow> sdError + string \<times> fields" where
  "getSdAlgAndPayload sdJwtPayload allowed =
     (let payload = without ''_sd_alg'' sdJwtPayload in
      case map_of sdJwtPayload ''_sd_alg'' of
        None \<Rightarrow> Inr (''sha-256'', payload)
      | Some JUndefined \<Rightarrow> Inr (''sha-256'', payload)
      | Some (JStr alg) \<Rightarrow>
          if alg \<notin> set IANA_HASH_ALGORITHMS then Inl (SdJwtError (''Invalid _sd_alg: '' @ alg))
          else if alg \<notin> set allowed then Inl (SdJwtError (''Disallowed _sd_alg: '' @ alg))
          else Inr (alg, payload)
      | Some _ \<Rightarrow> Inl (SdJwtError ''Invalid _sd_alg: expected string''))"

definition unpack :: "platform \<Rightarrow> fields \<Rightarrow> disclosure list \<Rightarrow> sdError + json \<times> keymap" where
  "unpack p sdJwtPayload ds =
     bindR (getSdAlgAndPayload sdJwtPayload DEFAULT_SECURE_HASH_ALGORITHMS) (\<lambda>(alg, payload).
     bindR (createHashMapping p alg ds) (\<lambda>m. unpackObj (JObj payload) m))"

definition getClaims :: "platform \<Rightarrow> fields \<Rightarrow> disclosure list \<Rightarrow> sdError + json" where
  "getClaims p rawPayload ds = bindR (unpack p rawPayload ds) (\<lambda>(v, keys). Inr v)"

section \<open>Splitting and decoding a compact SD-JWT\<close>

record sdParts =
  sp_jwt :: string
  sp_disclosures :: "string list"
  sp_kbJwt :: "string option"

definition splitSdJwt :: "string \<Rightarrow> sdError + sdParts" where
  "splitSdJwt sdjwt = (case splitOn SD_SEPARATOR sdjwt of
       [] \<Rightarrow> Inl (SdJwtError ''Invalid SD-JWT: missing SD-JWT separator'')
     | jwt # rest \<Rightarrow>
         if length rest = 0 then Inl (SdJwtError ''Invalid SD-JWT: missing SD-JWT separator'')
         else let kb = last rest in
           Inr \<lparr>sp_jwt = jwt, sp_disclosures = butlast rest, sp_kbJwt = (if kb \<noteq> [] then Some kb else None)\<rparr>)"

record decodedSdJwt =
  ds_jwt :: decodedJwt
  ds_disclosures :: "disclosure list"
  ds_kbJwt :: "decodedJwt option"

text \<open>Reading the payload as an object: destructuring \<open>null\<close> throws, other primitives have no properties.\<close>

definition payloadFields :: "json \<Rightarrow> sdError + fields" where
  "payloadFields v = (case v of JNull \<Rightarrow> Inl TypeError | JUndefined \<Rightarrow> Inl TypeError | _ \<Rightarrow> Inr (forIn v))"

definition decodeSdJwt :: "platform \<Rightarrow> string \<Rightarrow> sdError + decodedSdJwt" where
  "decodeSdJwt p sdjwt = (let parts = splitOn SD_SEPARATOR sdjwt; rest = tl parts in
     bindR (decodeJwt p (hd parts)) (\<lambda>jwt.
     bindR (ensure (rest \<noteq> []) (SdJwtError ''Invalid SD-JWT: missing SD-JWT separator'')) (\<lambda>_.
     let kb = last rest in
     bindR (if kb \<noteq> [] then bindR (decodeJwt p kb) (\<lambda>k. Inr (Some k)) else Inr None) (\<lambda>kbJwt.
     bindR (payloadFields (dj_payload jwt)) (\<lambda>fields.
     bindR (getSdAlgAndPayload fields DEFAULT_SECURE_HASH_ALGORITHMS) (\<lambda>(alg, _).
     bindR (mapR (disclosureFromEncode p alg) (butlast rest)) (\<lambda>ds.
       Inr \<lparr>ds_jwt = jwt, ds_disclosures = ds, ds_kbJwt = kbJwt\<rparr>)))))))"

end
