(* ===== verification/Jwt.thy ===== *)
theory Jwt imports Unpack begin

text \<open>
  \<open>packages/sd-jwt-core/src/jwt.ts\<close>, \<open>time-claim-error.ts\<close> and \<open>kbjwt.ts\<close>: the checks of the registered
  claims, the class \<open>Jwt\<close> as a record with the string it keeps once encoded, and the checks of a Key
  Binding JWT. The current time, signers and verifiers are parameters; a verifier may throw. Times
  are exact rationals; the doubles of the code are exact for seconds since the epoch.
\<close>

section \<open>Options\<close>

datatype oneOrMany = One string | Many "string list"

fun asList :: "oneOrMany \<Rightarrow> string list" where
  "asList (One s) = [s]"
| "asList (Many ss) = ss"

text \<open>Options that are not given are \<open>None\<close>; no options at all are \<open>noOptions\<close>.\<close>

record verifierOptions =
  vo_currentDate :: "rat option"
  vo_skewSeconds :: "rat option"
  vo_requiredClaimKeys :: "string list option"
  vo_expectedAudience :: "oneOrMany option"
  vo_expectedIssuer :: "oneOrMany option"
  vo_expectedSubject :: "oneOrMany option"
  vo_maxAgeSeconds :: "rat option"
  vo_expectedVct :: "oneOrMany option"
  vo_allowedIssuerAlgorithms :: "string list option"
  vo_allowedKeyBindingAlgorithms :: "string list option"
  vo_keyBindingNonce :: "string option"
  vo_expectedKeyBindingAudience :: "oneOrMany option"
  vo_keyBindingMaxAgeSeconds :: "rat option"
  vo_skipJwtClaimValidation :: bool

definition noOptions :: verifierOptions where
  "noOptions = \<lparr>vo_currentDate = None, vo_skewSeconds = None, vo_requiredClaimKeys = None,
     vo_expectedAudience = None, vo_expectedIssuer = None, vo_expectedSubject = None,
     vo_maxAgeSeconds = None, vo_expectedVct = None, vo_allowedIssuerAlgorithms = None,
     vo_allowedKeyBindingAlgorithms = None, vo_keyBindingNonce = None,
     vo_expectedKeyBindingAudience = None, vo_keyBindingMaxAgeSeconds = None,
     vo_skipJwtClaimValidation = False\<rparr>"

definition getJwtTimeValidationOptions :: "verifierOptions \<Rightarrow> verifierOptions" where
  "getJwtTimeValidationOptions options =
     noOptions\<lparr>vo_currentDate := vo_currentDate options, vo_skewSeconds := vo_skewSeconds options\<rparr>"

definition skewOf :: "verifierOptions \<Rightarrow> rat" where
  "skewOf options = (case vo_skewSeconds options of None \<Rightarrow> 0 | Some s \<Rightarrow> s)"

definition currentDateOf :: "rat \<Rightarrow> verifierOptions \<Rightarrow> rat" where
  "currentDateOf now options = (case vo_currentDate options of None \<Rightarrow> now | Some d \<Rightarrow> d)"

section \<open>Time claim errors\<close>

datatype jwtRole = IssuerJwt | KeyBindingJwt

datatype timeClaimFailure = NotYetValid | Expired | TooOld

fun timeClaimName :: "jwtRole \<Rightarrow> string" where
  "timeClaimName IssuerJwt = ''JWT''"
| "timeClaimName KeyBindingJwt = ''Key Binding JWT''"

fun timeClaimCode :: "jwtRole \<Rightarrow> timeClaimFailure \<Rightarrow> verificationErrorCode" where
  "timeClaimCode IssuerJwt NotYetValid = JWT_NOT_YET_VALID"
| "timeClaimCode IssuerJwt Expired = JWT_EXPIRED"
| "timeClaimCode IssuerJwt TooOld = JWT_TOO_OLD"
| "timeClaimCode KeyBindingJwt NotYetValid = KEY_BINDING_JWT_NOT_YET_VALID"
| "timeClaimCode KeyBindingJwt Expired = KEY_BINDING_JWT_EXPIRED"
| "timeClaimCode KeyBindingJwt TooOld = KEY_BINDING_JWT_TOO_OLD"

fun timeClaimProblem :: "timeClaimFailure \<Rightarrow> string" where
  "timeClaimProblem NotYetValid = ''is not yet valid''"
| "timeClaimProblem Expired = ''is expired''"
| "timeClaimProblem TooOld = ''is too old''"

definition timeClaimError :: "jwtRole \<Rightarrow> timeClaimFailure \<Rightarrow> timeClaimDetails \<Rightarrow> sdError" where
  "timeClaimError role failure details =
     JwtTimeClaimError (timeClaimCode role failure)
       (''Verify Error: '' @ timeClaimName role @ '' '' @ timeClaimProblem failure) details"

section \<open>Checks of the payload\<close>

text \<open>\<open>payload.name\<close> for the names of registered claims and header parameters, which no value inherits.\<close>

definition claimOf :: "json \<Rightarrow> string \<Rightarrow> json" where
  "claimOf payload name = (case payload of JObj kvs \<Rightarrow> getProp kvs name | _ \<Rightarrow> JUndefined)"

fun strOf :: "json \<Rightarrow> string option" where
  "strOf (JStr s) = Some s"
| "strOf v = None"

fun numOf :: "json \<Rightarrow> rat option" where
  "numOf (JNum q) = Some q"
| "numOf v = None"

lemma strOf_Some [simp]: "strOf v = Some s \<longleftrightarrow> v = JStr s"
  by (cases v) auto

lemma numOf_Some [simp]: "numOf v = Some q \<longleftrightarrow> v = JNum q"
  by (cases v) auto

fun claimName :: "timeClaim \<Rightarrow> string" where
  "claimName Iat = ''iat''"
| "claimName Nbf = ''nbf''"
| "claimName Exp = ''exp''"

definition validateNumericDate :: "json \<Rightarrow> timeClaim \<Rightarrow> sdError + rat option" where
  "validateNumericDate payload claim = (case claimOf payload (claimName claim) of
       JUndefined \<Rightarrow> Inr None
     | JNum q \<Rightarrow> Inr (Some q)
     | _ \<Rightarrow> Inl (SdJwtErrorCode INVALID_JWT_FORMAT (''Verify Error: JWT '' @ claimName claim @ '' must be a number'')))"

definition getAudiences :: "json \<Rightarrow> string list option" where
  "getAudiences audience = (case audience of JStr s \<Rightarrow> Some [s] | v \<Rightarrow> stringArray v)"

definition validateAudience :: "json \<Rightarrow> oneOrMany option \<Rightarrow> sdError + unit" where
  "validateAudience payload expected = (case expected of
       None \<Rightarrow> Inr ()
     | Some e \<Rightarrow> (case getAudiences (claimOf payload ''aud'') of
         None \<Rightarrow> Inl (SdJwtErrorCode INVALID_AUDIENCE ''Verify Error: Invalid audience'')
       | Some audiences \<Rightarrow> ensure (list_ex (\<lambda>x. x \<in> set audiences) (asList e))
           (SdJwtErrorCode INVALID_AUDIENCE ''Verify Error: Invalid audience'')))"

definition expectString :: "json \<Rightarrow> string \<Rightarrow> oneOrMany option \<Rightarrow> sdError \<Rightarrow> sdError + unit" where
  "expectString payload name expected err = (case expected of
       None \<Rightarrow> Inr ()
     | Some e \<Rightarrow> (case claimOf payload name of JStr s \<Rightarrow> ensure (s \<in> set (asList e)) err | _ \<Rightarrow> Inl err))"

definition validateIssuer :: "json \<Rightarrow> oneOrMany option \<Rightarrow> sdError + unit" where
  "validateIssuer payload expected =
     expectString payload ''iss'' expected (SdJwtErrorCode INVALID_ISSUER ''Verify Error: Invalid issuer'')"

definition validateSubject :: "json \<Rightarrow> oneOrMany option \<Rightarrow> sdError + unit" where
  "validateSubject payload expected =
     expectString payload ''sub'' expected (SdJwtErrorCode INVALID_SUBJECT ''Verify Error: Invalid subject'')"

definition validateVct :: "json \<Rightarrow> oneOrMany option \<Rightarrow> sdError + unit" where
  "validateVct payload expected =
     expectString payload ''vct'' expected (SdJwtErrorCode INVALID_VCT ''Verify Error: Invalid VCT'')"

definition validateMaxAge :: "jwtRole \<Rightarrow> rat option \<Rightarrow> rat \<Rightarrow> rat \<Rightarrow> rat option \<Rightarrow> sdError + unit" where
  "validateMaxAge role iat currentDate skew maxAgeSeconds = (case maxAgeSeconds of
       None \<Rightarrow> Inr ()
     | Some maxAge \<Rightarrow> (case iat of
         None \<Rightarrow> Inl (SdJwtErrorCode MISSING_REQUIRED_CLAIMS ''Verify Error: JWT iat claim is missing'')
       | Some i \<Rightarrow> ensure (\<not> (i + maxAge + skew < currentDate)) (timeClaimError role TooOld
           \<lparr>td_claim = Iat, td_value = i, td_currentDate = currentDate, td_skewSeconds = skew,
            td_maxAgeSeconds = Some maxAge\<rparr>)))"

text \<open>A time that must not be later than now, and one that must be.\<close>

definition notBefore :: "jwtRole \<Rightarrow> timeClaim \<Rightarrow> rat option \<Rightarrow> rat \<Rightarrow> rat \<Rightarrow> sdError + unit" where
  "notBefore role claim value currentDate skew = (case value of
       None \<Rightarrow> Inr ()
     | Some v \<Rightarrow> ensure (\<not> (v - skew > currentDate)) (timeClaimError role NotYetValid
         \<lparr>td_claim = claim, td_value = v, td_currentDate = currentDate, td_skewSeconds = skew,
          td_maxAgeSeconds = None\<rparr>))"

definition notExpired :: "jwtRole \<Rightarrow> rat option \<Rightarrow> rat \<Rightarrow> rat \<Rightarrow> sdError + unit" where
  "notExpired role value currentDate skew = (case value of
       None \<Rightarrow> Inr ()
     | Some v \<Rightarrow> ensure (\<not> (v + skew \<le> currentDate)) (timeClaimError role Expired
         \<lparr>td_claim = Exp, td_value = v, td_currentDate = currentDate, td_skewSeconds = skew,
          td_maxAgeSeconds = None\<rparr>))"

definition validateJwtPayload :: "rat \<Rightarrow> json \<Rightarrow> verifierOptions \<Rightarrow> jwtRole \<Rightarrow> sdError + unit" where
  "validateJwtPayload now payload options role =
     bindR (ensure (truthy payload) (SdJwtErrorCode INVALID_SD_JWT ''Verify Error: JWT payload is missing'')) (\<lambda>_.
     let skew = skewOf options; currentDate = currentDateOf now options in
     bindR (validateNumericDate payload Iat) (\<lambda>iat.
     bindR (validateNumericDate payload Nbf) (\<lambda>nbf.
     bindR (validateNumericDate payload Exp) (\<lambda>exp.
     bindR (notBefore role Iat iat currentDate skew) (\<lambda>_.
     bindR (notBefore role Nbf nbf currentDate skew) (\<lambda>_.
     bindR (notExpired role exp currentDate skew) (\<lambda>_.
     bindR (validateMaxAge role iat currentDate skew (vo_maxAgeSeconds options)) (\<lambda>_.
     bindR (validateAudience payload (vo_expectedAudience options)) (\<lambda>_.
     bindR (validateIssuer payload (vo_expectedIssuer options)) (\<lambda>_.
     bindR (validateSubject payload (vo_expectedSubject options)) (\<lambda>_.
     validateVct payload (vo_expectedVct options))))))))))))"

section \<open>The class Jwt\<close>

text \<open>A header or payload that is not set is \<open>JUndefined\<close>.\<close>

record jwt =
  jw_header :: json
  jw_payload :: json
  jw_signature :: "string option"
  jw_encoded :: "string option"

type_synonym signer = "string \<Rightarrow> sdError + string"
type_synonym verifier = "string \<Rightarrow> string \<Rightarrow> verifierOptions \<Rightarrow> sdError + bool"
type_synonym kbVerifier = "string \<Rightarrow> string \<Rightarrow> json \<Rightarrow> sdError + bool"

definition newJwt :: "json \<Rightarrow> json \<Rightarrow> string option \<Rightarrow> string option \<Rightarrow> jwt" where
  "newJwt header payload signature encoded =
     \<lparr>jw_header = header, jw_payload = payload, jw_signature = signature, jw_encoded = encoded\<rparr>"

definition jwtFromEncode :: "platform \<Rightarrow> string \<Rightarrow> sdError + jwt" where
  "jwtFromEncode p encodedJwt = bindR (decodeJwt p encodedJwt) (\<lambda>d.
     Inr (newJwt (dj_header d) (dj_payload d) (Some (dj_signature d)) (Some encodedJwt)))"

definition setHeader :: "json \<Rightarrow> jwt \<Rightarrow> jwt" where
  "setHeader header j = j\<lparr>jw_header := header, jw_encoded := None\<rparr>"

definition setPayload :: "json \<Rightarrow> jwt \<Rightarrow> jwt" where
  "setPayload payload j = j\<lparr>jw_payload := payload, jw_encoded := None\<rparr>"

definition encodePart :: "platform \<Rightarrow> json \<Rightarrow> string" where
  "encodePart p v = base64urlEncode (stringify p v)"

definition getUnsignedToken :: "platform \<Rightarrow> jwt \<Rightarrow> sdError + string" where
  "getUnsignedToken p j =
     (if \<not> truthy (jw_header j) \<or> \<not> truthy (jw_payload j) then Inl (SdJwtError ''Serialize Error: Invalid JWT'')
      else if cached (jw_encoded j) then
        (let parts = splitOn CHR ''.'' (the (jw_encoded j)) in
         if length parts \<noteq> 3
         then Inl (SdJwtErrorCode INVALID_JWT_FORMAT (''Invalid JWT format: '' @ the (jw_encoded j)))
         else Inr (joinWith ''.'' (take 2 parts)))
      else Inr (encodePart p (jw_header j) @ ''.'' @ encodePart p (jw_payload j)))"

definition encodeJwt :: "platform \<Rightarrow> jwt \<Rightarrow> sdError + string \<times> jwt" where
  "encodeJwt p j =
     (if cached (jw_encoded j) then Inr (the (jw_encoded j), j)
      else if \<not> truthy (jw_header j) \<or> \<not> truthy (jw_payload j) \<or> \<not> cached (jw_signature j)
        then Inl (SdJwtError ''Serialize Error: Invalid JWT'')
      else let compact = encodePart p (jw_header j) @ ''.'' @ encodePart p (jw_payload j) @ ''.'' @ the (jw_signature j)
        in Inr (compact, j\<lparr>jw_encoded := Some compact\<rparr>))"

definition signJwt :: "platform \<Rightarrow> signer \<Rightarrow> jwt \<Rightarrow> sdError + string \<times> jwt" where
  "signJwt p sign j =
     (if \<not> truthy (jw_header j) \<or> claimOf (jw_header j) ''alg'' = JStr ''none''
      then Inl (SdJwtError ''Sign Error: alg \"none\" is not allowed'')
      else bindR (getUnsignedToken p j) (\<lambda>data.
        bindR (sign data) (\<lambda>signature. encodeJwt p (j\<lparr>jw_signature := Some signature\<rparr>))))"

definition hasCrit :: "json \<Rightarrow> bool" where
  "hasCrit header = (case header of JObj kvs \<Rightarrow> inObj ''crit'' kvs | _ \<Rightarrow> False)"

text \<open>\<open>verify\<close> returns the payload and the header.\<close>

definition verifyJwt :: "platform \<Rightarrow> rat \<Rightarrow> verifier \<Rightarrow> jwt \<Rightarrow> verifierOptions \<Rightarrow> sdError + json \<times> json" where
  "verifyJwt p now verifier j options =
     (case claimOf (jw_header j) ''alg'' of
        JStr alg \<Rightarrow>
          bindR (ensure (alg \<noteq> ''none'') (SdJwtErrorCode INVALID_JWT_SIGNATURE ''Verify Error: alg \"none\" is not allowed'')) (\<lambda>_.
          bindR (ensure (case vo_allowedIssuerAlgorithms options of None \<Rightarrow> True | Some allowed \<Rightarrow> alg \<in> set allowed)
            (SdJwtErrorCode INVALID_JWT_SIGNATURE (''Verify Error: Disallowed alg '' @ alg))) (\<lambda>_.
          bindR (ensure (\<not> hasCrit (jw_header j))
            (SdJwtErrorCode INVALID_JWT_SIGNATURE ''Verify Error: unsupported critical header parameters'')) (\<lambda>_.
          bindR (if vo_skipJwtClaimValidation options then Inr ()
                 else validateJwtPayload now (jw_payload j) options IssuerJwt) (\<lambda>_.
          bindR (ensure (cached (jw_signature j)) (SdJwtErrorCode INVALID_JWT_SIGNATURE ''Verify Error: no signature in JWT'')) (\<lambda>_.
          bindR (getUnsignedToken p j) (\<lambda>data.
          bindR (verifier data (the (jw_signature j)) options) (\<lambda>verified.
          bindR (ensure verified (SdJwtErrorCode INVALID_JWT_SIGNATURE ''Verify Error: Invalid JWT Signature'')) (\<lambda>_.
            Inr (jw_payload j, jw_header j)))))))))
      | _ \<Rightarrow> Inl (SdJwtErrorCode INVALID_JWT_SIGNATURE ''Verify Error: alg \"none\" is not allowed''))"

section \<open>Key Binding JWTs\<close>

text \<open>
  \<open>s.toLowerCase()\<close> as far as it decides the comparison with an ASCII text: the ASCII letters, and the
  Kelvin sign (three code units), the only other character with an ASCII lower case.
\<close>

definition lowerChar :: "char \<Rightarrow> char" where
  "lowerChar c = (let n = (of_char c :: nat) in if 65 \<le> n \<and> n \<le> 90 then char_of (n + 32) else c)"

fun toLowerText :: "string \<Rightarrow> string" where
  "toLowerText [] = []"
| "toLowerText (c # s) = (if c = CHR 0xE2 \<and> take 2 s = [CHR 0x84, CHR 0xAA] then CHR ''k'' # toLowerText (drop 2 s)
     else lowerChar c # toLowerText s)"

definition stripApplication :: "string \<Rightarrow> string" where
  "stripApplication s = (if take 12 s = ''application/'' then drop 12 s else s)"

definition isJwtTyp :: "json \<Rightarrow> string \<Rightarrow> bool" where
  "isJwtTyp value typ = (case value of
       JStr s \<Rightarrow> stripApplication (toLowerText s) = stripApplication (toLowerText typ)
     | _ \<Rightarrow> False)"

definition KB_JWT_TYP :: string where
  "KB_JWT_TYP = ''kb+jwt''"

text \<open>The fields of a Key Binding JWT once their types are checked: algorithm, time, audience, nonce, hash.\<close>

record kbFields =
  kb_alg :: string
  kb_iat :: rat
  kb_aud :: string
  kb_nonce :: string
  kb_sdHash :: string

definition kbFieldsOf :: "json \<Rightarrow> json \<Rightarrow> kbFields option" where
  "kbFieldsOf header payload =
     (case (strOf (claimOf header ''alg''), numOf (claimOf payload ''iat''), strOf (claimOf payload ''aud''),
            strOf (claimOf payload ''nonce''), strOf (claimOf payload ''sd_hash'')) of
        (Some alg, Some iat, Some aud, Some nonce, Some h) \<Rightarrow>
          if alg = ''none'' \<or> \<not> isJwtTyp (claimOf header ''typ'') KB_JWT_TYP \<or> h = [] then None
          else Some \<lparr>kb_alg = alg, kb_iat = iat, kb_aud = aud, kb_nonce = nonce, kb_sdHash = h\<rparr>
      | _ \<Rightarrow> None)"

definition verifyKb :: "platform \<Rightarrow> rat \<Rightarrow> kbVerifier \<Rightarrow> json \<Rightarrow> string \<Rightarrow> verifierOptions \<Rightarrow> jwt \<Rightarrow> sdError + json \<times> json" where
  "verifyKb p now verifier payload nonce options j =
     bindR (ensure (truthy (jw_header j) \<and> truthy (jw_payload j) \<and> cached (jw_signature j))
       (SdJwtError ''Verify Error: Invalid JWT'')) (\<lambda>_.
     case kbFieldsOf (jw_header j) (jw_payload j) of
       None \<Rightarrow> Inl (SdJwtError ''Invalid Key Binding Jwt'')
     | Some f \<Rightarrow>
       bindR (ensure (case vo_allowedKeyBindingAlgorithms options of None \<Rightarrow> True | Some allowed \<Rightarrow> kb_alg f \<in> set allowed)
         (SdJwtError (''Verify Error: Disallowed Key Binding alg '' @ kb_alg f))) (\<lambda>_.
       bindR (ensure (\<not> hasCrit (jw_header j))
         (SdJwtError ''Verify Error: unsupported critical header parameters in Key Binding JWT'')) (\<lambda>_.
       bindR (ensure (kb_nonce f = nonce) (SdJwtError ''Verify Error: Invalid Nonce'')) (\<lambda>_.
       bindR (ensure (case vo_expectedKeyBindingAudience options of None \<Rightarrow> True | Some e \<Rightarrow> kb_aud f \<in> set (asList e))
         (SdJwtError ''Verify Error: Invalid Key Binding audience'')) (\<lambda>_.
       bindR (validateMaxAge KeyBindingJwt (Some (kb_iat f)) (currentDateOf now options) (skewOf options)
         (vo_keyBindingMaxAgeSeconds options)) (\<lambda>_.
       bindR (validateJwtPayload now (jw_payload j) (getJwtTimeValidationOptions options) KeyBindingJwt) (\<lambda>_.
       verifyJwt p now (\<lambda>data sig _. verifier data sig payload) j (noOptions\<lparr>vo_skipJwtClaimValidation := True\<rparr>))))))))"

end
