(* ===== verification/Pack.thy ===== *)
theory Pack imports Unpack begin

text \<open>
  \<open>pack\<close> of \<open>packages/sd-jwt-core/src/sdjwt.ts\<close>, which moves the claims a disclosure frame names into
  disclosures and leaves digests in their place, with the salts and decoys it draws
  (\<open>createDisclosureSalt\<close>, \<open>addDisclosureDigest\<close>, \<open>createDecoy\<close>), and \<open>listKeys\<close>. A frame is the
  object of the caller; the result of the \<open>i\<close>-th call of the salt generator is \<open>sg i\<close>, a string by
  its type.
\<close>

section \<open>State\<close>

record packState =
  ps_calls :: nat
  ps_salts :: "string list"
  ps_digests :: "string list"

definition newPackState :: packState where
  "newPackState = \<lparr>ps_calls = 0, ps_salts = [], ps_digests = []\<rparr>"

type_synonym saltGenerator = "nat \<Rightarrow> string"

definition createDisclosureSalt :: "saltGenerator \<Rightarrow> packState \<Rightarrow> sdError + string \<times> packState" where
  "createDisclosureSalt sg st =
     (let salt = sg (ps_calls st)
      in if salt \<in> set (ps_salts st) then Inl (SdJwtError ''Duplicate disclosure salt detected'')
         else Inr (salt, st\<lparr>ps_calls := ps_calls st + 1, ps_salts := salt # ps_salts st\<rparr>))"

definition addDisclosureDigest :: "string \<Rightarrow> packState \<Rightarrow> sdError + packState" where
  "addDisclosureDigest digest st =
     (if digest \<in> set (ps_digests st) then Inl (SdJwtError ''Duplicate disclosure digest detected'')
      else Inr (st\<lparr>ps_digests := digest # ps_digests st\<rparr>))"

definition createDecoy :: "platform \<Rightarrow> string \<Rightarrow> saltGenerator \<Rightarrow> packState \<Rightarrow> string \<times> packState" where
  "createDecoy p alg sg st = (digestOf p alg (sg (ps_calls st)), st\<lparr>ps_calls := ps_calls st + 1\<rparr>)"

section \<open>Reading frames and claims\<close>

definition frameFields :: "json \<Rightarrow> fields" where
  "frameFields frame = (case frame of JObj kvs \<Rightarrow> kvs | JArr xs \<Rightarrow> forIn frame | _ \<Rightarrow> [])"

definition frameProp :: "json \<Rightarrow> string \<Rightarrow> json" where
  "frameProp frame k = (case map_of (frameFields frame) k of None \<Rightarrow> JUndefined | Some v \<Rightarrow> v)"

text \<open>\<open>frame[SD_DIGEST] ?? []\<close> and \<open>sd.includes(key)\<close>; \<open>frame[SD_DECOY] ?? 0\<close>.\<close>

definition strIncludes :: "string \<Rightarrow> string \<Rightarrow> bool" where
  "strIncludes s t = list_ex (\<lambda>i. take (length t) (drop i s) = t) [0..<Suc (length s)]"

definition sdIncludes :: "json \<Rightarrow> json \<Rightarrow> string \<Rightarrow> sdError + bool" where
  "sdIncludes frame key keyText = (case frameProp frame SD_DIGEST of
       JUndefined \<Rightarrow> Inr False
     | JNull \<Rightarrow> Inr False
     | JArr xs \<Rightarrow> Inr (key \<in> set xs)
     | JStr s \<Rightarrow> Inr (strIncludes s keyText)
     | _ \<Rightarrow> Inl TypeError)"

definition decoyCount :: "json \<Rightarrow> nat" where
  "decoyCount frame = (case frameProp frame SD_DECOY of JNum q \<Rightarrow> nat \<lceil>q\<rceil> | _ \<Rightarrow> 0)"

text \<open>\<open>Number.parseInt(key, 10)\<close>, \<open>None\<close> for \<open>NaN\<close>, and the key it is when used as a property.\<close>

definition parseInt10 :: "string \<Rightarrow> int option" where
  "parseInt10 s =
     (let t = dropWhile (\<lambda>c. c = CHR '' '') s;
          neg = (t \<noteq> [] \<and> hd t = CHR ''-'');
          u = (if t \<noteq> [] \<and> (hd t = CHR ''-'' \<or> hd t = CHR ''+'') then tl t else t);
          ds = takeWhile isDigit u
      in if ds = [] then None else Some (if neg then - int (decValue ds) else int (decValue ds)))"

definition indexText :: "int option \<Rightarrow> string" where
  "indexText i = (case i of None \<Rightarrow> ''NaN'' | Some z \<Rightarrow> if z < 0 then ''-'' @ natText (nat (- z)) else natText (nat z))"

text \<open>
  The child a key of the frame selects: the name its packed value is kept under, the claim and the
  frame for it. For arrays the key is read as a number first.
\<close>

definition childOf :: "json \<Rightarrow> json \<Rightarrow> string \<Rightarrow> json \<Rightarrow> sdError + string \<times> json \<times> json" where
  "childOf claims frame key sub = (case claims of
       JArr xs \<Rightarrow> (let idx = parseInt10 key; name = indexText idx
         in Inr (name,
                 (case idx of None \<Rightarrow> JUndefined | Some z \<Rightarrow> if 0 \<le> z \<and> nat z < length xs then xs ! nat z else JUndefined),
                 frameProp frame name))
     | JObj kvs \<Rightarrow> Inr (key, getProp kvs key, sub)
     | JUndefined \<Rightarrow> Inl TypeError
     | JNull \<Rightarrow> Inl TypeError
     | v \<Rightarrow> Inr (key, (case map_of (forIn v) key of None \<Rightarrow> JUndefined | Some x \<Rightarrow> x), sub))"

section \<open>Packing\<close>

text \<open>\<open>recursivePackedClaims[key] ? recursivePackedClaims[key] : claims[key]\<close>.\<close>

definition pick :: "fields \<Rightarrow> string \<Rightarrow> json \<Rightarrow> json" where
  "pick packed key claim = (if truthy (getProp packed key) then getProp packed key else claim)"

definition disclose :: "platform \<Rightarrow> string \<Rightarrow> saltGenerator \<Rightarrow> json list \<Rightarrow> packState
    \<Rightarrow> sdError + string \<times> disclosure \<times> packState" where
  "disclose p alg sg keyAndValue st =
     bindR (createDisclosureSalt sg st) (\<lambda>(salt, st1).
     bindR (newDisclosure (JArr (JStr salt # keyAndValue)) None) (\<lambda>disclosure.
     let (digest, d) = digestDisclosure p alg disclosure in
     bindR (addDisclosureDigest digest st1) (\<lambda>st2. Inr (digest, d, st2))))"

fun decoyLoop :: "platform \<Rightarrow> string \<Rightarrow> saltGenerator \<Rightarrow> nat \<Rightarrow> packState \<Rightarrow> sdError + string list \<times> packState" where
  "decoyLoop p alg sg 0 st = Inr ([], st)"
| "decoyLoop p alg sg (Suc j) st =
     (let (digest, st1) = createDecoy p alg sg st in
      bindR (addDisclosureDigest digest st1) (\<lambda>st2.
      bindR (decoyLoop p alg sg j st2) (\<lambda>(ds, st3). Inr (digest # ds, st3))))"

definition placeholder :: "string \<Rightarrow> json" where
  "placeholder digest = JObj [(SD_LIST_KEY, JStr digest)]"

definition elementStep :: "platform \<Rightarrow> string \<Rightarrow> saltGenerator \<Rightarrow> json \<Rightarrow> fields \<Rightarrow> json list
    \<Rightarrow> json list \<times> disclosure list \<times> packState \<Rightarrow> nat \<Rightarrow> sdError + json list \<times> disclosure list \<times> packState" where
  "elementStep p alg sg frame packed xs acc i = (case acc of (items, ds, st) \<Rightarrow>
     let claim = pick packed (natText i) (xs ! i) in
     bindR (sdIncludes frame (JNum (of_nat i)) (natText i)) (\<lambda>b.
       if b then bindR (disclose p alg sg [claim] st) (\<lambda>(digest, d, st').
              Inr (items @ [placeholder digest], ds @ [d], st'))
       else Inr (items @ [claim], ds, st)))"

definition fieldStep :: "platform \<Rightarrow> string \<Rightarrow> saltGenerator \<Rightarrow> json \<Rightarrow> fields
    \<Rightarrow> fields \<times> string list \<times> disclosure list \<times> packState \<Rightarrow> string \<times> json
    \<Rightarrow> sdError + fields \<times> string list \<times> disclosure list \<times> packState" where
  "fieldStep p alg sg frame packed acc kv = (case acc of (out, sds, ds, st) \<Rightarrow>
     let key = fst kv; claim = pick packed key (snd kv) in
     bindR (sdIncludes frame (JStr key) key) (\<lambda>b.
       if b then bindR (disclose p alg sg [JStr key, claim] st) (\<lambda>(digest, d, st').
              Inr (out, sds @ [digest], ds @ [d], st'))
       else Inr (setProp key claim out, sds, ds, st)))"

lemma frameProp_size:
  assumes "(key, sub) \<in> set (frameFields frame)"
  shows "size (frameProp frame k) < size frame \<and> size sub < size frame"
proof -
  have "size (snd q) < size frame" if "q \<in> set (frameFields frame)" for q
    using that by (cases frame)
      (auto simp: frameFields_def size_prod_snd less_Suc_eq_le size_nth_le less_Suc_eq_le [THEN iffD1, OF size_snd_field])
  moreover have "size (frameProp frame k) < size frame" if "map_of (frameFields frame) k = None"
    using that assms by (cases frame) (auto simp: frameProp_def frameFields_def)
  ultimately show ?thesis
    using assms by (fastforce simp: frameProp_def split: option.splits dest: map_of_SomeD)
qed

lemma childOf_size:
  "(key, sub) \<in> set (frameFields frame) \<Longrightarrow> childOf claims frame key sub = Inr (name, c, f) \<Longrightarrow> size f < size frame"
  using frameProp_size by (auto simp: childOf_def Let_def split: json.splits)

lemma childOf_size':
  "ks \<in> set (frameFields frame) \<Longrightarrow> childOf claims frame (fst ks) (snd ks) = Inr child \<Longrightarrow>
   size (snd (snd child)) < size frame"
  using childOf_size [of "fst ks" "snd ks" frame claims "fst child" "fst (snd child)" "snd (snd child)"] by simp

function pack :: "platform \<Rightarrow> string \<Rightarrow> saltGenerator \<Rightarrow> json \<Rightarrow> json \<Rightarrow> packState
    \<Rightarrow> sdError + json \<times> disclosure list \<times> packState" where
  "pack p alg sg claims frame st =
     (if \<not> truthy frame then Inr (claims, [], st)
      else bindR (foldR (\<lambda>acc ks.
          if fst ks = SD_DIGEST then Inr acc
          else bindR (childOf claims frame (fst ks) (snd ks)) (\<lambda>child.
            bindR (pack p alg sg (fst (snd child)) (snd (snd child)) (snd (snd acc))) (\<lambda>res.
              Inr (setProp (fst child) (fst res) (fst acc), fst (snd acc) @ fst (snd res), snd (snd res)))))
          ([], [], st) (frameFields frame)) (\<lambda>(packed, ds, st1).
        case claims of
          JArr xs \<Rightarrow>
            bindR (foldR (elementStep p alg sg frame packed xs) ([], ds, st1) [0..<length xs]) (\<lambda>(items, ds', st2).
            bindR (decoyLoop p alg sg (decoyCount frame) st2) (\<lambda>(decoys, st3).
              Inr (JArr (items @ map placeholder decoys), ds', st3)))
        | _ \<Rightarrow>
            bindR (foldR (fieldStep p alg sg frame packed) ([], [], ds, st1) (forIn claims)) (\<lambda>(out, sds, ds', st2).
            bindR (decoyLoop p alg sg (decoyCount frame) st2) (\<lambda>(decoys, st3).
              let all = sds @ decoys in
              Inr (JObj (if length all > 0 then setProp SD_DIGEST (JArr (map JStr (sort all))) out else out), ds', st3)))))"
  by pat_completeness auto

termination
proof (relation "measure (\<lambda>(p, alg, sg, claims, frame, st). size frame)", goal_cases)
  case 2
  then show ?case by (auto intro: childOf_size')
qed simp

declare pack.simps [simp del]

section \<open>The keys of an unpacked payload\<close>

lemma forIn_size: "kv \<in> set (forIn v) \<Longrightarrow> typeofObject (snd kv) \<Longrightarrow> size (snd kv) < size v"
proof (cases v)
  case (JArr xs)
  assume "kv \<in> set (forIn v)"
  then show ?thesis using JArr by (auto simp: less_Suc_eq_le size_nth_le)
next
  case (JObj kvs)
  assume "kv \<in> set (forIn v)"
  then show ?thesis using JObj size_field [of "fst kv" "snd kv" kvs] by (simp add: size_prod_snd)
qed auto

function listKeys :: "json \<Rightarrow> string \<Rightarrow> string list" where
  "listKeys obj prefix = concat (map (\<lambda>kv.
     if snd kv = JUndefined then []
     else let newKey = joinPath prefix (encodePathSegment (fst kv))
          in newKey # (if truthy (snd kv) \<and> typeofObject (snd kv) then listKeys (snd kv) newKey else []))
     (forIn obj))"
  by pat_completeness auto

termination
  by (relation "measure (\<lambda>(v, prefix). size v)") (auto intro: forIn_size)

declare listKeys.simps [simp del]

end
