(* ===== verification/SdJwt.thy ===== *)
theory SdJwt imports Jwt Pack begin

text \<open>
  The class \<open>SdJwt\<close> of \<open>packages/sd-jwt-core/src/sdjwt.ts\<close> and the presentation of selected disclosures
  of \<open>present/present.ts\<close>. The synchronous variants do the same as the asynchronous ones and share
  their definitions. What \<open>encodeJwt\<close> and \<open>encode\<close> keep in their objects is what they would compute
  again, so the functions below return the text only.
\<close>

section \<open>State\<close>

record sdJwt =
  sj_jwt :: "jwt option"
  sj_disclosures :: "disclosure list option"
  sj_kbJwt :: "jwt option"

definition newSdJwt :: "jwt option \<Rightarrow> disclosure list option \<Rightarrow> jwt option \<Rightarrow> sdJwt" where
  "newSdJwt j ds kb = \<lparr>sj_jwt = j, sj_disclosures = ds, sj_kbJwt = kb\<rparr>"

definition decodeToSdJwt :: "platform \<Rightarrow> string \<Rightarrow> sdError + jwt \<times> disclosure list \<times> jwt option" where
  "decodeToSdJwt p sdjwt = (let parts = splitOn SD_SEPARATOR sdjwt; rest = tl parts in
     bindR (ensure (rest \<noteq> []) (SdJwtError ''Invalid SD-JWT: missing SD-JWT separator'')) (\<lambda>_.
     bindR (jwtFromEncode p (hd parts)) (\<lambda>j.
     bindR (ensure (truthy (jw_payload j)) (PlainError ''Payload is undefined on the JWT. Invalid state reached'')) (\<lambda>_.
     let kb = last rest in
     bindR (if kb \<noteq> [] then bindR (jwtFromEncode p kb) (\<lambda>k. Inr (Some k)) else Inr None) (\<lambda>kbJwt.
     bindR (payloadFields (jw_payload j)) (\<lambda>fields.
     bindR (getSdAlgAndPayload fields DEFAULT_SECURE_HASH_ALGORITHMS) (\<lambda>(alg, _).
     bindR (mapR (disclosureFromEncode p alg) (butlast rest)) (\<lambda>ds.
       Inr (j, ds, kbJwt)))))))))"

definition extractJwt :: "platform \<Rightarrow> string \<Rightarrow> sdError + jwt" where
  "extractJwt p encodedSdJwt = jwtFromEncode p (hd (splitOn SD_SEPARATOR encodedSdJwt))"

definition sdJwtFromEncode :: "platform \<Rightarrow> string \<Rightarrow> sdError + sdJwt" where
  "sdJwtFromEncode p encodedSdJwt = bindR (decodeToSdJwt p encodedSdJwt) (\<lambda>(j, ds, kb).
     Inr (newSdJwt (Some j) (Some ds) kb))"

section \<open>Presentation frames\<close>

text \<open>\<open>Object.entries\<close> of a frame; a value that is not an object has none, \<open>null\<close> throws.\<close>

function transformPresentationFrame :: "json \<Rightarrow> string list \<Rightarrow> string list" where
  "transformPresentationFrame obj prefix = concat (map (\<lambda>kv.
     let newPrefix = prefix @ [fst kv] in
     (if snd kv = JBool True then [encodePath newPrefix]
      else if typeofObject (snd kv) \<and> snd kv \<noteq> JNull
        then encodePath newPrefix # transformPresentationFrame (snd kv) newPrefix
      else [])) (forIn obj))"
  by pat_completeness auto

termination
  by (relation "measure (\<lambda>(v, prefix). size v)") (auto intro: forIn_size)

declare transformPresentationFrame.simps [simp del]

definition frameKeys :: "json \<Rightarrow> sdError + string list" where
  "frameKeys frame = (if frame = JNull \<or> frame = JUndefined then Inl TypeError
     else Inr (transformPresentationFrame frame []))"

text \<open>
  \<open>keys.map((k) => hashmap[disclosureKeymap[k]]).filter((d) => d !== undefined)\<close>. A key without a
  disclosure looks up the text of \<open>undefined\<close>, and a digest that is the name of an inherited property
  finds that property, \<open>None\<close> here, which is not a disclosure.
\<close>

definition chosen :: "dmap \<Rightarrow> keymap \<Rightarrow> string list \<Rightarrow> disclosure option list" where
  "chosen m keymap keys = concat (map (\<lambda>k.
     let h = (case map_of keymap k of None \<Rightarrow> ''undefined'' | Some h \<Rightarrow> h) in
     (case map_of m h of Some d \<Rightarrow> [Some d] | None \<Rightarrow> if h \<in> set protoKeys then [None] else [])) keys)"

definition encodeChosen :: "platform \<Rightarrow> disclosure option list \<Rightarrow> sdError + string list" where
  "encodeChosen p ds = mapR (\<lambda>d. case d of None \<Rightarrow> Inl TypeError | Some d \<Rightarrow> Inr (fst (encodeDisclosure p d))) ds"

section \<open>Presenting a compact SD-JWT\<close>

definition presentableKeysOf :: "platform \<Rightarrow> fields \<Rightarrow> disclosure list \<Rightarrow> sdError + string list" where
  "presentableKeysOf p rawPayload ds = bindR (unpack p rawPayload ds) (\<lambda>(v, keys). Inr (sort (map fst keys)))"

definition presentCompact :: "platform \<Rightarrow> string \<Rightarrow> json \<Rightarrow> sdError + string" where
  "presentCompact p sdjwt frame =
     bindR (splitSdJwt sdjwt) (\<lambda>parts.
     bindR (decodeSdJwt p sdjwt) (\<lambda>d.
     bindR (payloadFields (dj_payload (ds_jwt d))) (\<lambda>payload.
     bindR (getSdAlgAndPayload payload DEFAULT_SECURE_HASH_ALGORITHMS) (\<lambda>(alg, _).
     bindR (frameKeys frame) (\<lambda>keys.
     bindR (createHashMapping p alg (ds_disclosures d)) (\<lambda>m.
     bindR (unpack p payload (ds_disclosures d)) (\<lambda>(v, keymap).
     bindR (encodeChosen p (chosen m keymap keys)) (\<lambda>encoded.
       Inr (joinWith [SD_SEPARATOR] ([sp_jwt parts] @ encoded
         @ [case sp_kbJwt parts of None \<Rightarrow> [] | Some kb \<Rightarrow> kb]))))))))))"

section \<open>Serialized disclosures\<close>

record serializedDisclosure =
  sz_digest :: string
  sz_encoded :: string
  sz_salt :: string
  sz_key :: "string option"
  sz_value :: json

fun serializedMapping :: "serializedDisclosure list \<Rightarrow> dmap \<Rightarrow> sdError + dmap" where
  "serializedMapping [] m = Inr m"
| "serializedMapping (s # ss) m =
     bindR (newDisclosure (case sz_key s of
          Some k \<Rightarrow> if k \<noteq> [] then JArr [JStr (sz_salt s), JStr k, sz_value s] else JArr [JStr (sz_salt s), sz_value s]
        | None \<Rightarrow> JArr [JStr (sz_salt s), sz_value s]) (Some (sz_digest s, sz_encoded s))) (\<lambda>d.
     serializedMapping ss (setProp (sz_digest s) d m))"

definition createHashMappingForSerializedDisclosure :: "serializedDisclosure list \<Rightarrow> sdError + dmap" where
  "createHashMappingForSerializedDisclosure ds = serializedMapping ds []"

definition serializeChosen :: "platform \<Rightarrow> disclosure option \<Rightarrow> sdError + serializedDisclosure" where
  "serializeChosen p c = (case c of
       Some d \<Rightarrow> if cached (d_digest d)
         then Inr \<lparr>sz_digest = the (d_digest d), sz_encoded = fst (encodeDisclosure p d), sz_salt = d_salt d,
                   sz_key = d_key d, sz_value = d_value d\<rparr>
         else Inl (SdJwtError ''Implementation error: _digest is not defined'')
     | None \<Rightarrow> Inl (SdJwtError ''Implementation error: _digest is not defined''))"

definition selectDisclosures :: "platform \<Rightarrow> json \<Rightarrow> serializedDisclosure list \<Rightarrow> json \<Rightarrow> sdError + serializedDisclosure list" where
  "selectDisclosures p payload ds frame =
     (if ds = [] then Inr []
      else bindR (createHashMappingForSerializedDisclosure ds) (\<lambda>m.
        bindR (unpackObj payload m) (\<lambda>(v, keymap).
        bindR (frameKeys frame) (\<lambda>keys. mapR (serializeChosen p) (chosen m keymap keys)))))"

section \<open>Operations of an SdJwt\<close>

text \<open>The payload and disclosures every operation needs, and what they unpack to.\<close>

definition sdJwtParts :: "sdJwt \<Rightarrow> sdError + fields \<times> disclosure list" where
  "sdJwtParts s = (case (sj_jwt s, sj_disclosures s) of
       (Some j, Some ds) \<Rightarrow> bindR (ensure (truthy (jw_payload j)) (SdJwtError ''Invalid sd-jwt: jwt or disclosures is missing'')) (\<lambda>_.
          bindR (payloadFields (jw_payload j)) (\<lambda>fields. Inr (fields, ds)))
     | _ \<Rightarrow> Inl (SdJwtError ''Invalid sd-jwt: jwt or disclosures is missing''))"

definition presentableKeys :: "platform \<Rightarrow> sdJwt \<Rightarrow> sdError + string list" where
  "presentableKeys p s = bindR (sdJwtParts s) (\<lambda>(fields, ds). presentableKeysOf p fields ds)"

definition sdJwtClaims :: "platform \<Rightarrow> sdJwt \<Rightarrow> sdError + json" where
  "sdJwtClaims p s = bindR (sdJwtParts s) (\<lambda>(fields, ds). getClaims p fields ds)"

definition sdJwtKeys :: "platform \<Rightarrow> sdJwt \<Rightarrow> sdError + string list" where
  "sdJwtKeys p s = bindR (sdJwtClaims p s) (\<lambda>claims. Inr (sort (listKeys claims [])))"

definition getPresentDisclosures :: "platform \<Rightarrow> sdJwt \<Rightarrow> json \<Rightarrow> sdError + disclosure option list" where
  "getPresentDisclosures p s frame =
     bindR (sdJwtParts s) (\<lambda>(fields, ds).
     bindR (getSdAlgAndPayload fields DEFAULT_SECURE_HASH_ALGORITHMS) (\<lambda>(alg, _).
     bindR (createHashMapping p alg ds) (\<lambda>m.
     bindR (unpack p fields ds) (\<lambda>(v, keymap).
     bindR (if truthy frame then frameKeys frame else presentableKeys p s) (\<lambda>keys.
       Inr (chosen m keymap keys))))))"

definition encodeSdJwtParts :: "platform \<Rightarrow> jwt option \<Rightarrow> disclosure option list \<Rightarrow> jwt option \<Rightarrow> sdError + string" where
  "encodeSdJwtParts p jw ds kb = (case jw of
       None \<Rightarrow> Inl (SdJwtError ''Invalid sd-jwt: jwt is missing'')
     | Some j \<Rightarrow> bindR (encodeJwt p j) (\<lambda>(encodedJwt, _).
         bindR (encodeChosen p ds) (\<lambda>encoded.
         bindR (case kb of None \<Rightarrow> Inr [] | Some k \<Rightarrow> bindR (encodeJwt p k) (\<lambda>(s, _). Inr s)) (\<lambda>kbText.
           Inr (joinWith [SD_SEPARATOR] ([encodedJwt]
             @ (if length encoded > 0 then [joinWith [SD_SEPARATOR] encoded] else []) @ [kbText]))))))"

definition encodeSdJwt :: "platform \<Rightarrow> sdJwt \<Rightarrow> sdError + string" where
  "encodeSdJwt p s = encodeSdJwtParts p (sj_jwt s)
     (case sj_disclosures s of None \<Rightarrow> [] | Some ds \<Rightarrow> map Some ds) (sj_kbJwt s)"

definition presentSdJwt :: "platform \<Rightarrow> sdJwt \<Rightarrow> json \<Rightarrow> sdError + string" where
  "presentSdJwt p s frame = bindR (getPresentDisclosures p s frame) (\<lambda>ds.
     encodeSdJwtParts p (sj_jwt s) ds (sj_kbJwt s))"

end
