(* ===== verification/Instance.thy ===== *)
theory Instance imports SdJwt begin

text \<open>
  \<open>packages/sd-jwt-core/src/index.ts\<close>: \<open>SdJwtInstance\<close>, which issues, presents and verifies SD-JWTs with the
  configuration of its user. A configured function is \<open>Some\<close> of it; hashing and JSON are those of the
  platform. \<open>validateDisclosureFrame\<close> does nothing in this class.
\<close>

section \<open>Configuration\<close>

record sdJwtConfig =
  cf_omitTyp :: bool
  cf_hasher :: bool
  cf_hashAlg :: "string option"
  cf_allowedDisclosureHashAlgorithms :: "string list option"
  cf_saltGenerator :: "saltGenerator option"
  cf_signer :: "signer option"
  cf_signAlg :: "string option"
  cf_verifier :: "verifier option"
  cf_kbSigner :: "signer option"
  cf_kbSignAlg :: "string option"
  cf_kbVerifier :: "kbVerifier option"

definition allowedHashAlgorithms :: "sdJwtConfig \<Rightarrow> string list" where
  "allowedHashAlgorithms c = (case cf_allowedDisclosureHashAlgorithms c of
     None \<Rightarrow> DEFAULT_SECURE_HASH_ALGORITHMS | Some algs \<Rightarrow> algs)"

definition newInstance :: "sdJwtConfig \<Rightarrow> sdError + sdJwtConfig" where
  "newInstance c = (case cf_hashAlg c of
       None \<Rightarrow> Inr c
     | Some alg \<Rightarrow> if alg = [] then Inr c
         else bindR (ensure (alg \<in> set IANA_HASH_ALGORITHMS) (SdJwtError (''Invalid hash algorithm: '' @ alg))) (\<lambda>_.
           bindR (ensure (alg \<in> set (allowedHashAlgorithms c)) (SdJwtError (''Disallowed hash algorithm: '' @ alg))) (\<lambda>_.
           Inr c)))"

section \<open>Reserved names\<close>

definition reservedFields :: "string list" where
  "reservedFields = [SD_DIGEST, ''_sd_alg'', SD_DECOY, SD_LIST_KEY]"

function validateReservedFields :: "json \<Rightarrow> sdError + unit" where
  "validateReservedFields node =
     (if \<not> truthy node \<or> \<not> typeofObject node then Inr ()
      else foldR (\<lambda>u kv.
        if fst kv \<in> set reservedFields then Inl (SdJwtError (''Reserved field name \"'' @ fst kv @ ''\" is not allowed''))
        else if typeofObject (snd kv) then validateReservedFields (snd kv) else Inr ()) () (forIn node))"
  by pat_completeness auto

termination
  by (relation "measure size") (auto intro: forIn_size)

declare validateReservedFields.simps [simp del]

section \<open>Issuing\<close>

definition objectFields :: "json \<Rightarrow> fields" where
  "objectFields v = (case v of JObj kvs \<Rightarrow> kvs | _ \<Rightarrow> forIn v)"

text \<open>Configured values are used when they are truthy.\<close>

definition given :: "string option \<Rightarrow> bool" where
  "given s = (s \<noteq> None \<and> s \<noteq> Some [])"

definition hashAlgOf :: "sdJwtConfig \<Rightarrow> string" where
  "hashAlgOf c = (case cf_hashAlg c of None \<Rightarrow> ''sha-256'' | Some alg \<Rightarrow> alg)"

definition createKbJwt :: "platform \<Rightarrow> sdJwtConfig \<Rightarrow> fields \<Rightarrow> string \<Rightarrow> sdError + jwt" where
  "createKbJwt p c kbPayload sdHash = (case cf_kbSigner c of
       None \<Rightarrow> Inl (SdJwtError ''Key Binding Signer not found'')
     | Some sign \<Rightarrow>
         if \<not> given (cf_kbSignAlg c) then Inl (SdJwtError ''Key Binding sign algorithm not specified'')
         else bindR (signJwt p sign (newJwt
             (JObj [(''typ'', JStr KB_JWT_TYP), (''alg'', JStr (the (cf_kbSignAlg c)))])
             (JObj (setProp ''sd_hash'' (JStr sdHash) kbPayload)) None None)) (\<lambda>(_, j). Inr j))"

definition signWith :: "platform \<Rightarrow> sdJwtConfig \<Rightarrow> jwt \<Rightarrow> sdError + jwt" where
  "signWith p c j = (case cf_signer c of
       None \<Rightarrow> Inl (SdJwtError ''Signer not found'')
     | Some sign \<Rightarrow> bindR (signJwt p sign j) (\<lambda>(_, j'). Inr j'))"

definition verifyWith :: "platform \<Rightarrow> rat \<Rightarrow> sdJwtConfig \<Rightarrow> jwt \<Rightarrow> verifierOptions \<Rightarrow> sdError + json \<times> json" where
  "verifyWith p now c j options = (case cf_verifier c of
       None \<Rightarrow> Inl (SdJwtErrorCode VERIFIER_NOT_FOUND ''Verifier not found'')
     | Some verifier \<Rightarrow> verifyJwt p now verifier j options)"

text \<open>The header: the type of the instance, the header of the caller over it, the algorithm over both.\<close>

definition issueHeader :: "sdJwtConfig \<Rightarrow> json \<Rightarrow> fields \<Rightarrow> json" where
  "issueHeader c typ header =
     JObj (setProp ''alg'' (JStr (the (cf_signAlg c)))
       (if cf_omitTyp c then header else spreadProps [(''typ'', typ)] header))"

definition issuePayload :: "json \<Rightarrow> json \<Rightarrow> string \<Rightarrow> json" where
  "issuePayload packed frame hashAlg =
     JObj (setProp ''_sd_alg'' (if truthy frame then JStr hashAlg else JUndefined) (objectFields packed))"

definition issue :: "platform \<Rightarrow> sdJwtConfig \<Rightarrow> json \<Rightarrow> json \<Rightarrow> json \<Rightarrow> fields \<Rightarrow> sdError + string" where
  "issue p c typ payload frame header =
     bindR (ensure (cf_hasher c) (SdJwtError ''Hasher not found'')) (\<lambda>_.
     case cf_saltGenerator c of
       None \<Rightarrow> Inl (SdJwtError ''SaltGenerator not found'')
     | Some sg \<Rightarrow>
       bindR (ensure (given (cf_signAlg c)) (SdJwtError ''sign alogrithm not specified'')) (\<lambda>_.
       bindR (ensure (cf_signAlg c \<noteq> Some ''none'') (SdJwtError ''sign algorithm \"none\" is not allowed'')) (\<lambda>_.
       bindR (validateReservedFields payload) (\<lambda>_.
       let hashAlg = hashAlgOf c in
       bindR (ensure (hashAlg \<in> set (allowedHashAlgorithms c)) (SdJwtError (''Disallowed hash algorithm: '' @ hashAlg))) (\<lambda>_.
       bindR (pack p hashAlg sg payload frame newPackState) (\<lambda>(packed, ds, _).
       bindR (signWith p c (newJwt (issueHeader c typ header) (issuePayload packed frame hashAlg) None None)) (\<lambda>j.
         encodeSdJwt p (newSdJwt (Some j) (Some ds) None))))))))"

section \<open>Presenting\<close>

definition calculateSdHash :: "platform \<Rightarrow> string \<Rightarrow> sdJwt \<Rightarrow> sdError + string" where
  "calculateSdHash p text s = (case sj_jwt s of
       None \<Rightarrow> Inl (SdJwtError ''Invalid SD JWT'')
     | Some j \<Rightarrow> bindR (ensure (truthy (jw_payload j)) (SdJwtError ''Invalid SD JWT'')) (\<lambda>_.
         bindR (payloadFields (jw_payload j)) (\<lambda>fields.
         bindR (getSdAlgAndPayload fields DEFAULT_SECURE_HASH_ALGORITHMS) (\<lambda>(alg, _).
           Inr (digestOf p alg text)))))"

definition present :: "platform \<Rightarrow> sdJwtConfig \<Rightarrow> string \<Rightarrow> json \<Rightarrow> fields option \<Rightarrow> sdError + string" where
  "present p c encodedSdJwt frame kb =
     bindR (ensure (cf_hasher c) (SdJwtError ''Hasher not found'')) (\<lambda>_.
     bindR (sdJwtFromEncode p encodedSdJwt) (\<lambda>s.
     bindR (ensure (sj_kbJwt s = None) (SdJwtError ''Holder cannot present an SD-JWT with KB-JWT'')) (\<lambda>_.
     bindR (presentSdJwt p s frame) (\<lambda>withoutKb.
     case kb of
       None \<Rightarrow> Inr withoutKb
     | Some kbPayload \<Rightarrow>
         bindR (calculateSdHash p withoutKb s) (\<lambda>sdHash.
         bindR (createKbJwt p c kbPayload sdHash) (\<lambda>k.
           presentSdJwt p (s\<lparr>sj_kbJwt := Some k\<rparr>) frame))))))"

section \<open>Verifying\<close>

definition validate :: "platform \<Rightarrow> rat \<Rightarrow> sdJwtConfig \<Rightarrow> string \<Rightarrow> verifierOptions \<Rightarrow> sdError + json \<times> json" where
  "validate p now c encodedSdJwt options =
     bindR (ensure (cf_hasher c) (SdJwtError ''Hasher not found'')) (\<lambda>_.
     bindR (sdJwtFromEncode p encodedSdJwt) (\<lambda>s.
     case sj_jwt s of
       None \<Rightarrow> Inl (SdJwtError ''Invalid SD JWT'')
     | Some j \<Rightarrow>
       bindR (verifyWith p now c j (options\<lparr>vo_skipJwtClaimValidation := True\<rparr>)) (\<lambda>(_, header).
       bindR (sdJwtClaims p s) (\<lambda>claims.
       bindR (validateReservedFields claims) (\<lambda>_.
       bindR (validateJwtPayload now claims options IssuerJwt) (\<lambda>_.
         Inr (claims, header)))))))"

definition missingKeys :: "platform \<Rightarrow> sdJwt \<Rightarrow> string list \<Rightarrow> sdError + string list" where
  "missingKeys p s required = bindR (sdJwtKeys p s) (\<lambda>keys. Inr (filter (\<lambda>k. k \<notin> set keys) required))"

definition missingMessage :: "string list \<Rightarrow> string" where
  "missingMessage ks = ''Missing required claim keys: '' @ joinWith '', '' ks"

text \<open>The text of the SD-JWT that the \<open>sd_hash\<close> of a Key Binding JWT covers, and its hash.\<close>

definition sdHashOf :: "platform \<Rightarrow> sdJwt \<Rightarrow> sdError + string" where
  "sdHashOf p s = bindR (encodeSdJwt p (s\<lparr>sj_kbJwt := None\<rparr>)) (\<lambda>text. calculateSdHash p text s)"

text \<open>The payload and header, and the payload and header of the Key Binding JWT when a nonce is given.\<close>

record verified =
  vr_payload :: json
  vr_header :: json
  vr_kb :: "(json \<times> json) option"

definition verify :: "platform \<Rightarrow> rat \<Rightarrow> sdJwtConfig \<Rightarrow> string \<Rightarrow> verifierOptions \<Rightarrow> sdError + verified" where
  "verify p now c encodedSdJwt options =
     bindR (ensure (cf_hasher c) (SdJwtError ''Hasher not found'')) (\<lambda>_.
     bindR (sdJwtFromEncode p encodedSdJwt) (\<lambda>s.
     bindR (validate p now c encodedSdJwt options) (\<lambda>(payload, header).
     bindR (case vo_requiredClaimKeys options of
         None \<Rightarrow> Inr ()
       | Some required \<Rightarrow> bindR (missingKeys p s required) (\<lambda>missing.
           ensure (missing = []) (SdJwtError (missingMessage missing)))) (\<lambda>_.
     if \<not> given (vo_keyBindingNonce options)
     then Inr \<lparr>vr_payload = payload, vr_header = header, vr_kb = None\<rparr>
     else (case (sj_kbJwt s, cf_kbVerifier c) of
         (None, _) \<Rightarrow> Inl (SdJwtError ''Key Binding JWT not exist'')
       | (Some kb, None) \<Rightarrow> Inl (SdJwtError ''Key Binding Verifier not found'')
       | (Some kb, Some kbVerifier) \<Rightarrow>
           bindR (verifyKb p now kbVerifier payload (the (vo_keyBindingNonce options)) options kb) (\<lambda>(kbPayload, kbHeader).
           bindR (sdHashOf p s) (\<lambda>h.
           bindR (ensure (claimOf kbPayload ''sd_hash'' = JStr h) (SdJwtError ''Invalid sd_hash in Key Binding JWT'')) (\<lambda>_.
             Inr \<lparr>vr_payload = payload, vr_header = header, vr_kb = Some (kbPayload, kbHeader)\<rparr>))))))))"

section \<open>Verifying without failing fast\<close>

type_synonym verificationError = "verificationErrorCode \<times> string"

fun errorText :: "sdError \<Rightarrow> string" where
  "errorText (SdJwtError m) = m"
| "errorText (SdJwtErrorCode c m) = m"
| "errorText (JwtTimeClaimError c m d) = m"
| "errorText TypeError = ''TypeError''"
| "errorText (PlainError m) = m"
| "errorText OutOfFuel = ''out of fuel''"

fun codeOf :: "sdError \<Rightarrow> verificationErrorCode option" where
  "codeOf (SdJwtErrorCode c m) = Some c"
| "codeOf (JwtTimeClaimError c m d) = Some c"
| "codeOf _ = None"

definition exceptionToCode :: "sdError \<Rightarrow> verificationErrorCode" where
  "exceptionToCode e = (case codeOf e of None \<Rightarrow> UNKNOWN_ERROR | Some c \<Rightarrow> c)"

text \<open>The steps of \<open>safeVerify\<close>: each returns the errors it adds, with what it found.\<close>

definition safeClaims :: "platform \<Rightarrow> rat \<Rightarrow> sdJwtConfig \<Rightarrow> sdJwt \<Rightarrow> verifierOptions
    \<Rightarrow> json option \<times> json option \<times> verificationError list" where
  "safeClaims p now c s options = (case sj_jwt s of
       None \<Rightarrow> (None, None, [])
     | Some j \<Rightarrow> (case verifyWith p now c j (options\<lparr>vo_skipJwtClaimValidation := True\<rparr>) of
         Inl e \<Rightarrow> (None, None, [(exceptionToCode e, errorText e)])
       | Inr (_, header) \<Rightarrow> (case sdJwtClaims p s of
           Inl e \<Rightarrow> (None, Some header, [(exceptionToCode e, errorText e)])
         | Inr claims \<Rightarrow> (case validateJwtPayload now claims options IssuerJwt of
             Inl e \<Rightarrow> (Some claims, Some header, [(exceptionToCode e, errorText e)])
           | Inr _ \<Rightarrow> (Some claims, Some header, [])))))"

definition safeRequired :: "platform \<Rightarrow> sdJwt \<Rightarrow> verifierOptions \<Rightarrow> verificationError list" where
  "safeRequired p s options = (case vo_requiredClaimKeys options of
       None \<Rightarrow> []
     | Some required \<Rightarrow> (case missingKeys p s required of
         Inl e \<Rightarrow> [(UNKNOWN_ERROR, ''Failed to check required claims: '' @ errorText e)]
       | Inr missing \<Rightarrow> if missing = [] then [] else [(MISSING_REQUIRED_CLAIMS, missingMessage missing)]))"

definition kbFailure :: "sdError \<Rightarrow> verificationError" where
  "kbFailure e = (case codeOf e of None \<Rightarrow> KEY_BINDING_SIGNATURE_INVALID | Some c \<Rightarrow> c,
     ''Key binding verification failed: '' @ errorText e)"

definition safeKeyBinding :: "platform \<Rightarrow> rat \<Rightarrow> sdJwtConfig \<Rightarrow> sdJwt \<Rightarrow> json option \<Rightarrow> verifierOptions
    \<Rightarrow> (json \<times> json) option \<times> verificationError list" where
  "safeKeyBinding p now c s payload options =
     (if \<not> given (vo_keyBindingNonce options) then (None, [])
      else (case (sj_kbJwt s, cf_kbVerifier c) of
          (None, _) \<Rightarrow> (None, [(KEY_BINDING_JWT_MISSING, ''Key Binding JWT not exist'')])
        | (Some kb, None) \<Rightarrow> (None, [(KEY_BINDING_VERIFIER_NOT_FOUND, ''Key Binding Verifier not found'')])
        | (Some kb, Some kbVerifier) \<Rightarrow> (case payload of
            None \<Rightarrow> (None, [])
          | Some claims \<Rightarrow> if \<not> truthy claims then (None, [])
            else (case verifyKb p now kbVerifier claims (the (vo_keyBindingNonce options)) options kb of
                Inl e \<Rightarrow> (None, [kbFailure e])
              | Inr (kbPayload, kbHeader) \<Rightarrow> (case sdHashOf p s of
                  Inl e \<Rightarrow> (Some (kbPayload, kbHeader), [kbFailure e])
                | Inr h \<Rightarrow> if claimOf kbPayload ''sd_hash'' = JStr h then (Some (kbPayload, kbHeader), [])
                    else (Some (kbPayload, kbHeader), [(KEY_BINDING_SD_HASH_INVALID, ''Invalid sd_hash in Key Binding JWT'')]))))))"

text \<open>\<open>Inl\<close> of the errors, in the order they are added, or \<open>Inr\<close> of the verified data.\<close>

definition safeVerify :: "platform \<Rightarrow> rat \<Rightarrow> sdJwtConfig \<Rightarrow> string \<Rightarrow> verifierOptions
    \<Rightarrow> verificationError list + json option \<times> json option \<times> (json \<times> json) option" where
  "safeVerify p now c encodedSdJwt options =
     (let config = (if cf_hasher c then [] else [(HASHER_NOT_FOUND, ''Hasher not found'')])
            @ (if cf_verifier c \<noteq> None then [] else [(VERIFIER_NOT_FOUND, ''Verifier not found'')]) in
      if config \<noteq> [] then Inl config
      else (case sdJwtFromEncode p encodedSdJwt of
          Inl e \<Rightarrow> Inl [(INVALID_SD_JWT, ''Failed to decode SD-JWT: '' @ errorText e)]
        | Inr s \<Rightarrow>
            let (payload, header, errors) = safeClaims p now c s options;
                required = safeRequired p s options;
                (kb, kbErrors) = safeKeyBinding p now c s payload options;
                all = errors @ required @ kbErrors
            in if all \<noteq> [] then Inl all else Inr (payload, header, kb)))"

section \<open>Other operations\<close>

definition instanceKeys :: "platform \<Rightarrow> sdJwtConfig \<Rightarrow> string \<Rightarrow> sdError + string list" where
  "instanceKeys p c encodedSdJwt = bindR (ensure (cf_hasher c) (SdJwtError ''Hasher not found'')) (\<lambda>_.
     bindR (sdJwtFromEncode p encodedSdJwt) (sdJwtKeys p))"

definition instancePresentableKeys :: "platform \<Rightarrow> sdJwtConfig \<Rightarrow> string \<Rightarrow> sdError + string list" where
  "instancePresentableKeys p c encodedSdJwt = bindR (ensure (cf_hasher c) (SdJwtError ''Hasher not found'')) (\<lambda>_.
     bindR (sdJwtFromEncode p encodedSdJwt) (presentableKeys p))"

definition instanceClaims :: "platform \<Rightarrow> sdJwtConfig \<Rightarrow> string \<Rightarrow> sdError + json" where
  "instanceClaims p c encodedSdJwt = bindR (ensure (cf_hasher c) (SdJwtError ''Hasher not found'')) (\<lambda>_.
     bindR (sdJwtFromEncode p encodedSdJwt) (sdJwtClaims p))"

end
