(* ===== verification/GeneralJson.thy ===== *)
theory GeneralJson imports Instance begin

text \<open>
  \<open>generalJson.ts\<close> and \<open>flattenJson.ts\<close> of \<open>packages/sd-jwt-core\<close>, the two JSON serializations of an SD-JWT,
  and \<open>SdJwtGeneralJsonInstance\<close> of \<open>index.ts\<close>, which issues, presents and verifies the general one.
  The unprotected header is the record of the parameters the code reads; the presence of \<open>crit\<close> is kept
  apart, other parameters are not read.
\<close>

section \<open>General JSON serialization\<close>

record jwsSignature =
  sg_protected :: string
  sg_signature :: string
  sg_kid :: "string option"

record generalJson =
  gj_payload :: string
  gj_disclosures :: "string list"
  gj_kbJwt :: "string option"
  gj_signatures :: "jwsSignature list"

record unprotectedHeader =
  uh_disclosures :: "string list option"
  uh_kid :: "string option"
  uh_kbJwt :: "string option"
  uh_crit :: bool

record serializedSignature =
  ss_header :: "unprotectedHeader option"
  ss_protected :: string
  ss_signature :: string

record generalJsonSerialized =
  gs_payload :: string
  gs_signatures :: "serializedSignature list"

definition newGeneralJson :: "string \<Rightarrow> string list \<Rightarrow> string option \<Rightarrow> jwsSignature list \<Rightarrow> generalJson" where
  "newGeneralJson payload disclosures kbJwt signatures =
     \<lparr>gj_payload = payload, gj_disclosures = disclosures, gj_kbJwt = kbJwt, gj_signatures = signatures\<rparr>"

text \<open>The first three parts of a compact JWS, none of them empty; further parts are not looked at.\<close>

definition jwsParts :: "string \<Rightarrow> sdError + string \<times> string \<times> string" where
  "jwsParts s = (let parts = splitOn CHR ''.'' s in
     case (elemAt parts 0, elemAt parts 1, elemAt parts 2) of
       (Some protected, Some payload, Some signature) \<Rightarrow>
         if protected = [] \<or> payload = [] \<or> signature = [] then Inl (SdJwtError ''Invalid JWT'')
         else Inr (protected, payload, signature)
     | _ \<Rightarrow> Inl (SdJwtError ''Invalid JWT''))"

definition generalFromEncode :: "string \<Rightarrow> sdError + generalJson" where
  "generalFromEncode encodedSdJwt =
     bindR (splitSdJwt encodedSdJwt) (\<lambda>parts.
     bindR (jwsParts (sp_jwt parts)) (\<lambda>(protected, payload, signature).
       Inr (newGeneralJson payload (sp_disclosures parts) (sp_kbJwt parts)
         [\<lparr>sg_protected = protected, sg_signature = signature, sg_kid = None\<rparr>])))"

definition hasDisclosures :: "serializedSignature \<Rightarrow> bool" where
  "hasDisclosures s = (case ss_header s of None \<Rightarrow> False
     | Some h \<Rightarrow> uh_disclosures h \<noteq> None \<or> uh_kbJwt h \<noteq> None)"

definition hasCritHeader :: "serializedSignature \<Rightarrow> bool" where
  "hasCritHeader s = (case ss_header s of None \<Rightarrow> False | Some h \<Rightarrow> uh_crit h)"

definition fromHeader :: "(unprotectedHeader \<Rightarrow> 'a option) \<Rightarrow> serializedSignature \<Rightarrow> 'a option" where
  "fromHeader f s = (case ss_header s of None \<Rightarrow> None | Some h \<Rightarrow> f h)"

definition generalFromSerialized :: "generalJsonSerialized \<Rightarrow> sdError + generalJson" where
  "generalFromSerialized json = (case gs_signatures json of
       [] \<Rightarrow> Inl (SdJwtError ''Invalid JSON'')
     | first # rest \<Rightarrow>
         bindR (ensure (\<not> list_ex hasCritHeader (first # rest))
           (SdJwtError ''crit MUST only appear in the protected header'')) (\<lambda>_.
         bindR (ensure (\<not> list_ex hasDisclosures rest)
           (SdJwtError ''disclosures and kb_jwt MUST only appear in the first unprotected header'')) (\<lambda>_.
         Inr (newGeneralJson (gs_payload json)
           (case fromHeader uh_disclosures first of None \<Rightarrow> [] | Some ds \<Rightarrow> ds)
           (fromHeader uh_kbJwt first)
           (map (\<lambda>s. \<lparr>sg_protected = ss_protected s, sg_signature = ss_signature s, sg_kid = fromHeader uh_kid s\<rparr>)
             (first # rest))))))"

definition serializeSignature :: "generalJson \<Rightarrow> nat \<times> jwsSignature \<Rightarrow> serializedSignature" where
  "serializeSignature g is = (let s = snd is in
     \<lparr>ss_header = Some (if fst is \<noteq> 0
          then \<lparr>uh_disclosures = None, uh_kid = sg_kid s, uh_kbJwt = None, uh_crit = False\<rparr>
          else \<lparr>uh_disclosures = Some (gj_disclosures g), uh_kid = sg_kid s, uh_kbJwt = gj_kbJwt g, uh_crit = False\<rparr>),
      ss_protected = sg_protected s, ss_signature = sg_signature s\<rparr>)"

definition generalToJson :: "generalJson \<Rightarrow> generalJsonSerialized" where
  "generalToJson g = \<lparr>gs_payload = gj_payload g,
     gs_signatures = map (serializeSignature g) (enumerate 0 (gj_signatures g))\<rparr>"

text \<open>A compact SD-JWT from its three kinds of parts.\<close>

definition joinCompact :: "string \<Rightarrow> string list \<Rightarrow> string option \<Rightarrow> string" where
  "joinCompact jws disclosures kb = joinWith [SD_SEPARATOR] ([jws]
     @ (if length disclosures > 0 then [joinWith [SD_SEPARATOR] disclosures] else [])
     @ [case kb of None \<Rightarrow> [] | Some k \<Rightarrow> k])"

definition generalToEncoded :: "generalJson \<Rightarrow> int \<Rightarrow> sdError + string" where
  "generalToEncoded g index =
     (if index < 0 \<or> index \<ge> int (length (gj_signatures g)) then Inl (SdJwtError ''Index out of bounds'')
      else let s = gj_signatures g ! nat index in
        Inr (joinCompact (sg_protected s @ ''.'' @ gj_payload g @ ''.'' @ sg_signature s)
          (gj_disclosures g) (gj_kbJwt g)))"

definition addSignature :: "platform \<Rightarrow> json \<Rightarrow> signer \<Rightarrow> string option \<Rightarrow> generalJson \<Rightarrow> sdError + generalJson" where
  "addSignature p protectedHeader sign kid g = (let header = encodePart p protectedHeader in
     bindR (sign (header @ ''.'' @ gj_payload g)) (\<lambda>signature.
       Inr (g\<lparr>gj_signatures := gj_signatures g
         @ [\<lparr>sg_protected = header, sg_signature = signature, sg_kid = kid\<rparr>]\<rparr>)))"

section \<open>Flattened JSON serialization\<close>

record flattenJson =
  fj_disclosures :: "string list"
  fj_kbJwt :: "string option"
  fj_payload :: string
  fj_signature :: string
  fj_protected :: string

text \<open>The serialized object: payload, signature, protected header, disclosures and Key Binding JWT.\<close>

record flattenJsonSerialized =
  fs_payload :: string
  fs_signature :: string
  fs_protected :: string
  fs_disclosures :: "string list"
  fs_kbJwt :: "string option"

definition newFlattenJson :: "string \<Rightarrow> string \<Rightarrow> string \<Rightarrow> string list \<Rightarrow> string option \<Rightarrow> flattenJson" where
  "newFlattenJson protected payload signature disclosures kbJwt =
     \<lparr>fj_disclosures = disclosures, fj_kbJwt = kbJwt, fj_payload = payload, fj_signature = signature,
      fj_protected = protected\<rparr>"

definition flattenFromEncode :: "string \<Rightarrow> sdError + flattenJson" where
  "flattenFromEncode encodedSdJwt =
     bindR (splitSdJwt encodedSdJwt) (\<lambda>parts.
     bindR (jwsParts (sp_jwt parts)) (\<lambda>(protected, payload, signature).
       Inr (newFlattenJson protected payload signature (sp_disclosures parts) (sp_kbJwt parts))))"

definition flattenFromSerialized :: "flattenJsonSerialized \<Rightarrow> flattenJson" where
  "flattenFromSerialized json = newFlattenJson (fs_protected json) (fs_payload json) (fs_signature json)
     (fs_disclosures json) (fs_kbJwt json)"

definition flattenToJson :: "flattenJson \<Rightarrow> flattenJsonSerialized" where
  "flattenToJson f = \<lparr>fs_payload = fj_payload f, fs_signature = fj_signature f, fs_protected = fj_protected f,
     fs_disclosures = fj_disclosures f, fs_kbJwt = fj_kbJwt f\<rparr>"

definition flattenToEncoded :: "flattenJson \<Rightarrow> string" where
  "flattenToEncoded f = joinCompact (fj_protected f @ ''.'' @ fj_payload f @ ''.'' @ fj_signature f)
     (fj_disclosures f) (fj_kbJwt f)"

section \<open>Issuing and presenting the general serialization\<close>

record sigOption =
  so_signer :: signer
  so_alg :: string
  so_kid :: string
  so_header :: fields

definition signGeneral :: "platform \<Rightarrow> json \<Rightarrow> string \<Rightarrow> sigOption \<Rightarrow> sdError + jwsSignature" where
  "signGeneral p typ payload s =
     (let header = encodePart p (JObj (spreadProps
          [(''typ'', typ), (''alg'', JStr (so_alg s)), (''kid'', JStr (so_kid s))] (so_header s))) in
      bindR (so_signer s (header @ ''.'' @ payload)) (\<lambda>signature.
        Inr \<lparr>sg_protected = header, sg_signature = signature, sg_kid = None\<rparr>))"

definition issueGeneral :: "platform \<Rightarrow> sdJwtConfig \<Rightarrow> json \<Rightarrow> json \<Rightarrow> json \<Rightarrow> sigOption list \<Rightarrow> sdError + generalJson" where
  "issueGeneral p c typ payload frame sigs =
     bindR (ensure (cf_hasher c) (SdJwtError ''Hasher not found'')) (\<lambda>_.
     case cf_saltGenerator c of
       None \<Rightarrow> Inl (SdJwtError ''SaltGenerator not found'')
     | Some sg \<Rightarrow>
       bindR (validateReservedFields payload) (\<lambda>_.
       bindR (pack p (hashAlgOf c) sg payload frame newPackState) (\<lambda>(packed, ds, _).
       let encodedPayload = encodePart p (issuePayload packed frame (hashAlgOf c)) in
       bindR (mapR (signGeneral p typ encodedPayload) sigs) (\<lambda>signatures.
         Inr (newGeneralJson encodedPayload (map (fst \<circ> encodeDisclosure p) ds) None signatures)))))"

definition presentGeneral :: "platform \<Rightarrow> sdJwtConfig \<Rightarrow> generalJson \<Rightarrow> json \<Rightarrow> fields option \<Rightarrow> sdError + generalJson" where
  "presentGeneral p c g frame kb =
     bindR (ensure (cf_hasher c) (SdJwtError ''Hasher not found'')) (\<lambda>_.
     bindR (generalToEncoded g 0) (\<lambda>encodedSdJwt.
     bindR (sdJwtFromEncode p encodedSdJwt) (\<lambda>s.
     bindR (ensure (sj_kbJwt s = None) (SdJwtError ''Holder cannot present an SD-JWT with KB-JWT'')) (\<lambda>_.
     bindR (getPresentDisclosures p s frame) (\<lambda>ds.
     bindR (encodeChosen p ds) (\<lambda>encoded.
     let presented = newGeneralJson (gj_payload g) encoded None (gj_signatures g) in
     case kb of
       None \<Rightarrow> Inr presented
     | Some kbPayload \<Rightarrow>
         bindR (presentSdJwt p s frame) (\<lambda>withoutKb.
         bindR (calculateSdHash p withoutKb s) (\<lambda>sdHash.
         bindR (createKbJwt p c kbPayload sdHash) (\<lambda>k.
         bindR (encodeJwt p k) (\<lambda>(text, _).
           Inr (presented\<lparr>gj_kbJwt := Some text\<rparr>)))))))))))"

section \<open>Verifying the general serialization\<close>

text \<open>
  One signature: whether the verifier accepts it, and its header. The signatures are checked one after
  the other; the code starts all of them, so with several failures it may report another one.
\<close>

definition checkSignature :: "platform \<Rightarrow> verifier \<Rightarrow> verifierOptions \<Rightarrow> string \<Rightarrow> jwsSignature \<Rightarrow> sdError + bool \<times> json" where
  "checkSignature p verifier options payload s =
     bindR (verifier (sg_protected s @ ''.'' @ payload) (sg_signature s) (options\<lparr>vo_skipJwtClaimValidation := True\<rparr>)) (\<lambda>ok.
     bindR (decodeBase64urlJsonStrict p (sg_protected s) ''Invalid JWT'') (\<lambda>header.
     if header = JNull then Inl TypeError
     else (case claimOf header ''alg'' of
        JStr alg \<Rightarrow>
          bindR (ensure (alg \<noteq> ''none'') (SdJwtError ''Verify Error: alg \"none\" is not allowed'')) (\<lambda>_.
          bindR (ensure (case vo_allowedIssuerAlgorithms options of None \<Rightarrow> True | Some allowed \<Rightarrow> alg \<in> set allowed)
            (SdJwtError (''Verify Error: Disallowed alg '' @ alg))) (\<lambda>_.
          bindR (ensure (\<not> hasCrit header) (SdJwtError ''Verify Error: unsupported critical header parameters'')) (\<lambda>_.
            Inr (ok, header))))
      | _ \<Rightarrow> Inl (SdJwtError ''Verify Error: alg \"none\" is not allowed''))))"

definition validateGeneral :: "platform \<Rightarrow> rat \<Rightarrow> sdJwtConfig \<Rightarrow> generalJson \<Rightarrow> verifierOptions \<Rightarrow> sdError + json \<times> json list" where
  "validateGeneral p now c g options =
     bindR (ensure (cf_hasher c) (SdJwtError ''Hasher not found'')) (\<lambda>_.
     case cf_verifier c of
       None \<Rightarrow> Inl (SdJwtError ''Verifier not found'')
     | Some verifier \<Rightarrow>
       bindR (mapR (checkSignature p verifier options (gj_payload g)) (gj_signatures g)) (\<lambda>results.
       bindR (ensure (list_all fst results) (SdJwtError ''Signature is not valid'')) (\<lambda>_.
       bindR (generalToEncoded g 0) (\<lambda>encodedSdJwt.
       bindR (sdJwtFromEncode p encodedSdJwt) (\<lambda>s.
       bindR (sdJwtClaims p s) (\<lambda>claims.
       bindR (validateReservedFields claims) (\<lambda>_.
       bindR (validateJwtPayload now claims options IssuerJwt) (\<lambda>_.
         Inr (claims, map snd results)))))))))"

record verifiedGeneral =
  vg_payload :: json
  vg_headers :: "json list"
  vg_kb :: "(json \<times> json) option"

definition verifyGeneral :: "platform \<Rightarrow> rat \<Rightarrow> sdJwtConfig \<Rightarrow> generalJson \<Rightarrow> verifierOptions \<Rightarrow> sdError + verifiedGeneral" where
  "verifyGeneral p now c g options =
     bindR (ensure (cf_hasher c) (SdJwtError ''Hasher not found'')) (\<lambda>_.
     bindR (validateGeneral p now c g options) (\<lambda>(payload, headers).
     bindR (generalToEncoded g 0) (\<lambda>encodedSdJwt.
     bindR (sdJwtFromEncode p encodedSdJwt) (\<lambda>s.
     bindR (case vo_requiredClaimKeys options of
         None \<Rightarrow> Inr ()
       | Some required \<Rightarrow> bindR (missingKeys p s required) (\<lambda>missing.
           ensure (missing = []) (SdJwtError (missingMessage missing)))) (\<lambda>_.
     if \<not> given (vo_keyBindingNonce options)
     then Inr \<lparr>vg_payload = payload, vg_headers = headers, vg_kb = None\<rparr>
     else (case (sj_kbJwt s, cf_kbVerifier c) of
         (None, _) \<Rightarrow> Inl (SdJwtError ''Key Binding JWT not exist'')
       | (Some kb, None) \<Rightarrow> Inl (SdJwtError ''Key Binding Verifier not found'')
       | (Some kb, Some kbVerifier) \<Rightarrow>
           bindR (verifyKb p now kbVerifier payload (the (vo_keyBindingNonce options)) options kb) (\<lambda>(kbPayload, kbHeader).
           bindR (sdHashOf p s) (\<lambda>h.
           bindR (ensure (claimOf kbPayload ''sd_hash'' = JStr h) (SdJwtError ''Invalid sd_hash in Key Binding JWT'')) (\<lambda>_.
             Inr \<lparr>vg_payload = payload, vg_headers = headers, vg_kb = Some (kbPayload, kbHeader)\<rparr>)))))))))"

text \<open>The other operations read the SD-JWT of the first signature.\<close>

definition generalSdJwt :: "platform \<Rightarrow> sdJwtConfig \<Rightarrow> generalJson \<Rightarrow> sdError + sdJwt" where
  "generalSdJwt p c g = bindR (ensure (cf_hasher c) (SdJwtError ''Hasher not found'')) (\<lambda>_.
     bindR (generalToEncoded g 0) (sdJwtFromEncode p))"

definition generalKeys :: "platform \<Rightarrow> sdJwtConfig \<Rightarrow> generalJson \<Rightarrow> sdError + string list" where
  "generalKeys p c g = bindR (generalSdJwt p c g) (sdJwtKeys p)"

definition generalPresentableKeys :: "platform \<Rightarrow> sdJwtConfig \<Rightarrow> generalJson \<Rightarrow> sdError + string list" where
  "generalPresentableKeys p c g = bindR (generalSdJwt p c g) (presentableKeys p)"

definition generalClaims :: "platform \<Rightarrow> sdJwtConfig \<Rightarrow> generalJson \<Rightarrow> sdError + json" where
  "generalClaims p c g = bindR (generalSdJwt p c g) (sdJwtClaims p)"

section \<open>Round trips\<close>

lemma fromSerialized_entry:
  "map (\<lambda>s. \<lparr>sg_protected = ss_protected s, sg_signature = ss_signature s, sg_kid = fromHeader uh_kid s\<rparr>)
     (gs_signatures (generalToJson g)) = gj_signatures g"
  by (rule nth_equalityI) (auto simp: generalToJson_def serializeSignature_def nth_enumerate_eq fromHeader_def Let_def)

text \<open>
  C14. The general JSON serialization keeps everything: an SD-JWT with at least one signature is read back
  from the object it is written to, with its disclosures and Key Binding JWT in the first unprotected
  header only.
\<close>

theorem generalJson_roundtrip:
  assumes "gj_signatures g \<noteq> []"
  shows "generalFromSerialized (generalToJson g) = Inr g"
proof -
  obtain s ss where g: "gj_signatures g = s # ss" using assms by (cases "gj_signatures g") auto
  let ?f = "serializeSignature g (0, s)" and ?rest = "map (serializeSignature g) (enumerate 1 ss)"
  have r: "gs_signatures (generalToJson g) = ?f # ?rest" by (simp add: generalToJson_def g)
  have "\<not> list_ex hasDisclosures ?rest" "\<not> list_ex hasCritHeader (?f # ?rest)"
    by (auto simp: list_ex_iff serializeSignature_def hasDisclosures_def hasCritHeader_def Let_def in_set_enumerate_eq)
  moreover have "map (\<lambda>s. \<lparr>sg_protected = ss_protected s, sg_signature = ss_signature s, sg_kid = fromHeader uh_kid s\<rparr>)
      (?f # ?rest) = gj_signatures g"
    using fromSerialized_entry [of g] unfolding r .
  ultimately show ?thesis
    unfolding generalFromSerialized_def r list.case
    by (simp add: newGeneralJson_def) (simp add: fromHeader_def serializeSignature_def generalToJson_def)
qed

theorem generalJson_roundtrip_witness:
  "generalFromSerialized (generalToJson (newGeneralJson ''p'' [''d''] (Some ''k'')
      [\<lparr>sg_protected = ''h'', sg_signature = ''s'', sg_kid = Some ''1''\<rparr>, \<lparr>sg_protected = ''i'', sg_signature = ''t'', sg_kid = None\<rparr>]))
   = Inr (newGeneralJson ''p'' [''d''] (Some ''k'')
      [\<lparr>sg_protected = ''h'', sg_signature = ''s'', sg_kid = Some ''1''\<rparr>, \<lparr>sg_protected = ''i'', sg_signature = ''t'', sg_kid = None\<rparr>])"
  by (rule generalJson_roundtrip) (simp add: newGeneralJson_def)

lemma joinCompact_eq: "joinCompact jws ds kb = joinWith [SD_SEPARATOR] (jws # ds @ [case kb of None \<Rightarrow> [] | Some k \<Rightarrow> k])"
  unfolding joinCompact_def joinWith_nested ..

lemma splitSdJwt_join:
  "splitSdJwt s = Inr parts \<Longrightarrow> joinCompact (sp_jwt parts) (sp_disclosures parts) (sp_kbJwt parts) = s"
proof -
  assume a: "splitSdJwt s = Inr parts"
  then obtain jws rest where r: "splitOn SD_SEPARATOR s = jws # rest" "rest \<noteq> []"
    and parts: "sp_jwt parts = jws" "sp_disclosures parts = butlast rest"
      "sp_kbJwt parts = (if last rest \<noteq> [] then Some (last rest) else None)"
    by (auto simp: splitSdJwt_def Let_def split: list.splits if_splits)
  have "joinWith [SD_SEPARATOR] (jws # butlast rest @ [last rest]) = s"
    using r joinWith_splitOn [of SD_SEPARATOR s] by simp
  then show ?thesis by (cases "last rest = []") (simp_all add: joinCompact_eq parts)
qed

lemma jwsParts_join:
  "jwsParts s = Inr (a, b, c) \<Longrightarrow> length (splitOn CHR ''.'' s) = 3 \<Longrightarrow> a @ ''.'' @ b @ ''.'' @ c = s"
proof -
  assume a: "jwsParts s = Inr (a, b, c)" "length (splitOn CHR ''.'' s) = 3"
  then obtain x y z where s: "splitOn CHR ''.'' s = [x, y, z]"
    by (auto simp: numeral_3_eq_3 length_Suc_conv)
  then have "x @ ''.'' @ y @ ''.'' @ z = s" using joinWith_splitOn [of "CHR ''.''" s] by simp
  then show ?thesis using a(1) s by (auto simp: jwsParts_def elemAt_def split: if_splits)
qed

text \<open>
  C15. A compact SD-JWT survives both JSON serializations: when its JWT has three parts and is read as a
  general or as a flattened JSON object, writing that object as a compact SD-JWT gives the same text.
\<close>

theorem compact_json_compact:
  assumes "length (splitOn CHR ''.'' (hd (splitOn SD_SEPARATOR s))) = 3"
  shows "(\<forall>g. generalFromEncode s = Inr g \<longrightarrow> generalToEncoded g 0 = Inr s)
    \<and> (\<forall>f. flattenFromEncode s = Inr f \<longrightarrow> flattenToEncoded f = s)"
proof -
  have jws: "sp_jwt parts = hd (splitOn SD_SEPARATOR s)" if "splitSdJwt s = Inr parts" for parts
    using that by (auto simp: splitSdJwt_def Let_def split: list.splits if_splits)
  have "a @ ''.'' @ b @ ''.'' @ c = sp_jwt parts" if "splitSdJwt s = Inr parts" "jwsParts (sp_jwt parts) = Inr (a, b, c)"
    for parts a b c using jwsParts_join [OF that(2)] assms jws [OF that(1)] by simp
  then show ?thesis
    by (auto simp: generalFromEncode_def flattenFromEncode_def bindR_triple generalToEncoded_def flattenToEncoded_def
      newGeneralJson_def newFlattenJson_def Let_def splitSdJwt_join simp del: append_Cons append_assoc)
qed

theorem compact_json_compact_witness:
  "generalFromEncode ''h.p.s~d~k'' = Inr (newGeneralJson ''p'' [''d''] (Some ''k'')
      [\<lparr>sg_protected = ''h'', sg_signature = ''s'', sg_kid = None\<rparr>])
   \<and> generalToEncoded (newGeneralJson ''p'' [''d''] (Some ''k'')
      [\<lparr>sg_protected = ''h'', sg_signature = ''s'', sg_kid = None\<rparr>]) 0 = Inr ''h.p.s~d~k''"
proof -
  have g: "generalFromEncode ''h.p.s~d~k'' = Inr (newGeneralJson ''p'' [''d''] (Some ''k'')
      [\<lparr>sg_protected = ''h'', sg_signature = ''s'', sg_kid = None\<rparr>])"
    by (simp add: generalFromEncode_def splitSdJwt_def jwsParts_def newGeneralJson_def SD_SEPARATOR_def elemAt_def)
  moreover have "length (splitOn CHR ''.'' (hd (splitOn SD_SEPARATOR ''h.p.s~d~k''))) = 3"
    by (simp add: SD_SEPARATOR_def)
  ultimately show ?thesis using compact_json_compact [of "''h.p.s~d~k''"] by blast
qed

end
