(* ===== verification/Policies.thy ===== *)
theory Policies imports Json begin

text \<open>
  The metadata policies of \<open>packages/openid-federation\<close>: the standard operators of
  \<open>metadata/operator\<close>, the schema of a policy in \<open>metadata/policy.ts\<close>, and the merging and application of
  policies in \<open>resolveTrustChains/policies\<close>. Metadata is a map from entity types to their parameters.
  Arrays and objects are compared by reference in the code, and no two values of different documents
  are the same reference, so only primitive values are ever equal.
\<close>

section \<open>Errors and values\<close>

datatype fedError =
    PolicyValidationError string string
  | PolicyOperatorMergeError string string
  | OpenidFederationError string string
  | ZodError
  | FedTypeError
  | FedError string

type_synonym metadata = "(string \<times> fields) list"

fun primitive :: "json \<Rightarrow> bool" where
  "primitive (JArr xs) = False"
| "primitive (JObj kvs) = False"
| "primitive (JBuiltin k) = False"
| "primitive v = True"

definition strictEq :: "json \<Rightarrow> json \<Rightarrow> bool" where
  "strictEq v w = (primitive v \<and> v = w)"

definition arrayIncludes :: "json list \<Rightarrow> json \<Rightarrow> bool" where
  "arrayIncludes xs v = list_ex (strictEq v) xs"

text \<open>\<open>[...new Set(xs)]\<close>: the first of equal values stays.\<close>

definition uniq :: "json list \<Rightarrow> json list" where
  "uniq xs = foldl (\<lambda>acc x. if arrayIncludes acc x then acc else acc @ [x]) [] xs"

definition intersect :: "json list \<Rightarrow> json list \<Rightarrow> json list" where
  "intersect xs ys = filter (arrayIncludes ys) (uniq xs)"

definition union :: "json list \<Rightarrow> json list \<Rightarrow> json list" where
  "union xs ys = uniq (xs @ ys)"

definition isNullOrUndefined :: "json \<Rightarrow> bool" where
  "isNullOrUndefined v = (v = JNull \<or> v = JUndefined)"

section \<open>Operators\<close>

datatype mergeStrategy = OperatorValuesEqual | UnionStrategy | Intersection | LogicalOr | IntersectionMayBeEmpty

record policyOperator =
  po_key :: string
  po_combinedWith :: "string list"
  po_order :: nat
  po_merge :: mergeStrategy

definition addOperator :: policyOperator where
  "addOperator = \<lparr>po_key = ''add'',
     po_combinedWith = [''value'', ''default'', ''subset_of'', ''superset_of'', ''essential''],
     po_order = 1, po_merge = UnionStrategy\<rparr>"

definition defaultOperator :: policyOperator where
  "defaultOperator = \<lparr>po_key = ''default'',
     po_combinedWith = [''value'', ''add'', ''one_of'', ''subset_of'', ''superset_of'', ''essential''],
     po_order = 2, po_merge = OperatorValuesEqual\<rparr>"

definition essentialOperator :: policyOperator where
  "essentialOperator = \<lparr>po_key = ''essential'',
     po_combinedWith = [''add'', ''default'', ''one_of'', ''subset_of'', ''superset_of'', ''value''],
     po_order = 6, po_merge = LogicalOr\<rparr>"

definition oneOfOperator :: policyOperator where
  "oneOfOperator = \<lparr>po_key = ''one_of'',
     po_combinedWith = [''value'', ''default'', ''essential''],
     po_order = 3, po_merge = Intersection\<rparr>"

definition subsetOfOperator :: policyOperator where
  "subsetOfOperator = \<lparr>po_key = ''subset_of'',
     po_combinedWith = [''value'', ''add'', ''default'', ''superset_of'', ''essential''],
     po_order = 4, po_merge = IntersectionMayBeEmpty\<rparr>"

definition supersetOfOperator :: policyOperator where
  "supersetOfOperator = \<lparr>po_key = ''superset_of'',
     po_combinedWith = [''value'', ''add'', ''default'', ''subset_of'', ''essential''],
     po_order = 5, po_merge = UnionStrategy\<rparr>"

definition valueOperator :: policyOperator where
  "valueOperator = \<lparr>po_key = ''value'',
     po_combinedWith = [''add'', ''default'', ''one_of'', ''subset_of'', ''superset_of'', ''essential''],
     po_order = 0, po_merge = OperatorValuesEqual\<rparr>"

lemmas operators = addOperator_def defaultOperator_def essentialOperator_def oneOfOperator_def
  subsetOfOperator_def supersetOfOperator_def valueOperator_def

definition allSupportedPolicies :: "(string \<times> policyOperator) list" where
  "allSupportedPolicies = [(''add'', addOperator), (''default'', defaultOperator), (''essential'', essentialOperator),
     (''one_of'', oneOfOperator), (''subset_of'', subsetOfOperator), (''superset_of'', supersetOfOperator),
     (''value'', valueOperator)]"

text \<open>
  The names of inherited properties pass \<open>key in allSupportedPolicies\<close> too. No policy that has one gets
  past the schema below, which throws on it, so they are left out here.
\<close>

definition isExistingPolicyKey :: "string \<Rightarrow> bool" where
  "isExistingPolicyKey k = (map_of allSupportedPolicies k \<noteq> None)"

definition orderOf :: "string \<Rightarrow> nat" where
  "orderOf k = (case map_of allSupportedPolicies k of None \<Rightarrow> 0 | Some r \<Rightarrow> po_order r)"

definition homogeneous :: "json \<Rightarrow> bool" where
  "homogeneous v = (case v of
       JArr xs \<Rightarrow> list_all (\<lambda>x. case x of JStr s \<Rightarrow> True | _ \<Rightarrow> False) xs
         \<or> list_all (\<lambda>x. case x of JNum q \<Rightarrow> True | _ \<Rightarrow> False) xs
     | _ \<Rightarrow> False)"

text \<open>The schema of the value of an operator; every operator may be left out.\<close>

definition operatorSchema :: "string \<Rightarrow> json \<Rightarrow> bool" where
  "operatorSchema k v = (v = JUndefined \<or>
     (if k = ''essential'' then (case v of JBool b \<Rightarrow> True | _ \<Rightarrow> False)
      else if k = ''value'' then isJson v
      else if k = ''default'' then isJson v \<and> v \<noteq> JNull
      else homogeneous v))"

definition ops :: "fields \<Rightarrow> string \<Rightarrow> json" where
  "ops policy k = (case map_of policy k of None \<Rightarrow> JUndefined | Some v \<Rightarrow> v)"

definition isSubset :: "json \<Rightarrow> json \<Rightarrow> bool" where
  "isSubset a b = (case (a, b) of (JArr xs, JArr ys) \<Rightarrow> list_all (arrayIncludes ys) xs | _ \<Rightarrow> False)"

definition quoted :: "string \<Rightarrow> string" where
  "quoted s = CHR 0x27 # s @ [CHR 0x27]"

definition conditionalCombinationErrors :: "fields \<Rightarrow> string list" where
  "conditionalCombinationErrors policy =
     (let has = (\<lambda>k. ops policy k \<noteq> JUndefined); value = ops policy ''value'';
          values = (if value = JNull then JArr [] else value) in
      (if has ''value'' then
         (if value = JNull \<and> has ''default'' then [quoted ''value'' @ '' null can not be combined with '' @ quoted ''default''] else [])
         @ (if value = JNull \<and> ops policy ''essential'' = JBool True then [quoted ''value'' @ '' null can not be combined with '' @ quoted ''essential'' @ '' true''] else [])
         @ (if has ''add'' \<and> \<not> isSubset (ops policy ''add'') values then [''the values of '' @ quoted ''add'' @ '' must be a subset of the values of '' @ quoted ''value''] else [])
         @ (if has ''one_of'' \<and> \<not> (value \<noteq> JNull \<and> isSubset (JArr [value]) (ops policy ''one_of''))
            then [''the value of '' @ quoted ''value'' @ '' must be among the '' @ quoted ''one_of'' @ '' values''] else [])
         @ (if has ''subset_of'' \<and> \<not> isSubset values (ops policy ''subset_of'') then [''the values of '' @ quoted ''value'' @ '' must be a subset of the values of '' @ quoted ''subset_of''] else [])
         @ (if has ''superset_of'' \<and> \<not> isSubset (ops policy ''superset_of'') values then [''the values of '' @ quoted ''value'' @ '' must be a superset of the values of '' @ quoted ''superset_of''] else [])
       else [])
      @ (if has ''add'' \<and> has ''subset_of'' \<and> \<not> isSubset (ops policy ''add'') (ops policy ''subset_of'')
         then [''the values of '' @ quoted ''add'' @ '' must be a subset of the values of '' @ quoted ''subset_of''] else [])
      @ (if has ''subset_of'' \<and> has ''superset_of'' \<and> \<not> isSubset (ops policy ''superset_of'') (ops policy ''subset_of'')
         then [''the values of '' @ quoted ''subset_of'' @ '' must be a superset of the values of '' @ quoted ''superset_of''] else []))"

definition combinationOk :: "string list \<Rightarrow> string \<Rightarrow> bool" where
  "combinationOk keys k = (case map_of allSupportedPolicies k of
       None \<Rightarrow> True
     | Some r \<Rightarrow> \<not> list_ex (\<lambda>l. l \<noteq> po_key r \<and> isExistingPolicyKey l \<and> l \<notin> set (po_combinedWith r)) keys)"

text \<open>The schema; the check of the combinations throws on an operator named like an inherited property.\<close>

definition zMetadataPolicy :: "fields \<Rightarrow> bool" where
  "zMetadataPolicy policy = (distinct (map fst policy)
     \<and> list_all (\<lambda>k. k \<notin> set protoKeys) (map fst policy)
     \<and> list_all (\<lambda>kv. isExistingPolicyKey (fst kv) \<longrightarrow> operatorSchema (fst kv) (snd kv)) policy
     \<and> list_all (combinationOk (map fst policy)) (map fst policy)
     \<and> conditionalCombinationErrors policy = [])"

section \<open>Metadata\<close>

text \<open>
  \<open>MetadataHelper\<close>. An entity type named like an inherited property is found although the metadata does
  not have it; it has no parameters of its own.
\<close>

definition hasEntityType :: "metadata \<Rightarrow> string \<Rightarrow> bool" where
  "hasEntityType m service = inObj service m"

definition serviceBlock :: "metadata \<Rightarrow> string \<Rightarrow> fields" where
  "serviceBlock m service = (case map_of m service of None \<Rightarrow> [] | Some f \<Rightarrow> f)"

definition getPropertyValue :: "metadata \<Rightarrow> string \<Rightarrow> string \<Rightarrow> json" where
  "getPropertyValue m service property =
     (if hasEntityType m service then getProp (serviceBlock m service) property else JUndefined)"

definition hasProperty :: "metadata \<Rightarrow> string \<Rightarrow> string \<Rightarrow> bool" where
  "hasProperty m service property = (getPropertyValue m service property \<noteq> JUndefined)"

definition setPropertyValue :: "metadata \<Rightarrow> string \<Rightarrow> string \<Rightarrow> json \<Rightarrow> metadata" where
  "setPropertyValue m service property value =
     defineProp service (defineProp property value (serviceBlock m service)) m"

definition deleteProperty :: "metadata \<Rightarrow> string \<Rightarrow> string \<Rightarrow> metadata" where
  "deleteProperty m service property =
     (if hasEntityType m service then defineProp service (without property (serviceBlock m service)) m else m)"

section \<open>Merging policies\<close>

fun combineValues :: "mergeStrategy \<Rightarrow> string \<Rightarrow> json \<Rightarrow> json \<Rightarrow> fedError + json" where
  "combineValues OperatorValuesEqual path a b =
     (case (a, b) of
        (JArr xs, JArr ys) \<Rightarrow>
          if length xs = length ys \<and> list_all2 strictEq xs ys then Inr a
          else Inl (PolicyOperatorMergeError ''Policy rule values are not equal'' path)
      | _ \<Rightarrow> if strictEq a b then Inr a else Inl (PolicyOperatorMergeError ''Policy rule values are not equal'' path))"
| "combineValues UnionStrategy path a b =
     (case (a, b) of (JArr xs, JArr ys) \<Rightarrow> Inr (JArr (union xs ys))
      | _ \<Rightarrow> Inl (PolicyOperatorMergeError ''Operator values are not an array'' path))"
| "combineValues Intersection path a b =
     (case (a, b) of
        (JArr xs, JArr ys) \<Rightarrow>
          if intersect xs ys = [] then Inl (PolicyOperatorMergeError ''Intersection is empty'' path)
          else Inr (JArr (intersect xs ys))
      | _ \<Rightarrow> Inl (PolicyOperatorMergeError ''Existing policy rule value is not an array'' path))"
| "combineValues IntersectionMayBeEmpty path a b =
     (case (a, b) of (JArr xs, JArr ys) \<Rightarrow> Inr (JArr (intersect xs ys))
      | _ \<Rightarrow> Inl (PolicyOperatorMergeError ''Existing policy rule value is not an array'' path))"
| "combineValues LogicalOr path a b =
     (case (a, b) of (JBool x, JBool y) \<Rightarrow> Inr (JBool (x \<or> y))
      | _ \<Rightarrow> Inl (PolicyOperatorMergeError ''Existing policy rule value is not a boolean'' path))"

definition combineRule :: "string \<Rightarrow> fields \<Rightarrow> string \<times> json \<Rightarrow> fedError + fields" where
  "combineRule path combined rule = (case map_of allSupportedPolicies (fst rule) of
       None \<Rightarrow> Inr combined
     | Some r \<Rightarrow>
         if ops combined (fst rule) = JUndefined then Inr (defineProp (fst rule) (snd rule) combined)
         else if \<not> operatorSchema (fst rule) (snd rule) then Inl ZodError
         else bindR (combineValues (po_merge r) path (ops combined (fst rule)) (snd rule)) (\<lambda>v.
           Inr (defineProp (fst rule) v combined)))"

definition combineExistingMetadataPolicyOperators :: "string \<Rightarrow> fields \<Rightarrow> fields \<Rightarrow> fedError + fields" where
  "combineExistingMetadataPolicyOperators path existing new = foldR (combineRule path) existing new"

definition unsupportedCritical :: "string list \<Rightarrow> fields \<Rightarrow> string list" where
  "unsupportedCritical crit rules = filter (\<lambda>k. \<not> isExistingPolicyKey k \<and> k \<in> set crit) (map fst rules)"

text \<open>
  One parameter of one statement: its rules, an object, are set or combined with those of the superiors.
  A parameter named like an inherited property finds that property, which has no rules of its own.
\<close>

definition combineProperty :: "string list option \<Rightarrow> string \<Rightarrow> metadata \<Rightarrow> string \<times> json \<Rightarrow> fedError + metadata" where
  "combineProperty crit service merged prop = (case snd prop of
       JUndefined \<Rightarrow> Inr merged
     | JObj rules \<Rightarrow>
         bindR (case crit of
             None \<Rightarrow> Inr ()
           | Some c \<Rightarrow> ensure (unsupportedCritical c rules = [])
               (OpenidFederationError ''metadataPolicyCrit''
                 (''Unsupported policy method and is required by the metadata_policy_crit: ''
                  @ joinWith '', '' (unsupportedCritical c rules)))) (\<lambda>_.
         (case getPropertyValue merged service (fst prop) of
            JObj existing \<Rightarrow>
              bindR (combineExistingMetadataPolicyOperators (service @ ''.'' @ fst prop) existing rules) (\<lambda>combined.
              bindR (ensure (zMetadataPolicy combined) ZodError) (\<lambda>_.
                Inr (setPropertyValue merged service (fst prop) (JObj combined))))
          | JBuiltin k \<Rightarrow>
              bindR (combineExistingMetadataPolicyOperators (service @ ''.'' @ fst prop) [] rules) (\<lambda>combined.
              bindR (ensure (zMetadataPolicy combined) ZodError) (\<lambda>_.
                Inr (setPropertyValue merged service (fst prop) (JObj combined))))
          | JUndefined \<Rightarrow> Inr (setPropertyValue merged service (fst prop) (JObj rules))
          | _ \<Rightarrow> Inl FedTypeError))
     | _ \<Rightarrow> Inl FedTypeError)"

definition combineStatement :: "metadata \<Rightarrow> metadata option \<times> string list option \<Rightarrow> fedError + metadata" where
  "combineStatement merged st = (case fst st of
       None \<Rightarrow> Inr merged
     | Some policy \<Rightarrow> foldR (\<lambda>m service. foldR (combineProperty (snd st) (fst service)) m (snd service)) merged policy)"

text \<open>The statements leaf side first, each with its policy and critical operators; the trust anchor's comes last.\<close>

definition combineMetadataPolicies :: "(metadata option \<times> string list option) list \<Rightarrow> fedError + metadata" where
  "combineMetadataPolicies statements =
     (if statements = [] then Inl (OpenidFederationError ''generic'' ''Chain is empty'')
      else foldR combineStatement [] (rev statements))"

section \<open>Applying policies\<close>

definition splitScope :: "string \<Rightarrow> json" where
  "splitScope scope = JArr (map JStr (filter (\<lambda>s. s \<noteq> []) (splitOn CHR '' '' scope)))"

text \<open>What \<open>join\<close> prints of a member of a scope; numbers are printed as integers.\<close>

definition joinText :: "json \<Rightarrow> string" where
  "joinText v = (case v of
       JStr s \<Rightarrow> s
     | JNum q \<Rightarrow> if q < 0 then ''-'' @ natText (nat (- \<lfloor>q\<rfloor>)) else natText (nat \<lfloor>q\<rfloor>)
     | JBool b \<Rightarrow> if b then ''true'' else ''false''
     | JObj _ \<Rightarrow> ''[object Object]''
     | _ \<Rightarrow> [])"

text \<open>One operator on the current value of the parameter: \<open>None\<close> deletes it, \<open>Some\<close> is the new value.\<close>

definition applyOperator :: "string \<Rightarrow> string \<Rightarrow> json \<Rightarrow> json \<Rightarrow> fedError + json option" where
  "applyOperator path op policyValue target =
     (if op = ''value'' then Inr (if policyValue = JNull then None else Some policyValue)
      else if op = ''add'' then
        (case if isNullOrUndefined target then JArr [] else target of
           JArr xs \<Rightarrow> (case policyValue of JArr ys \<Rightarrow> Inr (Some (JArr (union xs ys))) | _ \<Rightarrow> Inl FedTypeError)
         | _ \<Rightarrow> Inl (PolicyValidationError ''Cannot apply add policy because the target is not an array'' path))
      else if op = ''one_of'' then
        (if isNullOrUndefined target then Inr (Some target)
         else (case policyValue of
             JArr ys \<Rightarrow> if list_ex (\<lambda>y. strictEq y target) ys then Inr (Some target)
               else Inl (PolicyValidationError ''Cannot apply one_of policy because the intersection is empty'' path)
           | _ \<Rightarrow> Inl (PolicyValidationError ''Cannot apply one_of policy because the value is not an array'' path)))
      else if op = ''default'' then Inr (Some (if target \<noteq> JUndefined then target else policyValue))
      else if op = ''subset_of'' then
        (if isNullOrUndefined target then Inr (Some target)
         else (case target of
             JArr xs \<Rightarrow> (case policyValue of
                 JArr ys \<Rightarrow> Inr (Some (JArr (filter (arrayIncludes ys) xs)))
               | _ \<Rightarrow> Inl (PolicyValidationError ''Cannot apply subset_of policy because the value is not an array'' path))
           | _ \<Rightarrow> Inl (PolicyValidationError ''Cannot apply subset_of policy because the target is not an array'' path)))
      else if op = ''superset_of'' then
        (if isNullOrUndefined target then Inr (Some target)
         else (case target of
             JArr xs \<Rightarrow> (case policyValue of
                 JArr ys \<Rightarrow> if list_all (arrayIncludes xs) ys then Inr (Some target)
                   else Inl (PolicyValidationError ''The target does not contain all the values from the policy superset'' path)
               | _ \<Rightarrow> Inl (PolicyValidationError ''Cannot apply superset_of policy because the value is not an array'' path))
           | _ \<Rightarrow> Inl (PolicyValidationError ''Cannot apply superset_of policy because the target is not an array'' path)))
      else if \<not> truthy policyValue \<or> \<not> isNullOrUndefined target then Inr (Some target)
      else Inl (PolicyValidationError ''The policy is required to have a value'' path))"

text \<open>Which operators write the parameter back; the others only check it.\<close>

definition writes :: "string \<Rightarrow> json \<Rightarrow> bool" where
  "writes op target = (op = ''value'' \<or> op = ''add'' \<or> (op = ''default'' \<and> target = JUndefined)
     \<or> (op = ''subset_of'' \<and> \<not> isNullOrUndefined target))"

definition applyStep :: "string \<Rightarrow> string \<Rightarrow> metadata \<Rightarrow> string \<times> json \<Rightarrow> fedError + metadata" where
  "applyStep service property m rule =
     (let target = getPropertyValue m service property;
          policyValue = (case snd rule of JStr s \<Rightarrow> if property = ''scope'' then splitScope s else JStr s | v \<Rightarrow> v) in
      bindR (applyOperator (service @ ''.'' @ property) (fst rule) policyValue target) (\<lambda>r.
        Inr (if \<not> writes (fst rule) target then m
             else (case r of None \<Rightarrow> deleteProperty m service property
                    | Some v \<Rightarrow> setPropertyValue m service property v))))"

definition applyProperty :: "string \<Rightarrow> metadata \<Rightarrow> string \<times> json \<Rightarrow> fedError + metadata" where
  "applyProperty service m prop =
     (if \<not> truthy (snd prop) then Inr m
      else let property = fst prop;
          policies = sort_key (orderOf \<circ> fst) (filter (isExistingPolicyKey \<circ> fst) (forIn (snd prop)));
          m1 = (case getPropertyValue m service property of
              JStr s \<Rightarrow> if property = ''scope'' then setPropertyValue m service property (splitScope s) else m
            | _ \<Rightarrow> m) in
        bindR (foldR (applyStep service property) m1 policies) (\<lambda>m2.
          Inr (case getPropertyValue m2 service property of
              JArr xs \<Rightarrow> if property = ''scope''
                then setPropertyValue m2 service property (JStr (joinWith '' '' (map joinText xs))) else m2
            | _ \<Rightarrow> m2)))"

definition applyMetadataPolicyToMetadata :: "metadata \<Rightarrow> metadata \<Rightarrow> fedError + metadata" where
  "applyMetadataPolicyToMetadata leaf policy =
     foldR (\<lambda>m service. if hasEntityType m (fst service)
       then foldR (applyProperty (fst service)) m (snd service) else Inr m) leaf policy"

definition mergeMetadata :: "metadata \<Rightarrow> metadata \<Rightarrow> metadata" where
  "mergeMetadata leaf superior =
     foldl (\<lambda>m service. if hasEntityType m (fst service)
       then foldl (\<lambda>m kv. setPropertyValue m (fst service) (fst kv) (snd kv)) m (snd service) else m) leaf superior"

end
