(* ===== verification/PolicyLaws.thy ===== *)
theory PolicyLaws imports Policies begin

text \<open>
  What metadata policies guarantee. \<open>satisfies\<close> says what an operator demands of a value. Applying a policy
  gives a value every operator is satisfied by, merging two policies gives one that is only satisfied
  where both are, and so the metadata resolved for a chain satisfies the policy of every superior.
\<close>

section \<open>Reading and writing metadata\<close>

lemma inObj_map_of: "inObj k kvs \<longleftrightarrow> map_of kvs k \<noteq> None \<or> k \<in> set protoKeys"
  by (auto simp: inObj_def map_of_eq_None_iff)

text \<open>A parameter that is not named like an inherited property.\<close>

lemma getPropertyValue_own:
  "p \<notin> set protoKeys \<Longrightarrow> getPropertyValue m s p = ops (serviceBlock m s) p"
  by (auto simp: getPropertyValue_def getProp_def ops_def serviceBlock_def hasEntityType_def inObj_map_of
      split: option.splits)

lemma serviceBlock_set: "serviceBlock (setPropertyValue m s p v) t =
    (if t = s then defineProp p v (serviceBlock m s) else serviceBlock m t)"
  by (simp add: setPropertyValue_def serviceBlock_def map_of_defineProp)

lemma ops_defineProp: "ops (defineProp k v kvs) l = (if l = k then v else ops kvs l)"
  by (simp add: ops_def map_of_defineProp)

lemma get_set: "p \<notin> set protoKeys \<Longrightarrow>
    getPropertyValue (setPropertyValue m s q v) t p = (if t = s \<and> p = q then v else getPropertyValue m t p)"
  by (simp add: getPropertyValue_own serviceBlock_set ops_defineProp)

lemma get_delete: "p \<notin> set protoKeys \<Longrightarrow> hasEntityType m s \<Longrightarrow>
    getPropertyValue (deleteProperty m s q) t p = (if t = s \<and> p = q then JUndefined else getPropertyValue m t p)"
  by (simp add: getPropertyValue_own deleteProperty_def serviceBlock_def map_of_defineProp ops_def map_of_without)

lemma hasEntityType_set: "hasEntityType (setPropertyValue m s q v) t \<longleftrightarrow> t = s \<or> hasEntityType m t"
  by (auto simp: hasEntityType_def inObj_map_of setPropertyValue_def map_of_defineProp)

lemma hasEntityType_delete: "hasEntityType (deleteProperty m s q) t \<longleftrightarrow> hasEntityType m t"
  by (auto simp: hasEntityType_def inObj_map_of deleteProperty_def map_of_defineProp)

section \<open>Sets of values\<close>

lemma strictEq_refl: "primitive v \<Longrightarrow> strictEq v v"
  by (simp add: strictEq_def)

lemma arrayIncludes_iff: "arrayIncludes xs v \<longleftrightarrow> primitive v \<and> v \<in> set xs"
  by (auto simp: arrayIncludes_def strictEq_def list_ex_iff)

lemma uniq_fold: "set (foldl (\<lambda>acc x. if arrayIncludes acc x then acc else acc @ [x]) acc xs) = set acc \<union> set xs"
  by (induction xs arbitrary: acc) (auto simp: arrayIncludes_iff)

lemma set_uniq [simp]: "set (uniq xs) = set xs"
  by (simp add: uniq_def uniq_fold)

lemma set_union: "set (union xs ys) = set xs \<union> set ys"
  by (simp add: union_def)

lemma set_intersect: "set (intersect xs ys) = {x \<in> set xs. primitive x \<and> x \<in> set ys}"
  by (auto simp: intersect_def arrayIncludes_iff)

section \<open>What an operator demands\<close>

definition members :: "json \<Rightarrow> json set" where
  "members v = (case v of JArr xs \<Rightarrow> set xs | _ \<Rightarrow> {})"

definition isArray :: "json \<Rightarrow> bool" where
  "isArray v = (\<exists>xs. v = JArr xs)"

text \<open>
  The operators that restrict a value. \<open>value\<close>, \<open>add\<close> and \<open>default\<close> give it one and demand nothing of
  what the others make of it, except that \<open>default\<close> leaves a value.
\<close>

definition satisfies :: "string \<Rightarrow> json \<Rightarrow> json \<Rightarrow> bool" where
  "satisfies op pv v =
     (if op = ''essential'' then truthy pv \<longrightarrow> \<not> isNullOrUndefined v
      else if op = ''default'' then v \<noteq> JUndefined
      else if op = ''subset_of'' then isNullOrUndefined v \<or> (isArray v \<and> isArray pv \<and> members v \<subseteq> members pv)
      else if op = ''superset_of'' then isNullOrUndefined v \<or> (isArray v \<and> isArray pv \<and> members pv \<subseteq> members v)
      else if op = ''one_of'' then isNullOrUndefined v \<or> (isArray pv \<and> primitive v \<and> v \<in> members pv)
      else True)"

text \<open>The effect of one operator on the value of the parameter, \<open>undefined\<close> when it deletes it.\<close>

definition stepValue :: "string \<Rightarrow> json \<Rightarrow> string \<times> json \<Rightarrow> fedError + json" where
  "stepValue path v rule = bindR (applyOperator path (fst rule) (snd rule) v) (\<lambda>r.
     Inr (case r of None \<Rightarrow> JUndefined | Some w \<Rightarrow> w))"

lemma array_cases: "isArray v \<longleftrightarrow> (\<exists>xs. v = JArr xs)"
  by (simp add: isArray_def)

lemma operator_names: "isExistingPolicyKey op \<longleftrightarrow>
    op \<in> {''add'', ''default'', ''essential'', ''one_of'', ''subset_of'', ''superset_of'', ''value''}"
  by (auto simp: isExistingPolicyKey_def allSupportedPolicies_def)

lemma operator_orders:
  "orderOf ''value'' = 0" "orderOf ''add'' = 1" "orderOf ''default'' = 2" "orderOf ''one_of'' = 3"
  "orderOf ''subset_of'' = 4" "orderOf ''superset_of'' = 5" "orderOf ''essential'' = 6"
  by (simp_all add: orderOf_def allSupportedPolicies_def operators)

lemma stepValue_satisfies:
  "isExistingPolicyKey op \<Longrightarrow> pv \<noteq> JUndefined \<Longrightarrow> stepValue path v (op, pv) = Inr w \<Longrightarrow> satisfies op pv w"
  unfolding operator_names stepValue_def satisfies_def applyOperator_def
  by (elim insertE; simp split: if_splits json.splits add: isArray_def members_def isNullOrUndefined_def strictEq_def
      list_ex_iff list_all_iff arrayIncludes_iff; (auto simp: arrayIncludes_iff)?)

lemma stepValue_checks:
  "op \<in> {''one_of'', ''superset_of'', ''essential''} \<Longrightarrow> stepValue path v (op, pv) = Inr w \<Longrightarrow> w = v"
  unfolding stepValue_def applyOperator_def
  by (elim insertE; simp split: if_splits json.splits; (auto split: if_splits json.splits)?)

lemma applyOperator_subset_of: "applyOperator path ''subset_of'' pv v =
  (if isNullOrUndefined v then Inr (Some v)
         else (case v of
             JArr xs \<Rightarrow> (case pv of
                 JArr ys \<Rightarrow> Inr (Some (JArr (filter (arrayIncludes ys) xs)))
               | _ \<Rightarrow> Inl (PolicyValidationError ''Cannot apply subset_of policy because the value is not an array'' path))
           | _ \<Rightarrow> Inl (PolicyValidationError ''Cannot apply subset_of policy because the target is not an array'' path)))"
 unfolding applyOperator_def by simp

lemma stepValue_subset_of:
  assumes "stepValue path v (''subset_of'', pv) = Inr w" and "\<not> isNullOrUndefined v"
  shows "isArray v \<and> isArray w"
proof -
  obtain r where "applyOperator path ''subset_of'' pv v = Inr r" "w = (case r of None \<Rightarrow> JUndefined | Some w \<Rightarrow> w)"
    using assms(1) by (auto simp: stepValue_def)
  then show ?thesis using assms(2) unfolding applyOperator_subset_of
    by (cases v; cases pv; auto simp: isArray_def)
qed

text \<open>What an operator demands stays true under the operators that are applied after it.\<close>

lemma satisfies_later:
  assumes "isExistingPolicyKey op" "isExistingPolicyKey op'" "orderOf op < orderOf op'"
    and "stepValue path v (op', pv') = Inr w" "satisfies op pv v"
  shows "satisfies op pv w"
proof -
  have free: "satisfies ''value'' pv w" "satisfies ''add'' pv w" by (simp_all add: satisfies_def)
  show ?thesis
  proof (cases "op' \<in> {''one_of'', ''superset_of'', ''essential''}")
    case True
    then show ?thesis using stepValue_checks [OF _ assms(4)] assms(5) by simp
  next
    case False
    note op' = assms(2) [unfolded operator_names] False
    show ?thesis
    proof (cases "op' = ''subset_of''")
      case True
      have op: "op \<in> {''value'', ''add'', ''default'', ''one_of''}"
        using assms(1,3) unfolding operator_names by (elim insertE) (simp_all add: operator_orders True)
      show ?thesis
      proof (cases "isNullOrUndefined v")
        case nil: True
        then have "w = v" using assms(4) by (simp add: True stepValue_def applyOperator_subset_of)
        then show ?thesis using assms(5) by simp
      next
        case some: False
        note a = stepValue_subset_of [OF assms(4) [unfolded True] some]
        then have "\<not> primitive v" "w \<noteq> JUndefined" by (auto simp: isArray_def)
        then show ?thesis using op free assms(5) some by (elim insertE) (simp_all add: satisfies_def)
      qed
    next
      case False
      then have "op' \<in> {''value'', ''add'', ''default''}" using op' by (elim insertE) simp_all
      then have "orderOf op < 2" using assms(3) by (elim insertE) (simp_all add: operator_orders)
      then have "op \<in> {''value'', ''add''}"
        using assms(1) unfolding operator_names by (elim insertE) (simp_all add: operator_orders)
      then show ?thesis using free by blast
    qed
  qed
qed

lemma satisfies_rest:
  assumes "isExistingPolicyKey op" "satisfies op pv v" "foldR (stepValue path) v rules = Inr w"
    and "\<forall>r \<in> set rules. isExistingPolicyKey (fst r) \<and> orderOf op < orderOf (fst r)"
  shows "satisfies op pv w"
  using assms(2-4)
proof (induction rules arbitrary: v)
  case (Cons r rules)
  then obtain u where u: "stepValue path v r = Inr u" "foldR (stepValue path) u rules = Inr w" by auto
  have "satisfies op pv u"
    using satisfies_later [OF assms(1) _ _ _ Cons.prems(1), of "fst r" path "snd r" u] Cons.prems(3) u(1) by simp
  then show ?case using Cons.IH u(2) Cons.prems(3) by simp
qed simp

text \<open>The operators of a policy in the order they are applied.\<close>

definition orderedRules :: "fields \<Rightarrow> fields" where
  "orderedRules rules = sort_key (orderOf \<circ> fst) (filter (isExistingPolicyKey \<circ> fst) rules)"

lemma orderOf_inject: "isExistingPolicyKey k \<Longrightarrow> isExistingPolicyKey l \<Longrightarrow> orderOf k = orderOf l \<Longrightarrow> k = l"
  unfolding operator_names by (elim insertE; simp add: operator_orders)

lemma orderedRules_strict:
  assumes "distinct (map fst rules)"
  shows "sorted_wrt (\<lambda>a b. orderOf (fst a) < orderOf (fst b)) (orderedRules rules)"
proof -
  let ?l = "orderedRules rules"
  have "distinct (map fst (filter (isExistingPolicyKey \<circ> fst) rules))"
    using assms by (simp add: distinct_map_filter)
  then have "inj_on fst (set ?l)" "distinct ?l"
    by (simp_all add: orderedRules_def distinct_map)
  moreover have "\<forall>r \<in> set ?l. isExistingPolicyKey (fst r)" by (simp add: orderedRules_def)
  ultimately have "inj_on (orderOf \<circ> fst) (set ?l)"
    unfolding inj_on_def comp_def using orderOf_inject by blast
  then have "distinct (map (orderOf \<circ> fst) ?l)" using \<open>distinct ?l\<close> by (simp add: distinct_map)
  moreover have "sorted (map (orderOf \<circ> fst) ?l)" by (simp add: orderedRules_def)
  ultimately have "sorted_wrt (<) (map (orderOf \<circ> fst) ?l)" by (simp add: strict_sorted_iff)
  then show ?thesis by (simp add: sorted_wrt_map)
qed

lemma orderedRules_satisfied:
  assumes "distinct (map fst rules)" "foldR (stepValue path) v (orderedRules rules) = Inr w"
    and "(op, pv) \<in> set rules" "isExistingPolicyKey op" "pv \<noteq> JUndefined"
  shows "satisfies op pv w"
proof -
  have "(op, pv) \<in> set (orderedRules rules)" using assms(3,4) by (simp add: orderedRules_def)
  then obtain xs ys where l: "orderedRules rules = xs @ (op, pv) # ys" by (meson split_list)
  then obtain a b where b: "stepValue path a (op, pv) = Inr b" "foldR (stepValue path) b ys = Inr w"
    using assms(2) by (auto simp: foldR_append)
  have "\<forall>r \<in> set ys. orderOf op < orderOf (fst r)"
    using orderedRules_strict [OF assms(1)] unfolding l by (simp add: sorted_wrt_append)
  moreover have "set ys \<subseteq> set (orderedRules rules)" unfolding l by auto
  then have "\<forall>r \<in> set ys. isExistingPolicyKey (fst r)" by (auto simp: orderedRules_def)
  ultimately show ?thesis
    using satisfies_rest [OF assms(4) stepValue_satisfies [OF assms(4,5) b(1)] b(2)] by blast
qed

section \<open>Applying a policy\<close>

text \<open>\<open>m'\<close> differs from \<open>m\<close> at most in the parameter \<open>q\<close> of \<open>t\<close>, and has the same entity types.\<close>

definition onlyAt :: "string \<Rightarrow> string \<Rightarrow> metadata \<Rightarrow> metadata \<Rightarrow> bool" where
  "onlyAt t q m m' = ((\<forall>s. hasEntityType m' s = hasEntityType m s)
     \<and> (\<forall>s p. p \<notin> set protoKeys \<longrightarrow> \<not> (s = t \<and> p = q) \<longrightarrow> getPropertyValue m' s p = getPropertyValue m s p))"

lemma onlyAt_refl [simp]: "onlyAt t q m m"
  by (simp add: onlyAt_def)

lemma onlyAt_trans: "onlyAt t q m m1 \<Longrightarrow> onlyAt t q m1 m2 \<Longrightarrow> onlyAt t q m m2"
  by (auto simp: onlyAt_def)

lemma onlyAt_set: "hasEntityType m t \<Longrightarrow> onlyAt t q m (setPropertyValue m t q v)"
  by (auto simp: onlyAt_def hasEntityType_set get_set)

lemma onlyAt_delete: "hasEntityType m t \<Longrightarrow> onlyAt t q m (deleteProperty m t q)"
  by (auto simp: onlyAt_def hasEntityType_delete get_delete)

lemma onlyAt_entity: "onlyAt t q m m' \<Longrightarrow> hasEntityType m' s \<longleftrightarrow> hasEntityType m s"
  by (simp add: onlyAt_def)

lemma applyStep_onlyAt:
  "applyStep t q m rule = Inr m' \<Longrightarrow> hasEntityType m t \<Longrightarrow> onlyAt t q m m'"
  by (auto simp: applyStep_def Let_def onlyAt_set onlyAt_delete split: option.splits if_splits)

lemma applySteps_onlyAt:
  "foldR (applyStep t q) m rules = Inr m' \<Longrightarrow> hasEntityType m t \<Longrightarrow> onlyAt t q m m'"
proof (induction rules arbitrary: m)
  case (Cons r rules)
  then obtain m1 where m1: "applyStep t q m r = Inr m1" "foldR (applyStep t q) m1 rules = Inr m'" by auto
  note a = applyStep_onlyAt [OF m1(1) Cons.prems(2)]
  then show ?case using Cons.IH [OF m1(2)] Cons.prems(2) onlyAt_trans onlyAt_entity by blast
qed simp

lemma applyProperty_onlyAt:
  assumes "applyProperty t m (q, pv) = Inr m'" "hasEntityType m t"
  shows "onlyAt t q m m'"
proof (cases "truthy pv")
  case True
  define m1 where "m1 = (case getPropertyValue m t q of
      JStr s \<Rightarrow> if q = ''scope'' then setPropertyValue m t q (splitScope s) else m | _ \<Rightarrow> m)"
  have 1: "onlyAt t q m m1"
    unfolding m1_def using assms(2) by (auto simp: onlyAt_set split: json.splits)
  obtain m2 where m2: "foldR (applyStep t q) m1 (sort_key (orderOf \<circ> fst) (filter (isExistingPolicyKey \<circ> fst) (forIn pv))) = Inr m2"
    and m': "m' = (case getPropertyValue m2 t q of
              JArr xs \<Rightarrow> if q = ''scope'' then setPropertyValue m2 t q (JStr (joinWith '' '' (map joinText xs))) else m2
            | _ \<Rightarrow> m2)"
    using assms(1) True unfolding applyProperty_def m1_def by (auto simp: Let_def)
  have e1: "hasEntityType m1 t" using onlyAt_entity [OF 1] assms(2) by simp
  note 2 = applySteps_onlyAt [OF m2 e1]
  have e2: "hasEntityType m2 t" using onlyAt_entity [OF 2] e1 by simp
  have "onlyAt t q m2 m'" unfolding m' using e2 by (auto simp: onlyAt_set split: json.splits)
  then show ?thesis using onlyAt_trans [OF onlyAt_trans [OF 1 2]] by blast
qed (use assms in \<open>auto simp: applyProperty_def\<close>)

lemma stepValue_no_write:
  assumes "isExistingPolicyKey op" "stepValue path v (op, pv) = Inr w" "\<not> writes op v"
  shows "w = v"
proof (cases "op \<in> {''one_of'', ''superset_of'', ''essential''}")
  case True
  then show ?thesis by (rule stepValue_checks [OF _ assms(2)])
next
  case False
  have "op \<in> {''default'', ''subset_of''}"
    using assms(1,3) False unfolding operator_names by (elim insertE) (simp_all add: writes_def)
  then show ?thesis using assms(2,3)
    by (elim insertE) (simp_all add: writes_def stepValue_def applyOperator_subset_of, simp add: applyOperator_def)
qed

lemma applyStep_value:
  assumes "applyStep t q m (op, pv) = Inr m'" "hasEntityType m t" "q \<noteq> ''scope''" "q \<notin> set protoKeys"
    and "isExistingPolicyKey op"
  shows "stepValue (t @ ''.'' @ q) (getPropertyValue m t q) (op, pv) = Inr (getPropertyValue m' t q)"
proof -
  let ?v = "getPropertyValue m t q"
  have pv: "(case pv of JStr s \<Rightarrow> if q = ''scope'' then splitScope s else JStr s | v \<Rightarrow> v) = pv"
    using assms(3) by (cases pv) auto
  obtain r where r: "applyOperator (t @ ''.'' @ q) op pv ?v = Inr r"
    and m': "m' = (if \<not> writes op ?v then m
       else (case r of None \<Rightarrow> deleteProperty m t q | Some v \<Rightarrow> setPropertyValue m t q v))"
    using assms(1) unfolding applyStep_def Let_def fst_conv snd_conv pv by auto
  let ?w = "case r of None \<Rightarrow> JUndefined | Some w \<Rightarrow> w"
  have s: "stepValue (t @ ''.'' @ q) ?v (op, pv) = Inr ?w" using r by (simp add: stepValue_def)
  have "getPropertyValue m' t q = ?w"
  proof (cases "writes op ?v")
    case True
    then show ?thesis using m' assms(2,4) by (cases r) (simp_all add: get_set get_delete)
  next
    case False
    then show ?thesis using m' stepValue_no_write [OF assms(5) s False] by simp
  qed
  then show ?thesis using s by simp
qed

lemma applySteps_value:
  assumes "q \<noteq> ''scope''" "q \<notin> set protoKeys"
  shows "foldR (applyStep t q) m rules = Inr m' \<Longrightarrow> hasEntityType m t \<Longrightarrow> \<forall>r \<in> set rules. isExistingPolicyKey (fst r) \<Longrightarrow>
    foldR (stepValue (t @ ''.'' @ q)) (getPropertyValue m t q) rules = Inr (getPropertyValue m' t q)"
proof (induction rules arbitrary: m)
  case (Cons r rules)
  obtain op pv where r: "r = (op, pv)" by (cases r)
  obtain m1 where m1: "applyStep t q m r = Inr m1" "foldR (applyStep t q) m1 rules = Inr m'"
    using Cons.prems(1) by auto
  have "hasEntityType m1 t" using applyStep_onlyAt [OF m1(1) Cons.prems(2)] Cons.prems(2) onlyAt_entity by simp
  moreover have "stepValue (t @ ''.'' @ q) (getPropertyValue m t q) r = Inr (getPropertyValue m1 t q)"
    using applyStep_value [OF _ Cons.prems(2) assms] m1(1) Cons.prems(3) r by simp
  ultimately show ?case using Cons.IH [OF m1(2)] Cons.prems(3) by simp
qed simp

text \<open>A value meets a policy when it satisfies each of its operators.\<close>

definition meets :: "fields \<Rightarrow> json \<Rightarrow> bool" where
  "meets rules v = (\<forall>op. isExistingPolicyKey op \<longrightarrow> ops rules op \<noteq> JUndefined \<longrightarrow> satisfies op (ops rules op) v)"

lemma applyProperty_meets:
  assumes "applyProperty t m (q, JObj rules) = Inr m'" "hasEntityType m t" "q \<noteq> ''scope''" "q \<notin> set protoKeys"
    and "distinct (map fst rules)"
  shows "meets rules (getPropertyValue m' t q)"
proof -
  have m1: "(case getPropertyValue m t q of
      JStr s \<Rightarrow> if q = ''scope'' then setPropertyValue m t q (splitScope s) else m | _ \<Rightarrow> m) = m"
    using assms(3) by (simp split: json.splits)
  obtain m2 where m2: "foldR (applyStep t q) m (orderedRules rules) = Inr m2"
    and m': "m' = (case getPropertyValue m2 t q of
              JArr xs \<Rightarrow> if q = ''scope'' then setPropertyValue m2 t q (JStr (joinWith '' '' (map joinText xs))) else m2
            | _ \<Rightarrow> m2)"
    using assms(1) unfolding applyProperty_def Let_def fst_conv snd_conv m1 by (auto simp: orderedRules_def)
  have "m' = m2" unfolding m' using assms(3) by (simp split: json.splits)
  have "\<forall>r \<in> set (orderedRules rules). isExistingPolicyKey (fst r)" by (simp add: orderedRules_def)
  then have f: "foldR (stepValue (t @ ''.'' @ q)) (getPropertyValue m t q) (orderedRules rules) = Inr (getPropertyValue m' t q)"
    using applySteps_value [OF assms(3,4) m2 assms(2)] \<open>m' = m2\<close> by simp
  show ?thesis unfolding meets_def
  proof (intro allI impI)
    fix op assume o: "isExistingPolicyKey op" "ops rules op \<noteq> JUndefined"
    then have "(op, ops rules op) \<in> set rules" by (auto simp: ops_def split: option.splits dest: map_of_SomeD)
    then show "satisfies op (ops rules op) (getPropertyValue m' t q)"
      using orderedRules_satisfied [OF assms(5) f _ o] by blast
  qed
qed

end
