(* ===== verification/PolicyChain.thy ===== *)
theory PolicyChain imports PolicyLaws begin

text \<open>
  Merging policies. The policy merged from two is met by exactly the values that meet both, so the
  policy merged along a chain demands what every statement of the chain demands, and the metadata it
  is applied to satisfies each of them.
\<close>

section \<open>Merging the operators of two policies\<close>

lemma ops_Some: "ops rules k \<noteq> JUndefined \<Longrightarrow> (k, ops rules k) \<in> set rules"
  by (auto simp: ops_def split: option.splits dest: map_of_SomeD)

lemma ops_distinct: "distinct (map fst rules) \<Longrightarrow> (k, v) \<in> set rules \<Longrightarrow> ops rules k = v"
  by (simp add: ops_def)

text \<open>What a single operator demands; an \<open>undefined\<close> one or one that is not known demands nothing.\<close>

definition demands :: "string \<times> json \<Rightarrow> json \<Rightarrow> bool" where
  "demands rule x = (isExistingPolicyKey (fst rule) \<longrightarrow> snd rule \<noteq> JUndefined \<longrightarrow> satisfies (fst rule) (snd rule) x)"

lemma meets_demands: "meets rules x \<longleftrightarrow> (\<forall>op. demands (op, ops rules op) x)"
  by (auto simp: meets_def demands_def)

lemma meets_all:
  "distinct (map fst rules) \<Longrightarrow> meets rules x \<longleftrightarrow> (\<forall>rule \<in> set rules. demands rule x)"
proof
  assume d: "distinct (map fst rules)" and m: "meets rules x"
  then show "\<forall>rule \<in> set rules. demands rule x"
    unfolding meets_demands by (metis ops_distinct prod.collapse)
next
  assume all: "\<forall>rule \<in> set rules. demands rule x"
  show "meets rules x"
    unfolding meets_demands
  proof
    fix op show "demands (op, ops rules op) x"
      using all ops_Some [of rules op] by (cases "ops rules op = JUndefined") (simp add: demands_def, blast)
  qed
qed

lemma meets_defineProp:
  "meets (defineProp k v rules) x \<longleftrightarrow> demands (k, v) x \<and> (\<forall>op. op \<noteq> k \<longrightarrow> demands (op, ops rules op) x)"
  by (auto simp: meets_demands ops_defineProp)

lemma meets_split: "meets rules x \<longleftrightarrow> demands (k, ops rules k) x \<and> (\<forall>op. op \<noteq> k \<longrightarrow> demands (op, ops rules op) x)"
  by (auto simp: meets_demands)

lemma homogeneous_primitive: "homogeneous (JArr ys) \<Longrightarrow> y \<in> set ys \<Longrightarrow> primitive y"
  by (cases y) (auto simp: homogeneous_def list_all_iff split: json.splits)

lemma strictEq_eq: "strictEq v w \<Longrightarrow> v = w"
  by (simp add: strictEq_def)

lemma list_all2_strictEq: "list_all2 strictEq xs ys \<Longrightarrow> xs = ys"
  by (rule list_all2_eq [THEN iffD2]) (erule list_all2_mono, rule strictEq_eq)

lemma combine_equal: "combineValues OperatorValuesEqual path a b = Inr c \<Longrightarrow> c = a \<and> b = a"
  by (auto split: json.splits if_splits dest: list_all2_strictEq strictEq_eq)

lemma combine_arrays:
  "m \<in> {UnionStrategy, Intersection, IntersectionMayBeEmpty} \<Longrightarrow> combineValues m path a b = Inr c \<Longrightarrow>
   \<exists>xs ys. a = JArr xs \<and> b = JArr ys \<and> c = JArr (if m = UnionStrategy then union xs ys else intersect xs ys)"
  by (elim insertE) (auto split: json.splits if_splits)

lemma combine_bools:
  "combineValues LogicalOr path a b = Inr c \<Longrightarrow> \<exists>x y. a = JBool x \<and> b = JBool y \<and> c = JBool (x \<or> y)"
  by (auto split: json.splits)

lemma merge_strategies:
  "map_of allSupportedPolicies k = Some r \<Longrightarrow>
     (k \<in> {''value'', ''add''} \<and> True)
   \<or> (k = ''default'' \<and> po_merge r = OperatorValuesEqual)
   \<or> (k = ''essential'' \<and> po_merge r = LogicalOr)
   \<or> (k = ''one_of'' \<and> po_merge r = Intersection)
   \<or> (k = ''subset_of'' \<and> po_merge r = IntersectionMayBeEmpty)
   \<or> (k = ''superset_of'' \<and> po_merge r = UnionStrategy)"
  unfolding allSupportedPolicies_def operators map_of.simps fst_conv snd_conv fun_upd_apply
  by (simp split: if_splits; hypsubst; simp)

text \<open>The value merged for one operator demands what the two values demand.\<close>

lemma combineValues_demands:
  assumes r: "map_of allSupportedPolicies k = Some r"
    and c: "combineValues (po_merge r) path a b = Inr c"
    and s: "operatorSchema k b" "b \<noteq> JUndefined"
  shows "satisfies k c x \<longleftrightarrow> satisfies k a x \<and> satisfies k b x"
  using merge_strategies [OF r]
proof (elim disjE conjE)
  assume "k \<in> {''value'', ''add''}"
  then show ?thesis by (elim insertE) (simp_all add: satisfies_def)
next
  assume k: "k = ''default''" "po_merge r = OperatorValuesEqual"
  then show ?thesis using combine_equal [of path a b c] c by simp
next
  assume k: "k = ''essential''" "po_merge r = LogicalOr"
  then show ?thesis using combine_bools [of path a b c] c by (auto simp: satisfies_def)
next
  assume k: "k = ''one_of''" "po_merge r = Intersection"
  then obtain xs ys where v: "a = JArr xs" "b = JArr ys" "c = JArr (intersect xs ys)"
    using combine_arrays [of Intersection path a b c] c by auto
  show ?thesis unfolding k(1) v by (auto simp: satisfies_def isArray_def members_def set_intersect)
next
  assume k: "k = ''subset_of''" "po_merge r = IntersectionMayBeEmpty"
  then obtain xs ys where v: "a = JArr xs" "b = JArr ys" "c = JArr (intersect xs ys)"
    using combine_arrays [of IntersectionMayBeEmpty path a b c] c by auto
  have h: "homogeneous (JArr ys)" using s(1) by (simp add: k(1) v operatorSchema_def)
  have "set (intersect xs ys) = set xs \<inter> set ys"
    using homogeneous_primitive [OF h] by (auto simp: set_intersect)
  then show ?thesis unfolding k(1) v by (auto simp: satisfies_def isArray_def members_def)
next
  assume k: "k = ''superset_of''" "po_merge r = UnionStrategy"
  then obtain xs ys where v: "a = JArr xs" "b = JArr ys" "c = JArr (union xs ys)"
    using combine_arrays [of UnionStrategy path a b c] c by auto
  show ?thesis unfolding k(1) v by (auto simp: satisfies_def isArray_def members_def set_union)
qed

lemma combineValues_defined:
  "combineValues m path a b = Inr c \<Longrightarrow> a \<noteq> JUndefined \<Longrightarrow> b \<noteq> JUndefined \<and> c \<noteq> JUndefined"
  by (cases m) (auto simp: strictEq_def split: json.splits if_splits)

lemma combineRule_meets:
  assumes "combineRule path rules rule = Inr c"
  shows "meets c x \<longleftrightarrow> meets rules x \<and> demands rule x"
proof (cases "map_of allSupportedPolicies (fst rule)")
  case None
  then show ?thesis using assms by (auto simp: combineRule_def demands_def isExistingPolicyKey_def)
next
  case (Some r)
  let ?k = "fst rule" and ?v = "snd rule"
  note split = meets_split [of rules x ?k]
  show ?thesis
  proof (cases "ops rules ?k = JUndefined")
    case True
    then have c: "c = defineProp ?k ?v rules" using assms Some by (simp add: combineRule_def)
    have "demands (?k, JUndefined) x" by (simp add: demands_def)
    then show ?thesis unfolding c meets_defineProp split True by auto
  next
    case False
    then obtain w where w: "combineValues (po_merge r) path (ops rules ?k) ?v = Inr w"
      and sch: "operatorSchema ?k ?v" and c: "c = defineProp ?k w rules"
      using assms Some by (auto simp: combineRule_def split: if_splits)
    note d = combineValues_defined [OF w False]
    have "demands (?k, w) x \<longleftrightarrow> demands (?k, ops rules ?k) x \<and> demands (?k, ?v) x"
      using combineValues_demands [OF Some w sch] d False by (auto simp: demands_def)
    then show ?thesis unfolding c meets_defineProp split by auto
  qed
qed

lemma combine_meets:
  assumes "combineExistingMetadataPolicyOperators path existing new = Inr combined"
    and "distinct (map fst new)"
  shows "meets combined x \<longleftrightarrow> meets existing x \<and> meets new x"
proof -
  have "foldR (combineRule path) existing new = Inr combined \<Longrightarrow>
      meets combined x \<longleftrightarrow> meets existing x \<and> (\<forall>rule \<in> set new. demands rule x)" for new
  proof (induction new arbitrary: existing)
    case (Cons rule new)
    then obtain c where c: "combineRule path existing rule = Inr c" "foldR (combineRule path) c new = Inr combined"
      by auto
    show ?case using Cons.IH [OF c(2)] combineRule_meets [OF c(1)] by auto
  qed simp
  then show ?thesis
    using assms meets_all by (auto simp: combineExistingMetadataPolicyOperators_def)
qed



text \<open>Two policies for the scopes a client may be given, and their merge.\<close>

definition anchorRules :: fields where
  "anchorRules = [(''subset_of'', JArr [JStr ''a'', JStr ''b'', JStr ''c'']), (''essential'', JBool False)]"

definition mediatorRules :: fields where
  "mediatorRules = [(''essential'', JBool True), (''subset_of'', JArr [JStr ''d'', JStr ''c'', JStr ''b''])]"

definition mergedRules :: fields where
  "mergedRules = [(''subset_of'', JArr [JStr ''b'', JStr ''c'']), (''essential'', JBool True)]"

lemmas samples = anchorRules_def mediatorRules_def mergedRules_def

lemma sample_merge: "combineExistingMetadataPolicyOperators ''c.g'' anchorRules mediatorRules = Inr mergedRules"
  unfolding samples by code_simp


section \<open>The policy of a chain\<close>

text \<open>What the policy \<open>m\<close> demands of the parameter \<open>p\<close> of the entity type \<open>s\<close>.\<close>

definition rulesMeet :: "json \<Rightarrow> json \<Rightarrow> bool" where
  "rulesMeet rules x = (case rules of JObj r \<Rightarrow> meets r x | _ \<Rightarrow> True)"

definition policyMeets :: "metadata \<Rightarrow> string \<Rightarrow> string \<Rightarrow> json \<Rightarrow> bool" where
  "policyMeets m s p x = rulesMeet (ops (serviceBlock m s) p) x"

text \<open>Policies as a document has them: the keys of every object are distinct.\<close>

definition wfRules :: "json \<Rightarrow> bool" where
  "wfRules v = (\<exists>rules. v = JObj rules \<and> distinct (map fst rules))"

definition wfBlock :: "fields \<Rightarrow> bool" where
  "wfBlock block = (distinct (map fst block) \<and> (\<forall>pv \<in> set block. wfRules (snd pv)))"

definition wfPolicy :: "metadata \<Rightarrow> bool" where
  "wfPolicy m = (distinct (map fst m) \<and> (\<forall>sb \<in> set m. wfBlock (snd sb)))"

lemma wf_nil [simp]: "wfPolicy []" "wfBlock []"
  by (simp_all add: wfPolicy_def wfBlock_def)

lemma meets_nil [simp]: "meets [] x"
  by (simp add: meets_def ops_def)

lemma wfBlock_define: "wfBlock block \<Longrightarrow> wfRules v \<Longrightarrow> wfBlock (defineProp p v block)"
  by (auto simp: wfBlock_def distinct_defineProp dest: set_defineProp)

lemma wfBlock_service: "wfPolicy m \<Longrightarrow> wfBlock (serviceBlock m s)"
  by (auto simp: wfPolicy_def serviceBlock_def split: option.splits dest: map_of_SomeD)

lemma wfPolicy_set: "wfPolicy m \<Longrightarrow> wfRules v \<Longrightarrow> wfPolicy (setPropertyValue m s p v)"
  using wfBlock_define [OF wfBlock_service]
  by (auto simp: wfPolicy_def setPropertyValue_def distinct_defineProp dest: set_defineProp)

lemma policyMeets_set:
  "policyMeets (setPropertyValue m s p v) t q x = (if t = s \<and> q = p then rulesMeet v x else policyMeets m t q x)"
  by (simp add: policyMeets_def serviceBlock_set ops_defineProp)

lemma getPropertyValue_ops:
  "getPropertyValue m s p = JUndefined \<Longrightarrow> ops (serviceBlock m s) p = JUndefined"
  "getPropertyValue m s p = JBuiltin k \<Longrightarrow> wfPolicy m \<Longrightarrow> ops (serviceBlock m s) p = JUndefined"
  "getPropertyValue m s p = JObj r \<Longrightarrow> ops (serviceBlock m s) p = JObj r"
proof -
  have own: "hasEntityType m s \<Longrightarrow> getPropertyValue m s p = getProp (serviceBlock m s) p"
    "\<not> hasEntityType m s \<Longrightarrow> serviceBlock m s = []" "\<not> hasEntityType m s \<Longrightarrow> getPropertyValue m s p = JUndefined"
    by (auto simp: getPropertyValue_def serviceBlock_def hasEntityType_def inObj_map_of split: option.splits)
  show "getPropertyValue m s p = JUndefined \<Longrightarrow> ops (serviceBlock m s) p = JUndefined"
    using own by (cases "hasEntityType m s") (auto simp: getProp_def ops_def split: option.splits if_splits)
  show "getPropertyValue m s p = JObj r \<Longrightarrow> ops (serviceBlock m s) p = JObj r"
    using own by (cases "hasEntityType m s") (auto simp: getProp_def ops_def split: option.splits if_splits)
  assume b: "getPropertyValue m s p = JBuiltin k" and wf: "wfPolicy m"
  have "map_of (serviceBlock m s) p \<noteq> Some (JBuiltin k)"
    using wfBlock_service [OF wf, of s] by (force simp: wfBlock_def wfRules_def dest: map_of_SomeD)
  then show "ops (serviceBlock m s) p = JUndefined"
    using own b by (cases "hasEntityType m s") (auto simp: getProp_def ops_def split: option.splits if_splits)
qed

lemma combined_step:
  assumes c: "combineExistingMetadataPolicyOperators path existing rules = Inr combined" "zMetadataPolicy combined"
    and wf: "wfPolicy m" "wfRules (JObj rules)"
    and old: "rulesMeet (ops (serviceBlock m s) p) x = meets existing x"
  shows "wfPolicy (setPropertyValue m s p (JObj combined))
    \<and> (policyMeets (setPropertyValue m s p (JObj combined)) t q x
        \<longleftrightarrow> policyMeets m t q x \<and> (t = s \<and> q = p \<longrightarrow> meets rules x))"
proof -
  have "wfRules (JObj combined)" using c(2) by (simp add: wfRules_def zMetadataPolicy_def)
  moreover have "rulesMeet (JObj combined) x \<longleftrightarrow> meets existing x \<and> meets rules x"
    using combine_meets [OF c(1)] wf(2) by (simp add: rulesMeet_def wfRules_def)
  ultimately show ?thesis using wf(1) old
    by (auto simp: policyMeets_set wfPolicy_set) (simp_all add: policyMeets_def)
qed

text \<open>One parameter of a statement is added to what the merged policy demands.\<close>

lemma combineProperty_meets:
  assumes c: "combineProperty crit s m (p, v) = Inr m'" and wf: "wfPolicy m" "wfRules v"
  shows "wfPolicy m' \<and> (policyMeets m' t q x \<longleftrightarrow> policyMeets m t q x \<and> (t = s \<and> q = p \<longrightarrow> rulesMeet v x))"
proof -
  obtain rules where v: "v = JObj rules" using wf(2) by (auto simp: wfRules_def)
  note wfr = wf(2) [unfolded v]
  have rules: "rulesMeet v x = meets rules x" by (simp add: v rulesMeet_def)
  consider (new) "getPropertyValue m s p = JUndefined" "m' = setPropertyValue m s p v"
    | (merge) existing combined where "getPropertyValue m s p = JObj existing"
        "combineExistingMetadataPolicyOperators (s @ ''.'' @ p) existing rules = Inr combined"
        "zMetadataPolicy combined" "m' = setPropertyValue m s p (JObj combined)"
    | (inherited) k combined where "getPropertyValue m s p = JBuiltin k"
        "combineExistingMetadataPolicyOperators (s @ ''.'' @ p) [] rules = Inr combined"
        "zMetadataPolicy combined" "m' = setPropertyValue m s p (JObj combined)"
    using c unfolding combineProperty_def v by (auto split: json.splits option.splits)
  then show ?thesis
  proof cases
    case new
    have "policyMeets m s p x" using getPropertyValue_ops(1) [OF new(1)] by (simp add: policyMeets_def rulesMeet_def)
    then show ?thesis using wfPolicy_set [OF wf] by (auto simp: new(2) policyMeets_set)
  next
    case merge
    have "rulesMeet (ops (serviceBlock m s) p) x = meets existing x"
      using getPropertyValue_ops(3) [OF merge(1)] by (simp add: rulesMeet_def)
    then show ?thesis unfolding merge(4) rules by (rule combined_step [OF merge(2,3) wf(1) wfr])
  next
    case inherited
    have "rulesMeet (ops (serviceBlock m s) p) x = meets [] x"
      using getPropertyValue_ops(2) [OF inherited(1) wf(1)] by (simp add: rulesMeet_def)
    then show ?thesis unfolding inherited(4) rules by (rule combined_step [OF inherited(2,3) wf(1) wfr])
  qed
qed

lemma keyed: "distinct (map fst kvs) \<Longrightarrow>
    (\<forall>kv \<in> set kvs. k = fst kv \<longrightarrow> P (snd kv)) \<longleftrightarrow> (case map_of kvs k of None \<Rightarrow> True | Some v \<Rightarrow> P v)"
proof (induction kvs)
  case (Cons kv kvs)
  have "\<forall>kv \<in> set kvs. k = fst kv \<longrightarrow> P (snd kv)" if "k = fst kv" using Cons.prems that by (auto simp: image_iff)
  then show ?case using Cons by (cases kv) auto
qed simp

lemma policyMeets_entries:
  assumes "wfPolicy policy"
  shows "policyMeets policy t q x \<longleftrightarrow> (\<forall>sb \<in> set policy. \<forall>pv \<in> set (snd sb). t = fst sb \<and> q = fst pv \<longrightarrow> rulesMeet (snd pv) x)"
proof -
  have d: "distinct (map fst policy)" and b: "distinct (map fst (serviceBlock policy t))"
    using assms wfBlock_service [OF assms] by (simp_all add: wfPolicy_def wfBlock_def)
  have "(\<forall>sb \<in> set policy. t = fst sb \<longrightarrow> (\<forall>pv \<in> set (snd sb). q = fst pv \<longrightarrow> rulesMeet (snd pv) x))
      \<longleftrightarrow> (\<forall>pv \<in> set (serviceBlock policy t). q = fst pv \<longrightarrow> rulesMeet (snd pv) x)"
    unfolding keyed [OF d, of t "\<lambda>b. \<forall>pv \<in> set b. q = fst pv \<longrightarrow> rulesMeet (snd pv) x"]
    by (cases "map_of policy t") (simp_all add: serviceBlock_def)
  moreover have "\<dots> \<longleftrightarrow> policyMeets policy t q x"
    unfolding keyed [OF b, of q "\<lambda>v. rulesMeet v x"]
    by (simp add: policyMeets_def ops_def rulesMeet_def split: option.splits)
  ultimately show ?thesis by blast
qed

lemma combineBlock_meets:
  "foldR (combineProperty crit s) m block = Inr m' \<Longrightarrow> wfPolicy m \<Longrightarrow> \<forall>pv \<in> set block. wfRules (snd pv) \<Longrightarrow>
   wfPolicy m' \<and> (policyMeets m' t q x \<longleftrightarrow>
      policyMeets m t q x \<and> (\<forall>pv \<in> set block. t = s \<and> q = fst pv \<longrightarrow> rulesMeet (snd pv) x))"
proof (induction block arbitrary: m)
  case (Cons pv block)
  obtain p v where pv: "pv = (p, v)" by (cases pv)
  obtain m1 where m1: "combineProperty crit s m (p, v) = Inr m1" "foldR (combineProperty crit s) m1 block = Inr m'"
    using Cons.prems(1) pv by auto
  note one = combineProperty_meets [OF m1(1) Cons.prems(2), of t q x]
  then show ?case using Cons.IH [OF m1(2)] Cons.prems(3) pv by auto
qed simp

lemma combineBlocks_meets:
  "foldR (\<lambda>m service. foldR (combineProperty crit (fst service)) m (snd service)) m policy = Inr m' \<Longrightarrow>
   wfPolicy m \<Longrightarrow> \<forall>sb \<in> set policy. wfBlock (snd sb) \<Longrightarrow>
   wfPolicy m' \<and> (policyMeets m' t q x \<longleftrightarrow> policyMeets m t q x
     \<and> (\<forall>sb \<in> set policy. \<forall>pv \<in> set (snd sb). t = fst sb \<and> q = fst pv \<longrightarrow> rulesMeet (snd pv) x))"
proof (induction policy arbitrary: m)
  case (Cons sb policy)
  obtain m1 where m1: "foldR (combineProperty crit (fst sb)) m (snd sb) = Inr m1"
    "foldR (\<lambda>m service. foldR (combineProperty crit (fst service)) m (snd service)) m1 policy = Inr m'"
    using Cons.prems(1) by auto
  have "\<forall>pv \<in> set (snd sb). wfRules (snd pv)" using Cons.prems(3) by (simp add: wfBlock_def)
  note one = combineBlock_meets [OF m1(1) Cons.prems(2) this, of t q x]
  then show ?case using Cons.IH [OF m1(2)] Cons.prems(3) by auto
qed simp

text \<open>What one statement demands, and a statement whose policy is well formed.\<close>

definition statementMeets :: "metadata option \<times> string list option \<Rightarrow> string \<Rightarrow> string \<Rightarrow> json \<Rightarrow> bool" where
  "statementMeets st s p x = (case fst st of None \<Rightarrow> True | Some policy \<Rightarrow> policyMeets policy s p x)"

definition wfStatement :: "metadata option \<times> string list option \<Rightarrow> bool" where
  "wfStatement st = (case fst st of None \<Rightarrow> True | Some policy \<Rightarrow> wfPolicy policy)"

lemma combineStatement_meets:
  assumes "combineStatement m st = Inr m'" "wfPolicy m" "wfStatement st"
  shows "wfPolicy m' \<and> (policyMeets m' t q x \<longleftrightarrow> policyMeets m t q x \<and> statementMeets st t q x)"
proof (cases "fst st")
  case None
  then show ?thesis using assms by (simp add: combineStatement_def statementMeets_def)
next
  case (Some policy)
  then have wf: "wfPolicy policy" using assms(3) by (simp add: wfStatement_def)
  then have "\<forall>sb \<in> set policy. wfBlock (snd sb)" by (simp add: wfPolicy_def)
  then show ?thesis
    using combineBlocks_meets [of "snd st" m policy m'] assms(1,2) Some policyMeets_entries [OF wf]
    by (simp add: combineStatement_def statementMeets_def)
qed

lemma combineMetadataPolicies_meets:
  assumes "combineMetadataPolicies statements = Inr merged" "\<forall>st \<in> set statements. wfStatement st"
  shows "wfPolicy merged \<and> (policyMeets merged s p x \<longleftrightarrow> (\<forall>st \<in> set statements. statementMeets st s p x))"
proof -
  have "foldR combineStatement m sts = Inr merged \<Longrightarrow> wfPolicy m \<Longrightarrow> \<forall>st \<in> set sts. wfStatement st \<Longrightarrow>
      wfPolicy merged \<and> (policyMeets merged s p x \<longleftrightarrow> policyMeets m s p x \<and> (\<forall>st \<in> set sts. statementMeets st s p x))"
    for m sts
  proof (induction sts arbitrary: m)
    case (Cons st sts)
    then obtain m1 where m1: "combineStatement m st = Inr m1" "foldR combineStatement m1 sts = Inr merged" by auto
    have "wfStatement st" using Cons.prems(3) by simp
    note one = combineStatement_meets [OF m1(1) Cons.prems(2) this, of s p x]
    then show ?case using Cons.IH [OF m1(2)] Cons.prems(3) by auto
  qed simp
  moreover have "policyMeets [] s p x" by (simp add: policyMeets_def serviceBlock_def ops_def rulesMeet_def)
  ultimately show ?thesis
    using assms by (auto simp: combineMetadataPolicies_def split: if_splits)
qed


section \<open>The metadata of the leaf\<close>

definition elsewhere :: "(string \<times> string) set \<Rightarrow> metadata \<Rightarrow> metadata \<Rightarrow> bool" where
  "elsewhere ps m m' = ((\<forall>s. hasEntityType m' s = hasEntityType m s)
     \<and> (\<forall>s p. p \<notin> set protoKeys \<longrightarrow> (s, p) \<notin> ps \<longrightarrow> getPropertyValue m' s p = getPropertyValue m s p))"

lemma elsewhere_refl [simp]: "elsewhere ps m m"
  by (simp add: elsewhere_def)

lemma elsewhere_onlyAt: "onlyAt t q m m1 \<Longrightarrow> (t, q) \<in> ps \<Longrightarrow> elsewhere ps m1 m2 \<Longrightarrow> elsewhere ps m m2"
  by (auto simp: elsewhere_def onlyAt_def)

lemma elsewhere_trans: "elsewhere ps m m1 \<Longrightarrow> elsewhere ps m1 m2 \<Longrightarrow> elsewhere ps m m2"
  by (auto simp: elsewhere_def)

lemma elsewhere_mono: "elsewhere ps m m1 \<Longrightarrow> ps \<subseteq> qs \<Longrightarrow> elsewhere qs m m1"
  by (auto simp: elsewhere_def)

lemma applyBlock_elsewhere:
  "foldR (applyProperty t) m block = Inr m' \<Longrightarrow> hasEntityType m t \<Longrightarrow> elsewhere ({t} \<times> fst ` set block) m m'"
proof (induction block arbitrary: m)
  case (Cons pv block)
  obtain q v where pv: "pv = (q, v)" by (cases pv)
  obtain m1 where m1: "applyProperty t m (q, v) = Inr m1" "foldR (applyProperty t) m1 block = Inr m'"
    using Cons.prems(1) pv by auto
  note o = applyProperty_onlyAt [OF m1(1) Cons.prems(2)]
  have "elsewhere ({t} \<times> fst ` set block) m1 m'"
    using Cons.IH [OF m1(2)] onlyAt_entity [OF o] Cons.prems(2) by simp
  then show ?case using elsewhere_onlyAt [OF o] elsewhere_mono pv
    by (metis (no_types, lifting) Sigma_mono fst_conv image_insert insertCI list.simps(15) mem_Sigma_iff order_refl subset_insertI)
qed simp

lemma applyBlock_meets:
  "foldR (applyProperty t) m block = Inr m' \<Longrightarrow> hasEntityType m t \<Longrightarrow> wfBlock block \<Longrightarrow>
   (q, v) \<in> set block \<Longrightarrow> q \<noteq> ''scope'' \<Longrightarrow> q \<notin> set protoKeys \<Longrightarrow> rulesMeet v (getPropertyValue m' t q)"
proof (induction block arbitrary: m)
  case (Cons pv block)
  obtain q1 v1 where pv: "pv = (q1, v1)" by (cases pv)
  obtain m1 where m1: "applyProperty t m (q1, v1) = Inr m1" "foldR (applyProperty t) m1 block = Inr m'"
    using Cons.prems(1) pv by auto
  note o = applyProperty_onlyAt [OF m1(1) Cons.prems(2)]
  have e: "hasEntityType m1 t" using onlyAt_entity [OF o] Cons.prems(2) by simp
  have wf: "wfRules v1" "wfBlock block" "q1 \<notin> fst ` set block" using Cons.prems(3) pv by (auto simp: wfBlock_def)
  show ?case
  proof (cases "(q, v) \<in> set block")
    case True
    then show ?thesis using Cons.IH [OF m1(2) e wf(2)] Cons.prems(5,6) by simp
  next
    case False
    then have qv: "q1 = q" "v1 = v" using Cons.prems(4) pv by auto
    obtain rules where r: "v = JObj rules" "distinct (map fst rules)" using wf(1) qv by (auto simp: wfRules_def)
    have "meets rules (getPropertyValue m1 t q)"
      using applyProperty_meets [OF _ Cons.prems(2,5,6) r(2)] m1(1) qv r(1) by simp
    moreover have "getPropertyValue m' t q = getPropertyValue m1 t q"
      using applyBlock_elsewhere [OF m1(2) e] wf(3) qv(1) Cons.prems(6) by (auto simp: elsewhere_def)
    ultimately show ?thesis by (simp add: r(1) rulesMeet_def)
  qed
qed simp

text \<open>The loop over the entity types of the policy.\<close>

definition applyService :: "metadata \<Rightarrow> string \<times> fields \<Rightarrow> fedError + metadata" where
  "applyService m service = (if hasEntityType m (fst service)
     then foldR (applyProperty (fst service)) m (snd service) else Inr m)"

lemma apply_services: "applyMetadataPolicyToMetadata leaf policy = foldR applyService leaf policy"
  by (simp add: applyMetadataPolicyToMetadata_def applyService_def [abs_def])

lemma applyService_elsewhere: "applyService m sb = Inr m' \<Longrightarrow> elsewhere ({fst sb} \<times> UNIV) m m'"
  by (auto simp: applyService_def split: if_splits intro: elsewhere_mono [OF applyBlock_elsewhere])

lemma applyServices_elsewhere:
  "foldR applyService m policy = Inr m' \<Longrightarrow> elsewhere (fst ` set policy \<times> UNIV) m m'"
proof (induction policy arbitrary: m)
  case (Cons sb policy)
  then obtain m1 where m1: "applyService m sb = Inr m1" "foldR applyService m1 policy = Inr m'" by auto
  show ?case
    by (rule elsewhere_trans [OF elsewhere_mono [OF applyService_elsewhere [OF m1(1)]]
          elsewhere_mono [OF Cons.IH [OF m1(2)]]]) auto
qed simp

lemma applyServices_meets:
  "foldR applyService m policy = Inr m' \<Longrightarrow> hasEntityType m t \<Longrightarrow> wfPolicy policy \<Longrightarrow> (t, block) \<in> set policy \<Longrightarrow>
   (q, v) \<in> set block \<Longrightarrow> q \<noteq> ''scope'' \<Longrightarrow> q \<notin> set protoKeys \<Longrightarrow> rulesMeet v (getPropertyValue m' t q)"
proof (induction policy arbitrary: m)
  case (Cons sb policy)
  then obtain m1 where m1: "applyService m sb = Inr m1" "foldR applyService m1 policy = Inr m'" by auto
  note e1 = applyService_elsewhere [OF m1(1)]
  have e: "hasEntityType m1 t" using e1 Cons.prems(2) by (simp add: elsewhere_def)
  have wf: "wfBlock (snd sb)" "wfPolicy policy" "fst sb \<notin> fst ` set policy"
    using Cons.prems(3) by (auto simp: wfPolicy_def)
  show ?case
  proof (cases "(t, block) \<in> set policy")
    case True
    then show ?thesis using Cons.IH [OF m1(2) e wf(2)] Cons.prems(5-7) by simp
  next
    case False
    then have sb: "sb = (t, block)" using Cons.prems(4) by simp
    have "rulesMeet v (getPropertyValue m1 t q)"
      using applyBlock_meets [of t m block m1 q v] m1(1) Cons.prems(2,5-7) wf(1) by (simp add: sb applyService_def)
    moreover have "getPropertyValue m' t q = getPropertyValue m1 t q"
      using applyServices_elsewhere [OF m1(2)] wf(3) sb Cons.prems(7) by (auto simp: elsewhere_def)
    ultimately show ?thesis by simp
  qed
qed simp

lemma applyMetadataPolicy_meets:
  assumes "applyMetadataPolicyToMetadata leaf policy = Inr resolved" "hasEntityType leaf s" "wfPolicy policy"
    and "p \<noteq> ''scope''" "p \<notin> set protoKeys"
  shows "policyMeets policy s p (getPropertyValue resolved s p)"
proof (cases "ops (serviceBlock policy s) p = JUndefined")
  case False
  let ?v = "ops (serviceBlock policy s) p"
  have v: "(p, ?v) \<in> set (serviceBlock policy s)" by (rule ops_Some [OF False])
  then have "(s, serviceBlock policy s) \<in> set policy"
    by (auto simp: serviceBlock_def split: option.splits dest: map_of_SomeD)
  then show ?thesis
    using applyServices_meets [OF assms(1) [unfolded apply_services] assms(2,3) _ v assms(4,5)]
    by (simp add: policyMeets_def)
qed (simp add: policyMeets_def rulesMeet_def)


definition sampleStatements :: "(metadata option \<times> string list option) list" where
  "sampleStatements = [(Some [(''c'', [(''g'', JObj mediatorRules)])], Some [''value'']), (None, None),
     (Some [(''c'', [(''g'', JObj anchorRules)])], None)]"

definition sampleLeaf :: metadata where
  "sampleLeaf = [(''c'', [(''g'', JArr [JStr ''a'', JStr ''b'', JStr ''d''])])]"

lemma sample_policies: "combineMetadataPolicies sampleStatements = Inr [(''c'', [(''g'', JObj mergedRules)])]"
  unfolding sampleStatements_def samples by code_simp

lemma sample_resolved:
  "applyMetadataPolicyToMetadata sampleLeaf [(''c'', [(''g'', JObj mergedRules)])] = Inr [(''c'', [(''g'', JArr [JStr ''b''])])]"
  unfolding sampleLeaf_def samples by code_simp

lemma sample_wf: "\<forall>st \<in> set sampleStatements. wfStatement st"
  by (simp add: sampleStatements_def wfStatement_def wfPolicy_def wfBlock_def wfRules_def samples)


end
