(* ===== verification/UnpackLaws.thy ===== *)
theory UnpackLaws imports Unpack "HOL-Library.Multiset" begin

text \<open>
  What unpacking guarantees for every payload and every set of disclosures: it returns, no digest
  occurs twice, and every disclosure is referenced (RFC 9901, section 7.1, steps 4 and 5).
\<close>

section \<open>The digests of a value\<close>

text \<open>The digests a value holds, in its \<open>_sd\<close> arrays and its array placeholders.\<close>

function digestsOf :: "json \<Rightarrow> string list" where
  "digestsOf (JArr xs) = concat (map (\<lambda>x. case arrayItem x of
       Placeholder h \<Rightarrow> [h] | Nested \<Rightarrow> digestsOf x | _ \<Rightarrow> []) xs)"
| "digestsOf (JObj kvs) =
     concat (map (\<lambda>p. if fst p \<noteq> SD_DIGEST \<and> fst p \<noteq> SD_LIST_KEY \<and> typeofObject (snd p)
                      then digestsOf (snd p) else []) kvs)
     @ (case sdDigests kvs of Inl e \<Rightarrow> [] | Inr hs \<Rightarrow> hs)"
| "digestsOf JUndefined = []"
| "digestsOf JNull = []"
| "digestsOf (JBool b) = []"
| "digestsOf (JNum q) = []"
| "digestsOf (JStr s) = []"
| "digestsOf (JBuiltin k) = []"
  by pat_completeness auto

termination
  by (relation "measure size") (auto simp: termination_simp size_prod_snd)

definition valueDigests :: "dmap \<Rightarrow> string \<Rightarrow> string list" where
  "valueDigests m h = (case map_of m h of None \<Rightarrow> [] | Some d \<Rightarrow> digestsOf (cloneValue (d_value d)))"

definition fieldDigests :: "fields \<Rightarrow> string list" where
  "fieldDigests kvs = concat (map (\<lambda>p. if fst p \<noteq> SD_DIGEST \<and> fst p \<noteq> SD_LIST_KEY \<and> typeofObject (snd p)
                      then digestsOf (snd p) else []) kvs)"

definition itemDigests :: "json \<Rightarrow> string list" where
  "itemDigests x = (case arrayItem x of Placeholder h \<Rightarrow> [h] | Nested \<Rightarrow> digestsOf x | _ \<Rightarrow> [])"

lemma digestsOf_folded:
  "digestsOf (JArr xs) = concat (map itemDigests xs)"
  "digestsOf (JObj kvs) = fieldDigests kvs @ (case sdDigests kvs of Inl e \<Rightarrow> [] | Inr hs \<Rightarrow> hs)"
  by (simp_all add: itemDigests_def [abs_def] fieldDigests_def del: sdDigests.simps)

text \<open>
  \<open>accounts m seen ds seen'\<close>: the digests added to \<open>seen\<close> are new and pairwise different, and they are
  the digests \<open>ds\<close> together with those in the values of the disclosures they refer to.
\<close>

definition accounts :: "dmap \<Rightarrow> string list \<Rightarrow> string list \<Rightarrow> string list \<Rightarrow> bool" where
  "accounts m seen ds seen' = (\<exists>new. seen' = new @ seen \<and> distinct new \<and> set new \<inter> set seen = {}
     \<and> mset new = mset ds + mset (concat (map (valueDigests m) new)))"

lemma accounts_refl [intro]: "accounts m seen [] seen"
  by (simp add: accounts_def)

lemma accounts_trans:
  assumes "accounts m s1 ds s2" "accounts m s2 es s3"
  shows "accounts m s1 (ds @ es) s3"
proof -
  obtain a b where "s2 = a @ s1" "s3 = b @ s2" "distinct a" "distinct b"
    "set a \<inter> set s1 = {}" "set b \<inter> set s2 = {}"
    "mset a = mset ds + mset (concat (map (valueDigests m) a))"
    "mset b = mset es + mset (concat (map (valueDigests m) b))"
    using assms by (auto simp: accounts_def)
  then show ?thesis
    unfolding accounts_def by (intro exI [of _ "b @ a"]) (auto simp: ac_simps)
qed

lemma accounts_none: "h \<notin> set seen \<Longrightarrow> map_of m h = None \<Longrightarrow> accounts m seen [h] (h # seen)"
  unfolding accounts_def by (intro exI [of _ "[h]"]) (auto simp: valueDigests_def)

lemma accounts_used:
  assumes "h \<notin> set seen" "accounts m (h # seen) (valueDigests m h) s'"
  shows "accounts m seen [h] s'"
proof -
  obtain a where "s' = a @ h # seen" "distinct a" "set a \<inter> set (h # seen) = {}"
    "mset a = mset (valueDigests m h) + mset (concat (map (valueDigests m) a))"
    using assms by (auto simp: accounts_def)
  then show ?thesis
    using assms(1) unfolding accounts_def by (intro exI [of _ "a @ [h]"]) (auto simp: ac_simps)
qed

lemma sdDigests_cong: "map_of kvs SD_DIGEST = map_of lws SD_DIGEST \<Longrightarrow> sdDigests kvs = sdDigests lws"
  by simp

lemma unpackFields_keys:
  "unpackFields m n pre kvs keys seen = Inr (kvs', keys', seen') \<Longrightarrow>
   map fst kvs' = map fst kvs \<and> map_of kvs' SD_DIGEST = map_of kvs SD_DIGEST"
proof (induction kvs arbitrary: kvs' keys seen)
  case (Cons p kvs)
  then show ?case by (cases p) (auto split: if_splits)
qed simp

lemma getDisc_value:
  "getDisc m h = Some (k, v) \<Longrightarrow> valueDigests m h = digestsOf (cloneValue v)"
  by (auto simp: getDisc_def valueDigests_def cloneValue_def split: option.splits if_splits)

lemma unpack_accounts:
  shows "unpackVal m n pre v seen = Inr (w, ks, s') \<Longrightarrow> accounts m seen (digestsOf v) s'"
    and "unpackArr m n pre idx xs acc keys seen = Inr (ys, ks, s') \<Longrightarrow>
      accounts m seen (concat (map itemDigests xs)) s'"
    and "unpackFields m n pre kvs keys seen = Inr (kvs', ks, s') \<Longrightarrow> accounts m seen (fieldDigests kvs) s'"
    and "unpackSd m n pre pl cl hs keys seen = Inr (cl', ks, s') \<Longrightarrow> accounts m seen hs s'"
proof (induction m n pre v seen and m n pre idx xs acc keys seen and m n pre kvs keys seen
    and m n pre pl cl hs keys seen
    arbitrary: w ks s' and ys ks s' and kvs' ks s' and cl' ks s'
    rule: unpackVal_unpackArr_unpackFields_unpackSd.induct)
  case (2 m n pre kvs seen)
  from "2.prems" obtain kvs' k1 s1 hs where f: "unpackFields m n pre kvs [] seen = Inr (kvs', k1, s1)"
    and hs: "sdDigests kvs' = Inr hs"
    and sd: "\<exists>cl k. unpackSd m n pre (without SD_DIGEST kvs') [] hs k1 s1 = Inr (cl, k, s')"
    by (auto simp: Let_def simp del: sdDigests.simps)
  have "accounts m seen (fieldDigests kvs) s1" using "2.IH"(1) f by blast
  moreover have "accounts m s1 hs s'" using "2.IH"(2) [OF f refl refl refl hs] sd by auto
  moreover have "sdDigests kvs = Inr hs" using hs sdDigests_cong unpackFields_keys [OF f] by metis
  ultimately show ?case using accounts_trans by (simp add: digestsOf_folded del: sdDigests.simps digestsOf.simps)
next
  case (1 m n pre xs seen)
  then show ?case by (auto simp: digestsOf_folded simp del: digestsOf.simps)
next
  case (5 m n pre idx item items acc keys seen)
  note IH = "5.IH" and prem = "5.prems"
  show ?case
  proof (cases "arrayItem item")
    case Plain
    then show ?thesis using IH(1) prem by (simp add: itemDigests_def)
  next
    case Nested
    then obtain v k1 s1 where v: "unpackVal m n (joinPath pre (natText idx)) item seen = Inr (v, k1, s1)"
      and r: "unpackArr m n pre (Suc idx) items (acc @ [v]) (assignProps keys k1) s1 = Inr (ys, ks, s')"
      using prem by auto
    show ?thesis
      using accounts_trans [OF IH(2) [OF refl Nested v] IH(3) [OF refl Nested v refl refl r]] Nested
      by (simp add: itemDigests_def)
  next
    case (Placeholder h)
    then have h: "h \<notin> set seen" using prem by (auto split: if_splits)
    show ?thesis
    proof (cases "getDisc m h")
      case None
      then have "accounts m seen [h] (h # seen)"
        using h by (intro accounts_none) (auto simp: getDisc_def split: option.splits)
      moreover have "unpackArr m n pre (Suc idx) items acc keys (h # seen) = Inr (ys, ks, s')"
        using prem Placeholder h None by simp
      ultimately have "accounts m seen ([h] @ concat (map itemDigests items)) s'"
        using IH(4) [OF refl Placeholder h None] by (intro accounts_trans)
      then show ?thesis using Placeholder by (simp add: itemDigests_def [of item])
    next
      case (Some kv)
      obtain k v where kv: "kv = (k, v)" by (cases kv)
      then have d: "getDisc m h = Some (k, v)" using Some by simp
      then have n: "k = None" "n \<noteq> 0" using prem Placeholder h kv by (auto simp: Let_def split: if_splits)
      obtain v' k1 s1 where v: "unpackVal m (n - 1) (joinPath pre (natText idx)) (cloneValue v) (h # seen)
            = Inr (v', k1, s1)"
        and r: "unpackArr m n pre (Suc idx) items (acc @ [v'])
            (assignProps (setProp (joinPath pre (natText idx)) h keys) k1) s1 = Inr (ys, ks, s')"
        using prem Placeholder h d n by (auto simp: Let_def)
      have "accounts m seen [h] s1"
        using accounts_used [OF h] IH(5) [OF refl Placeholder h Some] v n kv getDisc_value [OF d] by simp
      moreover have "accounts m s1 (concat (map itemDigests items)) s'"
        using IH(6) [OF refl Placeholder h Some] v r n kv by simp
      ultimately have "accounts m seen ([h] @ concat (map itemDigests items)) s'" by (rule accounts_trans)
      then show ?thesis using Placeholder by (simp add: itemDigests_def [of item])
    qed
  next
    case BadPlaceholder
    then show ?thesis using prem by simp
  qed
next
  case (7 m n pre k v kvs keys seen)
  note IH = "7.IH" and prem = "7.prems"
  have a: "\<not> (pre \<noteq> [] \<and> k = ''_sd_alg'')" using prem by auto
  show ?case
  proof (cases "k \<noteq> SD_DIGEST \<and> k \<noteq> SD_LIST_KEY \<and> typeofObject v")
    case True
    then obtain v' k1 s1 where v: "unpackVal m n (joinPath pre (encodePathSegment k)) v seen = Inr (v', k1, s1)"
      and r: "\<exists>kvs'. unpackFields m n pre kvs (assignProps keys k1) s1 = Inr (kvs', ks, s')"
      using prem a by auto
    then show ?thesis
      using accounts_trans [OF IH(1) [OF a True v]] IH(2) [OF a True v refl refl] True
      by (auto simp: fieldDigests_def)
  next
    case False
    then have f: "fieldDigests ((k, v) # kvs) = fieldDigests kvs" by (auto simp: fieldDigests_def)
    obtain kvs2 where "unpackFields m n pre kvs keys seen = Inr (kvs2, ks, s')"
      using prem a False by auto
    from IH(3) [OF a False this] f show ?thesis by simp
  qed
next
  case (9 m n pre pl cl h hs keys seen)
  note IH = "9.IH" and prem = "9.prems"
  have h: "h \<notin> set seen" using prem by (auto split: if_splits)
  show ?case
  proof (cases "getDisc m h")
    case None
    then have "accounts m seen [h] (h # seen)"
      using h by (intro accounts_none) (auto simp: getDisc_def split: option.splits)
    moreover have "unpackSd m n pre pl cl hs keys (h # seen) = Inr (cl', ks, s')"
      using prem h None by simp
    ultimately have "accounts m seen ([h] @ hs) s'" using IH(1) [OF h None] by (intro accounts_trans)
    then show ?thesis by simp
  next
    case (Some kv)
    obtain key v where kv: "kv = (key, v)" by (cases kv)
    then have d: "getDisc m h = Some (key, v)" using Some by simp
    obtain k where k: "key = Some k" using prem h d by (auto split: if_splits)
    have c: "\<not> inObj k pl" "\<not> inObj k cl" "n \<noteq> 0" using prem h d k by (auto simp: Let_def split: if_splits)
    obtain v' k1 s1 where v: "unpackVal m (n - 1) (joinPath pre (encodePathSegment k)) (cloneValue v) (h # seen)
          = Inr (v', k1, s1)"
      and r: "unpackSd m n pre pl (setProp k v' cl) hs
          (assignProps (setProp (joinPath pre (encodePathSegment k)) h keys) k1) s1 = Inr (cl', ks, s')"
      using prem h d k c by (auto simp: Let_def)
    have "accounts m seen [h] s1"
      using accounts_used [OF h] IH(2) [OF h Some] v c k kv getDisc_value [OF d] by simp
    moreover have "accounts m s1 hs s'"
      using IH(3) [OF h Some] v r c k kv by simp
    ultimately have "accounts m seen ([h] @ hs) s'" by (rule accounts_trans)
    then show ?thesis by simp
  qed
qed (simp_all add: accounts_refl fieldDigests_def)

section \<open>Termination\<close>

definition unseen :: "dmap \<Rightarrow> string list \<Rightarrow> nat" where
  "unseen m seen = card (fst ` set m - set seen)"

lemma unseen_accounts: "accounts m seen ds s' \<Longrightarrow> unseen m s' \<le> unseen m seen"
  unfolding unseen_def accounts_def by (intro card_mono) auto

lemma unseen_Cons: "unseen m (h # seen) \<le> unseen m seen"
  unfolding unseen_def by (intro card_mono) auto

lemma unseen_used:
  assumes "map_of m h = Some d" "h \<notin> set seen"
  shows "unseen m (h # seen) < unseen m seen"
proof -
  have "h \<in> fst ` set m - set seen" using assms by (metis DiffI map_of_SomeD fst_conv image_eqI)
  moreover have "fst ` set m - set (h # seen) = (fst ` set m - set seen) - {h}" by auto
  ultimately show ?thesis unfolding unseen_def by (metis List.finite_set card_Diff1_less finite_Diff finite_imageI)
qed

text \<open>Following a digest either uses up a disclosure or, for an inherited property, ends at once.\<close>

lemma follow_fuel:
  assumes "getDisc m h = Some (k, v)" "h \<notin> set seen" "unseen m seen < n"
    and "unseen m (h # seen) < n - 1 \<Longrightarrow> unpackVal m (n - 1) here (cloneValue v) (h # seen) \<noteq> Inl OutOfFuel"
  shows "n \<noteq> 0 \<and> unpackVal m (n - 1) here (cloneValue v) (h # seen) \<noteq> Inl OutOfFuel"
proof (cases "map_of m h")
  case None
  then have "v = JUndefined" using assms(1) by (auto simp: getDisc_def split: if_splits)
  then show ?thesis using assms(3) by (simp add: cloneValue_def)
next
  case (Some d)
  then show ?thesis using unseen_used [OF Some assms(2)] assms(3,4) by simp
qed

lemma not_outOfFuel_bind:
  "m \<noteq> Inl OutOfFuel \<Longrightarrow> (\<And>x. m = Inr x \<Longrightarrow> k x \<noteq> Inl OutOfFuel) \<Longrightarrow> bindR m k \<noteq> Inl OutOfFuel"
  by (auto simp: bindR_eq_Inl)

lemma unpack_fuel:
  shows "unseen m seen < n \<Longrightarrow> unpackVal m n pre v seen \<noteq> Inl OutOfFuel"
    and "unseen m seen < n \<Longrightarrow> unpackArr m n pre idx xs acc keys seen \<noteq> Inl OutOfFuel"
    and "unseen m seen < n \<Longrightarrow> unpackFields m n pre kvs keys seen \<noteq> Inl OutOfFuel"
    and "unseen m seen < n \<Longrightarrow> unpackSd m n pre pl cl hs keys seen \<noteq> Inl OutOfFuel"
proof (induction m n pre v seen and m n pre idx xs acc keys seen and m n pre kvs keys seen
    and m n pre pl cl hs keys seen
    rule: unpackVal_unpackArr_unpackFields_unpackSd.induct)
  case (1 m n pre xs seen)
  then show ?case by (auto simp: bindR_eq_Inl)
next
  case (2 m n pre kvs seen)
  have a: "unpackFields m n pre kvs [] seen \<noteq> Inl OutOfFuel" using 2 by blast
  have b: "unpackSd m n pre (without SD_DIGEST kvs') [] hs k1 s1 \<noteq> Inl OutOfFuel"
    if "unpackFields m n pre kvs [] seen = Inr (kvs', k1, s1)" "sdDigests kvs' = Inr hs" for kvs' k1 s1 hs
    using "2.IH"(2) [OF that(1) refl refl refl that(2)] "2.prems"
      unseen_accounts [OF unpack_accounts(3) [OF that(1)]] by simp
  have c: "sdDigests kvs' \<noteq> Inl OutOfFuel" for kvs' by (auto split: option.splits)
  show ?case using a b c by (auto simp: bindR_eq_Inl Let_def simp del: sdDigests.simps)
next
  case (5 m n pre idx item items acc keys seen)
  note IH = "5.IH" and prem = "5.prems"
  let ?here = "joinPath pre (natText idx)"
  show ?case
  proof (cases "arrayItem item")
    case Plain
    then show ?thesis using IH(1) prem by simp
  next
    case Nested
    have "unpackVal m n ?here item seen \<noteq> Inl OutOfFuel" using IH(2) [OF refl Nested prem] .
    moreover have "unpackArr m n pre (Suc idx) items (acc @ [v]) (assignProps keys k1) s1 \<noteq> Inl OutOfFuel"
      if "unpackVal m n ?here item seen = Inr (v, k1, s1)" for v k1 s1
      using IH(3) [OF refl Nested that refl refl] prem unseen_accounts [OF unpack_accounts(1) [OF that]] by simp
    ultimately show ?thesis using Nested by (auto simp: bindR_eq_Inl Let_def)
  next
    case (Placeholder h)
    show ?thesis
    proof (cases "h \<in> set seen")
      case True
      then show ?thesis using Placeholder by simp
    next
      case h: False
      show ?thesis
      proof (cases "getDisc m h")
        case None
        have "unpackArr m n pre (Suc idx) items acc keys (h # seen) \<noteq> Inl OutOfFuel"
          using IH(4) [OF refl Placeholder h None] prem unseen_Cons [of m h seen] by simp
        then show ?thesis using Placeholder h None by simp
      next
        case (Some kv)
        obtain k v where kv: "kv = (k, v)" by (cases kv)
        then have d: "getDisc m h = Some (k, v)" using Some by simp
        show ?thesis
        proof (cases k)
          case None
          have v: "n \<noteq> 0 \<and> unpackVal m (n - 1) ?here (cloneValue v) (h # seen) \<noteq> Inl OutOfFuel"
            by (rule follow_fuel [OF d h prem])
              (use IH(5) [OF refl Placeholder h Some] kv None prem in \<open>auto\<close>)
          have r: "unpackArr m n pre (Suc idx) items (acc @ [v']) (assignProps (setProp ?here h keys) k1) s1
              \<noteq> Inl OutOfFuel"
            if "unpackVal m (n - 1) ?here (cloneValue v) (h # seen) = Inr (v', k1, s1)" for v' k1 s1
            using IH(6) [OF refl Placeholder h Some] kv None prem that v unseen_Cons [of m h seen]
              unseen_accounts [OF unpack_accounts(1) [OF that]] by simp
          show ?thesis using Placeholder h d None v r by (auto simp: bindR_eq_Inl Let_def)
        qed (use Placeholder h d in \<open>simp add: Let_def\<close>)
      qed
    qed
  qed simp
next
  case (7 m n pre k v kvs keys seen)
  note IH = "7.IH" and prem = "7.prems"
  show ?case
  proof (cases "pre \<noteq> [] \<and> k = ''_sd_alg''")
    case a: False
    show ?thesis
    proof (cases "k \<noteq> SD_DIGEST \<and> k \<noteq> SD_LIST_KEY \<and> typeofObject v")
      case True
      have "unpackVal m n (joinPath pre (encodePathSegment k)) v seen \<noteq> Inl OutOfFuel"
        using IH(1) [OF a True prem] .
      moreover have "unpackFields m n pre kvs (assignProps keys k1) s1 \<noteq> Inl OutOfFuel"
        if "unpackVal m n (joinPath pre (encodePathSegment k)) v seen = Inr (v', k1, s1)" for v' k1 s1
        using IH(2) [OF a True that refl refl] prem unseen_accounts [OF unpack_accounts(1) [OF that]] by simp
      ultimately show ?thesis using a True by (auto simp: bindR_eq_Inl)
    next
      case False
      then show ?thesis using IH(3) [OF a False prem] a by (auto simp: bindR_eq_Inl)
    qed
  qed auto
next
  case (9 m n pre pl cl h hs keys seen)
  note IH = "9.IH" and prem = "9.prems"
  show ?case
  proof (cases "h \<in> set seen")
    case h: False
    show ?thesis
    proof (cases "getDisc m h")
      case None
      then show ?thesis using IH(1) [OF h None] prem unseen_Cons [of m h seen] h by simp
    next
      case (Some kv)
      obtain key v where kv: "kv = (key, v)" by (cases kv)
      then have d: "getDisc m h = Some (key, v)" using Some by simp
      show ?thesis
      proof (cases key)
        case k: (Some k)
        let ?here = "joinPath pre (encodePathSegment k)"
        show ?thesis
        proof (cases "inObj k pl \<or> inObj k cl")
          case c: False
          have v: "n \<noteq> 0 \<and> unpackVal m (n - 1) ?here (cloneValue v) (h # seen) \<noteq> Inl OutOfFuel"
            by (rule follow_fuel [OF d h prem]) (use IH(2) [OF h Some] kv k c prem in \<open>auto\<close>)
          have r: "unpackSd m n pre pl (setProp k v' cl) hs (assignProps (setProp ?here h keys) k1) s1
              \<noteq> Inl OutOfFuel"
            if "unpackVal m (n - 1) ?here (cloneValue v) (h # seen) = Inr (v', k1, s1)" for v' k1 s1
            using IH(3) [OF h Some] kv k c prem that v unseen_Cons [of m h seen]
              unseen_accounts [OF unpack_accounts(1) [OF that]] by simp
          show ?thesis using h d k c v r by (auto simp: bindR_eq_Inl Let_def)
        qed (use h d k in \<open>auto simp: Let_def\<close>)
      qed (use h d in simp)
    qed
  qed simp
qed simp_all

text \<open>
  Unpacking returns for every payload and every digest map, also when the values of disclosures
  refer to each other in a cycle: the bound on nesting is never reached, because no digest is
  followed twice.
\<close>

theorem unpackObj_returns: "unpackObj obj m \<noteq> Inl OutOfFuel"
proof -
  have "unseen m [] < Suc (length m)"
    unfolding unseen_def using card_image_le [of "set m" fst] card_length [of m] by simp
  from unpack_fuel(1) [OF this] show ?thesis by (auto simp: unpackObj_def bindR_eq_Inl)
qed

text \<open>
  C5. A payload that is accepted references every disclosure and repeats no digest: all the digests in
  the payload and in the values of the disclosures are pairwise different, and the digest of each
  disclosure is one of them.
\<close>

theorem unpackObj_digests:
  assumes "unpackObj obj m = Inr (v, keys)" and "distinct (map fst m)"
  shows "distinct (digestsOf (jclone obj) @ concat (map (\<lambda>(h, d). digestsOf (cloneValue (d_value d))) m))
    \<and> fst ` set m \<subseteq> set (digestsOf (jclone obj) @ concat (map (\<lambda>(h, d). digestsOf (cloneValue (d_value d))) m))"
proof -
  obtain seen where u: "unpackVal m (Suc (length m)) [] (jclone obj) [] = Inr (v, keys, seen)"
    and all: "fst ` set m \<subseteq> set seen"
    using assms(1) by (auto simp: unpackObj_def filter_empty_conv split: if_splits)
  have d: "distinct seen" and ms: "mset seen = mset (digestsOf (jclone obj)) + mset (concat (map (valueDigests m) seen))"
    using unpack_accounts(1) [OF u] by (auto simp: accounts_def)
  have "mset (concat (map (valueDigests m) seen)) = (\<Sum>h\<in>set seen. mset (valueDigests m h))"
    using d by (simp add: mset_concat sum_list_distinct_conv_sum_set comp_def)
  also have "\<dots> = (\<Sum>h\<in>fst ` set m. mset (valueDigests m h))"
    using all by (intro sum.mono_neutral_right) (auto simp: valueDigests_def simp flip: map_of_eq_None_iff)
  also have "\<dots> = mset (concat (map (\<lambda>h. valueDigests m h) (map fst m)))"
    using assms(2) sum_list_distinct_conv_sum_set [of "map fst m" "\<lambda>h. mset (valueDigests m h)"]
    by (simp add: mset_concat comp_def)
  also have "map (\<lambda>h. valueDigests m h) (map fst m) = map (\<lambda>(h, d). digestsOf (cloneValue (d_value d))) m"
    using assms(2) by (auto simp: valueDigests_def)
  finally have "mset seen = mset (digestsOf (jclone obj) @ concat (map (\<lambda>(h, d). digestsOf (cloneValue (d_value d))) m))"
    using ms by simp
  then show ?thesis using d all mset_eq_imp_distinct_iff mset_eq_setD by blast
qed

definition sampleDisclosure :: "string \<Rightarrow> string option \<Rightarrow> json \<Rightarrow> disclosure" where
  "sampleDisclosure g k v = \<lparr>d_salt = ''s'', d_key = k, d_value = v, d_digest = Some g, d_encoded = Some ''e''\<rparr>"

theorem unpackObj_digests_witness:
  "distinct [''h2'', ''h1'', ''h3'']
   \<and> unpackObj (JObj [(''a'', JArr [JObj [(''...'', JStr ''h2'')]]), (''_sd'', JArr [JStr ''h1''])])
       [(''h1'', sampleDisclosure ''h1'' (Some ''k'') (JObj [(''_sd'', JArr [JStr ''h3''])])),
        (''h2'', sampleDisclosure ''h2'' None JNull)]
     = Inr (JObj [(''a'', JArr [JNull]), (''k'', JObj [])], [(''a.0'', ''h2''), (''k'', ''h1'')])"
  (is "_ \<and> unpackObj ?o ?m = _")
proof -
  have u: "unpackObj ?o ?m
     = Inr (JObj [(''a'', JArr [JNull]), (''k'', JObj [])], [(''a.0'', ''h2''), (''k'', ''h1'')])"
    by code_simp
  have d: "digestsOf (jclone ?o) @ concat (map (\<lambda>(h, d). digestsOf (cloneValue (d_value d))) ?m)
      = [''h2'', ''h1'', ''h3'']"
    by code_simp
  show ?thesis using unpackObj_digests [OF u] u unfolding d by simp
qed

end
