(* ===== verification/PackLaws.thy ===== *)
theory PackLaws imports Pack UnpackLaws begin

text \<open>
  Unpacking inverts packing: what \<open>pack\<close> returns for a payload and a disclosure frame, given back with
  all its disclosures, is unpacked to the payload. The proof follows how values are packed:
  \<open>good m v c N\<close> says that with the digest map \<open>m\<close> the packed value \<open>v\<close> unpacks to the claim \<open>c\<close> and
  that \<open>N\<close> is the set of digests this uses up.
\<close>

section \<open>Claims and frames\<close>

text \<open>
  Claims that can be packed under any frame: JSON values without the names SD-JWT reserves, the empty
  name and the names of inherited properties. A frame fits the claims when its children stand for
  claims that are objects or arrays.
\<close>

definition reservedKeys :: "string list" where
  "reservedKeys = [SD_DIGEST, SD_LIST_KEY, ''_sd_alg'', SD_DECOY, []] @ protoKeys"

fun plainClaims :: "json \<Rightarrow> bool" where
  "plainClaims (JArr xs) = list_all plainClaims xs"
| "plainClaims (JObj kvs) = (distinct (map fst kvs)
     \<and> list_all (\<lambda>p. fst p \<notin> set reservedKeys \<and> plainClaims (snd p)) kvs)"
| "plainClaims JUndefined = False"
| "plainClaims (JBuiltin k) = False"
| "plainClaims v = True"

fun isNum :: "json \<Rightarrow> bool" where
  "isNum (JNum q) = True"
| "isNum v = False"

fun frameFits :: "json \<Rightarrow> json \<Rightarrow> bool" where
  "frameFits (JObj fkvs) claims = (distinct (map fst fkvs) \<and> (case claims of
       JObj kvs \<Rightarrow> list_all (\<lambda>kf. fst kf = SD_DIGEST \<or> (fst kf = SD_DECOY \<and> isNum (snd kf))
          \<or> (case map_of kvs (fst kf) of None \<Rightarrow> False | Some c \<Rightarrow> frameFits (snd kf) c)) fkvs
     | JArr xs \<Rightarrow> list_all (\<lambda>kf. fst kf = SD_DIGEST \<or> (fst kf = SD_DECOY \<and> isNum (snd kf))
          \<or> list_ex (\<lambda>i. fst kf = natText i \<and> frameFits (snd kf) (xs ! i)) [0..<length xs]) fkvs
     | _ \<Rightarrow> False))"
| "frameFits frame claims = (\<not> truthy frame)"

section \<open>Values that unpack to a claim\<close>

fun shape :: "json \<Rightarrow> itemKind" where
  "shape (JArr xs) = Nested"
| "shape (JObj kvs) = Nested"
| "shape v = Plain"

definition good :: "dmap \<Rightarrow> json \<Rightarrow> json \<Rightarrow> string set \<Rightarrow> bool" where
  "good m v c N = (isJson v \<and> arrayItem v = shape v \<and> finite N
     \<and> (\<forall>n pre seen. card (N \<inter> fst ` set m) \<le> n \<longrightarrow> N \<inter> set seen = {} \<longrightarrow>
          (\<exists>w ks s'. unpackVal m n pre v seen = Inr (w, ks, s') \<and> sameJson w c \<and> set s' = set seen \<union> N)))"

lemma goodD:
  assumes "good m v c N" "card (N \<inter> fst ` set m) \<le> n" "N \<inter> set seen = {}"
  obtains w ks s' where "unpackVal m n pre v seen = Inr (w, ks, s')" "sameJson w c" "set s' = set seen \<union> N"
  using assms unfolding good_def by blast

lemma good_facts: "good m v c N \<Longrightarrow> isJson v \<and> arrayItem v = shape v \<and> finite N"
  by (simp add: good_def)

lemma card_mono_keys: "A \<subseteq> B \<Longrightarrow> card (B \<inter> fst ` set m) \<le> n \<Longrightarrow> card (A \<inter> fst ` set m) \<le> n"
  by (meson List.finite_set card_mono finite_Int finite_imageI Int_mono order_refl order_trans)

lemma unpackVal_primitive: "shape v = Plain \<Longrightarrow> unpackVal m n pre v seen = Inr (v, [], seen)"
  by (cases v) auto

lemma good_primitive: "good m v c N \<Longrightarrow> shape v = Plain \<Longrightarrow> sameJson v c \<and> N = {}"
  unfolding good_def
  by (elim conjE allE [of _ "card (N \<inter> fst ` set m)"] allE [of _ "[]"]) (simp add: unpackVal_primitive)

lemma typeofObject_shape: "isJson v \<Longrightarrow> typeofObject v = (v = JNull \<or> shape v = Nested)"
  by (cases v) auto

section \<open>Claims that are not packed\<close>

lemma plain_isJson: "plainClaims v \<Longrightarrow> isJson v"
  by (induction v rule: plainClaims.induct) (auto simp: list_all_iff)

lemma reserved_names: "k \<notin> set reservedKeys \<Longrightarrow>
  k \<noteq> SD_DIGEST \<and> k \<noteq> SD_LIST_KEY \<and> k \<noteq> ''_sd_alg'' \<and> k \<noteq> SD_DECOY \<and> k \<noteq> [] \<and> k \<notin> set protoKeys \<and> k \<noteq> ''__proto__''"
  by (auto simp: reservedKeys_def protoKeys_def)

lemma plain_shape: "plainClaims v \<Longrightarrow> arrayItem v = shape v"
proof (cases v)
  case (JObj kvs)
  assume "plainClaims v"
  then have "SD_LIST_KEY \<notin> fst ` set kvs" using JObj by (auto simp: list_all_iff reservedKeys_def)
  then show ?thesis using JObj by (simp add: map_of_eq_None_iff [THEN iffD2] split: option.splits)
qed auto

lemma unpackArr_plain:
  "(\<And>x here. x \<in> set xs \<Longrightarrow> arrayItem x = shape x \<and> unpackVal m n here x seen = Inr (x, [], seen)) \<Longrightarrow>
   unpackArr m n pre idx xs acc keys seen = Inr (acc @ xs, keys, seen)"
proof (induction xs arbitrary: idx acc)
  case (Cons x xs)
  then have x: "arrayItem x = shape x" "\<And>here. unpackVal m n here x seen = Inr (x, [], seen)" by auto
  show ?case
  proof (cases "shape x")
    case Plain
    then show ?thesis using x Cons by simp
  next
    case Nested
    then show ?thesis using x Cons by (simp add: Let_def)
  qed (cases x; simp)+
qed simp

lemma unpackFields_plain:
  "(\<And>k v here. (k, v) \<in> set kvs \<Longrightarrow> k \<noteq> ''_sd_alg'' \<and> unpackVal m n here v seen = Inr (v, [], seen)) \<Longrightarrow>
   unpackFields m n pre kvs keys seen = Inr (kvs, keys, seen)"
proof (induction kvs)
  case (Cons p kvs)
  obtain k v where p: "p = (k, v)" by (cases p)
  then have "k \<noteq> ''_sd_alg''" "\<And>here. unpackVal m n here v seen = Inr (v, [], seen)" using Cons.prems by auto
  moreover have "unpackFields m n pre kvs keys seen = Inr (kvs, keys, seen)"
    by (rule Cons.IH) (use Cons.prems in auto)
  ultimately show ?case using p by simp
qed simp

lemma unpackVal_plain: "plainClaims v \<Longrightarrow> unpackVal m n pre v seen = Inr (v, [], seen)"
proof (induction v arbitrary: pre rule: plainClaims.induct)
  case (1 xs)
  then have "unpackArr m n pre 0 xs [] [] seen = Inr ([] @ xs, [], seen)"
    using plain_shape by (intro unpackArr_plain) (auto simp: list_all_iff)
  then show ?case by simp
next
  case (2 kvs)
  have "unpackFields m n pre kvs [] seen = Inr (kvs, [], seen)"
    using 2 by (intro unpackFields_plain) (auto simp: list_all_iff reservedKeys_def)
  moreover have "SD_DIGEST \<notin> fst ` set kvs"
    using 2 by (auto simp: list_all_iff reservedKeys_def)
  ultimately show ?case by (simp add: without_absent map_of_eq_None_iff [THEN iffD2])
qed auto

lemma good_plain: "plainClaims c \<Longrightarrow> good m c c {}"
  unfolding good_def using plain_isJson plain_shape unpackVal_plain sameJson_refl by auto

section \<open>Objects\<close>

text \<open>
  The claims of an object are \<open>C k\<close> for its keys \<open>k\<close>, and \<open>N k\<close> are the digests the packed value of
  \<open>k\<close> holds; those of different keys are disjoint.
\<close>

lemma unpackFields_good:
  assumes "distinct (map fst fs)"
    and "\<And>k v. (k, v) \<in> set fs \<Longrightarrow> k \<noteq> SD_DIGEST \<Longrightarrow> k \<noteq> SD_LIST_KEY \<and> k \<noteq> ''_sd_alg'' \<and> good m v (C k) (N k)"
    and "N SD_DIGEST = {}"
    and "\<And>k l. k \<in> fst ` set fs \<Longrightarrow> l \<in> fst ` set fs \<Longrightarrow> k \<noteq> l \<Longrightarrow> N k \<inter> N l = {}"
    and "card ((\<Union>k\<in>fst ` set fs. N k) \<inter> fst ` set m) \<le> n"
    and "(\<Union>k\<in>fst ` set fs. N k) \<inter> set seen = {}"
  shows "\<exists>fs' ks s'. unpackFields m n pre fs keys seen = Inr (fs', ks, s')
    \<and> (\<forall>(k, w) \<in> set fs'. k \<noteq> SD_DIGEST \<longrightarrow> sameJson w (C k)) \<and> set s' = set seen \<union> (\<Union>k\<in>fst ` set fs. N k)"
  using assms
proof (induction fs arbitrary: keys seen)
  case (Cons p fs)
  obtain k v where p: "p = (k, v)" by (cases p)
  let ?U = "\<Union>k\<in>fst ` set fs. N k"
  have rest: "distinct (map fst fs)" "card (?U \<inter> fst ` set m) \<le> n" "?U \<inter> set seen = {}"
    using Cons.prems(1,6) card_mono_keys [OF _ Cons.prems(5), of ?U] by auto
  have disj: "N k \<inter> ?U = {}"
  proof -
    have "N k \<inter> N l = {}" if "l \<in> fst ` set fs" for l
      using Cons.prems(1) that p by (intro Cons.prems(4)) auto
    then show ?thesis by blast
  qed
  have IH: "\<exists>fs' ks s'. unpackFields m n pre fs keys seen = Inr (fs', ks, s')
      \<and> (\<forall>(k, w) \<in> set fs'. k \<noteq> SD_DIGEST \<longrightarrow> sameJson w (C k)) \<and> set s' = set seen \<union> ?U"
    if "?U \<inter> set seen = {}" for keys seen
  proof (rule Cons.IH [OF rest(1) _ Cons.prems(3) _ rest(2) that])
    show "k \<noteq> SD_LIST_KEY \<and> k \<noteq> ''_sd_alg'' \<and> good m v (C k) (N k)"
      if "(k, v) \<in> set fs" "k \<noteq> SD_DIGEST" for k v using Cons.prems(2) [of k v] that by simp
    show "N k \<inter> N l = {}" if "k \<in> fst ` set fs" "l \<in> fst ` set fs" "k \<noteq> l" for k l
      using Cons.prems(4) [of k l] that by simp
  qed
  show ?case
  proof (cases "k = SD_DIGEST")
    case True
    obtain fs' ks s' where "unpackFields m n pre fs keys seen = Inr (fs', ks, s')"
      "\<forall>(k, w) \<in> set fs'. k \<noteq> SD_DIGEST \<longrightarrow> sameJson w (C k)" "set s' = set seen \<union> ?U"
      using IH [OF rest(3), of keys] by blast
    then show ?thesis using True p Cons.prems(3) by (auto simp: SD_DIGEST_def)
  next
    case False
    have k: "k \<noteq> SD_LIST_KEY" "k \<noteq> ''_sd_alg''" and g: "good m v (C k) (N k)"
      using Cons.prems(2) [of k v] False p by auto
    show ?thesis
    proof (cases "typeofObject v")
      case True
      have "card (N k \<inter> fst ` set m) \<le> n" "N k \<inter> set seen = {}"
        using card_mono_keys [OF _ Cons.prems(5), of "N k"] Cons.prems(6) p by auto
      then obtain w k1 s1 where v: "unpackVal m n (joinPath pre (encodePathSegment k)) v seen = Inr (w, k1, s1)"
        "sameJson w (C k)" "set s1 = set seen \<union> N k"
        by (rule goodD [OF g])
      have "?U \<inter> set s1 = {}" using v(3) rest(3) disj by auto
      then obtain fs' ks s' where "unpackFields m n pre fs (assignProps keys k1) s1 = Inr (fs', ks, s')"
        "\<forall>(k, w) \<in> set fs'. k \<noteq> SD_DIGEST \<longrightarrow> sameJson w (C k)" "set s' = set s1 \<union> ?U"
        using IH [of s1 "assignProps keys k1"] by blast
      then show ?thesis using p k False True v by auto
    next
      case prim: False
      have "shape v = Plain" using prim good_facts [OF g] typeofObject_shape by (cases v) auto
      then have "sameJson v (C k)" "N k = {}" using good_primitive [OF g] by auto
      moreover obtain fs' ks s' where "unpackFields m n pre fs keys seen = Inr (fs', ks, s')"
        "\<forall>(k, w) \<in> set fs'. k \<noteq> SD_DIGEST \<longrightarrow> sameJson w (C k)" "set s' = set seen \<union> ?U"
        using IH [OF rest(3), of keys] by blast
      ultimately show ?thesis using p k False prim by auto
    qed
  qed
qed simp

lemma cloneValue_id: "isJson v \<Longrightarrow> cloneValue v = v"
  by (simp add: cloneValue_def jclone_id)

text \<open>
  \<open>K h\<close> is the claim a digest of the \<open>_sd\<close> array stands for, \<open>None\<close> when it is a decoy.
\<close>

definition disclosed :: "(string \<Rightarrow> string option) \<Rightarrow> string set \<Rightarrow> string set" where
  "disclosed K H = {k. \<exists>h\<in>H. K h = Some k}"

definition sdEntry :: "dmap \<Rightarrow> (string \<Rightarrow> json) \<Rightarrow> (string \<Rightarrow> string set) \<Rightarrow> (string \<Rightarrow> string option) \<Rightarrow> string \<Rightarrow> bool" where
  "sdEntry m C N K h = (case K h of
       None \<Rightarrow> getDisc m h = None
     | Some k \<Rightarrow> h \<in> fst ` set m \<and> (\<exists>v. getDisc m h = Some (Some k, v) \<and> good m v (C k) (N k)))"

lemma unpackSd_good:
  assumes "distinct hs"
    and "\<And>h. h \<in> set hs \<Longrightarrow> sdEntry m C N K h"
    and "\<And>k. k \<in> disclosed K (set hs) \<Longrightarrow> \<not> inObj k pl \<and> k \<notin> fst ` set cl \<and> N k \<inter> set hs = {}"
    and "\<And>h h' k. h \<in> set hs \<Longrightarrow> h' \<in> set hs \<Longrightarrow> K h = Some k \<Longrightarrow> K h' = Some k \<Longrightarrow> h = h'"
    and "\<And>k l. k \<in> disclosed K (set hs) \<Longrightarrow> l \<in> disclosed K (set hs) \<Longrightarrow> k \<noteq> l \<Longrightarrow> N k \<inter> N l = {}"
    and "card ((set hs \<union> (\<Union>k\<in>disclosed K (set hs). N k)) \<inter> fst ` set m) \<le> n"
    and "(set hs \<union> (\<Union>k\<in>disclosed K (set hs). N k)) \<inter> set seen = {}"
    and "distinct (map fst cl)"
  shows "\<exists>cl' ks s'. unpackSd m n pre pl cl hs keys seen = Inr (cl', ks, s') \<and> distinct (map fst cl')
    \<and> fst ` set cl' = fst ` set cl \<union> disclosed K (set hs)
    \<and> (\<forall>(k, w) \<in> set cl'. (k, w) \<in> set cl \<or> sameJson w (C k))
    \<and> set s' = set seen \<union> set hs \<union> (\<Union>k\<in>disclosed K (set hs). N k)"
  using assms
proof (induction hs arbitrary: cl keys seen)
  case Nil
  then show ?case by (auto simp: disclosed_def)
next
  case (Cons h hs)
  let ?D = "disclosed K (set hs)"
  let ?R = "set hs \<union> (\<Union>k\<in>?D. N k)"
  have sub: "?D \<subseteq> disclosed K (set (h # hs))" by (auto simp: disclosed_def)
  have h: "h \<notin> set hs" "h \<notin> set seen" using Cons.prems(1,7) by auto
  have hD: "h \<notin> N k" if "k \<in> disclosed K (set (h # hs))" for k using Cons.prems(3) [OF that] by auto
  have IH: "\<exists>cl' ks s'. unpackSd m n pre pl cl hs keys seen = Inr (cl', ks, s') \<and> distinct (map fst cl')
      \<and> fst ` set cl' = fst ` set cl \<union> ?D \<and> (\<forall>(k, w) \<in> set cl'. (k, w) \<in> set cl \<or> sameJson w (C k))
      \<and> set s' = set seen \<union> set hs \<union> (\<Union>k\<in>?D. N k)"
    if "?R \<inter> set seen = {}" "distinct (map fst cl)" "?D \<inter> fst ` set cl = {}" for cl keys seen
  proof (rule Cons.IH [OF _ _ _ _ _ _ that(1,2)])
    show "distinct hs" using Cons.prems(1) by simp
    show "sdEntry m C N K g" if "g \<in> set hs" for g using Cons.prems(2) that by simp
    show "\<not> inObj k pl \<and> k \<notin> fst ` set cl \<and> N k \<inter> set hs = {}" if "k \<in> ?D" for k
      using Cons.prems(3) [OF subsetD [OF sub that]] that \<open>?D \<inter> fst ` set cl = {}\<close> by auto
    show "g = g'" if "g \<in> set hs" "g' \<in> set hs" "K g = Some k" "K g' = Some k" for g g' k
      using Cons.prems(4) [of g g' k] that by simp
    show "N k \<inter> N l = {}" if "k \<in> ?D" "l \<in> ?D" "k \<noteq> l" for k l
      using Cons.prems(5) that sub by blast
    show "card (?R \<inter> fst ` set m) \<le> n"
      by (rule card_mono_keys [OF _ Cons.prems(6)]) (use sub in auto)
  qed
  show ?case
  proof (cases "K h")
    case None
    then have g: "getDisc m h = None" and D: "disclosed K (set (h # hs)) = ?D"
      using Cons.prems(2) [of h] by (auto simp: sdEntry_def disclosed_def)
    have a: "?R \<inter> set (h # seen) = {}" using Cons.prems(7) h(1) hD unfolding D by auto
    have b: "?D \<inter> fst ` set cl = {}" using Cons.prems(3) unfolding D by blast
    obtain cl' ks s' where r: "unpackSd m n pre pl cl hs keys (h # seen) = Inr (cl', ks, s')"
      "distinct (map fst cl')" "fst ` set cl' = fst ` set cl \<union> ?D"
      "\<forall>(l, w') \<in> set cl'. (l, w') \<in> set cl \<or> sameJson w' (C l)"
      "set s' = set (h # seen) \<union> set hs \<union> (\<Union>k\<in>?D. N k)"
      using IH [OF a Cons.prems(8) b, of keys] by (elim exE conjE) (rule that; assumption)
    have "unpackSd m n pre pl cl (h # hs) keys seen = Inr (cl', ks, s')" using h(2) g r(1) by simp
    moreover have "set s' = set seen \<union> set (h # hs) \<union> (\<Union>k\<in>?D. N k)" unfolding r(5) by auto
    ultimately show ?thesis using r(2,3,4) unfolding D by (intro exI conjI)
  next
    case (Some k)
    then obtain v where g: "getDisc m h = Some (Some k, v)" and v: "good m v (C k) (N k)" and hm: "h \<in> fst ` set m"
      using Cons.prems(2) [of h] by (auto simp: sdEntry_def)
    have D: "disclosed K (set (h # hs)) = insert k ?D" using Some by (auto simp: disclosed_def)
    have kD: "k \<notin> ?D" using Cons.prems(4) [of h _ k] Some h by (auto simp: disclosed_def)
    have k: "\<not> inObj k pl" "k \<notin> fst ` set cl" "N k \<inter> set (h # hs) = {}"
      using Cons.prems(3) [of k] D by auto
    then have proto: "k \<notin> set protoKeys" "k \<noteq> ''__proto__''" "\<not> inObj k cl"
      by (auto simp: inObj_def protoKeys_def)
    let ?A = "(set (h # hs) \<union> (\<Union>k\<in>disclosed K (set (h # hs)). N k)) \<inter> fst ` set m"
    have "N k \<inter> fst ` set m \<subseteq> ?A" unfolding D by auto
    moreover have "h \<in> ?A" using hm by simp
    moreover have "h \<notin> N k \<inter> fst ` set m" using k(3) by simp
    ultimately have "N k \<inter> fst ` set m \<subset> ?A" by (metis psubsetI)
    then have "card (N k \<inter> fst ` set m) < card ?A" by (intro psubset_card_mono) auto
    then have n: "n \<noteq> 0" "card (N k \<inter> fst ` set m) \<le> n - 1" using Cons.prems(6) by auto
    have "N k \<inter> set (h # seen) = {}" using Cons.prems(7) k(3) unfolding D by auto
    then obtain w k1 s1 where w: "unpackVal m (n - 1) (joinPath pre (encodePathSegment k)) v (h # seen) = Inr (w, k1, s1)"
      "sameJson w (C k)" "set s1 = set (h # seen) \<union> N k"
      by (rule goodD [OF v n(2)])
    have cl: "setProp k w cl = insertProp k w cl" using k proto by (simp add: setProp_def)
    have "N k \<inter> N l = {}" if "l \<in> ?D" for l
      using Cons.prems(5) [of k l] D kD that by auto
    then have "(\<Union>l\<in>?D. N l) \<inter> N k = {}" by blast
    then have a: "?R \<inter> set s1 = {}" unfolding w(3) using Cons.prems(7) h(1) hD k(3) unfolding D by auto
    have b: "distinct (map fst (setProp k w cl))"
      using k Cons.prems(8) by (simp add: cl distinct_insertProp)
    have "?D \<inter> fst ` set cl = {}" using Cons.prems(3) unfolding D by blast
    then have c: "?D \<inter> fst ` set (setProp k w cl) = {}" using kD by (auto simp: cl set_insertProp)
    obtain cl' ks s' where r: "unpackSd m n pre pl (setProp k w cl) hs
        (assignProps (setProp (joinPath pre (encodePathSegment k)) h keys) k1) s1 = Inr (cl', ks, s')"
      "distinct (map fst cl')" "fst ` set cl' = fst ` set (setProp k w cl) \<union> ?D"
      "\<forall>(l, w') \<in> set cl'. (l, w') \<in> set (setProp k w cl) \<or> sameJson w' (C l)"
      "set s' = set s1 \<union> set hs \<union> (\<Union>k\<in>?D. N k)"
      using IH [OF a b c, of "assignProps (setProp (joinPath pre (encodePathSegment k)) h keys) k1"]
      by (elim exE conjE) (rule that; assumption)
    have "unpackSd m n pre pl cl (h # hs) keys seen = Inr (cl', ks, s')"
      using h g k(1) proto(3) n(1) w(1) r(1) cloneValue_id good_facts [OF v] by (simp add: Let_def)
    moreover have "\<forall>(l, w') \<in> set cl'. (l, w') \<in> set cl \<or> sameJson w' (C l)"
      using r(4) w(2) by (auto simp: cl set_insertProp)
    moreover have "fst ` set cl' = fst ` set cl \<union> insert k ?D" using r(3) by (auto simp: cl set_insertProp)
    moreover have "set s' = set seen \<union> set (h # hs) \<union> (\<Union>k\<in>insert k ?D. N k)" using r(5) w(3) by auto
    ultimately show ?thesis using r(2) unfolding D by (intro exI conjI)
  qed
qed

lemma stringItems_map: "stringItems (map JStr hs) = Some hs"
  by (induction hs) auto

lemma keys_assignProps [json_object]:
  "''__proto__'' \<notin> fst ` set s \<Longrightarrow> fst ` set (assignProps t s) = fst ` set t \<union> fst ` set s"
proof (induction s arbitrary: t)
  case (Cons p s)
  have "assignProps t (p # s) = assignProps (setProp (fst p) (snd p) t) s" by (simp add: assignProps_def)
  moreover have "fst ` set (setProp (fst p) (snd p) t) = insert (fst p) (fst ` set t)"
    using Cons.prems by (intro keys_setProp) auto
  moreover have "''__proto__'' \<notin> fst ` set s" using Cons.prems by auto
  ultimately show ?case using Cons.IH [of "setProp (fst p) (snd p) t"] by simp
qed (simp add: assignProps_def)

text \<open>Two objects with the same keys and the same values at each of them are the same.\<close>

lemma sameJson_object:
  assumes "distinct (map fst ws)" "distinct (map fst kvs)" "fst ` set ws = fst ` set kvs"
    and "\<And>k w. (k, w) \<in> set ws \<Longrightarrow> sameJson w (the (map_of kvs k))"
  shows "sameJson (JObj ws) (JObj kvs)"
proof -
  have "length ws = length kvs" using assms(1-3) by (metis distinct_card length_map set_map)
  moreover have "case map_of kvs k of None \<Rightarrow> False | Some c \<Rightarrow> sameJson w c" if "(k, w) \<in> set ws" for k w
  proof -
    have "k \<in> fst ` set kvs" using that assms(3) by (metis fst_conv image_eqI)
    then obtain c where "map_of kvs k = Some c" by (metis map_of_eq_None_iff option.exhaust)
    then show ?thesis using assms(4) [OF that] by simp
  qed
  ultimately show ?thesis using assms(1) by auto
qed

lemma map_of_values: "distinct (map fst a) \<Longrightarrow> distinct (map fst b) \<Longrightarrow> ''__proto__'' \<notin> fst ` set b \<Longrightarrow>
  (k, w) \<in> set (assignProps a b) \<Longrightarrow> (k, w) \<in> set a \<or> (k, w) \<in> set b"
  using map_of_assignProps [of a b] distinct_assignProps [of a b]
  by (metis map_add_Some_iff map_of_SomeD map_of_eq_Some_iff)

lemma disjoint_sub: "A \<subseteq> B \<Longrightarrow> B \<inter> S = {} \<Longrightarrow> A \<inter> S = {}"
  by blast

lemma UN_disjoint: "(\<And>k l. k \<in> P \<Longrightarrow> l \<in> D \<Longrightarrow> N k \<inter> N l = {}) \<Longrightarrow> (\<Union>l\<in>D. N l) \<inter> (\<Union>k\<in>P. N k) = {}"
  by blast

lemma UN_split: "P = A - D \<Longrightarrow> D \<subseteq> A \<Longrightarrow> (\<Union>k\<in>P. N k) \<union> (\<Union>k\<in>D. N k) = (\<Union>k\<in>A. N k)"
  by blast

lemma good_object:
  assumes pl: "plainClaims (JObj kvs)"
    and dfs: "distinct (map fst fs)" and dhs: "distinct hs"
    and sdv: "map_of fs SD_DIGEST = (if hs = [] then None else Some (JArr (map JStr hs)))"
    and fld: "\<And>k v. (k, v) \<in> set fs \<Longrightarrow> k \<noteq> SD_DIGEST \<Longrightarrow> good m v (the (map_of kvs k)) (N k)"
    and ent: "\<And>h. h \<in> set hs \<Longrightarrow> sdEntry m (\<lambda>k. the (map_of kvs k)) N K h"
    and inj: "\<And>h h' k. h \<in> set hs \<Longrightarrow> h' \<in> set hs \<Longrightarrow> K h = Some k \<Longrightarrow> K h' = Some k \<Longrightarrow> h = h'"
    and keys: "fst ` set fs - {SD_DIGEST} = fst ` set kvs - disclosed K (set hs)"
    and dsub: "disclosed K (set hs) \<subseteq> fst ` set kvs"
    and disj: "\<And>k l. k \<in> fst ` set kvs \<Longrightarrow> l \<in> fst ` set kvs \<Longrightarrow> k \<noteq> l \<Longrightarrow> N k \<inter> N l = {}"
    and dishs: "\<And>k. k \<in> fst ` set kvs \<Longrightarrow> N k \<inter> set hs = {}"
    and nsd: "N SD_DIGEST = {}"
    and fin: "\<And>k. k \<in> fst ` set kvs \<Longrightarrow> finite (N k)"
  shows "good m (JObj fs) (JObj kvs) (set hs \<union> (\<Union>k\<in>fst ` set kvs. N k))"
proof -
  let ?C = "\<lambda>k. the (map_of kvs k)" and ?D = "disclosed K (set hs)"
  let ?P = "fst ` set fs - {SD_DIGEST}" and ?A = "set hs \<union> (\<Union>k\<in>fst ` set kvs. N k)"
  have dkeys: "distinct (map fst kvs)" and names: "\<And>k. k \<in> fst ` set kvs \<Longrightarrow> k \<notin> set reservedKeys"
    using pl by (auto simp: list_all_iff)
  have field: "k \<in> fst ` set kvs" if "(k, v) \<in> set fs" "k \<noteq> SD_DIGEST" for k v
  proof -
    have "k \<in> fst ` set fs - {SD_DIGEST}" using that by force
    then show ?thesis unfolding keys by simp
  qed
  have sdval: "v = JArr (map JStr hs)" if "(SD_DIGEST, v) \<in> set fs" for v
    using that sdv map_of_eq_Some_iff [OF dfs, of SD_DIGEST v] by (simp split: if_splits)
  have json: "isJson (JObj fs)"
  proof -
    have "isJson v" if "(k, v) \<in> set fs" for k v
      using that sdval [of v] good_facts [OF fld [OF that]] by (cases "k = SD_DIGEST") (auto simp: list_all_iff)
    then show ?thesis using dfs by (auto simp: list_all_iff)
  qed
  have "SD_LIST_KEY \<notin> fst ` set fs"
    using field [of SD_LIST_KEY] names [of SD_LIST_KEY] by (auto simp: reservedKeys_def SD_DIGEST_def SD_LIST_KEY_def)
  then have item: "arrayItem (JObj fs) = shape (JObj fs)"
    by (simp add: map_of_eq_None_iff [THEN iffD2])
  have unp: "\<exists>w ks s'. unpackVal m n pre (JObj fs) seen = Inr (w, ks, s') \<and> sameJson w (JObj kvs) \<and> set s' = set seen \<union> ?A"
    if n: "card (?A \<inter> fst ` set m) \<le> n" and sd: "?A \<inter> set seen = {}" for n pre seen
  proof -
    have keysU: "(\<Union>k\<in>fst ` set fs. N k) = (\<Union>k\<in>?P. N k)" using nsd by auto
    have PK: "?P \<subseteq> fst ` set kvs" "?P = fst ` set kvs - ?D" "?D \<subseteq> fst ` set kvs" using keys dsub by auto
    have sub1: "(\<Union>k\<in>fst ` set fs. N k) \<subseteq> ?A" unfolding keysU using PK(1) by blast
    have "\<exists>fs' ks s'. unpackFields m n pre fs [] seen = Inr (fs', ks, s')
      \<and> (\<forall>(k, w) \<in> set fs'. k \<noteq> SD_DIGEST \<longrightarrow> sameJson w (?C k)) \<and> set s' = set seen \<union> (\<Union>k\<in>fst ` set fs. N k)"
    proof (rule unpackFields_good)
      show "distinct (map fst fs)" "N SD_DIGEST = {}" by (rule dfs, rule nsd)
      show "k \<noteq> SD_LIST_KEY \<and> k \<noteq> ''_sd_alg'' \<and> good m v (?C k) (N k)" if "(k, v) \<in> set fs" "k \<noteq> SD_DIGEST" for k v
        using fld [OF that] reserved_names [OF names [OF field [OF that]]] by simp
      show "N k \<inter> N l = {}" if "k \<in> fst ` set fs" "l \<in> fst ` set fs" "k \<noteq> l" for k l
      proof (cases "k = SD_DIGEST \<or> l = SD_DIGEST")
        case True
        then show ?thesis using nsd by auto
      next
        case False
        then have "k \<in> fst ` set kvs" "l \<in> fst ` set kvs" using that PK(1) by auto
        then show ?thesis using that(3) by (rule disj)
      qed
      show "card ((\<Union>k\<in>fst ` set fs. N k) \<inter> fst ` set m) \<le> n" by (rule card_mono_keys [OF sub1 n])
      show "(\<Union>k\<in>fst ` set fs. N k) \<inter> set seen = {}" using sub1 sd by blast
    qed
    then obtain fs' k1 s1 where f: "unpackFields m n pre fs [] seen = Inr (fs', k1, s1)"
      and fsame: "\<forall>(k, w) \<in> set fs'. k \<noteq> SD_DIGEST \<longrightarrow> sameJson w (?C k)"
      and s1: "set s1 = set seen \<union> (\<Union>k\<in>?P. N k)"
      unfolding keysU by (elim exE conjE) (rule that; assumption)
    note fk = unpackFields_keys [OF f]
    let ?pl = "without SD_DIGEST fs'"
    have plset: "set ?pl = {q \<in> set fs'. fst q \<noteq> SD_DIGEST}" by (auto simp: without_def)
    have "fst ` set fs' = fst ` set fs" using fk by (metis set_map)
    then have plk: "fst ` set ?pl = ?P" by (simp add: keys_without)
    have pld: "distinct (map fst ?pl)" using fk dfs by (simp add: distinct_without)
    have hs: "sdDigests fs' = Inr hs"
    proof (cases "hs = []")
      case False
      then have "map_of fs' SD_DIGEST = Some (JArr (map JStr hs))" using fk sdv by simp
      then show ?thesis by (simp add: stringItems_map)
    qed (use fk sdv in simp)
    have sub2: "set hs \<union> (\<Union>k\<in>?D. N k) \<subseteq> ?A" using PK(3) by blast
    have PD: "N k \<inter> N l = {}" if "k \<in> ?P" "l \<in> ?D" for k l
    proof (rule disj)
      show "k \<in> fst ` set kvs" "l \<in> fst ` set kvs" "k \<noteq> l" using that PK by auto
    qed
    have PH: "N k \<inter> set hs = {}" if "k \<in> ?P" for k using dishs subsetD [OF PK(1) that] by simp
    have "\<exists>cl ks s'. unpackSd m n pre ?pl [] hs k1 s1 = Inr (cl, ks, s') \<and> distinct (map fst cl)
      \<and> fst ` set cl = fst ` set ([] :: fields) \<union> ?D \<and> (\<forall>(k, w) \<in> set cl. (k, w) \<in> set [] \<or> sameJson w (?C k))
      \<and> set s' = set s1 \<union> set hs \<union> (\<Union>k\<in>?D. N k)"
    proof (rule unpackSd_good)
      show "distinct hs" by (rule dhs)
      show "sdEntry m ?C N K h" if "h \<in> set hs" for h by (rule ent [OF that])
      show "\<not> inObj k ?pl \<and> k \<notin> fst ` set ([] :: fields) \<and> N k \<inter> set hs = {}" if "k \<in> ?D" for k
      proof -
        have "k \<in> fst ` set kvs" "k \<notin> ?P" using that PK(2,3) by auto
        moreover from this have "k \<notin> set protoKeys" "N k \<inter> set hs = {}"
          using reserved_names [OF names [of k]] dishs [of k] by simp_all
        ultimately show ?thesis by (simp add: inObj_def plk)
      qed
      show "h = h'" if "h \<in> set hs" "h' \<in> set hs" "K h = Some k" "K h' = Some k" for h h' k
        using that by (rule inj)
      show "N k \<inter> N l = {}" if "k \<in> ?D" "l \<in> ?D" "k \<noteq> l" for k l
        using subsetD [OF PK(3) that(1)] subsetD [OF PK(3) that(2)] that(3) by (rule disj)
      show "card ((set hs \<union> (\<Union>k\<in>?D. N k)) \<inter> fst ` set m) \<le> n" by (rule card_mono_keys [OF sub2 n])
      show "(set hs \<union> (\<Union>k\<in>?D. N k)) \<inter> set s1 = {}"
      proof -
        have a: "(\<Union>k\<in>?D. N k) \<inter> (\<Union>k\<in>?P. N k) = {}" by (rule UN_disjoint) (rule PD)
        have b: "set hs \<inter> (\<Union>k\<in>?P. N k) = {}" using PH by (simp add: Int_UN_distrib Int_commute)
        have c: "(set hs \<union> (\<Union>k\<in>?D. N k)) \<inter> set seen = {}" by (rule disjoint_sub [OF sub2 sd])
        show ?thesis unfolding s1 Int_Un_distrib Int_Un_distrib2 using a b c by (simp add: Int_Un_distrib2)
      qed
    qed simp
    then obtain cl k2 s2 where u: "unpackSd m n pre ?pl [] hs k1 s1 = Inr (cl, k2, s2)"
      and cld: "distinct (map fst cl)" and clk: "fst ` set cl = fst ` set ([] :: fields) \<union> ?D"
      and clsame: "\<forall>(k, w) \<in> set cl. (k, w) \<in> set [] \<or> sameJson w (?C k)"
      and s2: "set s2 = set s1 \<union> set hs \<union> (\<Union>k\<in>?D. N k)"
      by (elim exE conjE) (rule that; assumption)
    have proto: "''__proto__'' \<notin> fst ` set cl"
      using clk PK(3) names [of "''__proto__''"] by (auto simp: reservedKeys_def protoKeys_def)
    have "sameJson (JObj (assignProps ?pl cl)) (JObj kvs)"
    proof (rule sameJson_object)
      show "distinct (map fst (assignProps ?pl cl))" by (rule distinct_assignProps [OF pld])
      show "distinct (map fst kvs)" by (rule dkeys)
      show "fst ` set (assignProps ?pl cl) = fst ` set kvs"
        unfolding keys_assignProps [OF proto] plk clk using PK by auto
      show "sameJson w (?C k)" if "(k, w) \<in> set (assignProps ?pl cl)" for k w
        using map_of_values [OF pld cld proto that] fsame clsame by (auto simp: plset)
    qed
    moreover have "unpackVal m n pre (JObj fs) seen = Inr (JObj (assignProps ?pl cl), k2, s2)"
      using f u hs by (simp add: Let_def del: sdDigests.simps)
    moreover have "set s2 = set seen \<union> ?A"
    proof -
      have "set s2 = set seen \<union> (set hs \<union> ((\<Union>k\<in>?P. N k) \<union> (\<Union>k\<in>?D. N k)))"
        unfolding s2 s1 by (simp only: Un_ac)
      then show ?thesis unfolding UN_split [OF PK(2,3)] .
    qed
    ultimately show ?thesis by blast
  qed
  show ?thesis unfolding good_def using json item unp fin by blast
qed

section \<open>Arrays\<close>

text \<open>\<open>arrGood m vs cs N\<close>: the packed elements \<open>vs\<close>, with placeholders and decoys, stand for \<open>cs\<close>.\<close>

inductive arrGood :: "dmap \<Rightarrow> json list \<Rightarrow> json list \<Rightarrow> string set \<Rightarrow> bool" for m where
  arrGood_Nil: "arrGood m [] [] {}"
| arrGood_item: "good m v c N \<Longrightarrow> arrGood m vs cs M \<Longrightarrow> N \<inter> M = {} \<Longrightarrow> arrGood m (v # vs) (c # cs) (N \<union> M)"
| arrGood_hidden: "h \<in> fst ` set m \<Longrightarrow> getDisc m h = Some (None, v) \<Longrightarrow> good m v c N \<Longrightarrow> h \<notin> N \<Longrightarrow>
    arrGood m vs cs M \<Longrightarrow> insert h N \<inter> M = {} \<Longrightarrow> arrGood m (placeholder h # vs) (c # cs) (insert h N \<union> M)"
| arrGood_decoy: "getDisc m h = None \<Longrightarrow> arrGood m vs cs M \<Longrightarrow> h \<notin> M \<Longrightarrow>
    arrGood m (placeholder h # vs) cs (insert h M)"

lemma arrGood_append:
  "arrGood m vs cs N \<Longrightarrow> arrGood m ws ds M \<Longrightarrow> N \<inter> M = {} \<Longrightarrow> arrGood m (vs @ ws) (cs @ ds) (N \<union> M)"
proof (induction rule: arrGood.induct)
  case (arrGood_item v c N vs cs M')
  then have "arrGood m (v # (vs @ ws)) (c # (cs @ ds)) (N \<union> (M' \<union> M))"
    by (intro arrGood.arrGood_item) auto
  then show ?case by (simp add: Un_assoc)
next
  case (arrGood_hidden h v c N vs cs M')
  then have "arrGood m (placeholder h # (vs @ ws)) (c # (cs @ ds)) (insert h N \<union> (M' \<union> M))"
    by (intro arrGood.arrGood_hidden) auto
  then show ?case by (simp add: Un_assoc)
next
  case (arrGood_decoy h vs cs M')
  then have "arrGood m (placeholder h # (vs @ ws)) (cs @ ds) (insert h (M' \<union> M))"
    by (intro arrGood.arrGood_decoy) auto
  then show ?case by simp
qed simp

lemma arrGood_facts: "arrGood m vs cs N \<Longrightarrow> finite N \<and> list_all isJson vs"
  by (induction rule: arrGood.induct) (auto dest: good_facts simp: placeholder_def)

lemma arrayItem_placeholder: "arrayItem (placeholder h) = Placeholder h"
  by (simp add: placeholder_def)

lemma unpackArr_good:
  "arrGood m vs cs N \<Longrightarrow> card (N \<inter> fst ` set m) \<le> n \<Longrightarrow> N \<inter> set seen = {} \<Longrightarrow>
   \<exists>ys ks s'. unpackArr m n pre idx vs acc keys seen = Inr (acc @ ys, ks, s') \<and> list_all2 sameJson ys cs
     \<and> set s' = set seen \<union> N"
proof (induction arbitrary: idx acc keys seen rule: arrGood.induct)
  case (arrGood_item v c N vs cs M)
  have nM: "card (M \<inter> fst ` set m) \<le> n" and nN: "card (N \<inter> fst ` set m) \<le> n"
    by (rule card_mono_keys [OF _ arrGood_item.prems(1)]; simp)+
  have sN: "N \<inter> set seen = {}" using arrGood_item.prems(2) by blast
  note f = good_facts [OF arrGood_item.hyps(1)]
  show ?case
  proof (cases "shape v")
    case Plain
    have v: "sameJson v c" "N = {}" using good_primitive [OF arrGood_item.hyps(1) Plain] by auto
    have "M \<inter> set seen = {}" using arrGood_item.prems(2) by blast
    then obtain ys ks s' where r: "unpackArr m n pre (Suc idx) vs (acc @ [v]) keys seen = Inr ((acc @ [v]) @ ys, ks, s')"
      "list_all2 sameJson ys cs" "set s' = set seen \<union> M"
      using arrGood_item.IH [OF nM] by blast
    then have "unpackArr m n pre idx (v # vs) acc keys seen = Inr (acc @ (v # ys), ks, s')"
      using f Plain by simp
    then show ?thesis using r v by (intro exI conjI) auto
  next
    case Nested
    obtain w k1 s1 where v: "unpackVal m n (joinPath pre (natText idx)) v seen = Inr (w, k1, s1)"
      "sameJson w c" "set s1 = set seen \<union> N"
      by (rule goodD [OF arrGood_item.hyps(1) nN sN])
    have "M \<inter> set s1 = {}" using v(3) arrGood_item.prems(2) arrGood_item.hyps(3) by blast
    then obtain ys ks s' where r: "unpackArr m n pre (Suc idx) vs (acc @ [w]) (assignProps keys k1) s1
        = Inr ((acc @ [w]) @ ys, ks, s')" "list_all2 sameJson ys cs" "set s' = set s1 \<union> M"
      using arrGood_item.IH [OF nM] by blast
    then have "unpackArr m n pre idx (v # vs) acc keys seen = Inr (acc @ (w # ys), ks, s')"
      using f Nested v(1) by (simp add: Let_def)
    then show ?thesis using r v by (intro exI conjI) auto
  qed (use f in \<open>cases v; simp\<close>)+
next
  case (arrGood_hidden h v c N vs cs M)
  let ?A = "(insert h N \<union> M) \<inter> fst ` set m" and ?here = "joinPath pre (natText idx)"
  have nM: "card (M \<inter> fst ` set m) \<le> n"
    by (rule card_mono_keys [OF _ arrGood_hidden.prems(1)]) auto
  have "N \<inter> fst ` set m \<subset> ?A" using arrGood_hidden.hyps(1,4) by blast
  then have "card (N \<inter> fst ` set m) < card ?A" by (intro psubset_card_mono) auto
  then have n: "n \<noteq> 0" "card (N \<inter> fst ` set m) \<le> n - 1" using arrGood_hidden.prems(1) by auto
  have h: "h \<notin> set seen" and sN: "N \<inter> set (h # seen) = {}"
    using arrGood_hidden.prems(2) arrGood_hidden.hyps(4) by auto
  obtain w k1 s1 where v: "unpackVal m (n - 1) ?here v (h # seen) = Inr (w, k1, s1)"
    "sameJson w c" "set s1 = set (h # seen) \<union> N"
    by (rule goodD [OF arrGood_hidden.hyps(3) n(2) sN])
  have "M \<inter> set s1 = {}" using v(3) arrGood_hidden.prems(2) arrGood_hidden.hyps(6) by auto
  then obtain ys ks s' where r: "unpackArr m n pre (Suc idx) vs (acc @ [w])
      (assignProps (setProp ?here h keys) k1) s1 = Inr ((acc @ [w]) @ ys, ks, s')"
    "list_all2 sameJson ys cs" "set s' = set s1 \<union> M"
    using arrGood_hidden.IH [OF nM] by blast
  then have "unpackArr m n pre idx (placeholder h # vs) acc keys seen = Inr (acc @ (w # ys), ks, s')"
    using v(1) h n(1) arrGood_hidden.hyps(2) good_facts [OF arrGood_hidden.hyps(3)]
    by (simp add: Let_def arrayItem_placeholder cloneValue_id)
  then show ?case using r v by (intro exI conjI) auto
next
  case (arrGood_decoy h vs cs M)
  have nM: "card (M \<inter> fst ` set m) \<le> n"
    by (rule card_mono_keys [OF _ arrGood_decoy.prems(1)]) auto
  have h: "h \<notin> set seen" and "M \<inter> set (h # seen) = {}"
    using arrGood_decoy.prems(2) arrGood_decoy.hyps(3) by auto
  then obtain ys ks s' where "unpackArr m n pre (Suc idx) vs acc keys (h # seen) = Inr (acc @ ys, ks, s')"
    "list_all2 sameJson ys cs" "set s' = set (h # seen) \<union> M"
    using arrGood_decoy.IH [OF nM] by blast
  then show ?case using h arrGood_decoy.hyps(1)
    by (intro exI [of _ ys] exI [of _ ks] exI [of _ s']) (auto simp: Let_def arrayItem_placeholder)
qed auto

lemma sameJson_array: "list_all2 sameJson xs ys \<Longrightarrow> sameJson (JArr xs) (JArr ys)"
  by (auto simp: list_all2_iff)

lemma good_array:
  assumes "arrGood m vs cs N"
  shows "good m (JArr vs) (JArr cs) N"
proof -
  have "\<exists>w ks s'. unpackVal m n pre (JArr vs) seen = Inr (w, ks, s') \<and> sameJson w (JArr cs) \<and> set s' = set seen \<union> N"
    if le: "card (N \<inter> fst ` set m) \<le> n" and dis: "N \<inter> set seen = {}" for n pre seen
  proof -
    obtain ys ks s' where "unpackArr m n pre 0 vs [] [] seen = Inr ([] @ ys, ks, s')" "list_all2 sameJson ys cs"
      "set s' = set seen \<union> N"
      using unpackArr_good [OF assms le dis] by blast
    then show ?thesis using sameJson_array by auto
  qed
  then show ?thesis using arrGood_facts [OF assms] unfolding good_def by simp
qed

end
