(* ===== verification/PackRoundtrip.thy ===== *)
theory PackRoundtrip imports PackLaws begin

text \<open>
  Every value \<open>pack\<close> returns is good for the claims it was given, with the digests it added to its
  state: one lemma per loop of \<open>pack\<close>, then the round trip of \<open>pack\<close> and \<open>unpack\<close>.
\<close>

section \<open>Numerals\<close>

lemma digit_chars: "isDigit c \<Longrightarrow> c \<noteq> CHR '' '' \<and> c \<noteq> CHR ''-'' \<and> c \<noteq> CHR ''+'' \<and> c \<noteq> CHR ''N'' \<and> c \<noteq> CHR ''_''
  \<and> c \<noteq> CHR ''.''"
  by (auto simp: isDigit_def)

lemma parseInt10_natText: "parseInt10 (natText n) = Some (int n)"
proof -
  note d = natText_digits [of n] digit_chars [OF natText_hd [of n]]
  have s: "dropWhile (\<lambda>c. c = CHR '' '') (natText n) = natText n"
    using d by (cases "natText n") auto
  have t: "takeWhile isDigit (natText n) = natText n"
    using d(1) by (auto simp: takeWhile_eq_all_conv list_all_iff)
  show ?thesis using d by (simp add: parseInt10_def s t decValue_natText)
qed

lemma indexText_natText: "indexText (parseInt10 (natText n)) = natText n"
  by (simp add: parseInt10_natText indexText_def)

lemma natText_not_name: "natText n \<noteq> ''NaN''" "natText n \<noteq> SD_DIGEST" "natText n \<noteq> SD_DECOY"
  "natText n \<notin> set protoKeys" "natText n \<noteq> SD_LIST_KEY"
proof -
  have "natText n \<noteq> s" if "s = [] \<or> \<not> isDigit (hd s)" for s
    using that natText_digits [of n] natText_hd [of n] by auto
  note this [of "''NaN''"] this [of SD_DIGEST] this [of SD_DECOY] this [of SD_LIST_KEY]
  then show "natText n \<noteq> ''NaN''" "natText n \<noteq> SD_DIGEST" "natText n \<noteq> SD_DECOY" "natText n \<noteq> SD_LIST_KEY"
    by (auto simp: sd_constants isDigit_def)
  have "\<forall>s \<in> set protoKeys. \<not> isDigit (hd s)" by (simp add: protoKeys_def isDigit_def)
  then show "natText n \<notin> set protoKeys" using natText_hd by blast
qed

section \<open>The digests an operation adds\<close>

definition dig :: "disclosure \<Rightarrow> string" where
  "dig d = the (d_digest d)"

definition adds :: "packState \<Rightarrow> packState \<Rightarrow> disclosure list \<Rightarrow> string list \<Rightarrow> bool" where
  "adds st st' ds new = (ps_digests st' = new @ ps_digests st \<and> distinct new
     \<and> set new \<inter> set (ps_digests st) = {} \<and> dig ` set ds \<subseteq> set new \<and> distinct (map dig ds)
     \<and> (\<forall>d \<in> set ds. cached (d_digest d)) \<and> (\<forall>h \<in> set new. 22 \<le> length h))"

text \<open>The digest map knows the disclosures \<open>ds\<close> and none of the other digests in \<open>new\<close>.\<close>

definition agrees :: "dmap \<Rightarrow> disclosure list \<Rightarrow> string list \<Rightarrow> bool" where
  "agrees m ds new = ((\<forall>d \<in> set ds. dig d \<in> fst ` set m \<and> getDisc m (dig d) = Some (d_key d, d_value d))
     \<and> (\<forall>h \<in> set new. h \<notin> dig ` set ds \<longrightarrow> getDisc m h = None))"

lemma adds_refl: "adds st st [] []"
  by (simp add: adds_def)

lemma adds_trans:
  assumes "adds st st1 ds1 n1" "adds st1 st2 ds2 n2"
  shows "adds st st2 (ds1 @ ds2) (n2 @ n1)"
proof -
  have a: "set n1 \<inter> set n2 = {}" using assms by (auto simp: adds_def)
  have "dig ` set ds1 \<subseteq> set n1" "dig ` set ds2 \<subseteq> set n2" using assms by (auto simp: adds_def)
  then have "dig ` set ds1 \<inter> dig ` set ds2 = {}" using a by blast
  then show ?thesis using assms a by (auto simp: adds_def)
qed

lemma agrees_split:
  assumes "agrees m (ds1 @ ds2) (n2 @ n1)" "adds st st1 ds1 n1" "adds st1 st2 ds2 n2"
  shows "agrees m ds1 n1" "agrees m ds2 n2"
proof -
  have a: "set n1 \<inter> set n2 = {}" "dig ` set ds1 \<subseteq> set n1" "dig ` set ds2 \<subseteq> set n2"
    using assms(2,3) by (auto simp: adds_def)
  show "agrees m ds1 n1"
    using assms(1) a unfolding agrees_def by (simp add: image_Un ball_Un) blast
  show "agrees m ds2 n2"
    using assms(1) a unfolding agrees_def by (simp add: image_Un ball_Un) blast
qed

lemma adds_disjoint: "adds st st1 ds1 n1 \<Longrightarrow> adds st1 st2 ds2 n2 \<Longrightarrow> set n1 \<inter> set n2 = {}"
  by (auto simp: adds_def)

section \<open>Digests of a hasher with digests of at least 16 bytes\<close>

definition longDigests :: "platform \<Rightarrow> bool" where
  "longDigests p = (\<forall>s alg. 16 \<le> length (hashOf p s alg))"

lemma encodeBase64_length: "4 * length bs \<le> 3 * length (encodeBase64 al bs)"
  by (induction al bs rule: encodeBase64.induct) (auto simp: Let_def)

lemma digestOf_length: "longDigests p \<Longrightarrow> 22 \<le> length (digestOf p alg s)"
proof -
  assume "longDigests p"
  then have "16 \<le> length (hashOf p s alg)" by (simp add: longDigests_def)
  moreover have "4 * length (hashOf p s alg) \<le> 3 * length (digestOf p alg s)"
    unfolding digestOf_def uint8ArrayToBase64Url_def by (rule encodeBase64_length)
  ultimately show ?thesis by linarith
qed

lemma long_not_proto: "22 \<le> length h \<Longrightarrow> h \<notin> set protoKeys"
  by (auto simp: protoKeys_def)

lemma adds_single: "h \<notin> set (ps_digests st) \<Longrightarrow> ps_digests st' = h # ps_digests st \<Longrightarrow>
  dig d = h \<Longrightarrow> cached (d_digest d) \<Longrightarrow> 22 \<le> length h \<Longrightarrow> adds st st' [d] [h]"
  by (simp add: adds_def)

lemma disclose_adds:
  assumes p: "longDigests p" and d: "disclose p alg sg kv st = Inr (g, d, st')"
  shows "adds st st' [d] [g] \<and> dig d = g
    \<and> (kv = [claim] \<longrightarrow> d_key d = None \<and> d_value d = claim)
    \<and> (kv = [JStr key, claim] \<longrightarrow> d_key d = Some key \<and> d_value d = claim)"
proof -
  obtain salt st1 d0 where s: "createDisclosureSalt sg st = Inr (salt, st1)"
    and n: "newDisclosure (JArr (JStr salt # kv)) None = Inr d0"
    and g: "digestDisclosure p alg d0 = (g, d)" "addDisclosureDigest g st1 = Inr st'"
    using d by (auto simp: disclose_def case_prod_beta prod_eq_iff)
  have n0: "d_digest d0 = None" using n
    by (auto simp: newDisclosure_def split: list.splits json.splits if_splits)
  have st1: "ps_digests st1 = ps_digests st"
    using s by (auto simp: createDisclosureSalt_def Let_def split: if_splits)
  obtain e d1 where e: "encodeDisclosure p d0 = (e, d1)" by (cases "encodeDisclosure p d0")
  then have d1: "d_key d1 = d_key d0" "d_value d1 = d_value d0"
    by (auto simp: encodeDisclosure_def Let_def split: if_splits)
  have g': "g = digestOf p alg e" "d = d1\<lparr>d_digest := Some g\<rparr>"
    using g(1) e n0 by (auto simp: digestDisclosure_def cached_def Let_def)
  have long: "22 \<le> length g" unfolding g' by (rule digestOf_length [OF p])
  then have c: "cached (d_digest d)" "dig d = g" by (auto simp: g' cached_def dig_def)
  have "g \<notin> set (ps_digests st)" "ps_digests st' = g # ps_digests st"
    using g(2) st1 by (auto simp: addDisclosureDigest_def split: if_splits)
  then have "adds st st' [d] [g]" using c long by (intro adds_single) auto
  moreover have "kv = [claim] \<Longrightarrow> d_key d = None \<and> d_value d = claim"
    using n d1 by (auto simp: g' newDisclosure_def split: json.splits if_splits)
  moreover have "kv = [JStr key, claim] \<Longrightarrow> d_key d = Some key \<and> d_value d = claim"
    using n d1 by (auto simp: g' newDisclosure_def split: if_splits)
  ultimately show ?thesis using c by simp
qed

lemma decoyLoop_adds:
  assumes p: "longDigests p"
  shows "decoyLoop p alg sg j st = Inr (ds, st') \<Longrightarrow> adds st st' [] (rev ds)"
proof (induction j arbitrary: st ds)
  case 0
  then show ?case by (simp add: adds_refl)
next
  case (Suc j)
  let ?g = "digestOf p alg (sg (ps_calls st))"
  obtain st2 ds2 where a: "addDisclosureDigest ?g (st\<lparr>ps_calls := ps_calls st + 1\<rparr>) = Inr st2"
    and r: "decoyLoop p alg sg j st2 = Inr (ds2, st')" and ds: "ds = ?g # ds2"
    using Suc.prems by (auto simp: createDecoy_def)
  have "adds st st2 [] [?g]"
    using a digestOf_length [OF p] by (auto simp: addDisclosureDigest_def adds_def split: if_splits)
  from adds_trans [OF this Suc.IH [OF r]] show ?case using ds by simp
qed

section \<open>The children of a frame\<close>

definition claimFields :: "json \<Rightarrow> fields" where
  "claimFields c = (case c of JObj kvs \<Rightarrow> kvs | JArr xs \<Rightarrow> forIn c | _ \<Rightarrow> [])"

lemma plain_claimFields:
  assumes "plainClaims c"
  shows "distinct (map fst (claimFields c))"
    and "(k, v) \<in> set (claimFields c) \<Longrightarrow>
      plainClaims v \<and> k \<notin> set protoKeys \<and> k \<noteq> SD_DIGEST \<and> k \<noteq> SD_DECOY"
proof -
  show "distinct (map fst (claimFields c))"
    using assms by (cases c) (auto simp: claimFields_def comp_def distinct_map inj_on_def)
  show "plainClaims v \<and> k \<notin> set protoKeys \<and> k \<noteq> SD_DIGEST \<and> k \<noteq> SD_DECOY"
    if "(k, v) \<in> set (claimFields c)"
  proof (cases c)
    case (JObj kvs)
    then show ?thesis using assms that reserved_names [of k] by (auto simp: claimFields_def list_all_iff)
  next
    case (JArr xs)
    then show ?thesis using assms that natText_not_name by (auto simp: claimFields_def list_all_iff)
  qed (use that in \<open>simp_all add: claimFields_def\<close>)
qed

text \<open>
  What the loop over the frame has built after some of its keys: \<open>N k\<close> are the digests added for the
  child \<open>k\<close>, and with a digest map that agrees each picked value is good for its claim.
\<close>

definition childrenGood :: "json \<Rightarrow> packState \<Rightarrow> packState \<Rightarrow> fields \<Rightarrow> disclosure list \<Rightarrow> string set
    \<Rightarrow> string list \<Rightarrow> (string \<Rightarrow> string set) \<Rightarrow> bool" where
  "childrenGood c st st' packed ds doneKeys new N =
     (adds st st' ds new \<and> distinct (map fst packed) \<and> fst ` set packed \<subseteq> doneKeys
      \<and> (\<forall>k. N k \<noteq> {} \<longrightarrow> k \<in> doneKeys \<and> k \<in> fst ` set (claimFields c))
      \<and> (\<forall>k l. k \<noteq> l \<longrightarrow> N k \<inter> N l = {}) \<and> (\<Union>k. N k) = set new
      \<and> (\<forall>m. agrees m ds new \<longrightarrow> (\<forall>k v. (k, v) \<in> set (claimFields c) \<longrightarrow> good m (pick packed k v) v (N k))))"

lemma childrenGoodD:
  assumes "childrenGood c st st' packed ds D new N"
  shows "adds st st' ds new" and "distinct (map fst packed)" and "fst ` set packed \<subseteq> D"
    and "\<forall>k. N k \<noteq> {} \<longrightarrow> k \<in> D \<and> k \<in> fst ` set (claimFields c)"
    and "\<forall>k l. k \<noteq> l \<longrightarrow> N k \<inter> N l = {}" and "(\<Union>k. N k) = set new"
    and "agrees m ds new \<Longrightarrow> (k, v) \<in> set (claimFields c) \<Longrightarrow> good m (pick packed k v) v (N k)"
  using assms by (simp_all add: childrenGood_def)

lemma childrenGood_start:
  assumes "plainClaims c"
  shows "childrenGood c st st [] [] {} [] (\<lambda>k. {})"
proof -
  have "good m (pick [] k v) v {}" if "(k, v) \<in> set (claimFields c)" for m k v
    using plain_claimFields(2) [OF assms that] good_plain by (simp add: pick_def getProp_def)
  then show ?thesis by (auto simp: childrenGood_def adds_refl)
qed

lemma pick_other: "k \<noteq> l \<Longrightarrow> distinct (map fst packed) \<Longrightarrow> l \<notin> set protoKeys \<or> l \<noteq> ''__proto__'' \<Longrightarrow>
  pick (setProp l w packed) k v = pick packed k v"
  by (cases "l = ''__proto__''") (auto simp: pick_def getProp_def map_of_setProp protoKeys_def)

lemma pick_this: "distinct (map fst packed) \<Longrightarrow> k \<noteq> ''__proto__'' \<Longrightarrow>
  pick (setProp k w packed) k v = (if truthy w then w else v)"
  by (simp add: pick_def getProp_def map_of_setProp)

text \<open>A key whose packed value is not used: a count of decoys, or a key that is not an index.\<close>

lemma childrenGood_skip:
  assumes "childrenGood c st st' packed ds D new N" "l \<notin> fst ` set (claimFields c)" "l \<noteq> ''__proto__''"
  shows "childrenGood c st st' (setProp l w packed) ds (insert l D) new N"
proof -
  have "pick (setProp l w packed) k v = pick packed k v" if "(k, v) \<in> set (claimFields c)" for k v
    using assms that by (intro pick_other) (auto simp: childrenGood_def image_iff)
  then show ?thesis using assms unfolding childrenGood_def
    by (auto simp: distinct_setProp keys_setProp)
qed

lemma childrenGood_child:
  assumes cg: "childrenGood c st st1 packed ds D new N" and plain: "plainClaims c"
    and l: "(l, cl) \<in> set (claimFields c)" "l \<notin> D"
    and add: "adds st1 st2 ds2 new2" and fal: "\<not> truthy pc \<Longrightarrow> new2 = []"
    and gd: "\<And>m. agrees m ds2 new2 \<Longrightarrow> good m pc cl (set new2)"
  shows "childrenGood c st st2 (setProp l pc packed) (ds @ ds2) (insert l D) (new2 @ new) (N(l := set new2))"
proof -
  note a = childrenGoodD(1) [OF cg] and dp = childrenGoodD(2) [OF cg] and sub = childrenGoodD(3) [OF cg]
    and own = childrenGoodD(4) [OF cg] and dj = childrenGoodD(5) [OF cg] and U = childrenGoodD(6) [OF cg]
  have Nl: "N l = {}" using own l(2) by blast
  have pl: "plainClaims cl" "l \<noteq> ''__proto__''" using plain_claimFields(2) [OF plain l(1)] by (auto simp: protoKeys_def)
  have g: "good m (pick (setProp l pc packed) k v) v ((N(l := set new2)) k)"
    if m: "agrees m (ds @ ds2) (new2 @ new)" and kv: "(k, v) \<in> set (claimFields c)" for m k v
  proof (cases "k = l")
    case True
    then have v: "v = cl" using kv l(1) plain_claimFields(1) [OF plain] by (metis map_of_eq_Some_iff option.inject)
    have "good m pc cl (set new2)" by (rule gd) (rule agrees_split(2) [OF m a add])
    moreover have "\<not> truthy pc \<Longrightarrow> good m cl cl (set new2)" using fal good_plain [OF pl(1)] by simp
    ultimately show ?thesis using True v by (simp add: pick_this [OF dp pl(2)])
  next
    case False
    have "good m (pick packed k v) v (N k)"
      by (rule childrenGoodD(7) [OF cg agrees_split(1) [OF m a add] kv])
    then show ?thesis using False pick_other [OF False dp] pl(2) by simp
  qed
  have lk: "l \<in> fst ` set (claimFields c)" using l(1) by force
  have disj: "set new2 \<inter> N k = {}" for k
    using adds_disjoint [OF a add] U by blast
  show ?thesis
    unfolding childrenGood_def
  proof (intro conjI)
    show "adds st st2 (ds @ ds2) (new2 @ new)" by (rule adds_trans [OF a add])
    show "distinct (map fst (setProp l pc packed))" by (rule distinct_setProp [OF dp])
    show "fst ` set (setProp l pc packed) \<subseteq> insert l D"
      using sub by (auto simp: keys_setProp [OF pl(2)])
    show "\<forall>k. (N(l := set new2)) k \<noteq> {} \<longrightarrow> k \<in> insert l D \<and> k \<in> fst ` set (claimFields c)"
      using own lk by simp
    show "\<forall>k ka. k \<noteq> ka \<longrightarrow> (N(l := set new2)) k \<inter> (N(l := set new2)) ka = {}"
      using dj disj by (simp add: Int_commute)
    show "(\<Union>k. (N(l := set new2)) k) = set (new2 @ new)"
    proof -
      have "(\<Union>k. (N(l := set new2)) k) = set new2 \<union> (\<Union>k. N k)"
        using Nl by (auto split: if_splits)
      then show ?thesis by (simp add: U)
    qed
    show "\<forall>m. agrees m (ds @ ds2) (new2 @ new) \<longrightarrow>
       (\<forall>k v. (k, v) \<in> set (claimFields c) \<longrightarrow> good m (pick (setProp l pc packed) k v) v ((N(l := set new2)) k))"
      using g by blast
  qed
qed

section \<open>The loops of pack\<close>

text \<open>What packing a claim under a frame guarantees.\<close>

definition packsWell :: "platform \<Rightarrow> string \<Rightarrow> saltGenerator \<Rightarrow> json \<Rightarrow> json \<Rightarrow> bool" where
  "packsWell p alg sg c f = (\<forall>st pc ds st'. pack p alg sg c f st = Inr (pc, ds, st') \<longrightarrow>
     (\<exists>new. adds st st' ds new \<and> (\<not> truthy pc \<longrightarrow> new = [])
        \<and> (\<forall>m. agrees m ds new \<longrightarrow> good m pc c (set new))))"

definition packsNothing :: "platform \<Rightarrow> string \<Rightarrow> saltGenerator \<Rightarrow> json \<Rightarrow> json \<Rightarrow> bool" where
  "packsNothing p alg sg c f = (\<forall>st pc ds st'. pack p alg sg c f st = Inr (pc, ds, st') \<longrightarrow> ds = [] \<and> st' = st)"

definition childOk :: "platform \<Rightarrow> string \<Rightarrow> saltGenerator \<Rightarrow> json \<Rightarrow> json \<Rightarrow> string \<Rightarrow> json \<Rightarrow> bool" where
  "childOk p alg sg c frame key sub = (\<exists>l cl f. childOf c frame key sub = Inr (l, cl, f)
     \<and> (l \<notin> fst ` set (claimFields c) \<and> l \<noteq> ''__proto__'' \<and> packsNothing p alg sg cl f
        \<or> l = key \<and> (l, cl) \<in> set (claimFields c) \<and> packsWell p alg sg cl f))"

abbreviation childStep :: "platform \<Rightarrow> string \<Rightarrow> saltGenerator \<Rightarrow> json \<Rightarrow> json
    \<Rightarrow> fields \<times> disclosure list \<times> packState \<Rightarrow> string \<times> json \<Rightarrow> sdError + fields \<times> disclosure list \<times> packState" where
  "childStep p alg sg claims frame \<equiv> (\<lambda>acc ks.
     if fst ks = SD_DIGEST then Inr acc
     else bindR (childOf claims frame (fst ks) (snd ks)) (\<lambda>child.
       bindR (pack p alg sg (fst (snd child)) (snd (snd child)) (snd (snd acc))) (\<lambda>res.
         Inr (setProp (fst child) (fst res) (fst acc), fst (snd acc) @ fst (snd res), snd (snd res)))))"

lemma children_loop:
  assumes "plainClaims c" and "distinct (map fst fs)"
    and "\<And>key sub. (key, sub) \<in> set fs \<Longrightarrow> key \<noteq> SD_DIGEST \<Longrightarrow> childOk p alg sg c frame key sub"
    and "foldR (childStep p alg sg c frame) ([], [], st) fs = Inr (packed, ds, st1)"
  shows "\<exists>D new N. D \<inter> fst ` set (claimFields c) \<subseteq> fst ` set fs \<and> childrenGood c st st1 packed ds D new N"
  using assms(2-4)
proof (induction fs arbitrary: packed ds st1 rule: rev_induct)
  case Nil
  then show ?case using childrenGood_start [OF assms(1)] by (intro exI [of _ "{}"]) auto
next
  case (snoc ks fs)
  obtain key sub where ks: "ks = (key, sub)" by (cases ks)
  obtain u where u: "foldR (childStep p alg sg c frame) ([], [], st) fs = Inr u"
    "childStep p alg sg c frame u ks = Inr (packed, ds, st1)"
    using snoc.prems(3) unfolding foldR_snoc by (elim exE conjE) (rule that)
  obtain pk ds1 sta where acc: "u = (pk, ds1, sta)" by (rule prod_cases3)
  note f = u(1) [unfolded acc] and s = u(2) [unfolded acc]
  have ok: "\<And>key sub. (key, sub) \<in> set fs \<Longrightarrow> key \<noteq> SD_DIGEST \<Longrightarrow> childOk p alg sg c frame key sub"
    using snoc.prems(2) by simp
  obtain D new N where D: "D \<inter> fst ` set (claimFields c) \<subseteq> fst ` set fs"
    and cg: "childrenGood c st sta pk ds1 D new N"
    using snoc.IH [OF _ ok f] snoc.prems(1) by auto
  show ?case
  proof (cases "key = SD_DIGEST")
    case True
    then show ?thesis using s ks D cg by (intro exI [of _ D] exI [of _ new] exI [of _ N]) auto
  next
    case False
    then obtain l cl f where ch: "childOf c frame key sub = Inr (l, cl, f)"
      and alt: "l \<notin> fst ` set (claimFields c) \<and> l \<noteq> ''__proto__'' \<and> packsNothing p alg sg cl f
        \<or> l = key \<and> (l, cl) \<in> set (claimFields c) \<and> packsWell p alg sg cl f"
      using snoc.prems(2) [of key sub] ks by (auto simp: childOk_def)
    obtain pc ds2 where p: "pack p alg sg cl f sta = Inr (pc, ds2, st1)"
      and packed: "packed = setProp l pc pk" and ds: "ds = ds1 @ ds2"
      using s ks False ch by auto
    from alt show ?thesis
    proof (elim disjE conjE)
      assume l: "l \<notin> fst ` set (claimFields c)" "l \<noteq> ''__proto__''" and n: "packsNothing p alg sg cl f"
      have "ds2 = [] \<and> st1 = sta" using n p by (auto simp: packsNothing_def)
      then have "childrenGood c st st1 packed ds (insert l D) new N"
        using childrenGood_skip [OF cg l] packed ds by simp
      moreover have "insert l D \<inter> fst ` set (claimFields c) \<subseteq> fst ` set (fs @ [ks])" using D l by auto
      ultimately show ?thesis by blast
    next
      assume l: "l = key" "(l, cl) \<in> set (claimFields c)" and w: "packsWell p alg sg cl f"
      obtain new2 where w2: "adds sta st1 ds2 new2" "\<not> truthy pc \<longrightarrow> new2 = []"
        "\<forall>m. agrees m ds2 new2 \<longrightarrow> good m pc cl (set new2)"
        using w p unfolding packsWell_def by blast
      have "l \<notin> fst ` set fs" using snoc.prems(1) l(1) ks by auto
      then have lD: "l \<notin> D" using D l(2) by force
      have "childrenGood c st st1 packed ds (insert l D) (new2 @ new) (N(l := set new2))"
        unfolding packed ds
        by (rule childrenGood_child [OF cg assms(1) l(2) lD w2(1)]) (use w2(2,3) in simp_all)
      moreover have "insert l D \<inter> fst ` set (claimFields c) \<subseteq> fst ` set (fs @ [ks])" using D l(1) ks by auto
      ultimately show ?thesis by blast
    qed
  qed
qed

text \<open>
  The loop over the fields of an object: \<open>out\<close> are the fields that stay and \<open>K\<close> gives the claim of
  each digest of \<open>sds\<close>, whose disclosures are \<open>dnew\<close>.
\<close>

definition fieldsSplit :: "fields \<Rightarrow> fields \<Rightarrow> fields \<Rightarrow> string list \<Rightarrow> disclosure list
    \<Rightarrow> (string \<Rightarrow> string option) \<Rightarrow> bool" where
  "fieldsSplit packed kvs out sds dnew K = (distinct (map fst out)
     \<and> set out = {(k, pick packed k c) | k c. (k, c) \<in> set kvs \<and> k \<notin> disclosed K (set sds)}
     \<and> disclosed K (set sds) \<subseteq> fst ` set kvs
     \<and> (\<forall>h h' k. K h = Some k \<longrightarrow> K h' = Some k \<longrightarrow> h = h') \<and> (\<forall>h. K h \<noteq> None \<longrightarrow> h \<in> set sds)
     \<and> dig ` set dnew = set sds
     \<and> (\<forall>h \<in> set sds. \<exists>k c. K h = Some k \<and> (k, c) \<in> set kvs
          \<and> (\<exists>d \<in> set dnew. dig d = h \<and> d_key d = Some k \<and> d_value d = pick packed k c)))"

lemma fieldsSplitD:
  assumes "fieldsSplit packed kvs out sds dnew K"
  shows "distinct (map fst out)"
    and "set out = {(k, pick packed k c) | k c. (k, c) \<in> set kvs \<and> k \<notin> disclosed K (set sds)}"
    and "disclosed K (set sds) \<subseteq> fst ` set kvs"
    and "K h = Some k \<Longrightarrow> K h' = Some k \<Longrightarrow> h = h'" and "K h \<noteq> None \<Longrightarrow> h \<in> set sds"
    and "dig ` set dnew = set sds"
    and "h \<in> set sds \<Longrightarrow> \<exists>k c. K h = Some k \<and> (k, c) \<in> set kvs
          \<and> (\<exists>d \<in> set dnew. dig d = h \<and> d_key d = Some k \<and> d_value d = pick packed k c)"
proof -
  note a = assms [unfolded fieldsSplit_def]
  note a2 = a [THEN conjunct2, THEN conjunct2] and a4 = a [THEN conjunct2, THEN conjunct2, THEN conjunct2, THEN conjunct2]
  show "distinct (map fst out)" by (rule a [THEN conjunct1])
  show "set out = {(k, pick packed k c) | k c. (k, c) \<in> set kvs \<and> k \<notin> disclosed K (set sds)}"
    by (rule a [THEN conjunct2, THEN conjunct1])
  show "disclosed K (set sds) \<subseteq> fst ` set kvs" by (rule a2 [THEN conjunct1])
  show "K h = Some k \<Longrightarrow> K h' = Some k \<Longrightarrow> h = h'" using a2 [THEN conjunct2, THEN conjunct1] by blast
  show "K h \<noteq> None \<Longrightarrow> h \<in> set sds" using a4 [THEN conjunct1] by blast
  show "dig ` set dnew = set sds" by (rule a4 [THEN conjunct2, THEN conjunct1])
  show "h \<in> set sds \<Longrightarrow> \<exists>k c. K h = Some k \<and> (k, c) \<in> set kvs
          \<and> (\<exists>d \<in> set dnew. dig d = h \<and> d_key d = Some k \<and> d_value d = pick packed k c)"
    by (rule bspec [OF a4 [THEN conjunct2, THEN conjunct2]])
qed

lemma fieldsSplit_keys:
  "fieldsSplit packed kvs out sds dnew K \<Longrightarrow> fst ` set out = fst ` set kvs - disclosed K (set sds)"
  by (drule fieldsSplitD(2)) (auto simp: image_iff, metis fst_conv)

lemma fieldsSplit_keep:
  assumes s: "fieldsSplit packed kvs out sds dnew K" and k: "k \<notin> fst ` set kvs" "k \<noteq> ''__proto__''"
  shows "fieldsSplit packed (kvs @ [(k, c)]) (setProp k (pick packed k c) out) sds dnew K"
proof -
  note F = fieldsSplitD [OF s]
  have out: "k \<notin> fst ` set out"
  proof
    assume "k \<in> fst ` set out"
    then obtain v where "(k, v) \<in> set out" by auto
    then have "\<exists>c. (k, c) \<in> set kvs" unfolding F(2) by blast
    then show False using k(1) by force
  qed
  have kD: "k \<notin> disclosed K (set sds)" using F(3) k(1) by blast
  have st: "setProp k (pick packed k c) out = insertProp k (pick packed k c) out" using out k(2) by (simp add: setProp_def)
  have "set (setProp k (pick packed k c) out) = insert (k, pick packed k c) (set out)"
    by (simp add: st set_insertProp)
  also have "\<dots> = {(l, pick packed l c') | l c'. (l, c') \<in> set (kvs @ [(k, c)]) \<and> l \<notin> disclosed K (set sds)}"
    unfolding F(2) using kD by auto
  finally have 2: "set (setProp k (pick packed k c) out)
      = {(l, pick packed l c') | l c'. (l, c') \<in> set (kvs @ [(k, c)]) \<and> l \<notin> disclosed K (set sds)}" .
  show ?thesis unfolding fieldsSplit_def
  proof (intro conjI)
    show "distinct (map fst (setProp k (pick packed k c) out))" by (rule distinct_setProp [OF F(1)])
    show "disclosed K (set sds) \<subseteq> fst ` set (kvs @ [(k, c)])" using F(3) by auto
    show "\<forall>h h' k. K h = Some k \<longrightarrow> K h' = Some k \<longrightarrow> h = h'" using F(4) by blast
    show "\<forall>h. K h \<noteq> None \<longrightarrow> h \<in> set sds" using F(5) by blast
    show "\<forall>h \<in> set sds. \<exists>l c'. K h = Some l \<and> (l, c') \<in> set (kvs @ [(k, c)])
        \<and> (\<exists>d \<in> set dnew. dig d = h \<and> d_key d = Some l \<and> d_value d = pick packed l c')"
      using F(7) by (metis UnCI set_append)
  qed (rule 2, rule F(6))
qed

lemma fieldsSplit_disclose:
  assumes s: "fieldsSplit packed kvs out sds dnew K" and k: "k \<notin> fst ` set kvs"
    and g: "g \<notin> set sds" and d: "dig d = g" "d_key d = Some k" "d_value d = pick packed k c"
  shows "fieldsSplit packed (kvs @ [(k, c)]) out (sds @ [g]) (dnew @ [d]) (K(g := Some k))"
proof -
  note F = fieldsSplitD [OF s]
  have D: "disclosed (K(g := Some k)) (set (sds @ [g])) = insert k (disclosed K (set sds))"
    using g by (auto simp: disclosed_def)
  have kD: "k \<notin> disclosed K (set sds)" using F(3) k by blast
  have out: "set out = {(l, pick packed l c') | l c'. (l, c') \<in> set (kvs @ [(k, c)]) \<and> l \<notin> insert k (disclosed K (set sds))}"
    unfolding F(2) using k by force
  have new: "K h \<noteq> Some k" for h
    using F(5) [of h] kD by (force simp: disclosed_def)
  show ?thesis unfolding fieldsSplit_def D
  proof (intro conjI)
    show "insert k (disclosed K (set sds)) \<subseteq> fst ` set (kvs @ [(k, c)])" using F(3) by auto
    show "\<forall>h h' l. (K(g := Some k)) h = Some l \<longrightarrow> (K(g := Some k)) h' = Some l \<longrightarrow> h = h'"
      using F(4) new by (auto split: if_splits)
    show "\<forall>h. (K(g := Some k)) h \<noteq> None \<longrightarrow> h \<in> set (sds @ [g])" using F(5) by auto
    show "dig ` set (dnew @ [d]) = set (sds @ [g])" using F(6) d by auto
    show "\<forall>h \<in> set (sds @ [g]). \<exists>l c'. (K(g := Some k)) h = Some l \<and> (l, c') \<in> set (kvs @ [(k, c)])
        \<and> (\<exists>d \<in> set (dnew @ [d]). dig d = h \<and> d_key d = Some l \<and> d_value d = pick packed l c')"
    proof
      fix h
      assume h: "h \<in> set (sds @ [g])"
      show "\<exists>l c'. (K(g := Some k)) h = Some l \<and> (l, c') \<in> set (kvs @ [(k, c)])
        \<and> (\<exists>d \<in> set (dnew @ [d]). dig d = h \<and> d_key d = Some l \<and> d_value d = pick packed l c')"
      proof (cases "h = g")
        case True
        then show ?thesis using d by (intro exI [of _ k] exI [of _ c]) auto
      next
        case False
        then obtain l c' e where "K h = Some l" "(l, c') \<in> set kvs" "e \<in> set dnew" "dig e = h"
          "d_key e = Some l" "d_value e = pick packed l c'" using F(7) [of h] h by auto
        then show ?thesis using False by (intro exI [of _ l] exI [of _ c']) auto
      qed
    qed
  qed (rule F(1), rule out)
qed

lemma fields_loop:
  assumes p: "longDigests p" and d: "distinct (map fst kvs)" "''__proto__'' \<notin> fst ` set kvs"
    and f: "foldR (fieldStep p alg sg frame packed) ([], [], ds, st1) kvs = Inr (out, sds, ds', st2)"
  shows "\<exists>dnew K. ds' = ds @ dnew \<and> adds st1 st2 dnew (rev sds) \<and> fieldsSplit packed kvs out sds dnew K"
  using d f
proof (induction kvs arbitrary: out sds ds' st2 rule: rev_induct)
  case Nil
  then show ?case
    by (intro exI [of _ "[]"] exI [of _ "\<lambda>_. None"]) (auto simp: adds_refl fieldsSplit_def disclosed_def)
next
  case (snoc kc kvs)
  obtain k c where kc: "kc = (k, c)" by (cases kc)
  obtain u where u: "foldR (fieldStep p alg sg frame packed) ([], [], ds, st1) kvs = Inr u"
    "fieldStep p alg sg frame packed u kc = Inr (out, sds, ds', st2)"
    using snoc.prems(3) unfolding foldR_snoc by (elim exE conjE) (rule that)
  obtain out1 sds1 ds1 sta where acc: "u = (out1, sds1, ds1, sta)" by (rule prod_cases4)
  obtain dnew K where ds1: "ds1 = ds @ dnew" and a: "adds st1 sta dnew (rev sds1)"
    and F: "fieldsSplit packed kvs out1 sds1 dnew K"
    using snoc.IH [OF _ _ u(1) [unfolded acc]] snoc.prems(1,2) by auto
  have k: "k \<notin> fst ` set kvs" "k \<noteq> ''__proto__''" using snoc.prems(1,2) kc by auto
  obtain b where b: "sdIncludes frame (JStr k) k = Inr b"
    using u(2) acc kc by (cases "sdIncludes frame (JStr k) k") (auto simp: fieldStep_def Let_def)
  show ?case
  proof (cases b)
    case True
    then obtain g e where e: "disclose p alg sg [JStr k, pick packed k c] sta = Inr (g, e, st2)"
      and o: "out = out1" "sds = sds1 @ [g]" "ds' = ds1 @ [e]"
      using u(2) acc kc b by (auto simp: fieldStep_def Let_def)
    note da = disclose_adds [OF p e, of "pick packed k c" k]
    have "g \<notin> set sds1" using da a by (auto simp: adds_def)
    then have "fieldsSplit packed (kvs @ [kc]) out sds (dnew @ [e]) (K(g := Some k))"
      unfolding kc o using da by (intro fieldsSplit_disclose [OF F k(1)]) auto
    moreover have "adds st1 st2 (dnew @ [e]) (rev sds)"
      using adds_trans [OF a, of st2 "[e]" "[g]"] da o by simp
    moreover have "ds' = ds @ (dnew @ [e])" using o ds1 by simp
    ultimately show ?thesis by (intro exI conjI)
  next
    case False
    then have o: "out = setProp k (pick packed k c) out1" "sds = sds1" "ds' = ds1" "st2 = sta"
      using u(2) acc kc b by (auto simp: fieldStep_def Let_def)
    then show ?thesis using fieldsSplit_keep [OF F k] a ds1 kc by (intro exI [of _ dnew] exI [of _ K]) simp
  qed
qed

lemma arrGood_decoys:
  "distinct hs \<Longrightarrow> (\<And>h. h \<in> set hs \<Longrightarrow> getDisc m h = None) \<Longrightarrow> arrGood m (map placeholder hs) [] (set hs)"
  by (induction hs) (auto intro: arrGood.intros)

lemma arrGood_one: "good m v c N \<Longrightarrow> arrGood m [v] [c] N"
  using arrGood_item [OF _ arrGood_Nil, of m v c N] by simp

lemma arrGood_one_hidden:
  "h \<in> fst ` set m \<Longrightarrow> getDisc m h = Some (None, v) \<Longrightarrow> good m v c N \<Longrightarrow> h \<notin> N \<Longrightarrow>
   arrGood m [placeholder h] [c] (insert h N)"
  using arrGood_hidden [OF _ _ _ _ arrGood_Nil, of h m v c N] by simp

lemma elements_loop:
  assumes p: "longDigests p" and le: "n \<le> length xs"
    and N: "\<And>i. N i \<subseteq> set (ps_digests st1)" "\<forall>i j. i \<noteq> j \<longrightarrow> N i \<inter> N j = {}"
    and f: "foldR (elementStep p alg sg frame packed xs) ([], ds, st1) [0..<n] = Inr (items, ds', st2)"
  shows "\<exists>dnew new. ds' = ds @ dnew \<and> adds st1 st2 dnew new
    \<and> (\<forall>m. agrees m dnew new \<longrightarrow> (\<forall>i < length xs. good m (pick packed (natText i) (xs ! i)) (xs ! i) (N i)) \<longrightarrow>
         arrGood m items (take n xs) (set new \<union> (\<Union>i<n. N i)))"
  using le f
proof (induction n arbitrary: items ds' st2)
  case 0
  then show ?case by (intro exI [of _ "[]"]) (auto simp: adds_refl arrGood_Nil)
next
  case (Suc n)
  let ?c = "pick packed (natText n) (xs ! n)"
  obtain u where u: "foldR (elementStep p alg sg frame packed xs) ([], ds, st1) [0..<n] = Inr u"
    "elementStep p alg sg frame packed xs u n = Inr (items, ds', st2)"
    using Suc.prems(2) unfolding upt_Suc_append [OF le0] foldR_snoc by (elim exE conjE) (rule that)
  obtain its ds1 sta where acc: "u = (its, ds1, sta)" by (rule prod_cases3)
  have le: "n \<le> length xs" "n < length xs" using Suc.prems(1) by auto
  obtain dn newn where ds1: "ds1 = ds @ dn" and a: "adds st1 sta dn newn"
    and g: "\<And>m. agrees m dn newn \<Longrightarrow> \<forall>i < length xs. good m (pick packed (natText i) (xs ! i)) (xs ! i) (N i) \<Longrightarrow>
         arrGood m its (take n xs) (set newn \<union> (\<Union>i<n. N i))"
    using Suc.IH [OF le(1) u(1) [unfolded acc]] by (elim exE conjE) (rule that; blast)
  have tk: "take (Suc n) xs = take n xs @ [xs ! n]" by (rule take_Suc_conv_app_nth [OF le(2)])
  have Un: "(\<Union>i<Suc n. N i) = (\<Union>i<n. N i) \<union> N n" by (simp add: lessThan_Suc Un_commute)
  have dis: "(set newn \<union> (\<Union>i<n. N i)) \<inter> N n = {}"
  proof -
    have "set newn \<inter> N n = {}" using a N(1) [of n] by (auto simp: adds_def)
    moreover have "N i \<inter> N n = {}" if "i < n" for i using that N(2) by simp
    then have "(\<Union>i<n. N i) \<inter> N n = {}" by blast
    ultimately show ?thesis by blast
  qed
  obtain b where b: "sdIncludes frame (JNum (of_nat n)) (natText n) = Inr b"
    using u(2) acc by (cases "sdIncludes frame (JNum (of_nat n)) (natText n)") (auto simp: elementStep_def Let_def)
  show ?case
  proof (cases b)
    case True
    then obtain h e where e: "disclose p alg sg [?c] sta = Inr (h, e, st2)"
      and o: "items = its @ [placeholder h]" "ds' = ds1 @ [e]"
      using u(2) acc b by (auto simp: elementStep_def Let_def)
    have de: "adds sta st2 [e] [h]" "dig e = h" "d_key e = None" "d_value e = ?c"
      using disclose_adds [OF p e, of ?c] by auto
    have "h \<notin> set (ps_digests sta)" using de(1) by (simp add: adds_def)
    then have h: "h \<notin> set newn" "h \<notin> N i" for i using a N(1) by (auto simp: adds_def)
    have "arrGood m items (take (Suc n) xs) (set (h # newn) \<union> (\<Union>i<Suc n. N i))"
      if m: "agrees m (dn @ [e]) ([h] @ newn)"
        and gd: "\<forall>i < length xs. good m (pick packed (natText i) (xs ! i)) (xs ! i) (N i)" for m
    proof -
      note ag = agrees_split [OF m a de(1)]
      have "arrGood m [placeholder h] [xs ! n] (insert h (N n))"
        using ag(2) de h gd le(2) by (intro arrGood_one_hidden [of _ _ ?c]) (auto simp: agrees_def)
      moreover have "(set newn \<union> (\<Union>i<n. N i)) \<inter> insert h (N n) = {}" using dis h by auto
      ultimately have "arrGood m (its @ [placeholder h]) (take n xs @ [xs ! n])
          ((set newn \<union> (\<Union>i<n. N i)) \<union> insert h (N n))"
        by (rule arrGood_append [OF g [OF ag(1) gd]])
      moreover have "(set newn \<union> (\<Union>i<n. N i)) \<union> insert h (N n) = set (h # newn) \<union> (\<Union>i<Suc n. N i)"
        unfolding Un by auto
      ultimately show ?thesis unfolding o tk by simp
    qed
    then show ?thesis using adds_trans [OF a de(1)] ds1 o
      by (intro exI [of _ "dn @ [e]"] exI [of _ "h # newn"]) simp
  next
    case False
    then have o: "items = its @ [?c]" "ds' = ds1" "st2 = sta"
      using u(2) acc b by (auto simp: elementStep_def Let_def)
    have "arrGood m items (take (Suc n) xs) (set newn \<union> (\<Union>i<Suc n. N i))"
      if m: "agrees m dn newn" and gd: "\<forall>i < length xs. good m (pick packed (natText i) (xs ! i)) (xs ! i) (N i)" for m
    proof -
      have "arrGood m [?c] [xs ! n] (N n)" using gd le(2) by (intro arrGood_one) simp
      then have "arrGood m (its @ [?c]) (take n xs @ [xs ! n]) ((set newn \<union> (\<Union>i<n. N i)) \<union> N n)"
        by (rule arrGood_append [OF g [OF m gd] _ dis])
      then show ?thesis unfolding o tk Un by (simp add: Un_assoc)
    qed
    then show ?thesis using a ds1 o by (intro exI [of _ dn] exI [of _ newn]) simp
  qed
qed

section \<open>Packing is good\<close>

lemma frameFits_truthy:
  assumes "frameFits f c" "truthy f"
  obtains fkvs where "f = JObj fkvs" "distinct (map fst fkvs)" "(\<exists>kvs. c = JObj kvs) \<or> (\<exists>xs. c = JArr xs)"
  using assms by (cases f) (auto split: json.splits)

lemma packsNothing_falsy: "\<not> truthy f \<Longrightarrow> packsNothing p alg sg c f"
  by (simp add: packsNothing_def pack.simps)

lemma packsNothing_decoyCount: "isNum f \<Longrightarrow> packsNothing p alg sg JUndefined f"
  by (cases f) (auto simp: packsNothing_def pack.simps frameFields_def frameProp_def decoyCount_def)

lemma packsWell_falsy: "\<not> truthy f \<Longrightarrow> plainClaims c \<Longrightarrow> packsWell p alg sg c f"
  unfolding packsWell_def by (auto simp: pack.simps adds_refl good_plain intro!: exI [of _ "[]"])

lemma childOk_fits:
  assumes fits: "frameFits (JObj fkvs) c" and plain: "plainClaims c"
    and ks: "(key, sub) \<in> set fkvs" "key \<noteq> SD_DIGEST"
    and IH: "\<And>cl. frameFits sub cl \<Longrightarrow> plainClaims cl \<Longrightarrow> packsWell p alg sg cl sub"
  shows "childOk p alg sg c (JObj fkvs) key sub"
proof (cases c)
  case (JObj kvs)
  have cf: "claimFields c = kvs" by (simp add: JObj claimFields_def)
  consider "key = SD_DECOY" "isNum sub" | cl where "map_of kvs key = Some cl" "frameFits sub cl"
    using fits ks JObj by (fastforce simp: list_all_iff split: option.splits)
  then show ?thesis
  proof cases
    case 1
    have "SD_DECOY \<notin> fst ` set kvs" using plain_claimFields(2) [OF plain] cf by fastforce
    moreover from this have "getProp kvs SD_DECOY = JUndefined"
      by (simp add: getProp_def map_of_eq_None_iff [THEN iffD2]) (simp add: SD_DECOY_def protoKeys_def)
    ultimately show ?thesis
      using 1 packsNothing_decoyCount JObj cf by (simp add: childOk_def childOf_def) (simp add: SD_DECOY_def)
  next
    case 2
    then have "(key, cl) \<in> set (claimFields c)" using cf by (simp add: map_of_SomeD)
    moreover have "childOf c (JObj fkvs) key sub = Inr (key, cl, sub)"
      using 2 JObj by (simp add: childOf_def getProp_def)
    ultimately show ?thesis using IH [OF 2(2)] plain_claimFields(2) [OF plain] unfolding childOk_def by blast
  qed
next
  case (JArr xs)
  have cf: "claimFields c = map (\<lambda>i. (natText i, xs ! i)) [0..<length xs]" by (simp add: JArr claimFields_def)
  have names: "fst kf = SD_DIGEST \<or> fst kf = SD_DECOY \<and> isNum (snd kf)
      \<or> (\<exists>i < length xs. fst kf = natText i \<and> frameFits (snd kf) (xs ! i))" if "kf \<in> set fkvs" for kf
    using fits that JArr by (fastforce simp: list_all_iff list_ex_iff)
  consider "key = SD_DECOY" "isNum sub" | i where "i < length xs" "key = natText i" "frameFits sub (xs ! i)"
    using names [OF ks(1)] ks(2) by auto
  then show ?thesis
  proof cases
    case 1
    have "''NaN'' \<notin> fst ` set fkvs" 
    proof
      assume "''NaN'' \<in> fst ` set fkvs"
      then obtain v where "(''NaN'', v) \<in> set fkvs" by auto
      from names [OF this] obtain i where "''NaN'' = natText i" by (auto simp: sd_constants)
      then show False using natText_not_name(1) [of i] by simp
    qed
    then have "frameProp (JObj fkvs) ''NaN'' = JUndefined"
      by (simp add: frameProp_def frameFields_def map_of_eq_None_iff [THEN iffD2])
    moreover have "parseInt10 SD_DECOY = None" by (simp add: parseInt10_def SD_DECOY_def isDigit_def)
    ultimately have "childOf c (JObj fkvs) key sub = Inr (''NaN'', JUndefined, JUndefined)"
      using 1 JArr by (simp add: childOf_def indexText_def)
    moreover have "''NaN'' \<notin> fst ` set (claimFields c)" by (auto simp: cf natText_not_name(1) [THEN not_sym])
    ultimately show ?thesis using packsNothing_falsy unfolding childOk_def by fastforce
  next
    case 2
    have "map_of fkvs key = Some sub" using fits ks(1) by simp
    then have "childOf c (JObj fkvs) key sub = Inr (key, xs ! i, sub)"
      using 2 JArr by (simp add: childOf_def frameProp_def frameFields_def parseInt10_natText indexText_def)
    moreover have "(key, xs ! i) \<in> set (claimFields c)" using 2 by (auto simp: cf)
    ultimately show ?thesis using IH [OF 2(3)] plain_claimFields(2) [OF plain] unfolding childOk_def by blast
  qed
qed (use fits in simp_all)

lemma set_sorted_digests: "set (sort hs) = set hs" "distinct hs \<Longrightarrow> distinct (sort hs)"
  by simp_all

lemma UN_support: "\<forall>k. N k \<noteq> {} \<longrightarrow> k \<in> D \<and> k \<in> A \<Longrightarrow> (\<Union>k\<in>A. N k) = (\<Union>k. N k)"
  by blast

lemma sort_empty_iff: "sort xs = [] \<longleftrightarrow> xs = []"
  by (metis length_0_conv length_sort)

text \<open>The object and the array \<open>pack\<close> puts together from its loops.\<close>

lemma packed_object:
  assumes plain: "plainClaims (JObj kvs)"
    and cg: "childrenGood (JObj kvs) st st1 packed ds D new N"
    and a: "adds st1 st2 dnew (rev sds)" and fs: "fieldsSplit packed kvs out sds dnew K"
    and dec: "adds st2 st3 [] (rev decoys)"
    and ag: "agrees m (ds @ dnew) (rev decoys @ rev sds @ new)"
  shows "good m (JObj (if sds @ decoys \<noteq> [] then setProp SD_DIGEST (JArr (map JStr (sort (sds @ decoys)))) out else out))
      (JObj kvs) (set (rev decoys @ rev sds @ new))"
proof -
  let ?hs = "sort (sds @ decoys)"
  let ?fs = "if sds @ decoys \<noteq> [] then setProp SD_DIGEST (JArr (map JStr ?hs)) out else out"
  note C = childrenGoodD [OF cg] and F = fieldsSplitD [OF fs]
  have cf: "claimFields (JObj kvs) = kvs" by (simp add: claimFields_def)
  note pk = plain_claimFields [OF plain, unfolded cf]
  have a01: "adds st st2 (ds @ dnew) (rev sds @ new)" by (rule adds_trans [OF C(1) a])
  have ag': "agrees m ((ds @ dnew) @ []) (rev decoys @ (rev sds @ new))" using ag by simp
  note ag2 = agrees_split [OF ag' a01 dec]
  note ag1 = agrees_split [OF ag2(1) C(1) a]
  have dis: "set decoys \<inter> set sds = {}" "(set decoys \<union> set sds) \<inter> set new = {}" "distinct (sds @ decoys)"
    using adds_disjoint [OF a01 dec] adds_disjoint [OF C(1) a] a dec by (auto simp: adds_def)
  have hs: "set ?hs = set sds \<union> set decoys" by simp
  have dK: "disclosed K (set ?hs) = disclosed K (set sds)"
    using F(5) unfolding hs disclosed_def by fastforce
  have outk: "fst ` set out = fst ` set kvs - disclosed K (set sds)"
    by (rule fieldsSplit_keys [OF fs])
  have nkvs: "SD_DIGEST \<notin> fst ` set kvs" using pk(2) [of SD_DIGEST] by auto
  have dout: "SD_DIGEST \<notin> fst ` set out" "SD_DIGEST \<noteq> ''__proto__''"
  proof -
    show "SD_DIGEST \<notin> fst ` set out" using outk nkvs by simp
  qed (simp add: SD_DIGEST_def)
  have fsset: "set ?fs = (if sds @ decoys \<noteq> [] then insert (SD_DIGEST, JArr (map JStr ?hs)) (set out) else set out)"
    using dout by (simp add: setProp_def set_insertProp)
  have Nnew: "N k \<subseteq> set new" for k using C(6) by blast
  have NSD: "N SD_DIGEST = {}" using C(4) nkvs unfolding cf by blast
  have "good m (JObj ?fs) (JObj kvs) (set ?hs \<union> (\<Union>k\<in>fst ` set kvs. N k))"
  proof (rule good_object [OF plain])
    show "distinct (map fst ?fs)" using F(1) by (simp add: distinct_setProp)
    show "distinct ?hs" using dis(3) by simp
    have "map_of out SD_DIGEST = None" using dout(1) by (simp add: map_of_eq_None_iff)
    then show "map_of ?fs SD_DIGEST = (if ?hs = [] then None else Some (JArr (map JStr ?hs)))"
      using F(1) dout(2) sort_empty_iff [of "sds @ decoys"] by (simp add: map_of_setProp)
    show "good m v (the (map_of kvs k)) (N k)" if "(k, v) \<in> set ?fs" "k \<noteq> SD_DIGEST" for k v
    proof -
      have "(k, v) \<in> set out" using that fsset by (auto split: if_splits)
      then obtain c where c: "(k, c) \<in> set kvs" "v = pick packed k c" unfolding F(2) by blast
      then have "map_of kvs k = Some c" using pk(1) by simp
      then show ?thesis using C(7) [OF ag1(1), of k c] c cf by simp
    qed
    show "sdEntry m (\<lambda>k. the (map_of kvs k)) N K h" if "h \<in> set ?hs" for h
    proof (cases "h \<in> set sds")
      case True
      then obtain k c d where k: "K h = Some k" "(k, c) \<in> set kvs" "d \<in> set dnew" "dig d = h"
        "d_key d = Some k" "d_value d = pick packed k c" using F(7) by blast
      then have "h \<in> fst ` set m \<and> getDisc m h = Some (Some k, pick packed k c)"
        using ag1(2) by (auto simp: agrees_def)
      moreover have "good m (pick packed k c) (the (map_of kvs k)) (N k)"
        using C(7) [OF ag1(1), of k c] k(2) cf pk(1) by simp
      ultimately show ?thesis using k(1) by (auto simp: sdEntry_def)
    next
      case False
      then have "h \<in> set decoys" using that hs by auto
      then have "getDisc m h = None" using ag2(2) by (auto simp: agrees_def)
      moreover have "K h = None" using F(5) False by blast
      ultimately show ?thesis by (simp add: sdEntry_def)
    qed
    show "h = h'" if "K h = Some k" "K h' = Some k" for h h' k using that by (rule F(4))
    show "fst ` set ?fs - {SD_DIGEST} = fst ` set kvs - disclosed K (set ?hs)"
      unfolding dK outk [symmetric] fsset using dout(1) by auto
    show "disclosed K (set ?hs) \<subseteq> fst ` set kvs" unfolding dK by (rule F(3))
    show "N k \<inter> N l = {}" if "k \<noteq> l" for k l using C(5) that by blast
    show "N k \<inter> set ?hs = {}" for k unfolding hs using Nnew [of k] dis(2) by blast
    show "N SD_DIGEST = {}" by (rule NSD)
    show "finite (N k)" for k using Nnew [of k] by (rule finite_subset) simp
  qed
  moreover have "set ?hs \<union> (\<Union>k\<in>fst ` set kvs. N k) = set (rev decoys @ rev sds @ new)"
  proof -
    have "(\<Union>k\<in>fst ` set kvs. N k) = set new" using UN_support [OF C(4)] unfolding cf C(6) .
    then show ?thesis unfolding hs set_append set_rev by (simp only: Un_ac)
  qed
  ultimately show ?thesis by (simp only:)
qed

lemma packed_array:
  assumes plain: "plainClaims (JArr xs)"
    and cg: "childrenGood (JArr xs) st st1 packed ds D new N"
    and a: "adds st1 st2 dnew new2" and dec: "adds st2 st3 [] (rev decoys)"
    and el: "\<And>m. agrees m dnew new2 \<Longrightarrow>
        \<forall>i < length xs. good m (pick packed (natText i) (xs ! i)) (xs ! i) (N (natText i)) \<Longrightarrow>
        arrGood m items xs (set new2 \<union> (\<Union>i<length xs. N (natText i)))"
    and ag: "agrees m (ds @ dnew) (rev decoys @ new2 @ new)"
  shows "good m (JArr (items @ map placeholder decoys)) (JArr xs) (set (rev decoys @ new2 @ new))"
proof -
  note C = childrenGoodD [OF cg]
  have cf: "claimFields (JArr xs) = map (\<lambda>i. (natText i, xs ! i)) [0..<length xs]" by (simp add: claimFields_def)
  have a01: "adds st st2 (ds @ dnew) (new2 @ new)" by (rule adds_trans [OF C(1) a])
  have ag': "agrees m ((ds @ dnew) @ []) (rev decoys @ (new2 @ new))" using ag by simp
  note ag2 = agrees_split [OF ag' a01 dec]
  note ag1 = agrees_split [OF ag2(1) C(1) a]
  have "(\<Union>k\<in>fst ` set (claimFields (JArr xs)). N k) = set new" using UN_support [OF C(4)] unfolding C(6) .
  moreover have "fst ` set (claimFields (JArr xs)) = natText ` {..<length xs}"
    by (auto simp: cf image_image lessThan_atLeast0)
  ultimately have N: "(\<Union>i<length xs. N (natText i)) = set new" by simp
  have "good m (pick packed (natText i) (xs ! i)) (xs ! i) (N (natText i))" if "i < length xs" for i
    by (rule C(7) [OF ag1(1)]) (use that in \<open>auto simp: cf\<close>)
  then have "arrGood m items xs (set new2 \<union> set new)"
    using el [OF ag1(2)] unfolding N by blast
  moreover have "arrGood m (map placeholder decoys) [] (set decoys)"
    using dec ag2(2) by (intro arrGood_decoys) (auto simp: adds_def agrees_def)
  moreover have "(set new2 \<union> set new) \<inter> set decoys = {}"
    using adds_disjoint [OF a01 dec] by auto
  ultimately have "arrGood m (items @ map placeholder decoys) (xs @ []) ((set new2 \<union> set new) \<union> set decoys)"
    by (rule arrGood_append)
  then have "good m (JArr (items @ map placeholder decoys)) (JArr xs) ((set new2 \<union> set new) \<union> set decoys)"
    by (intro good_array) simp
  then show ?thesis by (simp add: Un_ac)
qed

lemma reserved_proto: "''__proto__'' \<in> set protoKeys"
  by (simp add: protoKeys_def)

lemma pack_object:
  "pack p alg sg (JObj kvs) (JObj fkvs) st =
     bindR (foldR (childStep p alg sg (JObj kvs) (JObj fkvs)) ([], [], st) fkvs) (\<lambda>(packed, ds, st1).
     bindR (foldR (fieldStep p alg sg (JObj fkvs) packed) ([], [], ds, st1) kvs) (\<lambda>(out, sds, ds', st2).
     bindR (decoyLoop p alg sg (decoyCount (JObj fkvs)) st2) (\<lambda>(decoys, st3).
       Inr (JObj (if sds @ decoys \<noteq> [] then setProp SD_DIGEST (JArr (map JStr (sort (sds @ decoys)))) out else out),
            ds', st3))))"
  by (simp add: pack.simps [of p alg sg "JObj kvs"] frameFields_def)

lemma pack_array:
  "pack p alg sg (JArr xs) (JObj fkvs) st =
     bindR (foldR (childStep p alg sg (JArr xs) (JObj fkvs)) ([], [], st) fkvs) (\<lambda>(packed, ds, st1).
     bindR (foldR (elementStep p alg sg (JObj fkvs) packed xs) ([], ds, st1) [0..<length xs]) (\<lambda>(items, ds', st2).
     bindR (decoyLoop p alg sg (decoyCount (JObj fkvs)) st2) (\<lambda>(decoys, st3).
       Inr (JArr (items @ map placeholder decoys), ds', st3))))"
  by (simp add: pack.simps [of p alg sg "JArr xs"] frameFields_def)

lemma packsWellI:
  "(\<And>st pc ds st'. pack p alg sg c f st = Inr (pc, ds, st') \<Longrightarrow> truthy pc \<and> (\<exists>new. adds st st' ds new
     \<and> (\<forall>m. agrees m ds new \<longrightarrow> good m pc c (set new)))) \<Longrightarrow> packsWell p alg sg c f"
  unfolding packsWell_def by blast

lemma pack_object_well:
  assumes p: "longDigests p" and plain: "plainClaims (JObj kvs)" and df: "distinct (map fst fkvs)"
    and ok: "\<And>key sub. (key, sub) \<in> set fkvs \<Longrightarrow> key \<noteq> SD_DIGEST \<Longrightarrow> childOk p alg sg (JObj kvs) (JObj fkvs) key sub"
  shows "packsWell p alg sg (JObj kvs) (JObj fkvs)"
proof (rule packsWellI)
  fix st pc ds st'
  assume "pack p alg sg (JObj kvs) (JObj fkvs) st = Inr (pc, ds, st')"
  then obtain packed ds1 st1 out sds st2 decoys
    where ch: "foldR (childStep p alg sg (JObj kvs) (JObj fkvs)) ([], [], st) fkvs = Inr (packed, ds1, st1)"
      and fl: "foldR (fieldStep p alg sg (JObj fkvs) packed) ([], [], ds1, st1) kvs = Inr (out, sds, ds, st2)"
      and dc: "decoyLoop p alg sg (decoyCount (JObj fkvs)) st2 = Inr (decoys, st')"
      and pc: "pc = JObj (if sds @ decoys \<noteq> [] then setProp SD_DIGEST (JArr (map JStr (sort (sds @ decoys)))) out else out)"
    unfolding pack_object bindR_tuples by (elim exE conjE) (simp only: sum.inject prod.inject)
  obtain D new N where cg: "childrenGood (JObj kvs) st st1 packed ds1 D new N"
    using children_loop [OF plain df ok ch] by blast
  have "distinct (map fst kvs)" "''__proto__'' \<notin> fst ` set kvs"
    using plain_claimFields [OF plain] reserved_proto by (auto simp: claimFields_def)
  then obtain dnew K where ds: "ds = ds1 @ dnew" and a: "adds st1 st2 dnew (rev sds)"
    and fs: "fieldsSplit packed kvs out sds dnew K"
    using fields_loop [OF p _ _ fl] by blast
  note dec = decoyLoop_adds [OF p dc]
  have "adds st st' ds (rev decoys @ rev sds @ new)"
    using adds_trans [OF adds_trans [OF childrenGoodD(1) [OF cg] a] dec] ds by simp
  moreover have "good m pc (JObj kvs) (set (rev decoys @ rev sds @ new))" if "agrees m ds (rev decoys @ rev sds @ new)" for m
    unfolding pc by (rule packed_object [OF plain cg a fs dec that [unfolded ds]])
  moreover have tr: "truthy pc" by (simp add: pc)
  ultimately show "truthy pc \<and> (\<exists>new. adds st st' ds new \<and> (\<forall>m. agrees m ds new \<longrightarrow> good m pc (JObj kvs) (set new)))"
    using tr by blast
qed

lemma pack_array_well:
  assumes p: "longDigests p" and plain: "plainClaims (JArr xs)" and df: "distinct (map fst fkvs)"
    and ok: "\<And>key sub. (key, sub) \<in> set fkvs \<Longrightarrow> key \<noteq> SD_DIGEST \<Longrightarrow> childOk p alg sg (JArr xs) (JObj fkvs) key sub"
  shows "packsWell p alg sg (JArr xs) (JObj fkvs)"
proof (rule packsWellI)
  fix st pc ds st'
  assume "pack p alg sg (JArr xs) (JObj fkvs) st = Inr (pc, ds, st')"
  then obtain packed ds1 st1 items st2 decoys
    where ch: "foldR (childStep p alg sg (JArr xs) (JObj fkvs)) ([], [], st) fkvs = Inr (packed, ds1, st1)"
      and fl: "foldR (elementStep p alg sg (JObj fkvs) packed xs) ([], ds1, st1) [0..<length xs] = Inr (items, ds, st2)"
      and dc: "decoyLoop p alg sg (decoyCount (JObj fkvs)) st2 = Inr (decoys, st')"
      and pc: "pc = JArr (items @ map placeholder decoys)"
    unfolding pack_array bindR_tuples by (elim exE conjE) (simp only: sum.inject prod.inject)
  obtain D new N where cg: "childrenGood (JArr xs) st st1 packed ds1 D new N"
    using children_loop [OF plain df ok ch] by blast
  note C = childrenGoodD [OF cg]
  have N: "N (natText i) \<subseteq> set (ps_digests st1)" for i using C(1,6) by (auto simp: adds_def)
  have dj: "\<forall>i j. i \<noteq> j \<longrightarrow> N (natText i) \<inter> N (natText j) = {}" using C(5) by simp
  obtain dnew new2 where ds: "ds = ds1 @ dnew" and a: "adds st1 st2 dnew new2"
    and el: "\<forall>m. agrees m dnew new2 \<longrightarrow>
        (\<forall>i < length xs. good m (pick packed (natText i) (xs ! i)) (xs ! i) (N (natText i))) \<longrightarrow>
        arrGood m items (take (length xs) xs) (set new2 \<union> (\<Union>i<length xs. N (natText i)))"
    using elements_loop [where N = "\<lambda>i. N (natText i)", OF p le_refl N dj fl] by (elim exE conjE) (rule that)
  note dec = decoyLoop_adds [OF p dc]
  have "adds st st' ds (rev decoys @ new2 @ new)"
    using adds_trans [OF adds_trans [OF C(1) a] dec] ds by simp
  moreover have "good m pc (JArr xs) (set (rev decoys @ new2 @ new))" if "agrees m ds (rev decoys @ new2 @ new)" for m
    unfolding pc by (rule packed_array [OF plain cg a dec _ that [unfolded ds]]) (use el in simp)
  moreover have tr: "truthy pc" by (simp add: pc)
  ultimately show "truthy pc \<and> (\<exists>new. adds st st' ds new \<and> (\<forall>m. agrees m ds new \<longrightarrow> good m pc (JArr xs) (set new)))"
    using tr by blast
qed

lemma pack_good:
  assumes p: "longDigests p"
  shows "frameFits f c \<Longrightarrow> plainClaims c \<Longrightarrow> packsWell p alg sg c f"
proof (induction f arbitrary: c rule: measure_induct_rule [of size])
  case (less f)
  show ?case
  proof (cases "truthy f")
    case False
    then show ?thesis using packsWell_falsy less.prems(2) by blast
  next
    case True
    obtain fkvs where f: "f = JObj fkvs" and df: "distinct (map fst fkvs)"
      and shp: "(\<exists>kvs. c = JObj kvs) \<or> (\<exists>xs. c = JArr xs)"
      using frameFits_truthy [OF less.prems(1) True] by blast
    have ok: "childOk p alg sg c (JObj fkvs) key sub" if ks: "(key, sub) \<in> set fkvs" "key \<noteq> SD_DIGEST" for key sub
    proof (rule childOk_fits [OF _ less.prems(2) ks])
      show "frameFits (JObj fkvs) c" using less.prems(1) f by simp
      have "size sub < size f" using size_field [OF ks(1)] by (simp add: f size_prod_snd)
      then show "packsWell p alg sg cl sub" if "frameFits sub cl" "plainClaims cl" for cl
        using that by (rule less.IH)
    qed
    show ?thesis
      using shp pack_object_well [OF p _ df] pack_array_well [OF p _ df] ok less.prems(2) unfolding f by metis
  qed
qed

section \<open>The digest map of the disclosures\<close>

lemma digestDisclosure_cached: "cached (d_digest d) \<Longrightarrow> digestDisclosure p alg d = (dig d, d)"
  by (simp add: digestDisclosure_def dig_def)

lemma hashMappingLoop_cached:
  assumes "\<forall>d \<in> set ds. cached (d_digest d) \<and> dig d \<notin> set protoKeys" and "distinct (map dig ds)"
    and "dig ` set ds \<inter> fst ` set m = {}" and "distinct (map fst m)"
  shows "\<exists>m'. hashMappingLoop p alg ds m = Inr m' \<and> distinct (map fst m')
    \<and> fst ` set m' = fst ` set m \<union> dig ` set ds
    \<and> (\<forall>d \<in> set ds. map_of m' (dig d) = Some d)
    \<and> (\<forall>h. h \<notin> dig ` set ds \<longrightarrow> map_of m' h = map_of m h)"
  using assms
proof (induction ds arbitrary: m)
  case (Cons d ds)
  let ?m = "setProp (dig d) d m"
  have d: "cached (d_digest d)" "dig d \<notin> set protoKeys" "dig d \<noteq> ''__proto__''" "dig d \<notin> fst ` set m"
    using Cons.prems(1,3) reserved_proto by auto
  then have m: "fst ` set ?m = insert (dig d) (fst ` set m)" "map_of ?m = (map_of m)(dig d \<mapsto> d)"
    using Cons.prems(4) by (simp_all add: keys_setProp map_of_setProp)
  have "dig ` set ds \<inter> fst ` set ?m = {}" "distinct (map fst ?m)"
    using Cons.prems(2,3,4) m(1) by (auto simp: distinct_setProp)
  then obtain m' where "hashMappingLoop p alg ds ?m = Inr m'" "distinct (map fst m')"
    "fst ` set m' = fst ` set ?m \<union> dig ` set ds" "\<forall>d \<in> set ds. map_of m' (dig d) = Some d"
    "\<forall>h. h \<notin> dig ` set ds \<longrightarrow> map_of m' h = map_of ?m h"
    using Cons.IH [of ?m] Cons.prems(1,2) by auto
  moreover have "dig d \<notin> dig ` set ds" using Cons.prems(2) by simp
  ultimately show ?case using d m by (simp add: digestDisclosure_cached inObj_def)
qed simp

lemma createHashMapping_adds:
  assumes "adds newPackState st' ds new"
  obtains m where "createHashMapping p alg ds = Inr m" "distinct (map fst m)" "fst ` set m = dig ` set ds"
    "agrees m ds new" "fst ` set m \<subseteq> set new"
proof -
  have ds: "\<forall>d \<in> set ds. cached (d_digest d) \<and> dig d \<notin> set protoKeys" "distinct (map dig ds)" "dig ` set ds \<subseteq> set new"
    and new: "\<forall>h \<in> set new. h \<notin> set protoKeys"
    using assms long_not_proto by (auto simp: adds_def)
  obtain m where m: "createHashMapping p alg ds = Inr m" "distinct (map fst m)" "fst ` set m = dig ` set ds"
    "\<forall>d \<in> set ds. map_of m (dig d) = Some d" "\<forall>h. h \<notin> dig ` set ds \<longrightarrow> map_of m h = None"
    using hashMappingLoop_cached [OF ds(1,2), of "[]" p alg, simplified]
    by (elim exE conjE) (rule that; simp add: createHashMapping_def)
  have "agrees m ds new"
    unfolding agrees_def getDisc_def using m(3,4,5) new by auto
  then show thesis using that m(1,2,3) ds(3) by blast
qed

section \<open>The round trip\<close>

text \<open>Only the top level may hold \<open>_sd_alg\<close>.\<close>

lemma unpackFields_no_alg:
  "unpackFields m n (c # pre) kvs keys seen = Inr r \<Longrightarrow> ''_sd_alg'' \<notin> fst ` set kvs"
proof (induction kvs arbitrary: keys seen r)
  case (Cons kv kvs)
  obtain k v where kv: "kv = (k, v)" by (cases kv)
  show ?case using Cons.prems unfolding kv
    by (auto simp: Let_def split: if_splits sum.splits dest: Cons.IH)
qed simp

lemma good_no_alg: "good m (JObj kvs) c N \<Longrightarrow> ''_sd_alg'' \<notin> fst ` set kvs"
proof -
  assume "good m (JObj kvs) c N"
  then obtain w ks s' where "unpackVal m (card (N \<inter> fst ` set m)) ''x'' (JObj kvs) [] = Inr (w, ks, s')"
    using goodD [of m "JObj kvs" c N _ "[]" "''x''"] by (metis inf_bot_right le_refl list.set(1))
  then show ?thesis by (auto simp: bindR_tuples simp del: bindR_eq_Inr dest: unpackFields_no_alg)
qed

lemma getSdAlgAndPayload_issued:
  assumes "''_sd_alg'' \<notin> fst ` set packed" and "alg \<in> set DEFAULT_SECURE_HASH_ALGORITHMS"
  shows "getSdAlgAndPayload (packed @ [(''_sd_alg'', JStr alg)]) DEFAULT_SECURE_HASH_ALGORITHMS = Inr (alg, packed)"
proof -
  have "without ''_sd_alg'' (packed @ [(''_sd_alg'', JStr alg)]) = packed"
    using without_absent [OF assms(1)] by (simp add: without_def)
  moreover have "map_of (packed @ [(''_sd_alg'', JStr alg)]) ''_sd_alg'' = Some (JStr alg)"
    using assms(1) by (simp add: map_of_eq_None_iff [THEN iffD2] map_add_def)
  moreover have "alg \<in> set IANA_HASH_ALGORITHMS"
    using assms(2) by (auto simp: IANA_HASH_ALGORITHMS_def DEFAULT_SECURE_HASH_ALGORITHMS_def)
  ultimately show ?thesis using assms(2) by (simp add: getSdAlgAndPayload_def)
qed

lemma good_unpackObj:
  assumes g: "good m v c N" and m: "fst ` set m \<subseteq> N" "distinct (map fst m)"
  shows "\<exists>w ks. unpackObj v m = Inr (w, ks) \<and> sameJson w c"
proof -
  have "card (N \<inter> fst ` set m) \<le> card (fst ` set m)" by (intro card_mono) auto
  also have "\<dots> \<le> Suc (length m)" using card_image_le [of "set m" fst] card_length [of m] by auto
  finally obtain w ks s' where "unpackVal m (Suc (length m)) [] v [] = Inr (w, ks, s')" "sameJson w c" "set s' = N"
    using goodD [OF g, of "Suc (length m)" "[]" "[]"] by auto
  moreover have "jclone v = v" using good_facts [OF g] by (simp add: jclone_id)
  moreover have "filter (\<lambda>d. d \<notin> set s') (map fst m) = []"
    using m(1) \<open>set s' = N\<close> by (auto simp: filter_empty_conv)
  ultimately show ?thesis by (simp add: unpackObj_def)
qed

lemma pack_unpack:
  assumes "longDigests p" and "plainClaims (JObj kvs)" and "frameFits frame (JObj kvs)"
    and "alg \<in> set DEFAULT_SECURE_HASH_ALGORITHMS"
    and "pack p alg sg (JObj kvs) frame newPackState = Inr (JObj packed, ds, st)"
  shows "''_sd_alg'' \<notin> fst ` set packed
    \<and> (\<exists>v keys. unpack p (packed @ [(''_sd_alg'', JStr alg)]) ds = Inr (v, keys) \<and> sameJson v (JObj kvs))"
proof -
  obtain new where a: "adds newPackState st ds new"
    and g: "\<And>m. agrees m ds new \<Longrightarrow> good m (JObj packed) (JObj kvs) (set new)"
    using pack_good [OF assms(1,3,2), unfolded packsWell_def, rule_format, OF assms(5)]
    by (elim exE conjE) (rule that; blast)
  obtain m where m: "createHashMapping p alg ds = Inr m" "distinct (map fst m)" "agrees m ds new" "fst ` set m \<subseteq> set new"
    by (rule createHashMapping_adds [OF a, of p alg])
  note gm = g [OF m(3)]
  obtain v keys where "unpackObj (JObj packed) m = Inr (v, keys)" "sameJson v (JObj kvs)"
    using good_unpackObj [OF gm m(4,2)] by blast
  then show ?thesis
    using m(1) good_no_alg [OF gm] getSdAlgAndPayload_issued [OF good_no_alg [OF gm] assms(4)] by (simp add: unpack_def)
qed


text \<open>A payload with one claim and one array element disclosed, under a hasher that pads its input.\<close>

definition samplePlatform :: platform where
  "samplePlatform = \<lparr>hashOf = \<lambda>s alg. stringToBytes s @ replicate 16 0,
     stringify = \<lambda>v. case v of JArr (JStr salt # _) \<Rightarrow> salt | _ \<Rightarrow> [], parseJson = \<lambda>_. None\<rparr>"

definition sampleClaims :: fields where
  "sampleClaims = [(''name'', JStr ''Ada''), (''tags'', JArr [JStr ''x'', JNum 1])]"

definition sampleFrame :: json where
  "sampleFrame = JObj [(SD_DIGEST, JArr [JStr ''name'']), (''tags'', JObj [(SD_DIGEST, JArr [JNum 1])])]"

lemma sample_pack:
  "case pack samplePlatform ''sha-256'' natText (JObj sampleClaims) sampleFrame newPackState of
    Inr (JObj packed, ds, st) \<Rightarrow> length ds = 2 | _ \<Rightarrow> False"
  by (simp add: sampleClaims_def sampleFrame_def pack_object pack_array elementStep_def fieldStep_def
    samplePlatform_def sd_constants newPackState_def getProp_def setProp_def pick_def frameProp_def childOf_def sdIncludes_def frameFields_def disclose_def natText.simps protoKeys_def
   createDisclosureSalt_def addDisclosureDigest_def newDisclosure_def digestDisclosure_def digestOf_def encodeDisclosure_def
   cached_def decoyCount_def disclosureData_def parseInt10_def isDigit_def decValue_def Let_def indexText_def insertProp.simps indexKey_def
   stringToBytes_def base64urlEncode_def uint8ArrayToBase64Url_def placeholder_def; code_simp)
lemma sample_fits: "frameFits sampleFrame (JObj sampleClaims)"
  by (simp add: sampleClaims_def sampleFrame_def sd_constants)


end
