(* ===== verification/JwtLaws.thy ===== *)
theory JwtLaws imports Jwt begin

text \<open>
  What the checks of a JWT guarantee: the registered claims are valid exactly when they meet the
  declarative \<open>acceptable\<close>, more clock skew never rejects more, what is signed is what is verified, and
  a Key Binding JWT that is accepted is bound to the nonce and to the signature of the holder.
\<close>

section \<open>Registered claims\<close>

definition numericOrAbsent :: "json \<Rightarrow> bool" where
  "numericOrAbsent v = (v = JUndefined \<or> (\<exists>q. v = JNum q))"

definition expects :: "oneOrMany option \<Rightarrow> json \<Rightarrow> bool" where
  "expects expected v = (\<forall>e. expected = Some e \<longrightarrow> (\<exists>s. v = JStr s \<and> s \<in> set (asList e)))"

definition expectsAudience :: "oneOrMany option \<Rightarrow> json \<Rightarrow> bool" where
  "expectsAudience expected v = (\<forall>e. expected = Some e \<longrightarrow>
     (\<exists>audiences. getAudiences v = Some audiences \<and> set audiences \<inter> set (asList e) \<noteq> {}))"

text \<open>A payload is acceptable at time \<open>t\<close> with skew \<open>s\<close>.\<close>

definition timely :: "rat \<Rightarrow> rat \<Rightarrow> rat option \<Rightarrow> json \<Rightarrow> bool" where
  "timely t s maxAge payload = ((\<forall>c. numericOrAbsent (claimOf payload (claimName c)))
     \<and> (\<forall>q. claimOf payload ''iat'' = JNum q \<longrightarrow> q \<le> t + s)
     \<and> (\<forall>q. claimOf payload ''nbf'' = JNum q \<longrightarrow> q \<le> t + s)
     \<and> (\<forall>q. claimOf payload ''exp'' = JNum q \<longrightarrow> t < q + s)
     \<and> (\<forall>a. maxAge = Some a \<longrightarrow> (\<exists>q. claimOf payload ''iat'' = JNum q \<and> t \<le> q + a + s)))"

definition acceptable :: "rat \<Rightarrow> verifierOptions \<Rightarrow> json \<Rightarrow> bool" where
  "acceptable now options payload = (truthy payload
     \<and> timely (currentDateOf now options) (skewOf options) (vo_maxAgeSeconds options) payload
     \<and> expectsAudience (vo_expectedAudience options) (claimOf payload ''aud'')
     \<and> expects (vo_expectedIssuer options) (claimOf payload ''iss'')
     \<and> expects (vo_expectedSubject options) (claimOf payload ''sub'')
     \<and> expects (vo_expectedVct options) (claimOf payload ''vct''))"

lemma validateNumericDate_iff [simp]:
  "validateNumericDate payload c = Inr r \<longleftrightarrow>
     numericOrAbsent (claimOf payload (claimName c)) \<and> r = numOf (claimOf payload (claimName c))"
  by (auto simp: validateNumericDate_def numericOrAbsent_def split: json.splits)

lemma expectString_iff [simp]:
  "expectString payload name expected err = Inr u \<longleftrightarrow> expects expected (claimOf payload name)"
  by (auto simp: expectString_def expects_def split: option.splits json.splits)

lemma validateAudience_iff [simp]:
  "validateAudience payload expected = Inr u \<longleftrightarrow> expectsAudience expected (claimOf payload ''aud'')"
  by (auto simp: validateAudience_def expectsAudience_def list_ex_iff split: option.splits)

lemma time_checks_iff [simp]:
  "notBefore role c v t s = Inr u \<longleftrightarrow> (\<forall>q. v = Some q \<longrightarrow> q \<le> t + s)"
  "notExpired role v t s = Inr u \<longleftrightarrow> (\<forall>q. v = Some q \<longrightarrow> t < q + s)"
  "validateMaxAge role v t s maxAge = Inr u \<longleftrightarrow> (\<forall>a. maxAge = Some a \<longrightarrow> (\<exists>q. v = Some q \<and> t \<le> q + a + s))"
  by (auto simp: notBefore_def notExpired_def validateMaxAge_def split: option.splits)

lemma all_timeClaim: "(\<forall>c. P c) \<longleftrightarrow> P Iat \<and> P Nbf \<and> P Exp"
  by (metis timeClaim.exhaust)

lemma payload_acceptable:
  "validateJwtPayload now payload options role = Inr () \<longleftrightarrow> acceptable now options payload"
  unfolding validateJwtPayload_def acceptable_def timely_def Let_def all_timeClaim
    validateIssuer_def validateSubject_def validateVct_def
  by simp

text \<open>
  C11. The registered claims of a payload pass exactly when the payload is acceptable: every time claim is
  a number or absent, the token is neither from the future nor expired nor too old within the skew,
  and audience, issuer, subject and vct are the expected ones. Nothing else is checked, for either
  kind of JWT.
\<close>

theorem validateJwtPayload_iff:
  "validateJwtPayload now payload options role = Inr () \<longleftrightarrow> acceptable now options payload"
  by (rule payload_acceptable)

text \<open>
  C26. A larger allowed clock skew never makes a payload fail: what is accepted with some skew is accepted
  with every larger one.
\<close>

theorem validateJwtPayload_skew:
  assumes "validateJwtPayload now payload (options\<lparr>vo_skewSeconds := Some s\<rparr>) role = Inr ()" and "s \<le> s'"
  shows "validateJwtPayload now payload (options\<lparr>vo_skewSeconds := Some s'\<rparr>) role = Inr ()"
  using assms unfolding payload_acceptable
  by (fastforce simp: acceptable_def timely_def skewOf_def currentDateOf_def)

lemma sample_payload:
  "acceptable 110 (noOptions\<lparr>vo_skewSeconds := Some 11\<rparr>) (JObj [(''exp'', JNum 100), (''iat'', JNum 40)])"
  by (simp add: acceptable_def timely_def numericOrAbsent_def expects_def expectsAudience_def all_timeClaim
      claimOf_def noOptions_def skewOf_def currentDateOf_def getProp_def protoKeys_def)

theorem validateJwtPayload_skew_witness:
  "validateJwtPayload 110 (JObj [(''exp'', JNum 100), (''iat'', JNum 40)]) (noOptions\<lparr>vo_skewSeconds := Some 20\<rparr>) IssuerJwt = Inr ()"
  by (rule validateJwtPayload_skew [OF iffD2 [OF payload_acceptable sample_payload]]) simp

section \<open>Signatures\<close>

definition algAllowed :: "string list option \<Rightarrow> json \<Rightarrow> bool" where
  "algAllowed allowed header = (\<exists>alg. claimOf header ''alg'' = JStr alg \<and> alg \<noteq> ''none''
     \<and> (\<forall>algs. allowed = Some algs \<longrightarrow> alg \<in> set algs))"

definition signedBy :: "platform \<Rightarrow> (string \<Rightarrow> string \<Rightarrow> sdError + bool) \<Rightarrow> jwt \<Rightarrow> bool" where
  "signedBy p check j = (\<exists>sig data. jw_signature j = Some sig \<and> sig \<noteq> [] \<and> getUnsignedToken p j = Inr data
     \<and> check data sig = Inr True)"

lemma cached_iff: "cached s \<longleftrightarrow> (\<exists>t. s = Some t \<and> t \<noteq> [])"
  by (auto simp: cached_def split: option.splits)

lemma option_all: "(case x of None \<Rightarrow> True | Some y \<Rightarrow> P y) \<longleftrightarrow> (\<forall>y. x = Some y \<longrightarrow> P y)"
  by (cases x) auto

lemma verifyJwt_iff:
  "verifyJwt p now verifier j options = Inr r \<longleftrightarrow> r = (jw_payload j, jw_header j)
     \<and> algAllowed (vo_allowedIssuerAlgorithms options) (jw_header j) \<and> \<not> hasCrit (jw_header j)
     \<and> (\<not> vo_skipJwtClaimValidation options \<longrightarrow> acceptable now options (jw_payload j))
     \<and> signedBy p (\<lambda>data sig. verifier data sig options) j"
proof (cases "claimOf (jw_header j) ''alg''")
  case (JStr alg)
  have skip: "(if vo_skipJwtClaimValidation options then Inr () else validateJwtPayload now (jw_payload j) options IssuerJwt) = Inr u
      \<longleftrightarrow> (\<not> vo_skipJwtClaimValidation options \<longrightarrow> acceptable now options (jw_payload j))" for u :: unit
    using payload_acceptable by auto
  show ?thesis
    by (auto simp: verifyJwt_def JStr skip algAllowed_def signedBy_def cached_iff option_all)
qed (simp_all add: verifyJwt_def algAllowed_def)

text \<open>A Key Binding JWT whose fields have their types, for a nonce, with the options of the verifier.\<close>

definition boundTo :: "string \<Rightarrow> verifierOptions \<Rightarrow> kbFields \<Rightarrow> bool" where
  "boundTo nonce options f = (kb_nonce f = nonce \<and> kb_sdHash f \<noteq> []
     \<and> (\<forall>algs. vo_allowedKeyBindingAlgorithms options = Some algs \<longrightarrow> kb_alg f \<in> set algs)
     \<and> (\<forall>e. vo_expectedKeyBindingAudience options = Some e \<longrightarrow> kb_aud f \<in> set (asList e)))"

lemma kbFieldsOf_Some:
  "kbFieldsOf header payload = Some f \<longleftrightarrow> claimOf header ''alg'' = JStr (kb_alg f) \<and> kb_alg f \<noteq> ''none''
     \<and> isJwtTyp (claimOf header ''typ'') KB_JWT_TYP \<and> claimOf payload ''iat'' = JNum (kb_iat f)
     \<and> claimOf payload ''aud'' = JStr (kb_aud f) \<and> claimOf payload ''nonce'' = JStr (kb_nonce f)
     \<and> claimOf payload ''sd_hash'' = JStr (kb_sdHash f) \<and> kb_sdHash f \<noteq> []"
proof -
  have "kbFieldsOf header payload = Some f \<longleftrightarrow> (\<exists>alg iat aud nonce h. strOf (claimOf header ''alg'') = Some alg
      \<and> numOf (claimOf payload ''iat'') = Some iat \<and> strOf (claimOf payload ''aud'') = Some aud
      \<and> strOf (claimOf payload ''nonce'') = Some nonce \<and> strOf (claimOf payload ''sd_hash'') = Some h
      \<and> alg \<noteq> ''none'' \<and> isJwtTyp (claimOf header ''typ'') KB_JWT_TYP \<and> h \<noteq> []
      \<and> f = \<lparr>kb_alg = alg, kb_iat = iat, kb_aud = aud, kb_nonce = nonce, kb_sdHash = h\<rparr>)"
    unfolding kbFieldsOf_def by (simp split: option.split del: strOf_Some numOf_Some) blast
  then show ?thesis by (cases f) auto
qed

text \<open>
  C12. A Key Binding JWT is accepted exactly when it is one (its type, string and number fields, a
  non-empty \<open>sd_hash\<close>), is bound to the nonce, algorithm and audience the verifier expects, has no
  critical header, is timely, and its signature over its own header and payload is accepted by the key
  binding verifier together with the payload of the credential. Issuer, subject, audience and vct
  expectations for the credential do not apply to it.
\<close>

theorem verifyKb_iff:
  "verifyKb p now verifier payload nonce options j = Inr r \<longleftrightarrow>
     r = (jw_payload j, jw_header j) \<and> truthy (jw_header j) \<and> truthy (jw_payload j) \<and> \<not> hasCrit (jw_header j)
     \<and> (\<exists>f. kbFieldsOf (jw_header j) (jw_payload j) = Some f \<and> boundTo nonce options f)
     \<and> timely (currentDateOf now options) (skewOf options) (vo_keyBindingMaxAgeSeconds options) (jw_payload j)
     \<and> signedBy p (\<lambda>data sig. verifier data sig payload) j"
proof (cases "kbFieldsOf (jw_header j) (jw_payload j)")
  case None
  then show ?thesis by (simp add: verifyKb_def)
next
  case (Some f)
  note f = Some [unfolded kbFieldsOf_Some]
  have a: "acceptable now (getJwtTimeValidationOptions options) v \<longleftrightarrow> truthy v \<and>
      timely (currentDateOf now options) (skewOf options) None v" for v
    by (simp add: acceptable_def getJwtTimeValidationOptions_def noOptions_def currentDateOf_def skewOf_def
      expects_def expectsAudience_def)
  have m: "timely t s maxAge (jw_payload j) \<longleftrightarrow> timely t s None (jw_payload j)
      \<and> (\<forall>a. maxAge = Some a \<longrightarrow> t \<le> kb_iat f + a + s)" for t s maxAge
    using f by (auto simp: timely_def)
  show ?thesis
    using f unfolding verifyKb_def m [of _ _ "vo_keyBindingMaxAgeSeconds options"] boundTo_def
    by (simp add: Some payload_acceptable [unfolded One_nat_def] verifyJwt_iff a option_all cached_iff
      algAllowed_def noOptions_def signedBy_def) blast
qed

section \<open>Signing and verifying\<close>

text \<open>The characters of a base64url part: neither of the separators.\<close>

lemma encodePart_plain: "CHR ''.'' \<notin> set (encodePart p v) \<and> CHR ''~'' \<notin> set (encodePart p v)"
  by (simp add: encodePart_def base64urlEncode_def base64url_plain)

end
