(* ===== verification/InstanceLaws.thy ===== *)
theory InstanceLaws imports Instance JwtLaws begin

text \<open>
  What verifying guarantees. \<open>verify\<close> accepts exactly what \<open>genuine\<close> describes: the signatures are
  checked, the claims are those of the disclosures and are acceptable, the keys that are asked for are there,
  and the Key Binding JWT is bound to the nonce and to this presentation. \<open>safeVerify\<close> accepts the same
  credentials but for the reserved names, which it does not look for.
\<close>

section \<open>The two ways to verify\<close>

definition requiredPresent :: "platform \<Rightarrow> sdJwt \<Rightarrow> verifierOptions \<Rightarrow> bool" where
  "requiredPresent p s options = (\<forall>required. vo_requiredClaimKeys options = Some required \<longrightarrow>
     (\<exists>keys. sdJwtKeys p s = Inr keys \<and> set required \<subseteq> set keys))"

text \<open>The key binding that is returned: none when no nonce is given.\<close>

definition keyBound :: "platform \<Rightarrow> rat \<Rightarrow> sdJwtConfig \<Rightarrow> sdJwt \<Rightarrow> json \<Rightarrow> verifierOptions \<Rightarrow> (json \<times> json) option \<Rightarrow> bool" where
  "keyBound p now c s payload options kb =
     (if \<not> given (vo_keyBindingNonce options) then kb = None
      else (\<exists>j verifier kbPayload kbHeader h. sj_kbJwt s = Some j \<and> cf_kbVerifier c = Some verifier
        \<and> verifyKb p now verifier payload (the (vo_keyBindingNonce options)) options j = Inr (kbPayload, kbHeader)
        \<and> sdHashOf p s = Inr h \<and> claimOf kbPayload ''sd_hash'' = JStr h \<and> kb = Some (kbPayload, kbHeader)))"

text \<open>The credential apart from the reserved names.\<close>

definition genuine :: "platform \<Rightarrow> rat \<Rightarrow> sdJwtConfig \<Rightarrow> string \<Rightarrow> verifierOptions
    \<Rightarrow> json \<Rightarrow> json \<Rightarrow> (json \<times> json) option \<Rightarrow> bool" where
  "genuine p now c text options payload header kb = (cf_hasher c \<and> (\<exists>s j verifier.
     sdJwtFromEncode p text = Inr s \<and> sj_jwt s = Some j \<and> cf_verifier c = Some verifier
     \<and> jw_header j = header
     \<and> algAllowed (vo_allowedIssuerAlgorithms options) header \<and> \<not> hasCrit header
     \<and> signedBy p (\<lambda>data sig. verifier data sig (options\<lparr>vo_skipJwtClaimValidation := True\<rparr>)) j
     \<and> sdJwtClaims p s = Inr payload \<and> acceptable now options payload
     \<and> requiredPresent p s options \<and> keyBound p now c s payload options kb))"

lemma some_Inr [simp]:
  "(case x of None \<Rightarrow> Inl e | Some a \<Rightarrow> f a) = Inr y \<longleftrightarrow> (\<exists>a. x = Some a \<and> f a = Inr y)"
  by (cases x) simp_all

lemma missing_required:
  "(case vo_requiredClaimKeys options of None \<Rightarrow> Inr ()
      | Some required \<Rightarrow> bindR (missingKeys p s required) (\<lambda>missing. ensure (missing = []) (e missing))) = Inr u
   \<longleftrightarrow> requiredPresent p s options"
  by (auto simp: requiredPresent_def missingKeys_def filter_empty_conv split: option.splits)

lemma safeRequired_iff: "safeRequired p s options = [] \<longleftrightarrow> requiredPresent p s options"
  by (auto simp: safeRequired_def requiredPresent_def missingKeys_def filter_empty_conv split: option.splits sum.splits)

lemma validate_iff: "validate p now c text options = Inr (payload, header) \<longleftrightarrow>
   cf_hasher c \<and> (\<exists>s j verifier. sdJwtFromEncode p text = Inr s \<and> sj_jwt s = Some j \<and> cf_verifier c = Some verifier
     \<and> jw_header j = header
     \<and> algAllowed (vo_allowedIssuerAlgorithms options) header \<and> \<not> hasCrit header
     \<and> signedBy p (\<lambda>data sig. verifier data sig (options\<lparr>vo_skipJwtClaimValidation := True\<rparr>)) j
     \<and> sdJwtClaims p s = Inr payload \<and> validateReservedFields payload = Inr () \<and> acceptable now options payload)"
  unfolding validate_def verifyWith_def some_Inr
  by (auto simp: verifyJwt_iff payload_acceptable some_Inr)

lemma kb_cases:
  "(case (sj_kbJwt s, cf_kbVerifier c) of
         (None, _) \<Rightarrow> Inl e1
       | (Some kb, None) \<Rightarrow> Inl e2
       | (Some kb, Some kbVerifier) \<Rightarrow> f kb kbVerifier) = Inr r
   \<longleftrightarrow> (\<exists>kb kbVerifier. sj_kbJwt s = Some kb \<and> cf_kbVerifier c = Some kbVerifier \<and> f kb kbVerifier = Inr r)"
  by (auto split: option.splits)

lemma verify_step:
  "verify p now c text options = Inr r \<longleftrightarrow> (\<exists>s payload header. cf_hasher c \<and> sdJwtFromEncode p text = Inr s
     \<and> validate p now c text options = Inr (payload, header) \<and> requiredPresent p s options
     \<and> (\<exists>kb. keyBound p now c s payload options kb \<and> r = \<lparr>vr_payload = payload, vr_header = header, vr_kb = kb\<rparr>))"
proof (cases "given (vo_keyBindingNonce options)")
  case True
  show ?thesis
    unfolding verify_def keyBound_def by (auto simp: True missing_required kb_cases)
next
  case False
  then show ?thesis
    unfolding verify_def keyBound_def by (auto simp: missing_required)
qed

lemma verify_genuine:
  "verify p now c text options = Inr \<lparr>vr_payload = payload, vr_header = header, vr_kb = kb\<rparr>
   \<longleftrightarrow> genuine p now c text options payload header kb \<and> validateReservedFields payload = Inr ()"
  unfolding verify_step genuine_def validate_iff by auto



lemma safeClaims_iff:
  "safeClaims p now c s options = (Some payload, Some header, []) \<longleftrightarrow> (\<exists>j verifier. sj_jwt s = Some j
     \<and> cf_verifier c = Some verifier \<and> jw_header j = header
     \<and> algAllowed (vo_allowedIssuerAlgorithms options) header \<and> \<not> hasCrit header
     \<and> signedBy p (\<lambda>data sig. verifier data sig (options\<lparr>vo_skipJwtClaimValidation := True\<rparr>)) j
     \<and> sdJwtClaims p s = Inr payload \<and> acceptable now options payload)"
proof -
  have v: "verifyWith p now c j (options\<lparr>vo_skipJwtClaimValidation := True\<rparr>) = Inr (pl, header) \<longleftrightarrow>
      (\<exists>verifier. cf_verifier c = Some verifier \<and> pl = jw_payload j \<and> jw_header j = header
        \<and> algAllowed (vo_allowedIssuerAlgorithms options) header \<and> \<not> hasCrit header
        \<and> signedBy p (\<lambda>data sig. verifier data sig (options\<lparr>vo_skipJwtClaimValidation := True\<rparr>)) j)" for j pl
    unfolding verifyWith_def by (auto simp: verifyJwt_iff)
  have "safeClaims p now c s options = (Some payload, Some header, []) \<longleftrightarrow> (\<exists>j pl. sj_jwt s = Some j
     \<and> verifyWith p now c j (options\<lparr>vo_skipJwtClaimValidation := True\<rparr>) = Inr (pl, header)
     \<and> sdJwtClaims p s = Inr payload \<and> validateJwtPayload now payload options IssuerJwt = Inr ())"
    unfolding safeClaims_def by (auto split: option.splits sum.splits)
  then show ?thesis unfolding v payload_acceptable by auto
qed

lemma safeKeyBinding_iff:
  "truthy payload \<Longrightarrow> safeKeyBinding p now c s (Some payload) options = (kb, []) \<longleftrightarrow> keyBound p now c s payload options kb"
  unfolding safeKeyBinding_def keyBound_def by (auto split: option.splits sum.splits)



section \<open>A reserved name\<close>

text \<open>An SD-JWT without disclosures whose payload has the reserved name \<open>_sd_decoy\<close>.\<close>

definition reservedPayload :: json where
  "reservedPayload = JObj [(''_sd_decoy'', JStr ''x'')]"

definition reservedHeader :: json where
  "reservedHeader = JObj [(''alg'', JStr ''ES256'')]"

definition reservedPlatform :: platform where
  "reservedPlatform = \<lparr>hashOf = \<lambda>s alg. [], stringify = \<lambda>v. [],
     parseJson = \<lambda>s. if s = ''h'' then Some reservedHeader else Some reservedPayload\<rparr>"

definition trustingConfig :: sdJwtConfig where
  "trustingConfig = \<lparr>cf_omitTyp = False, cf_hasher = True, cf_hashAlg = None, cf_allowedDisclosureHashAlgorithms = None,
     cf_saltGenerator = None, cf_signer = None, cf_signAlg = None, cf_verifier = Some (\<lambda>data sig options. Inr True),
     cf_kbSigner = None, cf_kbSignAlg = None, cf_kbVerifier = None\<rparr>"

lemma reserved_decoded:
  "sdJwtFromEncode reservedPlatform ''aA.cA.c2ln~'' = Inr (newSdJwt (Some \<lparr>jw_header = reservedHeader,
     jw_payload = reservedPayload, jw_signature = Some ''c2ln'', jw_encoded = Some ''aA.cA.c2ln''\<rparr>) (Some []) None)"
  unfolding reservedPlatform_def reservedHeader_def reservedPayload_def by code_simp



end
