(* ===== verification/Issued.thy ===== *)
theory Issued imports PackRoundtrip InstanceLaws begin

text \<open>
  From \<open>issue\<close> to \<open>verify\<close>: the text an issuer makes decodes to the JWT it signed and to the disclosures
  it packed, and so a verifier that trusts the signature gets the claims back.
\<close>

section \<open>Text and base64url\<close>

lemma base64url_decode_encode: "base64UrlToUint8Array (uint8ArrayToBase64Url bs) = Inr bs"
  by (simp add: base64UrlToUint8Array_def uint8ArrayToBase64Url_def base64_decode_encode)

lemma text_of_bytes: "map (\<lambda>b. char_of (unat b)) (stringToBytes s) = s"
  by (induction s) (simp_all add: stringToBytes_def unat_of_nat of_char_mod_256)

text \<open>\<open>JSON.parse\<close> reads what \<open>JSON.stringify\<close> writes for \<open>v\<close>, which is well-formed UTF-8.\<close>

definition jsonText :: "platform \<Rightarrow> json \<Rightarrow> bool" where
  "jsonText p v = (validUtf8 (stringToBytes (stringify p v)) \<and> parseJson p (stringify p v) = Some v)"

lemma decode_encodePart: "jsonText p v \<Longrightarrow> base64urlDecodeJson p (encodePart p v) = Inr v"
  by (simp add: jsonText_def base64urlDecodeJson_def base64urlDecodeFatal_def encodePart_def base64urlEncode_def
      base64url_decode_encode bytesToStringFatal_def text_of_bytes)

section \<open>The disclosures of pack\<close>

definition fresh :: "platform \<Rightarrow> string \<Rightarrow> disclosure \<Rightarrow> bool" where
  "fresh p alg d = (let e = encodePart p (disclosureData d) in
     newDisclosure (disclosureData d) (Some (digestOf p alg e, e)) = Inr d)"

lemma fresh_decoded: "fresh p alg d \<Longrightarrow> jsonText p (disclosureData d) \<Longrightarrow>
    disclosureFromEncode p alg (encodePart p (disclosureData d)) = Inr d"
  by (simp add: disclosureFromEncode_def decodeBase64urlJsonStrict_def decode_encodePart fresh_def Let_def)

text \<open>Claims without the empty name, which a disclosure does not keep.\<close>

fun namedKeys :: "json \<Rightarrow> bool" where
  "namedKeys (JArr xs) = list_all namedKeys xs"
| "namedKeys (JObj kvs) = list_all (\<lambda>kv. fst kv \<noteq> [] \<and> namedKeys (snd kv)) kvs"
| "namedKeys v = True"

lemma plain_namedKeys: "plainClaims v \<Longrightarrow> namedKeys v"
  by (induction v rule: plainClaims.induct) (auto simp: list_all_iff reservedKeys_def)

lemma disclose_fresh:
  assumes d: "disclose p alg sg kv st = Inr (g, d, st')"
    and kv: "kv = [claim] \<or> (kv = [JStr key, claim] \<and> key \<noteq> [])"
  shows "fresh p alg d"
proof -
  obtain salt st1 d0 where n: "newDisclosure (JArr (JStr salt # kv)) None = Inr d0"
    and g: "digestDisclosure p alg d0 = (g, d)"
    using d by (auto simp: disclose_def case_prod_beta prod_eq_iff)
  have new: "d_digest d0 = None" "d_encoded d0 = None" "disclosureData d0 = JArr (JStr salt # kv)"
    using n kv by (auto simp: newDisclosure_def disclosureData_def split: json.splits if_splits)
  let ?e = "encodePart p (JArr (JStr salt # kv))"
  have d: "d = d0\<lparr>d_encoded := Some ?e, d_digest := Some (digestOf p alg ?e)\<rparr>"
    using g new by (auto simp: digestDisclosure_def encodeDisclosure_def cached_def Let_def encodePart_def)
  then have "disclosureData d = JArr (JStr salt # kv)" using new(3) by (auto simp: disclosureData_def split: option.splits if_splits)
  moreover have "newDisclosure (JArr (JStr salt # kv)) (Some (digestOf p alg ?e, ?e)) = Inr d"
    using n kv by (auto simp: d newDisclosure_def split: json.splits if_splits)
  ultimately show ?thesis by (simp add: fresh_def Let_def)
qed

lemma named_fields: "namedKeys claims \<Longrightarrow> kv \<in> set (forIn claims) \<Longrightarrow> fst kv \<noteq> []"
  using natText_digits by (cases claims) (auto simp: list_all_iff)

lemma childOf_named: "childOf claims frame key sub = Inr (name, c, f) \<Longrightarrow> namedKeys claims \<Longrightarrow> namedKeys c"
proof (cases claims)
  case (JObj kvs)
  assume "childOf claims frame key sub = Inr (name, c, f)" "namedKeys claims"
  then show ?thesis unfolding JObj
    by (fastforce simp: childOf_def getProp_def list_all_iff split: option.splits dest: map_of_SomeD)
next
  case (JArr xs)
  assume "childOf claims frame key sub = Inr (name, c, f)" "namedKeys claims"
  then show ?thesis unfolding JArr
    by (auto simp: childOf_def Let_def list_all_iff split: option.splits if_splits)
next
  case (JStr s)
  assume "childOf claims frame key sub = Inr (name, c, f)" "namedKeys claims"
  then show ?thesis unfolding JStr
    by (auto simp: childOf_def split: option.splits dest!: map_of_SomeD)
qed (auto simp: childOf_def split: option.splits)


definition freshState :: "platform \<Rightarrow> string \<Rightarrow> disclosure list \<Rightarrow> bool" where
  "freshState p alg ds = (\<forall>d \<in> set ds. fresh p alg d)"

lemma elementStep_fresh:
  "elementStep p alg sg frame packed xs acc i = Inr acc' \<Longrightarrow> freshState p alg (fst (snd acc)) \<Longrightarrow>
   freshState p alg (fst (snd acc'))"
  by (auto simp: elementStep_def freshState_def Let_def split: prod.splits if_splits dest: disclose_fresh)

lemma fieldStep_fresh:
  "fieldStep p alg sg frame packed acc kv = Inr acc' \<Longrightarrow> fst kv \<noteq> [] \<Longrightarrow> freshState p alg (fst (snd (snd acc))) \<Longrightarrow>
   freshState p alg (fst (snd (snd acc')))"
  by (auto simp: fieldStep_def freshState_def Let_def split: prod.splits if_splits dest: disclose_fresh)

definition packChild :: "platform \<Rightarrow> string \<Rightarrow> saltGenerator \<Rightarrow> json \<Rightarrow> json
    \<Rightarrow> fields \<times> disclosure list \<times> packState \<Rightarrow> string \<times> json \<Rightarrow> sdError + fields \<times> disclosure list \<times> packState" where
  "packChild p alg sg claims frame acc ks =
     (if fst ks = SD_DIGEST then Inr acc
      else bindR (childOf claims frame (fst ks) (snd ks)) (\<lambda>child.
        bindR (pack p alg sg (fst (snd child)) (snd (snd child)) (snd (snd acc))) (\<lambda>res.
          Inr (setProp (fst child) (fst res) (fst acc), fst (snd acc) @ fst (snd res), snd (snd res)))))"

lemma pack_fresh: "pack p alg sg claims frame st = Inr res \<Longrightarrow> namedKeys claims \<Longrightarrow> freshState p alg (fst (snd res))"
proof (induction p alg sg claims frame st arbitrary: res rule: pack.induct)
  case (1 p alg sg claims frame st)
  show ?case
  proof (cases "truthy frame")
    case False
    then show ?thesis using "1.prems" by (auto simp: pack.simps freshState_def)
  next
    case True
    obtain packed ds st1 where f: "foldR (packChild p alg sg claims frame) ([], [], st) (frameFields frame) = Inr (packed, ds, st1)"
      and rest: "(case claims of
          JArr xs \<Rightarrow>
            bindR (foldR (elementStep p alg sg frame packed xs) ([], ds, st1) [0..<length xs]) (\<lambda>(items, ds', st2).
            bindR (decoyLoop p alg sg (decoyCount frame) st2) (\<lambda>(decoys, st3).
              Inr (JArr (items @ map placeholder decoys), ds', st3)))
        | _ \<Rightarrow>
            bindR (foldR (fieldStep p alg sg frame packed) ([], [], ds, st1) (forIn claims)) (\<lambda>(out, sds, ds', st2).
            bindR (decoyLoop p alg sg (decoyCount frame) st2) (\<lambda>(decoys, st3).
              let all = sds @ decoys in
              Inr (JObj (if length all > 0 then setProp SD_DIGEST (JArr (map JStr (sort all))) out else out), ds', st3)))) = Inr res"
      using "1.prems"(1) True unfolding packChild_def [abs_def] by (subst (asm) pack.simps) auto
    have ds: "freshState p alg (fst (snd (packed, ds, st1)))"
    proof (rule foldR_invariant [where P = "\<lambda>acc. freshState p alg (fst (snd acc))", OF f])
      show "freshState p alg (fst (snd (([], [], st) :: fields \<times> disclosure list \<times> packState)))" by (simp add: freshState_def)
      fix acc acc' ks
      assume ks: "ks \<in> set (frameFields frame)" and acc: "freshState p alg (fst (snd acc))"
        and step: "packChild p alg sg claims frame acc ks = Inr acc'"
      show "freshState p alg (fst (snd acc'))"
      proof (cases "fst ks = SD_DIGEST")
        case True
        then show ?thesis using step acc by (simp add: packChild_def)
      next
        case False
        then obtain child r where c: "childOf claims frame (fst ks) (snd ks) = Inr child"
          and r: "pack p alg sg (fst (snd child)) (snd (snd child)) (snd (snd acc)) = Inr r"
          and acc': "acc' = (setProp (fst child) (fst r) (fst acc), fst (snd acc) @ fst (snd r), snd (snd r))"
          using step by (auto simp: packChild_def)
        have "namedKeys (fst (snd child))"
          using childOf_named [of claims frame "fst ks" "snd ks" "fst child" "fst (snd child)" "snd (snd child)"] c "1.prems"(2) by simp
        then have "freshState p alg (fst (snd r))"
          using "1.IH" [OF _ ks False c r] \<open>truthy frame\<close> by simp
        then show ?thesis using acc by (auto simp: acc' freshState_def)
      qed
    qed
    show ?thesis
    proof (cases "\<exists>xs. claims = JArr xs")
      case True
      then obtain xs items ds' st2 where
        e: "foldR (elementStep p alg sg frame packed xs) ([], ds, st1) [0..<length xs] = Inr (items, ds', st2)"
        and res: "fst (snd res) = ds'"
        using rest by (auto split: prod.splits)
      show ?thesis unfolding res
        using foldR_invariant [where P = "\<lambda>acc. freshState p alg (fst (snd acc))", OF e] elementStep_fresh ds by simp
    next
      case False
      then obtain out sds ds' st2 where
        e: "foldR (fieldStep p alg sg frame packed) ([], [], ds, st1) (forIn claims) = Inr (out, sds, ds', st2)"
        and res: "fst (snd res) = ds'"
        using rest by (cases claims) (auto simp: Let_def split: prod.splits)
      have "freshState p alg (fst (snd (snd (out, sds, ds', st2))))"
        by (rule foldR_invariant [where P = "\<lambda>acc. freshState p alg (fst (snd (snd acc)))", OF e])
          (use ds fieldStep_fresh named_fields [OF "1.prems"(2)] in auto)
      then show ?thesis by (simp add: res)
    qed
  qed
qed


section \<open>Claims that are the same up to the order of keys\<close>

lemma sameJson_map_of:
  assumes "sameJson (JObj a) (JObj b)" "distinct (map fst b)"
  shows "rel_option sameJson (map_of a k) (map_of b k)"
proof -
  have l: "length a = length b" "distinct (map fst a)"
    and e: "\<And>k v. (k, v) \<in> set a \<Longrightarrow> \<exists>w. map_of b k = Some w \<and> sameJson v w"
    using assms(1) by (auto split: option.splits)
  have "fst ` set a \<subseteq> fst ` set b" using e by (force dest: map_of_SomeD)
  moreover have "card (fst ` set a) = card (fst ` set b)"
    using l assms(2) by (metis distinct_card length_map set_map)
  ultimately have keys: "fst ` set a = fst ` set b" by (simp add: card_subset_eq)
  show ?thesis
  proof (cases "map_of a k")
    case None
    then show ?thesis using keys by (metis map_of_eq_None_iff option.rel_intros(1))
  next
    case (Some v)
    then show ?thesis using e [OF map_of_SomeD [OF Some]] by auto
  qed
qed

lemma sameJson_claim:
  assumes "sameJson (JObj a) (JObj b)" "distinct (map fst b)"
  shows "sameJson (claimOf (JObj a) k) (claimOf (JObj b) k)"
  using sameJson_map_of [OF assms, of k]
  by (cases "map_of a k"; cases "map_of b k") (auto simp: claimOf_def getProp_def)

lemma sameJson_atoms:
  "sameJson v w \<Longrightarrow> v = JStr s \<longleftrightarrow> w = JStr s"
  "sameJson v w \<Longrightarrow> v = JNum q \<longleftrightarrow> w = JNum q"
  "sameJson v w \<Longrightarrow> v = JUndefined \<longleftrightarrow> w = JUndefined"
  by (cases v; cases w; auto)+

lemma sameJson_stringItems: "list_all2 sameJson xs ys \<Longrightarrow> stringItems xs = stringItems ys"
proof (induction xs ys rule: list_all2_induct)
  case (Cons x xs y ys)
  then show ?case by (cases x; cases y) auto
qed simp

lemma sameJson_audiences: "sameJson v w \<Longrightarrow> getAudiences v = getAudiences w"
proof (cases v)
  case (JArr xs)
  assume same: "sameJson v w"
  then obtain ys where w: "w = JArr ys" by (cases w) (auto simp: JArr)
  then have "list_all2 sameJson xs ys" using same by (auto simp: JArr list_all2_iff)
  from sameJson_stringItems [OF this] show ?thesis by (simp add: getAudiences_def JArr w)
next
  case (JObj kvs)
  assume "sameJson v w"
  then show ?thesis by (cases w) (auto simp: JObj getAudiences_def)
qed (cases w; auto simp: getAudiences_def)+

lemma sameJson_acceptable:
  assumes "sameJson (JObj a) (JObj b)" "distinct (map fst b)"
  shows "acceptable now options (JObj a) = acceptable now options (JObj b)"
proof -
  note c = sameJson_claim [OF assms]
  have n: "numericOrAbsent (claimOf (JObj a) k) = numericOrAbsent (claimOf (JObj b) k)" for k
    using sameJson_atoms(2,3) [OF c] by (simp add: numericOrAbsent_def)
  have e: "expects x (claimOf (JObj a) k) = expects x (claimOf (JObj b) k)" for x k
    using sameJson_atoms(1) [OF c] by (simp add: expects_def)
  show ?thesis
    unfolding acceptable_def timely_def n e expectsAudience_def sameJson_audiences [OF c] sameJson_atoms(2) [OF c]
    by simp
qed

lemma foldR_unit: "\<forall>x \<in> set xs. f () x = Inr () \<Longrightarrow> foldR f () xs = Inr ()"
  by (induction xs) auto

lemma natText_not_reserved: "natText n \<notin> set reservedFields"
proof
  assume "natText n \<in> set reservedFields"
  then have "\<not> isDigit (hd (natText n))"
    unfolding reservedFields_def by (auto simp: sd_constants isDigit_def)
  then show False using natText_hd by blast
qed

lemma plain_not_reserved: "sameJson v w \<Longrightarrow> plainClaims w \<Longrightarrow> validateReservedFields v = Inr ()"
proof (induction v arbitrary: w rule: validateReservedFields.induct)
  case (1 v)
  show ?case
  proof (cases "\<not> truthy v \<or> \<not> typeofObject v")
    case True
    then show ?thesis by (simp add: validateReservedFields.simps)
  next
    case False
    have "\<exists>w'. sameJson (snd kv) w' \<and> plainClaims w' \<and> fst kv \<notin> set reservedFields" if kv: "kv \<in> set (forIn v)" for kv
    proof (cases v)
      case (JObj kvs)
      then obtain lws where w: "w = JObj lws" using "1.prems"(1) by (cases w) auto
      obtain y where y: "map_of lws (fst kv) = Some y" "sameJson (snd kv) y"
        using "1.prems"(1) kv by (force simp: JObj w split: option.splits)
      have "fst kv \<notin> set reservedKeys \<and> plainClaims y"
        using "1.prems"(2) map_of_SomeD [OF y(1)] by (auto simp: w list_all_iff)
      then show ?thesis using y(2) by (auto simp: reservedFields_def reservedKeys_def)
    next
      case (JArr xs)
      then obtain ys where w: "w = JArr ys" using "1.prems"(1) by (cases w) auto
      obtain i where i: "i < length xs" "kv = (natText i, xs ! i)" using kv by (auto simp: JArr)
      have "list_all2 sameJson xs ys" using "1.prems"(1) by (auto simp: JArr w list_all2_iff)
      then have "length ys = length xs" "sameJson (xs ! i) (ys ! i)"
        using i(1) by (auto simp: list_all2_conv_all_nth)
      then show ?thesis using "1.prems"(2) i natText_not_reserved by (auto simp: w list_all_iff)
    qed (use kv False in auto)
    note entry = this
    have "(if fst kv \<in> set reservedFields then Inl (SdJwtError (''Reserved field name \"'' @ fst kv @ ''\" is not allowed''))
        else if typeofObject (snd kv) then validateReservedFields (snd kv) else Inr ()) = Inr ()"
      if kv: "kv \<in> set (forIn v)" for kv
    proof -
      obtain w' where w': "sameJson (snd kv) w'" "plainClaims w'" "fst kv \<notin> set reservedFields" using entry [OF kv] by blast
      have "validateReservedFields (snd kv) = Inr ()" if "typeofObject (snd kv)"
        using "1.IH" [OF False kv w'(3) that w'(1,2)] .
      then show ?thesis using w'(3) by simp
    qed
    then show ?thesis using False by (subst validateReservedFields.simps) (auto intro!: foldR_unit)
  qed
qed


section \<open>Decoding what is issued\<close>

definition compactJwt :: "platform \<Rightarrow> json \<Rightarrow> json \<Rightarrow> string \<Rightarrow> string" where
  "compactJwt p header payload sig = encodePart p header @ ''.'' @ encodePart p payload @ ''.'' @ sig"

definition noSeparators :: "string \<Rightarrow> bool" where
  "noSeparators s = (s \<noteq> [] \<and> CHR ''.'' \<notin> set s \<and> CHR ''~'' \<notin> set s)"

lemma jwt_of_compact:
  assumes "jsonText p header" "jsonText p payload" "noSeparators sig"
  shows "jwtFromEncode p (compactJwt p header payload sig)
    = Inr (newJwt header payload (Some sig) (Some (compactJwt p header payload sig)))"
proof -
  have "splitOn CHR ''.'' (compactJwt p header payload sig) = [encodePart p header, encodePart p payload, sig]"
    using assms(3) encodePart_plain by (simp add: compactJwt_def splitOn_append splitOn_plain noSeparators_def)
  then show ?thesis
    using assms(1,2) by (simp add: jwtFromEncode_def decodeJwt_def decodeJwtCommon_def decode_encodePart)
qed

lemma compactJwt_plain: "noSeparators sig \<Longrightarrow> CHR ''~'' \<notin> set (compactJwt p header payload sig)"
  using encodePart_plain by (simp add: compactJwt_def noSeparators_def)

text \<open>The text of an issued SD-JWT.\<close>

definition issuedText :: "platform \<Rightarrow> json \<Rightarrow> json \<Rightarrow> string \<Rightarrow> disclosure list \<Rightarrow> string" where
  "issuedText p header payload sig ds = joinWith [SD_SEPARATOR]
     (compactJwt p header payload sig # map (\<lambda>d. encodePart p (disclosureData d)) ds @ [[]])"

lemma decode_issued:
  assumes js: "jsonText p header" "jsonText p payload" "\<forall>d \<in> set ds. jsonText p (disclosureData d)"
    and sig: "noSeparators sig" and fresh: "freshState p alg ds"
    and payload: "payload = JObj kvs" "getSdAlgAndPayload kvs DEFAULT_SECURE_HASH_ALGORITHMS = Inr (alg, rest)"
  shows "sdJwtFromEncode p (issuedText p header payload sig ds)
    = Inr (newSdJwt (Some (newJwt header payload (Some sig) (Some (compactJwt p header payload sig)))) (Some ds) None)"
proof -
  let ?es = "map (\<lambda>d. encodePart p (disclosureData d)) ds"
  have "splitOn SD_SEPARATOR (issuedText p header payload sig ds) = compactJwt p header payload sig # ?es @ [[]]"
    unfolding issuedText_def
    by (rule splitOn_joinWith) (use compactJwt_plain [OF sig] encodePart_plain in \<open>auto simp: SD_SEPARATOR_def\<close>)
  moreover have "mapR (disclosureFromEncode p alg) ?es = Inr ds"
    using fresh_decoded fresh js(3) unfolding freshState_def by (induction ds) auto
  ultimately show ?thesis
    using jwt_of_compact [OF js(1,2) sig] payload
    by (simp add: sdJwtFromEncode_def decodeToSdJwt_def newJwt_def payloadFields_def)
qed

lemma fresh_encoded: "fresh p alg d \<Longrightarrow> d_encoded d = Some (encodePart p (disclosureData d))"
  unfolding fresh_def Let_def newDisclosure_def
  by (auto split: json.splits list.splits if_splits)

lemma encodeChosen_fresh:
  "freshState p alg ds \<Longrightarrow> encodeChosen p (map Some ds) = Inr (map (\<lambda>d. encodePart p (disclosureData d)) ds)"
proof -
  assume f: "freshState p alg ds"
  have "fst (encodeDisclosure p d) = encodePart p (disclosureData d)" if "d \<in> set ds" for d
    using fresh_encoded [of p alg d] f that
    by (auto simp: freshState_def encodeDisclosure_def Let_def encodePart_def)
  then show ?thesis unfolding encodeChosen_def by (induction ds) auto
qed

lemma issue_text:
  assumes "issue p c typ (JObj kvs) frame header = Inr text" and "cf_saltGenerator c = Some sg"
    and pk: "pack p (hashAlgOf c) sg (JObj kvs) frame newPackState = Inr (packed, ds, st)"
    and fresh: "freshState p (hashAlgOf c) ds"
  obtains sign sig where "cf_signer c = Some sign"
    "sign (encodePart p (issueHeader c typ header) @ ''.'' @ encodePart p (issuePayload packed frame (hashAlgOf c))) = Inr sig"
    "sig \<noteq> []" "text = issuedText p (issueHeader c typ header) (issuePayload packed frame (hashAlgOf c)) sig ds"
proof -
  let ?h = "issueHeader c typ header" and ?p = "issuePayload packed frame (hashAlgOf c)"
  have t: "truthy ?h" "truthy ?p" by (simp_all add: issueHeader_def issuePayload_def)
  obtain j where j: "signWith p c (newJwt ?h ?p None None) = Inr j"
    and e: "encodeSdJwt p (newSdJwt (Some j) (Some ds) None) = Inr text"
    using assms(1) unfolding issue_def Let_def assms(2) option.case pk by auto
  obtain sign sig where s: "cf_signer c = Some sign" "sign (encodePart p ?h @ ''.'' @ encodePart p ?p) = Inr sig"
    and enc: "encodeJwt p (newJwt ?h ?p (Some sig) None) = Inr (compactJwt p ?h ?p sig, j)" and "sig \<noteq> []"
    and j': "j = newJwt ?h ?p (Some sig) (Some (compactJwt p ?h ?p sig))"
    using j t by (auto simp: signWith_def signJwt_def getUnsignedToken_def encodeJwt_def newJwt_def cached_def Let_def
        compactJwt_def split: if_splits option.splits)
  have "encodeJwt p j = Inr (compactJwt p ?h ?p sig, j)"
    by (simp add: j' encodeJwt_def newJwt_def cached_def compactJwt_def)
  then have "text = joinWith [SD_SEPARATOR] ([compactJwt p ?h ?p sig]
      @ (if length (map (\<lambda>d. encodePart p (disclosureData d)) ds) > 0
         then [joinWith [SD_SEPARATOR] (map (\<lambda>d. encodePart p (disclosureData d)) ds)] else []) @ [[]])"
    using e by (simp add: encodeSdJwt_def encodeSdJwtParts_def newSdJwt_def encodeChosen_fresh [OF fresh])
  then have "text = issuedText p ?h ?p sig ds"
    unfolding joinWith_nested issuedText_def .
  then show ?thesis using that [OF s] \<open>sig \<noteq> []\<close> by blast
qed


section \<open>Issuing and verifying\<close>

lemma insertProp_name: "indexKey k = None \<Longrightarrow> insertProp k v kvs = kvs @ [(k, v)]"
  by (induction k v kvs rule: insertProp.induct) auto

lemma issuePayload_packed:
  "truthy frame \<Longrightarrow> ''_sd_alg'' \<notin> fst ` set packed \<Longrightarrow>
   issuePayload (JObj packed) frame alg = JObj (packed @ [(''_sd_alg'', JStr alg)])"
  by (simp add: issuePayload_def objectFields_def setProp_def insertProp_name indexKey_def isDigit_def)

text \<open>The header an issuer makes is one a verifier with these options takes.\<close>

definition headerAccepted :: "verifierOptions \<Rightarrow> json \<Rightarrow> bool" where
  "headerAccepted options header = (algAllowed (vo_allowedIssuerAlgorithms options) header \<and> \<not> hasCrit header)"


text \<open>A credential with a disclosed name and a disclosed element, and the text its platform gives each part.\<close>

definition credentialClaims :: fields where
  "credentialClaims = [(''name'', JStr ''Ada''), (''tags'', JArr [JStr ''x'', JStr ''y''])]"

definition credentialFrame :: json where
  "credentialFrame = JObj [(SD_DIGEST, JArr [JStr ''name'']), (''tags'', JObj [(SD_DIGEST, JArr [JNum 1])])]"

definition credentialPacked :: fields where
  "credentialPacked = [(''tags'', JArr [JStr ''x'', placeholder ''TUEAAAAAAAAAAAAAAAAAAAAA'']),
     (SD_DIGEST, JArr [JStr ''TVEAAAAAAAAAAAAAAAAAAAAA''])]"

definition credentialDisclosures :: "disclosure list" where
  "credentialDisclosures =
     [\<lparr>d_salt = ''0'', d_key = None, d_value = JStr ''y'', d_digest = Some ''TUEAAAAAAAAAAAAAAAAAAAAA'', d_encoded = Some ''MA''\<rparr>,
      \<lparr>d_salt = ''1'', d_key = Some ''name'', d_value = JStr ''Ada'', d_digest = Some ''TVEAAAAAAAAAAAAAAAAAAAAA'', d_encoded = Some ''MQ''\<rparr>]"

definition credentialHeader :: json where
  "credentialHeader = JObj [(''typ'', JStr ''dc+sd-jwt''), (''alg'', JStr ''ES256'')]"

definition credentialPlatform :: platform where
  "credentialPlatform = \<lparr>hashOf = \<lambda>s alg. stringToBytes s @ replicate 16 0,
     stringify = \<lambda>v. case v of JArr (JStr salt # _) \<Rightarrow> salt
       | JObj kvs \<Rightarrow> (if map_of kvs ''alg'' = None then ''p'' else ''h'') | _ \<Rightarrow> [],
     parseJson = \<lambda>s. map_of [(''h'', credentialHeader),
       (''p'', JObj (credentialPacked @ [(''_sd_alg'', JStr ''sha-256'')])),
       (''0'', JArr [JStr ''0'', JStr ''y'']), (''1'', JArr [JStr ''1'', JStr ''name'', JStr ''Ada''])] s\<rparr>"

definition credentialIssuer :: sdJwtConfig where
  "credentialIssuer = trustingConfig\<lparr>cf_saltGenerator := Some natText, cf_signer := Some (\<lambda>data. Inr ''sig''), cf_signAlg := Some ''ES256''\<rparr>"

lemmas credential = credentialClaims_def credentialFrame_def credentialPacked_def credentialDisclosures_def
  credentialHeader_def credentialPlatform_def credentialIssuer_def trustingConfig_def

lemma credential_pack:
  "\<exists>st. pack credentialPlatform ''sha-256'' natText (JObj credentialClaims) credentialFrame newPackState
    = Inr (JObj credentialPacked, credentialDisclosures, st)"
  by (rule exI [of _ "\<lparr>ps_calls = 2, ps_salts = [''1'', ''0''],
      ps_digests = [''TVEAAAAAAAAAAAAAAAAAAAAA'', ''TUEAAAAAAAAAAAAAAAAAAAAA'']\<rparr>"]) (unfold credential, code_simp)

lemma credential_issue:
  "issue credentialPlatform credentialIssuer (JStr ''dc+sd-jwt'') (JObj credentialClaims) credentialFrame []
    = Inr ''aA.cA.sig~MA~MQ~''"
  unfolding credential by code_simp

lemma credential_texts:
  "issueHeader credentialIssuer (JStr ''dc+sd-jwt'') [] = credentialHeader"
  "jsonText credentialPlatform credentialHeader"
  "jsonText credentialPlatform (issuePayload (JObj credentialPacked) credentialFrame ''sha-256'')"
  "\<forall>d \<in> set credentialDisclosures. jsonText credentialPlatform (disclosureData d)"
  unfolding credential by code_simp+

lemma credential_fits:
  "longDigests credentialPlatform" "plainClaims (JObj credentialClaims)" "frameFits credentialFrame (JObj credentialClaims)"
  "truthy credentialFrame" "hashAlgOf credentialIssuer = ''sha-256''"
  by (simp_all add: longDigests_def credential reservedKeys_def sd_constants protoKeys_def hashAlgOf_def)

lemma credential_accepted:
  "headerAccepted noOptions credentialHeader" "acceptable 0 noOptions (JObj credentialClaims)"
  by (simp_all add: headerAccepted_def algAllowed_def hasCrit_def inObj_def credential claimOf_def getProp_def
      protoKeys_def noOptions_def acceptable_def timely_def all_timeClaim numericOrAbsent_def expects_def expectsAudience_def)

lemma credential_configs:
  "cf_saltGenerator credentialIssuer = Some natText" "cf_signer credentialIssuer = Some (\<lambda>data. Inr ''sig'')"
  "cf_hasher trustingConfig" "cf_verifier trustingConfig = Some (\<lambda>data sig options. Inr True)"
  "vo_requiredClaimKeys noOptions = None" "vo_keyBindingNonce noOptions = None"
  by (simp_all add: credentialIssuer_def trustingConfig_def noOptions_def)


end
