(* ===== verification/FedTokens.thy ===== *)
theory FedTokens imports Policies Jwt begin

text \<open>
  The signed statements of \<open>packages/openid-federation\<close>: how they are addressed and fetched (\<open>utils/url.ts\<close>,
  \<open>utils/fetch.ts\<close>, \<open>extractMediaType\<close> of \<open>identity-common\<close>), parsed and verified (\<open>jsonWeb\<close>), and the claims
  they hold (\<open>entityStatement\<close>, \<open>entityConfiguration\<close>, \<open>constraints.ts\<close>). The network, the verification callback,
  the syntax of URLs and the zod schemas of metadata and trust marks are parameters.
\<close>

section \<open>Addresses\<close>

text \<open>\<open>s.split('://')\<close>: the parts between the occurrences of the separator.\<close>

function splitScheme :: "string \<Rightarrow> string list" where
  "splitScheme [] = [[]]"
| "splitScheme (c # s) = (if take 3 (c # s) = ''://'' then [] # splitScheme (drop 2 s)
     else (case splitScheme s of [] \<Rightarrow> [[c]] | p # ps \<Rightarrow> (c # p) # ps))"
  by pat_completeness auto

termination
  by (relation "measure length") auto

definition addPaths :: "string \<Rightarrow> string list \<Rightarrow> fedError + string" where
  "addPaths baseUrl paths = (case splitScheme baseUrl of
       scheme # rest # _ \<Rightarrow>
         if rest = [] then Inl (OpenidFederationError ''validation'' ''not a valid URL'')
         else Inr (scheme @ ''://'' @ joinWith ''/''
           (filter (\<lambda>s. s \<noteq> []) (splitOn CHR ''/'' rest @ concat (map (splitOn CHR ''/'') paths))))
     | _ \<Rightarrow> Inl (OpenidFederationError ''validation'' ''not a valid URL''))"

definition upperHex :: "nat \<Rightarrow> char" where
  "upperHex n = (''0123456789ABCDEF'' ! n)"

text \<open>The form encoding of \<open>URLSearchParams\<close>, on UTF-8 code units.\<close>

definition formEncode :: "string \<Rightarrow> string" where
  "formEncode s = concat (map (\<lambda>c. let n = (of_char c :: nat) in
     if (48 \<le> n \<and> n \<le> 57) \<or> (65 \<le> n \<and> n \<le> 90) \<or> (97 \<le> n \<and> n \<le> 122) \<or> c \<in> set ''*-._'' then [c]
     else if c = CHR '' '' then ''+'' else [CHR ''%'', upperHex (n div 16), upperHex (n mod 16)]) s)"

definition queryText :: "(string \<times> string) list \<Rightarrow> string" where
  "queryText params = joinWith ''&'' (map (\<lambda>kv. formEncode (fst kv) @ ''='' @ formEncode (snd kv)) params)"

definition addSearchParams :: "string \<Rightarrow> (string \<times> string) list \<Rightarrow> string" where
  "addSearchParams baseUrl params =
     (if CHR ''?'' \<notin> set baseUrl then baseUrl @ ''?'' @ queryText params
      else if last baseUrl = CHR ''?'' \<or> last baseUrl = CHR ''&'' then baseUrl @ queryText params
      else baseUrl @ ''&'' @ queryText params)"

definition isSameEntityId :: "string \<Rightarrow> string \<Rightarrow> bool" where
  "isSameEntityId a b = (a = b)"

section \<open>Requests\<close>

definition isSpace :: "char \<Rightarrow> bool" where
  "isSpace c = ((of_char c :: nat) \<in> {9, 10, 11, 12, 13, 32})"

definition trim :: "string \<Rightarrow> string" where
  "trim s = rev (dropWhile isSpace (rev (dropWhile isSpace s)))"

definition extractMediaType :: "string option \<Rightarrow> string option" where
  "extractMediaType contentType = (case contentType of
       None \<Rightarrow> None
     | Some t \<Rightarrow> let m = toLowerText (trim (hd (splitOn CHR '';'' t))) in if m \<noteq> [] then Some m else None)"

definition isMediaType :: "string option \<Rightarrow> string list \<Rightarrow> bool" where
  "isMediaType contentType expected = (case extractMediaType contentType of
       None \<Rightarrow> False
     | Some m \<Rightarrow> list_ex (\<lambda>e. extractMediaType (Some e) = Some m) expected)"

record httpResponse =
  rp_ok :: bool
  rp_status :: nat
  rp_contentType :: "string option"
  rp_text :: string

text \<open>The answer to the request with the given number: the environment decides, and may change its mind.\<close>

type_synonym network = "nat \<Rightarrow> string \<Rightarrow> fedError + httpResponse"

definition requestUrl :: "string \<Rightarrow> (string \<times> string) list \<Rightarrow> string" where
  "requestUrl url params = (if queryText params \<noteq> [] then addSearchParams url params else url)"

text \<open>\<open>fetcher.get\<close> without a response schema, which the callers below never give.\<close>

definition fetchGet :: "network \<Rightarrow> nat \<Rightarrow> string \<Rightarrow> (string \<times> string) list \<Rightarrow> string option \<Rightarrow> fedError + string" where
  "fetchGet net n url params requiredContentType =
     (let target = requestUrl url params in
      bindR (net n target) (\<lambda>response.
      bindR (ensure (rp_ok response) (FedError (''request to '' @ quoted target @ '' failed with status '' @ natText (rp_status response)))) (\<lambda>_.
      bindR (ensure (case requiredContentType of None \<Rightarrow> True | Some r \<Rightarrow> r = [] \<or> isMediaType (rp_contentType response) [r])
        (FedError ''received content-type does not equal expected content-type'')) (\<lambda>_.
        Inr (rp_text response)))))"

section \<open>Keys\<close>

text \<open>A key of a set: its id and the whole value, which the verification callback is given.\<close>

record jwk =
  jk_kid :: string
  jk_value :: json

definition optionalString :: "json \<Rightarrow> bool" where
  "optionalString v = (v = JUndefined \<or> strOf v \<noteq> None)"

definition optionalStrings :: "json \<Rightarrow> bool" where
  "optionalStrings v = (v = JUndefined \<or> stringArray v \<noteq> None)"

definition jsonWebKey :: "json \<Rightarrow> jwk option" where
  "jsonWebKey v = (case v of
       JObj kvs \<Rightarrow> (case (claimOf v ''kty'', claimOf v ''kid'') of
           (JStr kty, JStr kid) \<Rightarrow>
             if list_all (\<lambda>k. optionalString (claimOf v k)) [''use'', ''alg'', ''x5u'', ''x5t'', ''x5t#S256'']
               \<and> optionalStrings (claimOf v ''key_ops'') \<and> optionalStrings (claimOf v ''x5c'')
             then Some \<lparr>jk_kid = kid, jk_value = v\<rparr> else None
         | _ \<Rightarrow> None)
     | _ \<Rightarrow> None)"

definition jsonWebKeySet :: "json \<Rightarrow> jwk list option" where
  "jsonWebKeySet v = (case v of
       JObj kvs \<Rightarrow> (case claimOf v ''keys'' of JArr ks \<Rightarrow> those (map jsonWebKey ks) | _ \<Rightarrow> None)
     | _ \<Rightarrow> None)"

section \<open>Tokens\<close>

record fedToken =
  ft_header :: json
  ft_claims :: json
  ft_signature :: bytes
  ft_data :: bytes

definition commonToFed :: "commonError + 'a \<Rightarrow> fedError + 'a" where
  "commonToFed r = (case r of Inl e \<Rightarrow> Inl (FedError ''invalid base64url'') | Inr a \<Rightarrow> Inr a)"

definition partAt :: "string list \<Rightarrow> nat \<Rightarrow> string" where
  "partAt ps i = (if i < length ps then ps ! i else [])"

text \<open>Any part after the third is ignored; only the first two are signed.\<close>

definition parseJsonWebToken :: "platform \<Rightarrow> string \<Rightarrow> fedError + fedToken" where
  "parseJsonWebToken p jwt =
     (let parts = splitOn CHR ''.'' jwt; h = partAt parts 0; c = partAt parts 1; s = partAt parts 2 in
      bindR (ensure (h \<noteq> []) (FedError ''could not find the header in the JWT'')) (\<lambda>_.
      bindR (ensure (c \<noteq> []) (FedError ''could not find the claims in the JWT'')) (\<lambda>_.
      bindR (ensure (s \<noteq> []) (FedError ''could not find the signature in the JWT'')) (\<lambda>_.
      bindR (commonToFed (base64urlDecodeJson p h)) (\<lambda>header.
      bindR (commonToFed (base64urlDecodeJson p c)) (\<lambda>claims.
      bindR (commonToFed (base64UrlToUint8Array s)) (\<lambda>signature.
        Inr \<lparr>ft_header = header, ft_claims = claims, ft_signature = signature,
             ft_data = stringToBytes (h @ ''.'' @ c)\<rparr>)))))))"

definition getUsedJsonWebKey :: "json \<Rightarrow> jwk list option \<Rightarrow> fedError + jwk" where
  "getUsedJsonWebKey header jwks = (case claimOf header ''kid'' of
       JStr kid \<Rightarrow> (case jwks of
           None \<Rightarrow> Inl (OpenidFederationError ''validation'' ''Invalid payload claims. Should contain a json web key set'')
         | Some keys \<Rightarrow> (case find (\<lambda>k. jk_kid k = kid) keys of
             None \<Rightarrow> Inl (FedError (''key with id: '' @ quoted kid @ '' could not be found in the claims''))
           | Some key \<Rightarrow> Inr key))
     | _ \<Rightarrow> Inl (OpenidFederationError ''validation'' ''invalid header claims. Should contain a key id''))"

type_synonym verifyCallback = "string \<Rightarrow> fedToken \<Rightarrow> jwk \<Rightarrow> fedError + bool"

text \<open>With no key set given, the token is checked with the key set of its own claims.\<close>

definition verifyJwtSignature :: "platform \<Rightarrow> verifyCallback \<Rightarrow> string \<Rightarrow> jwk list option \<Rightarrow> fedError + unit" where
  "verifyJwtSignature p verify jwt jwks =
     bindR (parseJsonWebToken p jwt) (\<lambda>t.
     bindR (getUsedJsonWebKey (ft_header t)
       (case jwks of Some keys \<Rightarrow> Some keys | None \<Rightarrow> jsonWebKeySet (claimOf (ft_claims t) ''jwks''))) (\<lambda>key.
     bindR (verify jwt t key) (\<lambda>valid. ensure valid (FedError ''Signature in the JWT is invalid''))))"

section \<open>Claims\<close>

record schemas =
  sc_url :: "string \<Rightarrow> bool"
  sc_httpsUrl :: "string \<Rightarrow> bool"
  sc_metadata :: "json \<Rightarrow> metadata option"
  sc_trustMarks :: "json \<Rightarrow> bool"
  sc_trustMarkIssuers :: "json \<Rightarrow> bool"
  sc_trustMarkOwners :: "json \<Rightarrow> bool"

text \<open>A date in milliseconds, \<open>None\<close> for an invalid \<open>Date\<close>.\<close>

definition zDate :: "rat \<Rightarrow> int option" where
  "zDate seconds = (let ms = (if seconds < 0 then \<lceil>seconds * 1000\<rceil> else \<lfloor>seconds * 1000\<rfloor>)
     in if \<bar>ms\<bar> \<le> 8640000000000000 then Some ms else None)"

record constraint =
  cn_maxPathLength :: "rat option"
  cn_naming :: bool
  cn_allowedTypes :: "string list option"

text \<open>An optional member: \<open>Some None\<close> when it is missing, \<open>None\<close> when it does not fit.\<close>

definition optionalOf :: "(json \<Rightarrow> 'a option) \<Rightarrow> json \<Rightarrow> 'a option option" where
  "optionalOf f v = (if v = JUndefined then Some None else map_option Some (f v))"

definition isObject :: "json \<Rightarrow> bool" where
  "isObject v = (case v of JObj kvs \<Rightarrow> True | _ \<Rightarrow> False)"

definition namingOf :: "json \<Rightarrow> unit option" where
  "namingOf v = (if isObject v \<and> optionalStrings (claimOf v ''permitted'') \<and> optionalStrings (claimOf v ''excluded'')
     then Some () else None)"

definition allowedTypesOf :: "json \<Rightarrow> string list option" where
  "allowedTypesOf v = (case stringArray v of
       None \<Rightarrow> None
     | Some ts \<Rightarrow> if ''federation_entity'' \<in> set ts then None else Some ts)"

definition constraintOf :: "json \<Rightarrow> constraint option" where
  "constraintOf v = (if \<not> isObject v then None
     else (case (optionalOf numOf (claimOf v ''max_path_length''), optionalOf namingOf (claimOf v ''naming_constraints''),
           optionalOf allowedTypesOf (claimOf v ''allowed_entity_types'')) of
         (Some len, Some naming, Some types) \<Rightarrow>
           Some \<lparr>cn_maxPathLength = len, cn_naming = (naming \<noteq> None), cn_allowedTypes = types\<rparr>
       | _ \<Rightarrow> None))"

text \<open>The policies of a statement: entity types, parameters, and for each the operators or nothing.\<close>

definition rulesOf :: "json \<Rightarrow> bool" where
  "rulesOf v = (case v of JObj rules \<Rightarrow> zMetadataPolicy rules | JUndefined \<Rightarrow> True | _ \<Rightarrow> False)"

definition policyBlock :: "string \<times> json \<Rightarrow> (string \<times> fields) option" where
  "policyBlock kv = (case snd kv of
       JObj props \<Rightarrow> if list_all (rulesOf \<circ> snd) props then Some (fst kv, props) else None
     | _ \<Rightarrow> None)"

definition metadataPolicyOf :: "json \<Rightarrow> metadata option" where
  "metadataPolicyOf v = (case v of JObj kvs \<Rightarrow> those (map policyBlock kvs) | _ \<Rightarrow> None)"

definition hintsOf :: "schemas \<Rightarrow> json \<Rightarrow> string list option" where
  "hintsOf sc v = (case stringArray v of
       None \<Rightarrow> None | Some hs \<Rightarrow> if list_all (sc_httpsUrl sc) hs then Some hs else None)"

record statement =
  st_iss :: string
  st_sub :: string
  st_iat :: "int option"
  st_exp :: "int option"
  st_jwks :: "jwk list"
  st_authorityHints :: "string list option"
  st_metadata :: "metadata option"
  st_metadataPolicy :: "metadata option"
  st_constraints :: "constraint option"
  st_crit :: "string list option"
  st_policyCrit :: "string list option"
  st_trustMarks :: bool
  st_trustMarkIssuers :: bool
  st_trustMarkOwners :: bool
  st_sourceEndpoint :: bool

definition presentAnd :: "(json \<Rightarrow> bool) \<Rightarrow> json \<Rightarrow> bool" where
  "presentAnd f v = (v = JUndefined \<or> f v)"

definition urlText :: "schemas \<Rightarrow> json \<Rightarrow> bool" where
  "urlText sc v = (case v of JStr s \<Rightarrow> sc_url sc s | _ \<Rightarrow> False)"

definition entityStatementClaims :: "schemas \<Rightarrow> json \<Rightarrow> statement option" where
  "entityStatementClaims sc v =
     (case (strOf (claimOf v ''iss''), strOf (claimOf v ''sub''), numOf (claimOf v ''iat''), numOf (claimOf v ''exp''),
            jsonWebKeySet (claimOf v ''jwks'')) of
        (Some iss, Some sub, Some iat, Some expiry, Some keys) \<Rightarrow>
          (case (optionalOf (hintsOf sc) (claimOf v ''authority_hints''), optionalOf (sc_metadata sc) (claimOf v ''metadata''),
                 optionalOf metadataPolicyOf (claimOf v ''metadata_policy''), optionalOf constraintOf (claimOf v ''constraints''),
                 optionalOf stringArray (claimOf v ''crit''), optionalOf stringArray (claimOf v ''metadata_policy_crit'')) of
             (Some hints, Some metadata, Some policy, Some constraints, Some crit, Some policyCrit) \<Rightarrow>
               if presentAnd (sc_trustMarks sc) (claimOf v ''trust_marks'')
                 \<and> presentAnd (sc_trustMarkIssuers sc) (claimOf v ''trust_mark_issuers'')
                 \<and> presentAnd (sc_trustMarkOwners sc) (claimOf v ''trust_mark_owners'')
                 \<and> presentAnd (urlText sc) (claimOf v ''source_endpoint'')
                 \<and> distinct (map jk_kid keys)
               then Some \<lparr>st_iss = iss, st_sub = sub, st_iat = zDate iat, st_exp = zDate expiry, st_jwks = keys,
                 st_authorityHints = hints, st_metadata = metadata, st_metadataPolicy = policy, st_constraints = constraints,
                 st_crit = crit, st_policyCrit = policyCrit,
                 st_trustMarks = (claimOf v ''trust_marks'' \<noteq> JUndefined),
                 st_trustMarkIssuers = (claimOf v ''trust_mark_issuers'' \<noteq> JUndefined),
                 st_trustMarkOwners = (claimOf v ''trust_mark_owners'' \<noteq> JUndefined),
                 st_sourceEndpoint = (claimOf v ''source_endpoint'' \<noteq> JUndefined)\<rparr>
               else None
           | _ \<Rightarrow> None)
      | _ \<Rightarrow> None)"

definition entityConfigurationClaims :: "schemas \<Rightarrow> json \<Rightarrow> statement option" where
  "entityConfigurationClaims sc v = (case entityStatementClaims sc v of
       None \<Rightarrow> None | Some c \<Rightarrow> if st_iss c = st_sub c then Some c else None)"

definition entityStatementHeader :: "json \<Rightarrow> bool" where
  "entityStatementHeader v = (strOf (claimOf v ''kid'') \<noteq> None \<and> claimOf v ''typ'' = JStr ''entity-statement+jwt'')"

text \<open>The schema of a signed statement, with \<open>validate\<close>, which turns every failure into the given message.\<close>

definition validated :: "string \<Rightarrow> 'a option \<Rightarrow> fedError + 'a" where
  "validated errorMessage r = (case r of None \<Rightarrow> Inl (OpenidFederationError ''validation'' errorMessage) | Some a \<Rightarrow> Inr a)"

definition zJsonWebToken :: "platform \<Rightarrow> (json \<Rightarrow> statement option) \<Rightarrow> string \<Rightarrow> statement option" where
  "zJsonWebToken p claimsSchema jwt = (case parseJsonWebToken p jwt of
       Inl e \<Rightarrow> None
     | Inr t \<Rightarrow> if entityStatementHeader (ft_header t) then claimsSchema (ft_claims t) else None)"

end
