(* ===== verification/TrustChain.thy ===== *)
theory TrustChain imports FedTokens begin

text \<open>
  \<open>packages/openid-federation/src/resolveTrustChains/resolveTrustChains.ts\<close>. The paths from a leaf to the trust
  anchors are discovered by asynchronous calls that share two counters and the entity configurations
  that were fetched; they are the steps of a machine whose interleaving is left open. A path is then
  validated by one sequential run.
\<close>

section \<open>Options\<close>

record trustAnchor =
  ta_entityId :: string
  ta_jwks :: "jwk list option"

record resolveOptions =
  ro_verify :: verifyCallback
  ro_entityId :: string
  ro_trustAnchors :: "trustAnchor list"
  ro_now :: int
  ro_clockSkewMs :: int
  ro_maxDepth :: nat
  ro_maxRequests :: nat
  ro_maxAuthorityHints :: nat
  ro_understoodCritical :: "string list"

text \<open>What the code does not decide: hashing and JSON, the schemas of the library, the network.\<close>

record environment =
  en_platform :: platform
  en_schemas :: schemas
  en_network :: network

definition fail :: "string \<Rightarrow> fedError" where
  "fail message = OpenidFederationError ''validation'' message"

definition findTrustAnchor :: "resolveOptions \<Rightarrow> string \<Rightarrow> trustAnchor option" where
  "findTrustAnchor opts i = find (\<lambda>anchor. isSameEntityId (ta_entityId anchor) i) (ro_trustAnchors opts)"

definition contentType :: string where
  "contentType = ''application/entity-statement+jwt''"

section \<open>Checks of a statement\<close>

definition about :: "statement \<Rightarrow> string" where
  "about st = ''statement about '' @ quoted (st_sub st) @ '' issued by '' @ quoted (st_iss st)"

definition assertCurrent :: "resolveOptions \<Rightarrow> statement \<Rightarrow> fedError + unit" where
  "assertCurrent opts st =
     (case (st_iat st, st_exp st) of
        (Some iat, Some expiry) \<Rightarrow>
          bindR (ensure (\<not> iat > ro_now opts + ro_clockSkewMs opts) (fail (about st @ '' has an iat in the future''))) (\<lambda>_.
          bindR (ensure (\<not> expiry \<le> ro_now opts - ro_clockSkewMs opts) (fail (about st @ '' has expired''))) (\<lambda>_.
          let notUnderstood = filter (\<lambda>c. c \<notin> set (ro_understoodCritical opts)) (case st_crit st of None \<Rightarrow> [] | Some cs \<Rightarrow> cs) in
          ensure (notUnderstood = []) (fail (about st @ '' has critical claims that are not understood: '' @ joinWith '', '' notUnderstood))))
      | _ \<Rightarrow> Inl (fail (about st @ '' has an invalid iat or exp'')))"

definition assertEntityConfigurationClaims :: "statement \<Rightarrow> fedError + unit" where
  "assertEntityConfigurationClaims st =
     bindR (ensure (st_metadataPolicy st = None \<and> st_policyCrit st = None \<and> st_constraints st = None \<and> \<not> st_sourceEndpoint st)
       (fail (''entity configuration of '' @ quoted (st_sub st) @ '' contains claims which only subordinate statements may contain''))) (\<lambda>_.
     ensure (st_authorityHints st \<noteq> Some [])
       (fail (''entity configuration of '' @ quoted (st_sub st) @ '' has an empty authority_hints array'')))"

definition assertSubordinateStatementClaims :: "statement \<Rightarrow> fedError + unit" where
  "assertSubordinateStatementClaims st =
     bindR (ensure (st_authorityHints st = None \<and> \<not> st_trustMarks st \<and> \<not> st_trustMarkIssuers st \<and> \<not> st_trustMarkOwners st)
       (fail (''subordinate '' @ about st @ '' contains claims which only entity configurations may contain''))) (\<lambda>_.
     bindR (ensure (st_policyCrit st \<noteq> Some []) (fail (''subordinate '' @ about st @ '' has an empty metadata_policy_crit array''))) (\<lambda>_.
     ensure (st_policyCrit st = None) (fail (''subordinate '' @ about st @ '' requires policy operators that are not supported''))))"

definition restrictEntityTypes :: "metadata \<Rightarrow> statement list \<Rightarrow> metadata" where
  "restrictEntityTypes metadata statements =
     (let allowed = List.map_filter (\<lambda>st. case st_constraints st of None \<Rightarrow> None | Some c \<Rightarrow> cn_allowedTypes c) statements in
      if allowed = [] then metadata
      else filter (\<lambda>sb. fst sb = ''federation_entity'' \<or> list_all (\<lambda>types. fst sb \<in> set types) allowed) metadata)"

section \<open>Fetching an entity configuration\<close>

record fetched =
  fc_jwt :: string
  fc_claims :: statement

definition subOf :: "fetched \<Rightarrow> string" where
  "subOf c = st_sub (fc_claims c)"

text \<open>The asynchronous part of \<open>fetchEntityConfiguration\<close>, from the answer to the request \<open>n\<close>.\<close>

definition loadConfiguration :: "environment \<Rightarrow> resolveOptions \<Rightarrow> nat \<Rightarrow> string \<Rightarrow> string \<Rightarrow> fedError + fetched" where
  "loadConfiguration en opts n entity url =
     bindR (fetchGet (en_network en) n url [] (Some contentType)) (\<lambda>jwt.
     bindR (validated (''entity configuration of '' @ quoted entity @ '' is invalid'')
       (zJsonWebToken (en_platform en) (entityConfigurationClaims (en_schemas en)) jwt)) (\<lambda>claims.
     bindR (ensure (isSameEntityId (st_sub claims) entity)
       (fail (''entity configuration fetched for '' @ quoted entity @ '' has subject '' @ quoted (st_sub claims)))) (\<lambda>_.
     bindR (verifyJwtSignature (en_platform en) (ro_verify opts) jwt None) (\<lambda>_.
     bindR (assertCurrent opts claims) (\<lambda>_.
     bindR (assertEntityConfigurationClaims claims) (\<lambda>_.
       Inr \<lparr>fc_jwt = jwt, fc_claims = claims\<rparr>))))))"

section \<open>Discovery\<close>

text \<open>A configuration that was asked for: the number and address of its request, or what came of it.\<close>

datatype configState = Pending nat string | Settled "fedError + fetched"

record discovery =
  dc_requests :: nat
  dc_visits :: nat
  dc_configs :: "(string \<times> configState) list"
  dc_failures :: "(string list \<times> fedError) list"

text \<open>
  A call of \<open>discover\<close>: it awaits the configuration of its entity, then its superiors, then it is done.
  The calls for the superiors come with their ids, in order.
\<close>

type_synonym paths = "fetched list list"

datatype discoverCall =
    Awaiting string "fetched list"
  | Joining "fetched list" paths "(string \<times> discoverCall) list"
  | Finished "fedError + paths"

text \<open>The part of a call before its first \<open>await\<close>: it counts the visit and asks for the configuration.\<close>

definition startFetch :: "resolveOptions \<Rightarrow> string \<Rightarrow> discovery \<Rightarrow> discovery" where
  "startFetch opts entity d =
     (if map_of (dc_configs d) entity \<noteq> None then d
      else case addPaths entity [''.well-known'', ''openid-federation''] of
          Inl e \<Rightarrow> d\<lparr>dc_configs := (entity, Settled (Inl e)) # dc_configs d\<rparr>
        | Inr url \<Rightarrow>
            let n = dc_requests d + 1 in
            d\<lparr>dc_requests := n,
              dc_configs := (entity, if n > ro_maxRequests opts
                then Settled (Inl (fail ''trust chain resolution exceeded the maximum of requests'')) else Pending n url) # dc_configs d\<rparr>)"

definition startCall :: "resolveOptions \<Rightarrow> fetched list \<Rightarrow> string \<Rightarrow> discovery \<Rightarrow> discovery \<times> discoverCall" where
  "startCall opts path entity d =
     (let d1 = d\<lparr>dc_visits := dc_visits d + 1\<rparr> in
      if dc_visits d1 > ro_maxRequests opts
      then (d1, Finished (Inl (fail ''trust chain resolution exceeded the maximum of entity visits'')))
      else (startFetch opts entity d1, Awaiting entity path))"

fun startCalls :: "resolveOptions \<Rightarrow> fetched list \<Rightarrow> string list \<Rightarrow> discovery \<Rightarrow> discovery \<times> (string \<times> discoverCall) list" where
  "startCalls opts path [] d = (d, [])"
| "startCalls opts path (s # ss) d =
     (let (d1, c) = startCall opts path s d; (d2, cs) = startCalls opts path ss d1 in (d2, (s, c) # cs))"

text \<open>The authority hints that are followed: no entity of the path, no repetition, a bounded number.\<close>

fun superiorsOf :: "resolveOptions \<Rightarrow> fetched list \<Rightarrow> string list \<Rightarrow> string list \<Rightarrow> string list" where
  "superiorsOf opts localPath [] superiors = superiors"
| "superiorsOf opts localPath (h # hs) superiors =
     (if length superiors = ro_maxAuthorityHints opts then superiors
      else if list_ex (\<lambda>c. isSameEntityId (subOf c) h) localPath then superiorsOf opts localPath hs superiors
      else if list_ex (\<lambda>s. isSameEntityId s h) superiors then superiorsOf opts localPath hs superiors
      else superiorsOf opts localPath hs (superiors @ [h]))"

text \<open>The part of a call between its configuration and its superiors.\<close>

definition resumeCall :: "resolveOptions \<Rightarrow> fetched list \<Rightarrow> fetched \<Rightarrow> discovery \<Rightarrow> discovery \<times> discoverCall" where
  "resumeCall opts path configuration d =
     (let localPath = path @ [configuration];
          own = (if findTrustAnchor opts (subOf configuration) \<noteq> None then [localPath] else []) in
      if length localPath > ro_maxDepth opts then (d, Finished (Inr own))
      else let hints = (case st_authorityHints (fc_claims configuration) of None \<Rightarrow> [] | Some hs \<Rightarrow> hs);
          (d', calls) = startCalls opts localPath (superiorsOf opts localPath hints []) d in
        (d', Joining localPath own calls))"

text \<open>The part after \<open>Promise.allSettled\<close>: the paths found and the failures, in the order of the superiors.\<close>

fun settledPaths :: "(string \<times> discoverCall) list \<Rightarrow> paths" where
  "settledPaths [] = []"
| "settledPaths ((s, Finished (Inr ps)) # cs) = ps @ settledPaths cs"
| "settledPaths (_ # cs) = settledPaths cs"

fun settledFailures :: "fetched list \<Rightarrow> (string \<times> discoverCall) list \<Rightarrow> (string list \<times> fedError) list" where
  "settledFailures localPath [] = []"
| "settledFailures localPath ((s, Finished (Inl e)) # cs) = (map subOf localPath @ [s], e) # settledFailures localPath cs"
| "settledFailures localPath (_ # cs) = settledFailures localPath cs"

fun finished :: "discoverCall \<Rightarrow> bool" where
  "finished (Finished r) = True"
| "finished _ = False"

inductive callStep :: "resolveOptions \<Rightarrow> discovery \<times> discoverCall \<Rightarrow> discovery \<times> discoverCall \<Rightarrow> bool" for opts where
  resume: "map_of (dc_configs d) entity = Some (Settled (Inr configuration)) \<Longrightarrow>
     callStep opts (d, Awaiting entity path) (resumeCall opts path configuration d)"
| reject: "map_of (dc_configs d) entity = Some (Settled (Inl e)) \<Longrightarrow>
     callStep opts (d, Awaiting entity path) (d, Finished (Inl e))"
| join: "list_all (finished \<circ> snd) calls \<Longrightarrow>
     callStep opts (d, Joining localPath own calls)
       (d\<lparr>dc_failures := dc_failures d @ settledFailures localPath calls\<rparr>, Finished (Inr (own @ settledPaths calls)))"
| superior: "callStep opts (d, c) (d', c') \<Longrightarrow>
     callStep opts (d, Joining localPath own (cs @ (s, c) # cs')) (d', Joining localPath own (cs @ (s, c') # cs'))"

text \<open>A step of the program: an answer arrives, or a call goes on.\<close>

inductive discoverStep :: "environment \<Rightarrow> resolveOptions \<Rightarrow> discovery \<times> discoverCall \<Rightarrow> discovery \<times> discoverCall \<Rightarrow> bool"
  for en opts where
  answer: "dc_configs d = before @ (entity, Pending n url) # after \<Longrightarrow>
     discoverStep en opts (d, c)
       (d\<lparr>dc_configs := before @ (entity, Settled (loadConfiguration en opts n entity url)) # after\<rparr>, c)"
| call: "callStep opts s s' \<Longrightarrow> discoverStep en opts s s'"

definition startDiscovery :: "resolveOptions \<Rightarrow> discovery \<times> discoverCall" where
  "startDiscovery opts = startCall opts [] (ro_entityId opts)
     \<lparr>dc_requests = 0, dc_visits = 0, dc_configs = [], dc_failures = []\<rparr>"

section \<open>Validating a path\<close>

type_synonym signedStatement = "string \<times> statement"

text \<open>Rejections of verification are given a message of their own.\<close>

definition rejected :: "string \<Rightarrow> fedError + unit \<Rightarrow> fedError + unit" where
  "rejected message r = (case r of Inl e \<Rightarrow> Inl (fail message) | Inr u \<Rightarrow> Inr u)"

definition fetchEndpoint :: "statement \<Rightarrow> string option" where
  "fetchEndpoint st = (case st_metadata st of
       None \<Rightarrow> None
     | Some m \<Rightarrow> (case ops (serviceBlock m ''federation_entity'') ''federation_fetch_endpoint'' of
           JStr s \<Rightarrow> if s = [] then None else Some s
         | _ \<Rightarrow> None))"

text \<open>What is checked of the answer of \<open>superior\<close> about \<open>subject\<close>, \<open>index\<close> levels above the leaf.\<close>

definition checkStatement :: "environment \<Rightarrow> resolveOptions \<Rightarrow> nat \<Rightarrow> fetched \<Rightarrow> fetched \<Rightarrow> string \<Rightarrow> fedError + signedStatement" where
  "checkStatement en opts index subject superior jwt =
     bindR (validated (''subordinate statement about '' @ quoted (subOf subject) @ '' issued by '' @ quoted (subOf superior) @ '' is invalid'')
       (zJsonWebToken (en_platform en) (entityStatementClaims (en_schemas en)) jwt)) (\<lambda>claims.
     bindR (ensure (isSameEntityId (st_iss claims) (subOf superior) \<and> isSameEntityId (st_sub claims) (subOf subject))
       (fail (''subordinate statement requested from '' @ quoted (subOf superior) @ '' about '' @ quoted (subOf subject)
         @ '' has issuer '' @ quoted (st_iss claims) @ '' and subject '' @ quoted (st_sub claims)))) (\<lambda>_.
     bindR (assertCurrent opts claims) (\<lambda>_.
     bindR (assertSubordinateStatementClaims claims) (\<lambda>_.
     bindR (ensure (case st_constraints claims of None \<Rightarrow> True | Some c \<Rightarrow> \<not> cn_naming c)
       (fail (quoted (subOf superior) @ '' sets naming_constraints, which are not supported''))) (\<lambda>_.
     bindR (ensure (case st_constraints claims of None \<Rightarrow> True
         | Some c \<Rightarrow> (case cn_maxPathLength c of None \<Rightarrow> True | Some len \<Rightarrow> \<not> of_nat index > len))
       (fail (quoted (subOf superior) @ '' allows fewer intermediates than the chain has''))) (\<lambda>_.
       Inr (jwt, claims)))))))"

text \<open>The statements along a path, with the number of requests made so far.\<close>

fun fetchStatements :: "environment \<Rightarrow> resolveOptions \<Rightarrow> nat \<Rightarrow> nat \<Rightarrow> fetched list \<Rightarrow> nat \<times> (fedError + signedStatement list)" where
  "fetchStatements en opts n index (subject # superior # path) =
     (case fetchEndpoint (fc_claims superior) of
        None \<Rightarrow> (n, Inl (fail (quoted (subOf superior) @ '' has no federation_fetch_endpoint'')))
      | Some endpoint \<Rightarrow>
          if n + 1 > ro_maxRequests opts then (n + 1, Inl (fail ''trust chain resolution exceeded the maximum of requests''))
          else (case bindR (fetchGet (en_network en) (n + 1) endpoint [(''sub'', subOf subject)] (Some contentType))
                (checkStatement en opts index subject superior) of
              Inl e \<Rightarrow> (n + 1, Inl e)
            | Inr st \<Rightarrow> (case fetchStatements en opts (n + 1) (index + 1) (superior # path) of
                (m, Inl e) \<Rightarrow> (m, Inl e)
              | (m, Inr sts) \<Rightarrow> (m, Inr (st # sts)))))"
| "fetchStatements en opts n index path = (n, Inr [])"

text \<open>Each signed statement with the keys the next one lists, the last with those of the trust anchor.\<close>

fun verifySigners :: "environment \<Rightarrow> resolveOptions \<Rightarrow> jwk list \<Rightarrow> signedStatement list \<Rightarrow> signedStatement list \<Rightarrow> fedError + unit" where
  "verifySigners en opts anchorKeys [] nexts = Inr ()"
| "verifySigners en opts anchorKeys (st # signers) nexts =
     bindR (rejected (about (snd st) @ '' is not signed with a key listed by its superior'')
       (verifyJwtSignature (en_platform en) (ro_verify opts) (fst st)
         (Some (case nexts of [] \<Rightarrow> anchorKeys | next # _ \<Rightarrow> st_jwks (snd next))))) (\<lambda>_.
     verifySigners en opts anchorKeys signers (tl nexts))"

fun earliest :: "int option list \<Rightarrow> int option" where
  "earliest [] = None"
| "earliest [e] = e"
| "earliest (e # es) = (case (e, earliest es) of (Some a, Some b) \<Rightarrow> Some (min a b) | _ \<Rightarrow> None)"

record trustChain =
  tc_chain :: "statement list"
  tc_jwtChain :: "string list"
  tc_leaf :: statement
  tc_resolved :: "metadata option"
  tc_anchor :: statement
  tc_expiresAt :: "int option"

definition orEmpty :: "metadata option \<Rightarrow> metadata" where
  "orEmpty m = (case m of None \<Rightarrow> [] | Some m \<Rightarrow> m)"

definition resolveMetadata :: "statement \<Rightarrow> statement list \<Rightarrow> fedError + metadata" where
  "resolveMetadata leaf statements =
     bindR (combineMetadataPolicies (map (\<lambda>st. (st_metadataPolicy st, st_policyCrit st)) statements)) (\<lambda>mergedPolicy.
     applyMetadataPolicyToMetadata
       (restrictEntityTypes (mergeMetadata (orEmpty (st_metadata leaf)) (orEmpty (st_metadata (hd statements)))) statements)
       mergedPolicy)"

text \<open>The checks and the result once the statements are there; \<open>path\<close> is not empty and ends at an anchor.\<close>

definition completePath :: "environment \<Rightarrow> resolveOptions \<Rightarrow> fetched list \<Rightarrow> signedStatement list \<Rightarrow> fedError + trustChain" where
  "completePath en opts path statements =
     (let leaf = hd path; anchor = last path;
          signers = (if statements \<noteq> [] then (fc_jwt leaf, fc_claims leaf) # statements else []);
          expiresAt = earliest (map (st_exp \<circ> fc_claims) path @ map (st_exp \<circ> snd) statements) in
      bindR (verifySigners en opts (st_jwks (fc_claims anchor)) signers statements) (\<lambda>_.
      if statements = [] then Inr \<lparr>tc_chain = [fc_claims leaf], tc_jwtChain = [fc_jwt leaf], tc_leaf = fc_claims leaf,
        tc_resolved = st_metadata (fc_claims leaf), tc_anchor = fc_claims leaf, tc_expiresAt = expiresAt\<rparr>
      else bindR (resolveMetadata (fc_claims leaf) (map snd statements)) (\<lambda>resolved.
        Inr \<lparr>tc_chain = map snd statements @ [fc_claims anchor],
          tc_jwtChain = fc_jwt leaf # map fst statements @ [fc_jwt anchor], tc_leaf = fc_claims leaf,
          tc_resolved = Some resolved, tc_anchor = fc_claims anchor, tc_expiresAt = expiresAt\<rparr>)))"

definition validatePath :: "environment \<Rightarrow> resolveOptions \<Rightarrow> nat \<Rightarrow> fetched list \<Rightarrow> nat \<times> (fedError + trustChain)" where
  "validatePath en opts n path =
     (let anchor = last path in
      case (case findTrustAnchor opts (subOf anchor) of
          None \<Rightarrow> Inl FedTypeError
        | Some trustAnchor \<Rightarrow> (case ta_jwks trustAnchor of
            None \<Rightarrow> Inr ()
          | Some keys \<Rightarrow> rejected (''entity configuration of trust anchor '' @ quoted (ta_entityId trustAnchor) @ '' is not signed with a configured key'')
              (verifyJwtSignature (en_platform en) (ro_verify opts) (fc_jwt anchor) (Some keys)))) of
        Inl e \<Rightarrow> (n, Inl e)
      | Inr _ \<Rightarrow> (case fetchStatements en opts n 0 path of
          (m, Inl e) \<Rightarrow> (m, Inl e)
        | (m, Inr statements) \<Rightarrow> (m, completePath en opts path statements)))"

section \<open>Resolution\<close>

record resolution =
  rs_trustChains :: "trustChain list"
  rs_failures :: "(string list \<times> fedError) list"

fun validatePaths :: "environment \<Rightarrow> resolveOptions \<Rightarrow> nat \<Rightarrow> paths \<Rightarrow> resolution \<Rightarrow> resolution" where
  "validatePaths en opts n [] acc = acc"
| "validatePaths en opts n (path # paths) acc =
     (case validatePath en opts n path of
        (m, Inl e) \<Rightarrow> validatePaths en opts m paths (acc\<lparr>rs_failures := rs_failures acc @ [(map subOf path, e)]\<rparr>)
      | (m, Inr chain) \<Rightarrow> validatePaths en opts m paths (acc\<lparr>rs_trustChains := rs_trustChains acc @ [chain]\<rparr>))"

text \<open>What is returned once the discovery has ended: a leaf that cannot be used is the only failure then.\<close>

definition conclude :: "environment \<Rightarrow> resolveOptions \<Rightarrow> discovery \<Rightarrow> fedError + paths \<Rightarrow> resolution" where
  "conclude en opts d r = (case r of
       Inl e \<Rightarrow> \<lparr>rs_trustChains = [], rs_failures = [([ro_entityId opts], e)]\<rparr>
     | Inr paths \<Rightarrow> validatePaths en opts (dc_requests d) paths \<lparr>rs_trustChains = [], rs_failures = dc_failures d\<rparr>)"

text \<open>The results a call may return, one for each interleaving; without trust anchors it throws.\<close>

inductive resolveTrustChainsWithFailures :: "environment \<Rightarrow> resolveOptions \<Rightarrow> fedError + resolution \<Rightarrow> bool" for en opts where
  no_anchors: "ro_trustAnchors opts = [] \<Longrightarrow>
     resolveTrustChainsWithFailures en opts (Inl (fail ''Cannot resolve a trust chain for zero trust anchors''))"
| resolved: "ro_trustAnchors opts \<noteq> [] \<Longrightarrow> (discoverStep en opts)\<^sup>*\<^sup>* (startDiscovery opts) (d, Finished r) \<Longrightarrow>
     resolveTrustChainsWithFailures en opts (Inr (conclude en opts d r))"

text \<open>The valid chains alone.\<close>

inductive resolveTrustChains :: "environment \<Rightarrow> resolveOptions \<Rightarrow> fedError + trustChain list \<Rightarrow> bool" for en opts where
  failed: "resolveTrustChainsWithFailures en opts (Inl e) \<Longrightarrow> resolveTrustChains en opts (Inl e)"
| chains: "resolveTrustChainsWithFailures en opts (Inr res) \<Longrightarrow> resolveTrustChains en opts (Inr (rs_trustChains res))"

end
