(* ===== verification/Discovery.thy ===== *)
theory Discovery imports TrustChain begin

text \<open>
  The discovery of paths, under every interleaving of its calls: what is found are trails of checked
  configurations from the leaf to a trust anchor, the requests and visits stay within the bound, no
  call is ever stuck, and every run ends.
\<close>

section \<open>Trails\<close>

definition configured :: "environment \<Rightarrow> resolveOptions \<Rightarrow> fetched \<Rightarrow> bool" where
  "configured en opts c = (\<exists>n entity url. loadConfiguration en opts n entity url = Inr c)"

definition hintsAt :: "fetched \<Rightarrow> string list" where
  "hintsAt c = (case st_authorityHints (fc_claims c) of None \<Rightarrow> [] | Some hs \<Rightarrow> hs)"

text \<open>The entities of a trail: checked, different, each named by the one before it, the first the leaf.\<close>

fun linked :: "fetched list \<Rightarrow> string \<Rightarrow> bool" where
  "linked [] entity = True"
| "linked [c] entity = (entity \<in> set (hintsAt c))"
| "linked (c # c' # path) entity = (subOf c' \<in> set (hintsAt c) \<and> linked (c' # path) entity)"

definition leadsTo :: "environment \<Rightarrow> resolveOptions \<Rightarrow> fetched list \<Rightarrow> string \<Rightarrow> bool" where
  "leadsTo en opts path entity = ((\<forall>c \<in> set path. configured en opts c)
     \<and> distinct (map subOf path @ [entity]) \<and> linked path entity
     \<and> hd (map subOf path @ [entity]) = ro_entityId opts \<and> length path \<le> ro_maxDepth opts)"

definition trail :: "environment \<Rightarrow> resolveOptions \<Rightarrow> fetched list \<Rightarrow> bool" where
  "trail en opts path = (\<exists>front c. path = front @ [c] \<and> configured en opts c \<and> leadsTo en opts front (subOf c))"

definition anchored :: "resolveOptions \<Rightarrow> fetched list \<Rightarrow> bool" where
  "anchored opts path = (findTrustAnchor opts (subOf (last path)) \<noteq> None)"

lemma linked_snoc: "linked (path @ [c]) entity \<longleftrightarrow> linked path (subOf c) \<and> entity \<in> set (hintsAt c)"
  by (induction path "subOf c" rule: linked.induct) auto

section \<open>Superiors\<close>

lemma superiorsOf_spec:
  "s \<in> set (superiorsOf opts localPath hs acc) \<Longrightarrow> s \<in> set acc \<or> (s \<in> set hs \<and> s \<notin> subOf ` set localPath)"
  by (induction opts localPath hs acc rule: superiorsOf.induct)
    (fastforce simp: list_ex_iff isSameEntityId_def split: if_splits)+

lemma superiorsOf_bounds:
  "distinct acc \<Longrightarrow> length acc \<le> ro_maxAuthorityHints opts \<Longrightarrow>
   distinct (superiorsOf opts localPath hs acc) \<and> length (superiorsOf opts localPath hs acc) \<le> ro_maxAuthorityHints opts"
  by (induction opts localPath hs acc rule: superiorsOf.induct) (auto simp: list_ex_iff isSameEntityId_def)

section \<open>The invariant of the calls\<close>

fun callGood :: "environment \<Rightarrow> resolveOptions \<Rightarrow> discoverCall \<Rightarrow> bool" where
  "callGood en opts (Awaiting entity path) = leadsTo en opts path entity"
| "callGood en opts (Joining localPath own calls) = (trail en opts localPath
     \<and> (\<forall>path \<in> set own. trail en opts path \<and> anchored opts path)
     \<and> list_all (callGood en opts) (map snd calls))"
| "callGood en opts (Finished (Inr paths)) = (\<forall>path \<in> set paths. trail en opts path \<and> anchored opts path)"
| "callGood en opts (Finished (Inl e)) = True"

definition configsGood :: "environment \<Rightarrow> resolveOptions \<Rightarrow> discovery \<Rightarrow> bool" where
  "configsGood en opts d = (\<forall>(entity, st) \<in> set (dc_configs d). \<forall>c. st = Settled (Inr c) \<longrightarrow>
     configured en opts c \<and> subOf c = entity)"

lemma startFetch_good: "configsGood en opts d \<Longrightarrow> configsGood en opts (startFetch opts entity d)"
  by (auto simp: configsGood_def startFetch_def Let_def split: sum.splits)

lemma startCall_good:
  assumes "startCall opts path entity d = (d', c)" "configsGood en opts d" "leadsTo en opts path entity"
  shows "configsGood en opts d' \<and> callGood en opts c"
proof -
  have "configsGood en opts (d\<lparr>dc_visits := v\<rparr>)" for v using assms(2) by (simp add: configsGood_def)
  then show ?thesis
    using assms(1,3) startFetch_good by (auto simp: startCall_def Let_def split: if_splits)
qed

lemma startCalls_good:
  "startCalls opts path ss d = (d', cs) \<Longrightarrow> configsGood en opts d \<Longrightarrow> \<forall>s \<in> set ss. leadsTo en opts path s \<Longrightarrow>
   configsGood en opts d' \<and> list_all (callGood en opts) (map snd cs)"
proof (induction ss arbitrary: d d' cs)
  case (Cons s ss)
  obtain d1 c where 1: "startCall opts path s d = (d1, c)" by (cases "startCall opts path s d")
  obtain d2 cs2 where 2: "startCalls opts path ss d1 = (d2, cs2)" by (cases "startCalls opts path ss d1")
  have g: "configsGood en opts d1 \<and> callGood en opts c" using startCall_good [OF 1 Cons.prems(2)] Cons.prems(3) by simp
  then show ?case using Cons.IH [OF 2] Cons.prems 1 2 by auto
qed simp

lemma trail_superior:
  assumes "trail en opts localPath" "length localPath \<le> ro_maxDepth opts"
    and "s \<in> set (superiorsOf opts localPath (hintsAt (last localPath)) [])"
  shows "leadsTo en opts localPath s"
proof -
  obtain front c where p: "localPath = front @ [c]" "configured en opts c" "leadsTo en opts front (subOf c)"
    using assms(1) by (auto simp: trail_def)
  have s: "s \<in> set (hintsAt c)" "s \<notin> subOf ` set localPath"
    using superiorsOf_spec [OF assms(3)] p(1) by auto
  show ?thesis
    using p s assms(2) unfolding leadsTo_def by (auto simp: linked_snoc hd_append)
qed

lemma resumeCall_good:
  assumes "resumeCall opts path c d = (d', call)" "configsGood en opts d"
    and "leadsTo en opts path (subOf c)" "configured en opts c"
  shows "configsGood en opts d' \<and> callGood en opts call"
proof -
  let ?lp = "path @ [c]"
  define own where "own = (if findTrustAnchor opts (subOf c) \<noteq> None then [?lp] else [])"
  have t: "trail en opts ?lp" using assms(3,4) by (auto simp: trail_def)
  have own: "\<forall>path \<in> set own. trail en opts path \<and> anchored opts path"
    using t by (simp add: own_def anchored_def)
  show ?thesis
  proof (cases "length ?lp > ro_maxDepth opts")
    case True
    then have "d' = d \<and> call = Finished (Inr own)"
      using assms(1) by (auto simp: resumeCall_def own_def Let_def)
    then show ?thesis using assms(2) own by simp
  next
    case False
    obtain d1 calls where s: "startCalls opts ?lp (superiorsOf opts ?lp (hintsAt c) []) d = (d1, calls)"
      by (cases "startCalls opts ?lp (superiorsOf opts ?lp (hintsAt c) []) d")
    then have r: "d' = d1" "call = Joining ?lp own calls"
      using assms(1) False by (auto simp: resumeCall_def own_def hintsAt_def Let_def)
    have "\<forall>s \<in> set (superiorsOf opts ?lp (hintsAt c) []). leadsTo en opts ?lp s"
      using trail_superior [OF t] False by simp
    from startCalls_good [OF s assms(2) this] show ?thesis using t own r by simp
  qed
qed

lemma settledPaths_good:
  "list_all (callGood en opts) (map snd cs) \<Longrightarrow> path \<in> set (settledPaths cs) \<Longrightarrow> trail en opts path \<and> anchored opts path"
  by (induction cs rule: settledPaths.induct) auto

lemma callStep_good:
  "callStep opts s s' \<Longrightarrow> configsGood en opts (fst s) \<Longrightarrow> callGood en opts (snd s) \<Longrightarrow>
   configsGood en opts (fst s') \<and> callGood en opts (snd s')"
proof (induction rule: callStep.induct)
  case (resume d entity c path)
  have "configured en opts c" "subOf c = entity"
    using map_of_SomeD [OF resume.hyps] resume.prems(1) by (auto simp: configsGood_def)
  then show ?case
    using resumeCall_good [of opts path c d "fst (resumeCall opts path c d)" "snd (resumeCall opts path c d)" en] resume.prems
    by simp
next
  case (join calls d localPath own)
  then show ?case using settledPaths_good by (auto simp: configsGood_def)
qed auto

lemma discoverStep_good:
  "discoverStep en opts s s' \<Longrightarrow> configsGood en opts (fst s) \<and> callGood en opts (snd s) \<Longrightarrow>
   configsGood en opts (fst s') \<and> callGood en opts (snd s')"
proof (induction rule: discoverStep.induct)
  case (answer d before entity n url after c)
  have "configured en opts c' \<and> subOf c' = entity" if "loadConfiguration en opts n entity url = Inr c'" for c'
  proof
    show "configured en opts c'" using that unfolding configured_def by blast
    show "subOf c' = entity" using that by (auto simp: loadConfiguration_def subOf_def isSameEntityId_def)
  qed
  then show ?case using answer by (auto simp: configsGood_def)
qed (use callStep_good in auto)

lemma startDiscovery_good:
  "configsGood en opts (fst (startDiscovery opts)) \<and> callGood en opts (snd (startDiscovery opts))"
proof -
  have "leadsTo en opts [] (ro_entityId opts)" by (simp add: leadsTo_def)
  then show ?thesis
    using startCall_good [of opts "[]" "ro_entityId opts" _ "fst (startDiscovery opts)" "snd (startDiscovery opts)" en]
    by (simp add: startDiscovery_def configsGood_def)
qed

lemma reachable_good:
  "(discoverStep en opts)\<^sup>*\<^sup>* (startDiscovery opts) s \<Longrightarrow> configsGood en opts (fst s) \<and> callGood en opts (snd s)"
  by (induction rule: rtranclp_induct) (rule startDiscovery_good, rule discoverStep_good)

text \<open>
  C33. Every path that discovery finds, whatever the order in which answers arrive, is a trail: it starts at
  the requested entity, each of its entities is listed in the authority hints of the one before it, none
  occurs twice, there are at most \<open>maxDepth\<close> superiors, each configuration was fetched and passed
  every check, and the last entity is a trust anchor.
\<close>

theorem discovery_sound:
  assumes "(discoverStep en opts)\<^sup>*\<^sup>* (startDiscovery opts) (d, Finished (Inr paths))" and "path \<in> set paths"
  shows "trail en opts path \<and> anchored opts path"
  using reachable_good [OF assms(1)] assms(2) by simp

section \<open>Every run ends\<close>

text \<open>The work a call has left, and what is left of the whole discovery: visits, calls and answers.\<close>

fun callWeight :: "discoverCall \<Rightarrow> nat" where
  "callWeight (Awaiting entity path) = 3"
| "callWeight (Joining localPath own calls) = Suc (sum_list (map callWeight (map snd calls)))"
| "callWeight (Finished r) = 0"

fun isPending :: "configState \<Rightarrow> bool" where
  "isPending (Pending n url) = True"
| "isPending (Settled r) = False"

definition configWeight :: "resolveOptions \<Rightarrow> discovery \<Rightarrow> nat" where
  "configWeight opts d = 4 * (ro_maxRequests opts - dc_visits d) + length (filter (isPending \<circ> snd) (dc_configs d))"

lemma startFetch_weight: "configWeight opts (startFetch opts entity d) \<le> Suc (configWeight opts d)"
  by (auto simp: startFetch_def configWeight_def Let_def split: sum.splits)

lemma startCall_weight:
  assumes "startCall opts path entity d = (d', c)"
  shows "configWeight opts d' + callWeight c \<le> configWeight opts d"
proof (cases "dc_visits d + 1 > ro_maxRequests opts")
  case True
  then show ?thesis using assms by (auto simp: startCall_def configWeight_def Let_def)
next
  case False
  let ?d = "d\<lparr>dc_visits := dc_visits d + 1\<rparr>"
  have r: "d' = startFetch opts entity ?d" "c = Awaiting entity path"
    using assms False by (auto simp: startCall_def Let_def)
  have "configWeight opts ?d + 4 = configWeight opts d" using False by (simp add: configWeight_def)
  then show ?thesis using startFetch_weight [of opts entity ?d] r by simp
qed

lemma startCalls_weight:
  "startCalls opts path ss d = (d', cs) \<Longrightarrow>
   configWeight opts d' + sum_list (map callWeight (map snd cs)) \<le> configWeight opts d"
proof (induction ss arbitrary: d d' cs)
  case (Cons s ss)
  obtain d1 c where 1: "startCall opts path s d = (d1, c)" by (cases "startCall opts path s d")
  obtain d2 cs2 where 2: "startCalls opts path ss d1 = (d2, cs2)" by (cases "startCalls opts path ss d1")
  have "d' = d2" "cs = (s, c) # cs2" using Cons.prems 1 2 by simp_all
  then show ?case using startCall_weight [OF 1] Cons.IH [OF 2] by simp
qed simp

lemma resumeCall_weight:
  "configWeight opts (fst (resumeCall opts path c d)) + callWeight (snd (resumeCall opts path c d)) < configWeight opts d + 3"
proof -
  let ?lp = "path @ [c]"
  obtain d1 calls where s: "startCalls opts ?lp (superiorsOf opts ?lp (hintsAt c) []) d = (d1, calls)"
    by (cases "startCalls opts ?lp (superiorsOf opts ?lp (hintsAt c) []) d")
  show ?thesis
    using startCalls_weight [OF s] s by (auto simp: resumeCall_def hintsAt_def Let_def)
qed

lemma callStep_weight:
  "callStep opts s s' \<Longrightarrow> configWeight opts (fst s') + callWeight (snd s') < configWeight opts (fst s) + callWeight (snd s)"
proof (induction rule: callStep.induct)
  case (resume d entity c path)
  then show ?case using resumeCall_weight [of opts path c d] by simp
qed (auto simp: configWeight_def)

lemma discoverStep_weight:
  "discoverStep en opts s s' \<Longrightarrow> configWeight opts (fst s') + callWeight (snd s') < configWeight opts (fst s) + callWeight (snd s)"
  by (induction rule: discoverStep.induct) (auto simp: configWeight_def dest: callStep_weight)

lemma startDiscovery_weight:
  "configWeight opts (fst (startDiscovery opts)) + callWeight (snd (startDiscovery opts)) \<le> 4 * ro_maxRequests opts"
proof -
  let ?d = "\<lparr>dc_requests = 0, dc_visits = 0, dc_configs = [], dc_failures = []\<rparr>"
  have "configWeight opts ?d = 4 * ro_maxRequests opts" by (simp add: configWeight_def)
  then show ?thesis
    using startCall_weight [of opts "[]" "ro_entityId opts" ?d "fst (startDiscovery opts)" "snd (startDiscovery opts)"]
    by (simp add: startDiscovery_def)
qed

lemma run_length:
  "(discoverStep en opts ^^ k) s s' \<Longrightarrow>
   k + configWeight opts (fst s') + callWeight (snd s') \<le> configWeight opts (fst s) + callWeight (snd s)"
proof (induction k arbitrary: s')
  case (Suc k)
  then obtain t where "(discoverStep en opts ^^ k) s t" "discoverStep en opts t s'" by auto
  then show ?case using Suc.IH [of t] discoverStep_weight [of en opts t s'] by simp
qed simp

section \<open>No call is stuck\<close>

fun awaited :: "discoverCall \<Rightarrow> string set" where
  "awaited (Awaiting entity path) = {entity}"
| "awaited (Joining localPath own calls) = \<Union> (set (map awaited (map snd calls)))"
| "awaited (Finished r) = {}"

definition asked :: "discovery \<Rightarrow> string set" where
  "asked d = fst ` set (dc_configs d)"

lemma startFetch_asked: "asked (startFetch opts entity d) = insert entity (asked d)"
  by (auto simp: asked_def startFetch_def Let_def map_of_eq_None_iff split: sum.splits)

lemma startCall_asked:
  "startCall opts path entity d = (d', c) \<Longrightarrow> asked d \<subseteq> asked d' \<and> awaited c \<subseteq> asked d'"
  using startFetch_asked [of opts entity "d\<lparr>dc_visits := dc_visits d + 1\<rparr>"]
  by (auto simp: startCall_def Let_def asked_def split: if_splits)

lemma startCalls_asked:
  "startCalls opts path ss d = (d', cs) \<Longrightarrow> asked d \<subseteq> asked d' \<and> \<Union> (set (map awaited (map snd cs))) \<subseteq> asked d'"
proof (induction ss arbitrary: d d' cs)
  case (Cons s ss)
  obtain d1 c where 1: "startCall opts path s d = (d1, c)" by (cases "startCall opts path s d")
  obtain d2 cs2 where 2: "startCalls opts path ss d1 = (d2, cs2)" by (cases "startCalls opts path ss d1")
  have "d' = d2" "cs = (s, c) # cs2" using Cons.prems 1 2 by simp_all
  then show ?case using startCall_asked [OF 1] Cons.IH [OF 2] by auto
qed simp

lemma resumeCall_asked:
  "asked d \<subseteq> asked (fst (resumeCall opts path c d)) \<and> awaited (snd (resumeCall opts path c d)) \<subseteq> asked (fst (resumeCall opts path c d))"
proof -
  let ?lp = "path @ [c]"
  obtain d1 calls where s: "startCalls opts ?lp (superiorsOf opts ?lp (hintsAt c) []) d = (d1, calls)"
    by (cases "startCalls opts ?lp (superiorsOf opts ?lp (hintsAt c) []) d")
  show ?thesis
    using startCalls_asked [OF s] s by (auto simp: resumeCall_def hintsAt_def Let_def)
qed

lemma callStep_asked:
  "callStep opts s s' \<Longrightarrow> awaited (snd s) \<subseteq> asked (fst s) \<Longrightarrow> asked (fst s) \<subseteq> asked (fst s') \<and> awaited (snd s') \<subseteq> asked (fst s')"
proof (induction rule: callStep.induct)
  case (resume d entity c path)
  then show ?case using resumeCall_asked [of d opts path c] by simp
next
  case (superior d c d' c' localPath own cs s cs')
  have "awaited c \<subseteq> asked d" using superior.prems by simp
  then have "asked d \<subseteq> asked d' \<and> awaited c' \<subseteq> asked d'" using superior.IH by simp
  then show ?case using superior.prems by simp blast
qed (simp_all add: asked_def)

lemma discoverStep_asked:
  "discoverStep en opts s s' \<Longrightarrow> awaited (snd s) \<subseteq> asked (fst s) \<Longrightarrow> awaited (snd s') \<subseteq> asked (fst s')"
proof (induction rule: discoverStep.induct)
  case (call s s')
  then show ?case using callStep_asked by blast
qed (simp add: asked_def)

lemma reachable_asked:
  "(discoverStep en opts)\<^sup>*\<^sup>* (startDiscovery opts) s \<Longrightarrow> awaited (snd s) \<subseteq> asked (fst s)"
proof (induction rule: rtranclp_induct)
  case base
  then show ?case
    using startCall_asked [of opts "[]" "ro_entityId opts" _ "fst (startDiscovery opts)" "snd (startDiscovery opts)"]
    by (simp add: startDiscovery_def)
qed (rule discoverStep_asked)

lemma call_progress:
  "awaited c \<subseteq> asked d \<Longrightarrow> \<forall>st \<in> snd ` set (dc_configs d). \<not> isPending st \<Longrightarrow> finished c \<or> (\<exists>s'. callStep opts (d, c) s')"
proof (induction c rule: awaited.induct)
  case (1 entity path)
  then obtain st where st: "map_of (dc_configs d) entity = Some st"
    by (force simp: asked_def map_of_eq_None_iff)
  then have "\<not> isPending st" using 1 by (force dest: map_of_SomeD)
  then obtain r where r: "st = Settled r" by (cases st) auto
  show ?case
  proof (cases r)
    case (Inl e)
    then show ?thesis using callStep.reject [of d entity e opts path] st r by blast
  next
    case (Inr c)
    then show ?thesis using callStep.resume [of d entity c opts path] st r by blast
  qed
next
  case (2 localPath own calls)
  show ?case
  proof (cases "list_all (finished \<circ> snd) calls")
    case True
    then show ?thesis using callStep.join by blast
  next
    case False
    then obtain s c where c: "(s, c) \<in> set calls" "\<not> finished c" by (auto simp: list_all_iff)
    then obtain cs cs' where calls: "calls = cs @ (s, c) # cs'" by (meson split_list)
    have "c \<in> set (map snd calls)" using c(1) by force
    moreover have "awaited c \<subseteq> asked d" using "2.prems"(1) c(1) by fastforce
    ultimately obtain s' where "callStep opts (d, c) s'" using "2.IH" "2.prems"(2) c(2) by blast
    then have "callStep opts (d, Joining localPath own calls) (fst s', Joining localPath own (cs @ (s, snd s') # cs'))"
      unfolding calls by (intro callStep.superior) simp
    then show ?thesis by blast
  qed
qed simp

lemma discover_progress:
  assumes "awaited c \<subseteq> asked d" "\<not> finished c"
  shows "\<exists>s'. discoverStep en opts (d, c) s'"
proof (cases "\<forall>st \<in> snd ` set (dc_configs d). \<not> isPending st")
  case True
  then show ?thesis using call_progress [OF assms(1) True] assms(2) discoverStep.call by blast
next
  case False
  then obtain entity st where "(entity, st) \<in> set (dc_configs d)" "isPending st" by auto
  then obtain n url before after where "dc_configs d = before @ (entity, Pending n url) # after"
    by (cases st) (auto dest: split_list)
  then show ?thesis using discoverStep.answer by blast
qed

lemma discovery_ends:
  "awaited (snd s) \<subseteq> asked (fst s) \<Longrightarrow> \<exists>d r. (discoverStep en opts)\<^sup>*\<^sup>* s (d, Finished r)"
proof (induction "configWeight opts (fst s) + callWeight (snd s)" arbitrary: s rule: less_induct)
  case less
  obtain d c where s: "s = (d, c)" by (cases s)
  show ?case
  proof (cases "finished c")
    case True
    then show ?thesis by (cases c) (auto simp: s)
  next
    case False
    then obtain s' where step: "discoverStep en opts s s'"
      using discover_progress [of c d en opts] less.prems s by auto
    then show ?thesis
      using less.hyps [OF discoverStep_weight [OF step]] discoverStep_asked [OF step less.prems]
      by (meson converse_rtranclp_into_rtranclp)
  qed
qed

text \<open>
  C34. Discovery always ends: no run of it has more than four times \<open>maxRequests\<close> steps, and from every
  state it can get into it goes on to a result, whichever answers come and in whatever order.
\<close>

theorem discovery_terminates:
  assumes "(discoverStep en opts ^^ k) (startDiscovery opts) s"
  shows "k \<le> 4 * ro_maxRequests opts \<and> (\<exists>d r. (discoverStep en opts)\<^sup>*\<^sup>* s (d, Finished r))"
proof
  show "k \<le> 4 * ro_maxRequests opts"
    using run_length [OF assms] startDiscovery_weight [of opts] by simp
  show "\<exists>d r. (discoverStep en opts)\<^sup>*\<^sup>* s (d, Finished r)"
    using discovery_ends [OF reachable_asked] relpowp_imp_rtranclp [OF assms] by blast
qed

end
