(* ===== verification/ChainLaws.thy ===== *)
theory ChainLaws imports Discovery PolicyChain begin

text \<open>
  What a resolved trust chain guarantees: the statements link the leaf to the trust anchor, each is
  current and signed with a key the next one lists, the constraints hold, and the resolved metadata
  satisfies the policies of every statement and has only the entity types they allow.
\<close>

section \<open>Statements\<close>

definition current :: "resolveOptions \<Rightarrow> statement \<Rightarrow> bool" where
  "current opts st = ((\<exists>iat. st_iat st = Some iat \<and> iat \<le> ro_now opts + ro_clockSkewMs opts)
     \<and> (\<exists>expiry. st_exp st = Some expiry \<and> ro_now opts - ro_clockSkewMs opts < expiry)
     \<and> (\<forall>crit. st_crit st = Some crit \<longrightarrow> set crit \<subseteq> set (ro_understoodCritical opts)))"

definition signedWith :: "environment \<Rightarrow> resolveOptions \<Rightarrow> string \<Rightarrow> jwk list \<Rightarrow> bool" where
  "signedWith en opts jwt keys = (\<exists>t key. parseJsonWebToken (en_platform en) jwt = Inr t \<and> key \<in> set keys
     \<and> claimOf (ft_header t) ''kid'' = JStr (jk_kid key) \<and> ro_verify opts jwt t key = Inr True)"

text \<open>The statement of \<open>superior\<close> about \<open>subject\<close>, which has \<open>index\<close> intermediates below it.\<close>

definition attests :: "environment \<Rightarrow> resolveOptions \<Rightarrow> nat \<Rightarrow> fetched \<Rightarrow> fetched \<Rightarrow> signedStatement \<Rightarrow> bool" where
  "attests en opts index subject superior s = (zJsonWebToken (en_platform en) (entityStatementClaims (en_schemas en)) (fst s) = Some (snd s)
     \<and> st_iss (snd s) = subOf superior \<and> st_sub (snd s) = subOf subject \<and> current opts (snd s)
     \<and> st_policyCrit (snd s) = None
     \<and> (\<forall>c. st_constraints (snd s) = Some c \<longrightarrow> \<not> cn_naming c
          \<and> (\<forall>len. cn_maxPathLength c = Some len \<longrightarrow> of_nat index \<le> len)))"

lemma assertCurrent_iff: "assertCurrent opts st = Inr u \<longleftrightarrow> current opts st"
  by (auto simp: assertCurrent_def current_def Let_def filter_empty_conv split: option.splits)

lemma rejected_iff [simp]: "rejected m r = Inr u \<longleftrightarrow> r = Inr u"
  by (cases r) (auto simp: rejected_def)

lemma verifyJwtSignature_keys:
  assumes "verifyJwtSignature (en_platform en) (ro_verify opts) jwt (Some keys) = Inr u"
  shows "signedWith en opts jwt keys"
proof -
  obtain t key where t: "parseJsonWebToken (en_platform en) jwt = Inr t"
    and k: "getUsedJsonWebKey (ft_header t) (Some keys) = Inr key" and v: "ro_verify opts jwt t key = Inr True"
    using assms by (auto simp: verifyJwtSignature_def)
  obtain kid where "claimOf (ft_header t) ''kid'' = JStr kid" "find (\<lambda>k. jk_kid k = kid) keys = Some key"
    using k by (auto simp: getUsedJsonWebKey_def split: json.splits option.splits)
  then have "key \<in> set keys" "claimOf (ft_header t) ''kid'' = JStr (jk_kid key)"
    by (auto simp: find_Some_iff)
  then show ?thesis unfolding signedWith_def using t v by blast
qed

lemma checkStatement_attests:
  assumes "checkStatement en opts index subject superior jwt = Inr s"
  shows "attests en opts index subject superior s"
proof -
  obtain claims where "zJsonWebToken (en_platform en) (entityStatementClaims (en_schemas en)) jwt = Some claims"
    and s: "s = (jwt, claims)" "isSameEntityId (st_iss claims) (subOf superior)" "isSameEntityId (st_sub claims) (subOf subject)"
      "assertCurrent opts claims = Inr ()" "assertSubordinateStatementClaims claims = Inr ()"
      "case st_constraints claims of None \<Rightarrow> True | Some c \<Rightarrow> \<not> cn_naming c"
      "case st_constraints claims of None \<Rightarrow> True
         | Some c \<Rightarrow> (case cn_maxPathLength c of None \<Rightarrow> True | Some len \<Rightarrow> \<not> of_nat index > len)"
    using assms unfolding checkStatement_def validated_def by (auto split: option.splits)
  moreover have "st_policyCrit claims = None" using s(5) by (simp add: assertSubordinateStatementClaims_def)
  ultimately show ?thesis
    by (auto simp: attests_def assertCurrent_iff isSameEntityId_def split: option.splits)
qed

lemma fetchStatements_attest:
  "fetchStatements en opts n index path = (m, Inr sts) \<Longrightarrow> path \<noteq> [] \<Longrightarrow>
   length path = Suc (length sts) \<and> (\<forall>i < length sts. attests en opts (index + i) (path ! i) (path ! Suc i) (sts ! i))"
proof (induction en opts n index path arbitrary: m sts rule: fetchStatements.induct)
  case (1 en opts n index subject superior path)
  obtain s sts' endpoint where e: "fetchEndpoint (fc_claims superior) = Some endpoint" "\<not> n + 1 > ro_maxRequests opts"
    and s: "bindR (fetchGet (en_network en) (n + 1) endpoint [(''sub'', subOf subject)] (Some contentType))
        (checkStatement en opts index subject superior) = Inr s"
    and r: "fetchStatements en opts (n + 1) (index + 1) (superior # path) = (m, Inr sts')" "sts = s # sts'"
    using "1.prems"(1) by (auto split: option.splits if_splits sum.splits prod.splits)
  obtain jwt where "checkStatement en opts index subject superior jwt = Inr s" using s by (auto simp del: split_paired_All)
  then have a: "attests en opts index subject superior s" by (rule checkStatement_attests)
  have IH: "length (superior # path) = Suc (length sts') \<and>
      (\<forall>i < length sts'. attests en opts (index + 1 + i) ((superior # path) ! i) ((superior # path) ! Suc i) (sts' ! i))"
    using "1.IH" [OF e s r(1)] by simp
  have "attests en opts (index + i) ((subject # superior # path) ! i) ((subject # superior # path) ! Suc i) (sts ! i)"
    if "i < length sts" for i
    using that a IH r(2) by (cases i) auto
  then show ?case using IH r(2) by simp
qed auto

section \<open>Signatures\<close>

lemma verifySigners_keys:
  "verifySigners en opts anchorKeys signers nexts = Inr u \<Longrightarrow> length signers = Suc (length nexts) \<Longrightarrow>
   (\<forall>i < length nexts. signedWith en opts (fst (signers ! i)) (st_jwks (snd (nexts ! i))))
   \<and> signedWith en opts (fst (last signers)) anchorKeys"
proof (induction en opts anchorKeys signers nexts rule: verifySigners.induct)
  case (2 en opts anchorKeys s signers nexts)
  have v: "verifyJwtSignature (en_platform en) (ro_verify opts) (fst s)
      (Some (case nexts of [] \<Rightarrow> anchorKeys | next # _ \<Rightarrow> st_jwks (snd next))) = Inr ()"
    and rest: "verifySigners en opts anchorKeys signers (tl nexts) = Inr u"
    using "2.prems"(1) by auto
  note k = verifyJwtSignature_keys [OF v]
  show ?case
  proof (cases nexts)
    case Nil
    then show ?thesis using k "2.prems"(2) by simp
  next
    case (Cons nx nexts')
    have IH: "(\<forall>i < length nexts'. signedWith en opts (fst (signers ! i)) (st_jwks (snd (nexts' ! i))))
        \<and> signedWith en opts (fst (last signers)) anchorKeys"
      using "2.IH" [OF iffD2 [OF rejected_iff v] rest] "2.prems"(2) Cons by simp
    have "signedWith en opts (fst ((s # signers) ! i)) (st_jwks (snd (nexts ! i)))" if "i < length nexts" for i
      using that k IH Cons by (cases i) auto
    moreover have "signers \<noteq> []" using "2.prems"(2) Cons by auto
    ultimately show ?thesis using IH by simp
  qed
qed simp

section \<open>Policies and entity types\<close>

lemma policyBlock_wf:
  "policyBlock kv = Some sb \<Longrightarrow> isJson (snd kv) \<Longrightarrow> fst sb = fst kv \<and> wfBlock (snd sb)"
proof -
  assume "policyBlock kv = Some sb" "isJson (snd kv)"
  then obtain props where p: "snd kv = JObj props" "list_all (rulesOf \<circ> snd) props" "sb = (fst kv, props)"
    by (auto simp: policyBlock_def split: json.splits if_splits)
  have "wfRules v" if "(q, v) \<in> set props" for q v
  proof -
    have "rulesOf v" "isJson v" using that p(2) \<open>isJson (snd kv)\<close> p(1) by (auto simp: list_all_iff)
    then show ?thesis by (cases v) (auto simp: rulesOf_def wfRules_def zMetadataPolicy_def)
  qed
  then show ?thesis using p \<open>isJson (snd kv)\<close> by (auto simp: wfBlock_def)
qed

lemma metadataPolicyOf_wf: "metadataPolicyOf v = Some m \<Longrightarrow> isJson v \<Longrightarrow> wfPolicy m"
proof -
  assume m: "metadataPolicyOf v = Some m" and v: "isJson v"
  then obtain kvs where kvs: "v = JObj kvs" "map policyBlock kvs = map Some m"
    by (auto simp: metadataPolicyOf_def those_Some split: json.splits)
  have l: "length m = length kvs" using kvs(2) by (metis length_map)
  have e: "policyBlock (kvs ! i) = Some (m ! i)" if "i < length kvs" for i
    using kvs(2) that l by (metis nth_map)
  have b: "fst (m ! i) = fst (kvs ! i) \<and> wfBlock (snd (m ! i))" if "i < length kvs" for i
    using policyBlock_wf [OF e [OF that]] that v kvs(1) by (auto simp: list_all_length)
  have "map fst m = map fst kvs" using b l by (intro nth_equalityI) auto
  then have "distinct (map fst m)" using v kvs(1) by simp
  moreover have "wfBlock (snd sb)" if "sb \<in> set m" for sb using that b l by (auto simp: in_set_conv_nth)
  ultimately show ?thesis by (simp add: wfPolicy_def)
qed

text \<open>\<open>JSON.parse\<close> returns JSON values.\<close>

definition parsesJson :: "platform \<Rightarrow> bool" where
  "parsesJson p = (\<forall>s v. parseJson p s = Some v \<longrightarrow> isJson v)"

lemma claimOf_isJson: "isJson v \<Longrightarrow> claimOf v k = JUndefined \<or> isJson (claimOf v k) \<or> (\<exists>b. claimOf v k = JBuiltin b)"
  by (cases v) (auto simp: claimOf_def getProp_def list_all_iff split: option.splits dest: map_of_SomeD)

lemma statement_policy_wf:
  assumes "parsesJson p" "zJsonWebToken p (entityStatementClaims sc) jwt = Some st"
  shows "wfStatement (st_metadataPolicy st, crit)"
proof -
  obtain t where t: "parseJsonWebToken p jwt = Inr t" "entityStatementClaims sc (ft_claims t) = Some st"
    using assms(2) by (auto simp: zJsonWebToken_def split: sum.splits if_splits)
  have json: "isJson (ft_claims t)"
    using t(1) assms(1)
    by (auto simp: parseJsonWebToken_def Let_def commonToFed_def base64urlDecodeJson_def parsesJson_def split: sum.splits option.splits)
  have "optionalOf metadataPolicyOf (claimOf (ft_claims t) ''metadata_policy'') = Some (st_metadataPolicy st)"
    using t(2) by (auto simp: entityStatementClaims_def split: option.splits if_splits)
  then show ?thesis
    using claimOf_isJson [OF json, of "''metadata_policy''"] metadataPolicyOf_wf
    by (auto simp: wfStatement_def optionalOf_def metadataPolicyOf_def split: option.splits if_splits)
qed

section \<open>The metadata of the leaf\<close>

lemma hasEntityType_own: "s \<notin> set protoKeys \<Longrightarrow> hasEntityType m s \<longleftrightarrow> s \<in> fst ` set m"
  by (simp add: hasEntityType_def inObj_def)

lemma hasEntityType_restrict:
  assumes "hasEntityType (restrictEntityTypes m sts) s" "s \<notin> set protoKeys" "st \<in> set sts"
    and "st_constraints st = Some c" "cn_allowedTypes c = Some types"
  shows "s = ''federation_entity'' \<or> s \<in> set types"
proof -
  let ?allowed = "List.map_filter (\<lambda>st. case st_constraints st of None \<Rightarrow> None | Some c \<Rightarrow> cn_allowedTypes c) sts"
  have "types \<in> set ?allowed" using assms(3-5) by (force simp: map_filter_def)
  moreover have "?allowed \<noteq> []" using calculation by auto
  ultimately show ?thesis using assms(1,2) by (auto simp: hasEntityType_own restrictEntityTypes_def Let_def list_all_iff)
qed

lemma resolveMetadata_holds:
  assumes r: "resolveMetadata leaf statements = Inr resolved"
    and wf: "\<forall>st \<in> set statements. wfStatement (st_metadataPolicy st, st_policyCrit st)" and st: "st \<in> set statements"
    and s: "hasEntityType resolved s" "s \<notin> set protoKeys"
  shows "(\<forall>p. p \<noteq> ''scope'' \<longrightarrow> p \<notin> set protoKeys \<longrightarrow>
        statementMeets (st_metadataPolicy st, st_policyCrit st) s p (getPropertyValue resolved s p))
    \<and> (\<forall>c types. st_constraints st = Some c \<longrightarrow> cn_allowedTypes c = Some types \<longrightarrow> s = ''federation_entity'' \<or> s \<in> set types)"
proof -
  let ?leaf = "restrictEntityTypes (mergeMetadata (orEmpty (st_metadata leaf)) (orEmpty (st_metadata (hd statements)))) statements"
  let ?sts = "map (\<lambda>st. (st_metadataPolicy st, st_policyCrit st)) statements"
  obtain merged where m: "combineMetadataPolicies ?sts = Inr merged" "applyMetadataPolicyToMetadata ?leaf merged = Inr resolved"
    using r by (auto simp: resolveMetadata_def)
  have e: "hasEntityType ?leaf s"
    using applyServices_elsewhere [OF m(2) [unfolded apply_services]] s(1) by (simp add: elsewhere_def)
  have w: "\<forall>st \<in> set ?sts. wfStatement st" using wf by auto
  have "statementMeets (st_metadataPolicy st, st_policyCrit st) s p (getPropertyValue resolved s p)"
    if p: "p \<noteq> ''scope''" "p \<notin> set protoKeys" for p
    using combineMetadataPolicies_meets [OF m(1) w, of s p "getPropertyValue resolved s p"]
      applyMetadataPolicy_meets [OF m(2) e _ p] st by auto
  then show ?thesis using hasEntityType_restrict [OF e s(2) st] by blast
qed

section \<open>Valid chains\<close>

definition expiresWithin :: "int option \<Rightarrow> statement \<Rightarrow> bool" where
  "expiresWithin e st = (\<exists>a b. e = Some a \<and> st_exp st = Some b \<and> a \<le> b)"

text \<open>The statements \<open>sts\<close> link the entities of the path, from the leaf to the trust anchor.\<close>

definition linkedBy :: "environment \<Rightarrow> resolveOptions \<Rightarrow> fetched list \<Rightarrow> signedStatement list \<Rightarrow> bool" where
  "linkedBy en opts path sts = (length path = Suc (length sts)
     \<and> (\<forall>i < length sts. attests en opts i (path ! i) (path ! Suc i) (sts ! i)
          \<and> signedWith en opts (fst (((fc_jwt (hd path), fc_claims (hd path)) # sts) ! i)) (st_jwks (snd (sts ! i))))
     \<and> (sts \<noteq> [] \<longrightarrow> signedWith en opts (fst (last sts)) (st_jwks (fc_claims (last path))))
     \<and> (\<forall>anchor keys. findTrustAnchor opts (subOf (last path)) = Some anchor \<longrightarrow> ta_jwks anchor = Some keys \<longrightarrow>
          signedWith en opts (fc_jwt (last path)) keys))"

definition metadataHolds :: "statement list \<Rightarrow> metadata \<Rightarrow> bool" where
  "metadataHolds sts m = (\<forall>st \<in> set sts. \<forall>s. hasEntityType m s \<longrightarrow> s \<notin> set protoKeys \<longrightarrow>
     (\<forall>p. p \<noteq> ''scope'' \<longrightarrow> p \<notin> set protoKeys \<longrightarrow>
        statementMeets (st_metadataPolicy st, st_policyCrit st) s p (getPropertyValue m s p))
     \<and> (\<forall>c types. st_constraints st = Some c \<longrightarrow> cn_allowedTypes c = Some types \<longrightarrow> s = ''federation_entity'' \<or> s \<in> set types))"

definition validChain :: "environment \<Rightarrow> resolveOptions \<Rightarrow> trustChain \<Rightarrow> bool" where
  "validChain en opts tc = (\<exists>path sts. trail en opts path \<and> anchored opts path \<and> linkedBy en opts path sts
     \<and> tc_leaf tc = fc_claims (hd path) \<and> tc_anchor tc = fc_claims (last path)
     \<and> tc_jwtChain tc = fc_jwt (hd path) # map fst sts @ (if sts = [] then [] else [fc_jwt (last path)])
     \<and> (\<forall>st \<in> set (map fc_claims path @ map snd sts). current opts st \<and> expiresWithin (tc_expiresAt tc) st)
     \<and> (case tc_resolved tc of None \<Rightarrow> sts = [] | Some m \<Rightarrow> metadataHolds (map snd sts) m))"

lemma configured_current: "configured en opts c \<Longrightarrow> current opts (fc_claims c)"
  by (auto simp: configured_def loadConfiguration_def assertCurrent_iff)

lemma trail_configured: "trail en opts path \<Longrightarrow> c \<in> set path \<Longrightarrow> configured en opts c"
  by (auto simp: trail_def leadsTo_def)

lemma earliest_least:
  "\<forall>e \<in> set es. e \<noteq> None \<Longrightarrow> es \<noteq> [] \<Longrightarrow> \<exists>a. earliest es = Some a \<and> (\<forall>e \<in> set es. a \<le> the e)"
proof (induction es rule: earliest.induct)
  case (3 e e' es)
  then obtain a where "earliest (e' # es) = Some a" "\<forall>x \<in> set (e' # es). a \<le> the x" by auto
  then show ?case using "3.prems"(1) by (auto simp: min_def) (meson order_trans linear)+
qed auto

lemma expires_all:
  assumes "\<forall>st \<in> set sts. current opts st" "st \<in> set sts"
  shows "expiresWithin (earliest (map st_exp sts)) st"
proof -
  have "\<forall>e \<in> set (map st_exp sts). e \<noteq> None" "map st_exp sts \<noteq> []"
    using assms by (auto simp: current_def)
  from earliest_least [OF this] obtain a where "earliest (map st_exp sts) = Some a" "\<forall>e \<in> set (map st_exp sts). a \<le> the e" by blast
  moreover obtain b where "st_exp st = Some b" using assms by (auto simp: current_def)
  ultimately show ?thesis using assms(2) by (force simp: expiresWithin_def)
qed

lemma completePath_result:
  assumes "completePath en opts path sts = Inr tc"
  shows "(sts \<noteq> [] \<longrightarrow> verifySigners en opts (st_jwks (fc_claims (last path))) ((fc_jwt (hd path), fc_claims (hd path)) # sts) sts = Inr ())
    \<and> tc_leaf tc = fc_claims (hd path) \<and> (sts \<noteq> [] \<longrightarrow> tc_anchor tc = fc_claims (last path))
    \<and> (sts = [] \<longrightarrow> tc_anchor tc = fc_claims (hd path))
    \<and> tc_jwtChain tc = fc_jwt (hd path) # map fst sts @ (if sts = [] then [] else [fc_jwt (last path)])
    \<and> tc_expiresAt tc = earliest (map st_exp (map fc_claims path @ map snd sts))
    \<and> (sts \<noteq> [] \<longrightarrow> (\<exists>m. tc_resolved tc = Some m \<and> resolveMetadata (fc_claims (hd path)) (map snd sts) = Inr m))"
  using assms by (auto simp: completePath_def Let_def comp_def split: if_splits)

lemma validatePath_valid:
  assumes v: "validatePath en opts n path = (m, Inr tc)" and path: "trail en opts path" "anchored opts path"
    and json: "parsesJson (en_platform en)"
  shows "validChain en opts tc"
proof -
  obtain anchor where anchor: "findTrustAnchor opts (subOf (last path)) = Some anchor"
    using path(2) by (auto simp: anchored_def)
  have keys: "signedWith en opts (fc_jwt (last path)) keys" if "ta_jwks anchor = Some keys" for keys
    using v anchor that by (auto simp: validatePath_def Let_def split: sum.splits dest: verifyJwtSignature_keys)
  obtain sts where f: "fetchStatements en opts n 0 path = (m, Inr sts)" and c: "completePath en opts path sts = Inr tc"
    using v by (auto simp: validatePath_def Let_def split: sum.splits prod.splits)
  have "path \<noteq> []" using path(1) by (auto simp: trail_def)
  note a = fetchStatements_attest [OF f this]
  note r = completePath_result [OF c]
  have sig: "sts \<noteq> [] \<Longrightarrow> (\<forall>i < length sts. signedWith en opts (fst (((fc_jwt (hd path), fc_claims (hd path)) # sts) ! i)) (st_jwks (snd (sts ! i))))
      \<and> signedWith en opts (fst (last sts)) (st_jwks (fc_claims (last path)))"
  proof -
    assume ne: "sts \<noteq> []"
    have "verifySigners en opts (st_jwks (fc_claims (last path))) ((fc_jwt (hd path), fc_claims (hd path)) # sts) sts = Inr ()"
      using r ne by blast
    from verifySigners_keys [OF this] ne show "(\<forall>i < length sts. signedWith en opts (fst (((fc_jwt (hd path), fc_claims (hd path)) # sts) ! i)) (st_jwks (snd (sts ! i))))
      \<and> signedWith en opts (fst (last sts)) (st_jwks (fc_claims (last path)))" by simp
  qed
  have linked: "linkedBy en opts path sts"
    unfolding linkedBy_def using a sig keys anchor by (cases "sts = []") auto
  have att: "\<exists>i subject superior. attests en opts i subject superior s" if "s \<in> set sts" for s
    using that a by (metis add_0 in_set_conv_nth)
  have "current opts st" if "st \<in> set (map fc_claims path @ map snd sts)" for st
    using that configured_current [OF trail_configured [OF path(1)]] att by (auto simp: attests_def)
  then have cur: "\<forall>st \<in> set (map fc_claims path @ map snd sts). current opts st" by blast
  have wf: "\<forall>st \<in> set (map snd sts). wfStatement (st_metadataPolicy st, st_policyCrit st)"
    using att statement_policy_wf [OF json] by (fastforce simp: attests_def)
  have meta: "case tc_resolved tc of None \<Rightarrow> sts = [] | Some m \<Rightarrow> metadataHolds (map snd sts) m"
  proof (cases "sts = []")
    case True
    then show ?thesis by (simp add: metadataHolds_def split: option.splits)
  next
    case False
    then obtain m' where "tc_resolved tc = Some m'" "resolveMetadata (fc_claims (hd path)) (map snd sts) = Inr m'"
      using r by blast
    then show ?thesis using resolveMetadata_holds [OF _ wf] by (simp add: metadataHolds_def)
  qed
  have "tc_anchor tc = fc_claims (last path)"
  proof (cases "sts = []")
    case True
    then have "length path = 1" using a by simp
    then show ?thesis using r True by (cases path) auto
  qed (use r in blast)
  then show ?thesis
    unfolding validChain_def using path linked r cur expires_all [OF cur] meta by metis
qed

lemma validatePaths_valid:
  "tc \<in> set (rs_trustChains (validatePaths en opts n paths acc)) \<Longrightarrow> parsesJson (en_platform en) \<Longrightarrow>
   \<forall>path \<in> set paths. trail en opts path \<and> anchored opts path \<Longrightarrow>
   tc \<in> set (rs_trustChains acc) \<or> validChain en opts tc"
proof (induction en opts n paths acc rule: validatePaths.induct)
  case (2 en opts n path paths acc)
  obtain m r where v: "validatePath en opts n path = (m, r)" by (cases "validatePath en opts n path")
  show ?case
  proof (cases r)
    case (Inl e)
    then show ?thesis using "2.IH"(1) [OF v [symmetric] Inl] "2.prems" v by simp
  next
    case (Inr chain)
    then show ?thesis
      using "2.IH"(2) [OF v [symmetric] Inr] "2.prems" v validatePath_valid [of en opts n path m chain] by auto
  qed
qed simp

lemma resolution_valid:
  assumes "resolveTrustChainsWithFailures en opts (Inr res)" "tc \<in> set (rs_trustChains res)" "parsesJson (en_platform en)"
  shows "validChain en opts tc"
  using assms(1)
proof cases
  case (resolved d r)
  then obtain paths where r: "r = Inr paths" using assms(2) by (cases r) (auto simp: conclude_def)
  have "\<forall>path \<in> set paths. trail en opts path \<and> anchored opts path"
    using reachable_good [OF resolved(3)] r by simp
  then show ?thesis
    using validatePaths_valid [of tc en opts "dc_requests d" paths "\<lparr>rs_trustChains = [], rs_failures = dc_failures d\<rparr>"]
      assms(2,3) resolved(1) r by (simp add: conclude_def)
qed


end
