(* ===== verification/ChainExample.thy ===== *)
theory ChainExample imports ChainLaws begin

text \<open>
  A federation of two entities, a leaf and its trust anchor, and one run of the resolution on it: the
  hypotheses of the properties of discovery and of trust chains hold on it.
\<close>

section \<open>The federation\<close>

definition leafId :: string where "leafId = ''https://l''"
definition anchorId :: string where "anchorId = ''https://a''"

definition sampleKeys :: "string \<Rightarrow> json" where
  "sampleKeys kid = JObj [(''keys'', JArr [JObj [(''kty'', JStr ''EC''), (''kid'', JStr kid)]])]"

definition sampleClaimsOf :: "string \<Rightarrow> string \<Rightarrow> fields \<Rightarrow> json" where
  "sampleClaimsOf iss sub rest = JObj ([(''iss'', JStr iss), (''sub'', JStr sub), (''iat'', JNum 1), (''exp'', JNum 9),
     (''jwks'', sampleKeys ''k'')] @ rest)"

definition sampleTexts :: "(string \<times> json) list" where
  "sampleTexts = [(''h'', JObj [(''kid'', JStr ''k''), (''typ'', JStr ''entity-statement+jwt'')]),
     (''1'', sampleClaimsOf leafId leafId [(''authority_hints'', JArr [JStr anchorId]),
        (''metadata'', JObj [(''rp'', JObj [(''grants'', JArr [JStr ''x'', JStr ''y''])])])]),
     (''2'', sampleClaimsOf anchorId anchorId
        [(''metadata'', JObj [(''federation_entity'', JObj [(''federation_fetch_endpoint'', JStr ''https://a/f'')])])]),
     (''3'', sampleClaimsOf anchorId leafId
        [(''metadata_policy'', JObj [(''rp'', JObj [(''grants'', JObj [(''subset_of'', JArr [JStr ''y''])])])])])]"

definition sampleMetadata :: "json \<Rightarrow> metadata option" where
  "sampleMetadata v = (case v of
       JObj kvs \<Rightarrow> those (map (\<lambda>kv. case snd kv of JObj f \<Rightarrow> Some (fst kv, f) | _ \<Rightarrow> None) kvs)
     | _ \<Rightarrow> None)"

definition sampleAnswer :: "string \<Rightarrow> fedError + httpResponse" where
  "sampleAnswer text = Inr \<lparr>rp_ok = True, rp_status = 200, rp_contentType = Some ''application/entity-statement+jwt; charset=utf-8'',
     rp_text = text\<rparr>"

definition sampleEnvironment :: environment where
  "sampleEnvironment = \<lparr>en_platform = \<lparr>hashOf = \<lambda>s alg. [], stringify = \<lambda>v. [], parseJson = map_of sampleTexts\<rparr>,
     en_schemas = \<lparr>sc_url = \<lambda>s. True, sc_httpsUrl = \<lambda>s. True, sc_metadata = sampleMetadata, sc_trustMarks = \<lambda>v. True,
       sc_trustMarkIssuers = \<lambda>v. True, sc_trustMarkOwners = \<lambda>v. True\<rparr>,
     en_network = \<lambda>n url. if url = ''https://l/.well-known/openid-federation'' then sampleAnswer ''aA.MQ.c2ln''
       else if url = ''https://a/.well-known/openid-federation'' then sampleAnswer ''aA.Mg.c2ln''
       else if url = ''https://a/f?sub=https%3A%2F%2Fl'' then sampleAnswer ''aA.Mw.c2ln'' else Inl (FedError ''not found'')\<rparr>"

definition sampleOptions :: resolveOptions where
  "sampleOptions = \<lparr>ro_verify = \<lambda>jwt t key. Inr True, ro_entityId = leafId,
     ro_trustAnchors = [\<lparr>ta_entityId = anchorId, ta_jwks = None\<rparr>], ro_now = 5000, ro_clockSkewMs = 0, ro_maxDepth = 8,
     ro_maxRequests = 64, ro_maxAuthorityHints = 10, ro_understoodCritical = []\<rparr>"

definition sampleStatement :: statement where
  "sampleStatement = \<lparr>st_iss = leafId, st_sub = leafId, st_iat = Some 1000, st_exp = Some 9000,
     st_jwks = [\<lparr>jk_kid = ''k'', jk_value = JObj [(''kty'', JStr ''EC''), (''kid'', JStr ''k'')]\<rparr>],
     st_authorityHints = Some [anchorId], st_metadata = Some [(''rp'', [(''grants'', JArr [JStr ''x'', JStr ''y''])])],
     st_metadataPolicy = None, st_constraints = None, st_crit = None, st_policyCrit = None, st_trustMarks = False,
     st_trustMarkIssuers = False, st_trustMarkOwners = False, st_sourceEndpoint = False\<rparr>"

definition leafConfiguration :: fetched where
  "leafConfiguration = \<lparr>fc_jwt = ''aA.MQ.c2ln'', fc_claims = sampleStatement\<rparr>"

definition anchorConfiguration :: fetched where
  "anchorConfiguration = \<lparr>fc_jwt = ''aA.Mg.c2ln'', fc_claims = sampleStatement\<lparr>st_iss := anchorId, st_sub := anchorId,
     st_authorityHints := None,
     st_metadata := Some [(''federation_entity'', [(''federation_fetch_endpoint'', JStr ''https://a/f'')])]\<rparr>\<rparr>"

lemmas federation = leafId_def anchorId_def sampleKeys_def sampleClaimsOf_def sampleTexts_def sampleMetadata_def sampleAnswer_def
  sampleEnvironment_def sampleOptions_def sampleStatement_def leafConfiguration_def anchorConfiguration_def

section \<open>Its answers\<close>

lemma load_leaf: "loadConfiguration sampleEnvironment sampleOptions 1 leafId ''https://l/.well-known/openid-federation'' = Inr leafConfiguration"
  unfolding federation by code_simp

lemma load_anchor: "loadConfiguration sampleEnvironment sampleOptions 2 anchorId ''https://a/.well-known/openid-federation'' = Inr anchorConfiguration"
  unfolding federation by code_simp

section \<open>A run\<close>

definition emptyDiscovery :: "nat \<Rightarrow> (string \<times> configState) list \<Rightarrow> discovery" where
  "emptyDiscovery n configs = \<lparr>dc_requests = n, dc_visits = n, dc_configs = configs, dc_failures = []\<rparr>"

definition leafPending :: "string \<times> configState" where
  "leafPending = (leafId, Pending 1 ''https://l/.well-known/openid-federation'')"

definition anchorPending :: "string \<times> configState" where
  "anchorPending = (anchorId, Pending 2 ''https://a/.well-known/openid-federation'')"

definition leafSettled :: "string \<times> configState" where
  "leafSettled = (leafId, Settled (Inr leafConfiguration))"

definition anchorSettled :: "string \<times> configState" where
  "anchorSettled = (anchorId, Settled (Inr anchorConfiguration))"

lemmas run_states = emptyDiscovery_def leafPending_def anchorPending_def leafSettled_def anchorSettled_def

lemma run_start: "startDiscovery sampleOptions = (emptyDiscovery 1 [leafPending], Awaiting leafId [])"
  unfolding run_states federation by code_simp

lemma run_leaf: "resumeCall sampleOptions [] leafConfiguration (emptyDiscovery 1 [leafSettled])
    = (emptyDiscovery 2 [anchorPending, leafSettled], Joining [leafConfiguration] [] [(anchorId, Awaiting anchorId [leafConfiguration])])"
  unfolding run_states federation by code_simp

lemma run_anchor: "resumeCall sampleOptions [leafConfiguration] anchorConfiguration (emptyDiscovery 2 [anchorSettled, leafSettled])
    = (emptyDiscovery 2 [anchorSettled, leafSettled],
       Joining [leafConfiguration, anchorConfiguration] [[leafConfiguration, anchorConfiguration]] [])"
  unfolding run_states federation by code_simp

abbreviation sampleStep :: "discovery \<times> discoverCall \<Rightarrow> discovery \<times> discoverCall \<Rightarrow> bool" where
  "sampleStep \<equiv> discoverStep sampleEnvironment sampleOptions"

lemma step_answers:
  "sampleStep (emptyDiscovery n (leafPending # cs), c) (emptyDiscovery n (leafSettled # cs), c)"
  "sampleStep (emptyDiscovery n (anchorPending # cs), c) (emptyDiscovery n (anchorSettled # cs), c)"
  using discoverStep.answer [of "emptyDiscovery n (leafPending # cs)" "[]" leafId 1 "''https://l/.well-known/openid-federation''" cs
      sampleEnvironment sampleOptions c]
    discoverStep.answer [of "emptyDiscovery n (anchorPending # cs)" "[]" anchorId 2 "''https://a/.well-known/openid-federation''" cs
      sampleEnvironment sampleOptions c]
  by (simp_all add: run_states load_leaf [unfolded One_nat_def] load_anchor)

lemma step_leaf: "sampleStep (emptyDiscovery 1 [leafSettled], Awaiting leafId [])
    (emptyDiscovery 2 [anchorPending, leafSettled], Joining [leafConfiguration] [] [(anchorId, Awaiting anchorId [leafConfiguration])])"
  unfolding run_leaf [symmetric]
  by (intro discoverStep.call callStep.resume) (simp add: run_states)

lemma step_anchor: "callStep sampleOptions (emptyDiscovery 2 [anchorSettled, leafSettled], Awaiting anchorId [leafConfiguration])
    (emptyDiscovery 2 [anchorSettled, leafSettled],
     Joining [leafConfiguration, anchorConfiguration] [[leafConfiguration, anchorConfiguration]] [])"
  unfolding run_anchor [symmetric]
  by (intro callStep.resume) (simp add: run_states)

lemma step_joins:
  "callStep opts (emptyDiscovery n cs, Joining localPath own []) (emptyDiscovery n cs, Finished (Inr own))"
  "callStep opts (emptyDiscovery n cs, Joining localPath own [(s, Finished (Inr ps))])
     (emptyDiscovery n cs, Finished (Inr (own @ ps)))"
  using callStep.join [of "[]" opts "emptyDiscovery n cs" localPath own]
    callStep.join [of "[(s, Finished (Inr ps))]" opts "emptyDiscovery n cs" localPath own]
  by (simp_all add: emptyDiscovery_def)

lemma step_superior: "callStep opts (d, c) (d', c') \<Longrightarrow>
    discoverStep en opts (d, Joining localPath own [(s, c)]) (d', Joining localPath own [(s, c')])"
  using callStep.superior [of opts d c d' c' localPath own "[]" s "[]"] by (intro discoverStep.call) simp

lemma sample_run: "(sampleStep ^^ 6) (startDiscovery sampleOptions)
    (emptyDiscovery 2 [anchorSettled, leafSettled], Finished (Inr [[leafConfiguration, anchorConfiguration]]))"
proof -
  let ?d = "emptyDiscovery 2 [anchorSettled, leafSettled]" and ?p = "[leafConfiguration, anchorConfiguration]"
  have "(sampleStep ^^ 3) (startDiscovery sampleOptions)
      (?d, Joining [leafConfiguration] [] [(anchorId, Awaiting anchorId [leafConfiguration])])"
    unfolding run_start numeral_3_eq_3
    by (rule relpowp_Suc_I [OF relpowp_Suc_I [OF relpowp_Suc_I [OF relpowp_0_I]]])
      (rule step_answers step_leaf)+
  then have "(sampleStep ^^ Suc (Suc (Suc 3))) (startDiscovery sampleOptions) (?d, Finished (Inr [?p]))"
    using step_superior [OF step_anchor] step_superior [OF step_joins(1)] discoverStep.call [OF step_joins(2)]
    by (metis append_Nil relpowp_Suc_I)
  then show ?thesis by simp
qed

section \<open>The properties on this run\<close>

theorem discovery_sound_witness:
  "trail sampleEnvironment sampleOptions [leafConfiguration, anchorConfiguration]
   \<and> anchored sampleOptions [leafConfiguration, anchorConfiguration]"
  by (rule discovery_sound [OF relpowp_imp_rtranclp [OF sample_run]]) simp

theorem discovery_terminates_witness:
  "(6::nat) \<le> 4 * 64 \<and> (\<exists>d r. sampleStep\<^sup>*\<^sup>*
     (emptyDiscovery 2 [anchorSettled, leafSettled], Finished (Inr [[leafConfiguration, anchorConfiguration]])) (d, Finished r))"
  using discovery_terminates [OF sample_run] by (simp add: sampleOptions_def)

definition sampleResolution :: resolution where
  "sampleResolution = conclude sampleEnvironment sampleOptions (emptyDiscovery 2 [anchorSettled, leafSettled])
     (Inr [[leafConfiguration, anchorConfiguration]])"

lemma sample_chains: "map tc_resolved (rs_trustChains sampleResolution) = [Some [(''rp'', [(''grants'', JArr [JStr ''y''])])]]"
  unfolding sampleResolution_def run_states federation by code_simp

lemma sample_json: "parsesJson (en_platform sampleEnvironment)"
  by (auto simp: parsesJson_def sampleEnvironment_def sampleTexts_def sampleClaimsOf_def sampleKeys_def split: if_splits)

lemma sample_resolves: "resolveTrustChainsWithFailures sampleEnvironment sampleOptions (Inr sampleResolution)"
  unfolding sampleResolution_def
  by (rule resolved [OF _ relpowp_imp_rtranclp [OF sample_run]]) (simp add: sampleOptions_def)


end
