(* ===== verification/FedApi.thy ===== *)
theory FedApi imports ChainExample Issued begin

text \<open>
  The functions of \<open>packages/openid-federation\<close> around a resolution: creating signed statements
  (\<open>jsonWeb/createJsonWebToken*.ts\<close>, \<open>entityConfiguration/createEntityConfiguration.ts\<close>,
  \<open>entityStatement/createEntityStatement.ts\<close>) and fetching single ones (\<open>fetchEntityConfiguration.ts\<close>,
  \<open>fetchEntityStatement.ts\<close>). What an entity creates and serves is what a client that fetches it gets.
\<close>

section \<open>Creating\<close>

type_synonym fedSigner = "bytes \<Rightarrow> jwk \<Rightarrow> fedError + bytes"

definition noProperties :: "json \<Rightarrow> bool" where
  "noProperties v = (case v of JObj kvs \<Rightarrow> kvs = [] | _ \<Rightarrow> True)"

definition createJwtSignableInput :: "platform \<Rightarrow> json \<Rightarrow> json \<Rightarrow> fedError + bytes" where
  "createJwtSignableInput p header payload =
     (if noProperties header then Inl (FedError ''Can not create JWT with an empty header'')
      else if noProperties payload then Inl (FedError ''Can not create JWT with an empty payload'')
      else Inr (stringToBytes (encodePart p header @ ''.'' @ encodePart p payload)))"

definition createJsonWebToken :: "platform \<Rightarrow> json \<Rightarrow> json \<Rightarrow> bytes \<Rightarrow> string" where
  "createJsonWebToken p header payload signature =
     encodePart p header @ ''.'' @ encodePart p payload @ ''.'' @ uint8ArrayToBase64Url signature"

definition validHeader :: "json \<Rightarrow> unit option" where
  "validHeader header = (if entityStatementHeader header then Some () else None)"

text \<open>The key is the one of the claims that the header names.\<close>

definition createEntityConfiguration :: "platform \<Rightarrow> schemas \<Rightarrow> fedSigner \<Rightarrow> json \<Rightarrow> json \<Rightarrow> fedError + string" where
  "createEntityConfiguration p sc sign header claims =
     bindR (validated ''invalid header claims provided'' (validHeader header)) (\<lambda>_.
     bindR (validated ''invalid payload claims provided'' (entityConfigurationClaims sc claims)) (\<lambda>st.
     bindR (createJwtSignableInput p header claims) (\<lambda>toBeSigned.
     bindR (getUsedJsonWebKey header (Some (st_jwks st))) (\<lambda>key.
     bindR (sign toBeSigned key) (\<lambda>signature. Inr (createJsonWebToken p header claims signature))))))"

definition defaultHeader :: "jwk \<Rightarrow> json" where
  "defaultHeader key = JObj [(''typ'', JStr ''entity-statement+jwt''), (''kid'', JStr (jk_kid key))]"

text \<open>The key is given, and must have the id the header names.\<close>

definition createEntityStatement :: "platform \<Rightarrow> schemas \<Rightarrow> fedSigner \<Rightarrow> json option \<Rightarrow> jwk \<Rightarrow> json \<Rightarrow> fedError + string" where
  "createEntityStatement p sc sign headerOption key claims =
     (let header = (case headerOption of None \<Rightarrow> defaultHeader key | Some h \<Rightarrow> h) in
     bindR (ensure (claimOf header ''kid'' = JStr (jk_kid key))
       (FedError (''key id in the header does not match the key id in the JWK: '' @ quoted (jk_kid key)))) (\<lambda>_.
     bindR (validated ''invalid header claims provided'' (validHeader header)) (\<lambda>_.
     bindR (validated ''invalid payload claims provided'' (entityStatementClaims sc claims)) (\<lambda>_.
     bindR (createJwtSignableInput p header claims) (\<lambda>toBeSigned.
     bindR (sign toBeSigned key) (\<lambda>signature. Inr (createJsonWebToken p header claims signature)))))))"

section \<open>Fetching\<close>

text \<open>The requests of one call are numbered from \<open>n\<close>, so the answers may change with time.\<close>

definition fetchEntityConfiguration :: "environment \<Rightarrow> verifyCallback \<Rightarrow> nat \<Rightarrow> string \<Rightarrow> fedError + statement" where
  "fetchEntityConfiguration en checks n entityId =
     bindR (validated (''entity id '' @ quoted entityId @ '' is not an https URL'')
       (if sc_httpsUrl (en_schemas en) entityId then Some () else None)) (\<lambda>_.
     bindR (addPaths entityId [''.well-known'', ''openid-federation'']) (\<lambda>federationUrl.
     bindR (fetchGet (en_network en) n federationUrl [] (Some contentType)) (\<lambda>jwt.
     bindR (validated ''fetched entity configuration JWT is invalid''
       (zJsonWebToken (en_platform en) (entityConfigurationClaims (en_schemas en)) jwt)) (\<lambda>claims.
     bindR (ensure (isSameEntityId (st_sub claims) entityId)
       (fail (''entity configuration fetched for '' @ quoted entityId @ '' has subject '' @ quoted (st_sub claims)))) (\<lambda>_.
     bindR (verifyJwtSignature (en_platform en) checks jwt None) (\<lambda>_.
       Inr claims))))))"

text \<open>An empty endpoint is not replaced by the one of the issuer, as it is not \<open>undefined\<close>.\<close>

definition statementEndpoint :: "string option \<Rightarrow> statement \<Rightarrow> string option" where
  "statementEndpoint endpoint issuer = (case endpoint of
       Some e \<Rightarrow> if e = [] then None else Some e | None \<Rightarrow> fetchEndpoint issuer)"

definition fetchEntityStatement :: "environment \<Rightarrow> verifyCallback \<Rightarrow> nat \<Rightarrow> string \<Rightarrow> string \<Rightarrow> statement option \<Rightarrow> string option
    \<Rightarrow> fedError + statement" where
  "fetchEntityStatement en checks n iss sub issEntityConfiguration endpoint =
     bindR (case issEntityConfiguration of Some c \<Rightarrow> Inr (n, c)
       | None \<Rightarrow> bindR (fetchEntityConfiguration en checks n iss) (\<lambda>c. Inr (n + 1, c))) (\<lambda>(m, issuer).
     bindR (case statementEndpoint endpoint issuer of Some e \<Rightarrow> Inr e
       | None \<Rightarrow> Inl (FedError ''No fetch endpoint provided or in the issuer configuration'')) (\<lambda>url.
     bindR (fetchGet (en_network en) m url [(''sub'', sub)] (Some contentType)) (\<lambda>jwt.
     bindR (validated ''fetched entity statement JWT is invalid''
       (zJsonWebToken (en_platform en) (entityStatementClaims (en_schemas en)) jwt)) (\<lambda>claims.
     bindR (ensure (isSameEntityId (st_iss claims) iss \<and> isSameEntityId (st_sub claims) sub)
       (fail (''entity statement fetched for issuer '' @ quoted iss @ '' and subject '' @ quoted sub
         @ '' has issuer '' @ quoted (st_iss claims) @ '' and subject '' @ quoted (st_sub claims)))) (\<lambda>_.
     bindR (verifyJwtSignature (en_platform en) checks jwt (Some (st_jwks issuer))) (\<lambda>_.
       Inr claims))))))"

section \<open>Reading what was created\<close>

lemma base64url_text_plain: "CHR ''.'' \<notin> set (uint8ArrayToBase64Url bs)"
  by (simp add: base64url_plain)

lemma base64url_text_Nil: "uint8ArrayToBase64Url bs = [] \<Longrightarrow> bs = []"
  using base64url_decode_encode [of bs] base64url_decode_encode [of "[]"]
  by (simp add: uint8ArrayToBase64Url_def)

text \<open>The empty text is no JSON, so no part of a token is empty.\<close>

definition readable :: "platform \<Rightarrow> json \<Rightarrow> bool" where
  "readable p v = (jsonText p v \<and> parseJson p [] = None)"

lemma encodePart_not_Nil: "readable p v \<Longrightarrow> encodePart p v \<noteq> []"
  using base64url_text_Nil by (fastforce simp: readable_def jsonText_def encodePart_def base64urlEncode_def stringToBytes_def)

lemma parse_created:
  assumes "readable p header" "readable p claims" "signature \<noteq> []"
  shows "parseJsonWebToken p (createJsonWebToken p header claims signature)
    = Inr \<lparr>ft_header = header, ft_claims = claims, ft_signature = signature,
        ft_data = stringToBytes (encodePart p header @ ''.'' @ encodePart p claims)\<rparr>"
proof -
  have parts: "splitOn CHR ''.'' (createJsonWebToken p header claims signature)
      = [encodePart p header, encodePart p claims, uint8ArrayToBase64Url signature]"
    using encodePart_plain by (simp add: createJsonWebToken_def splitOn_append splitOn_plain base64url_text_plain)
  have "uint8ArrayToBase64Url signature \<noteq> []" using assms(3) base64url_text_Nil by blast
  then show ?thesis
    using assms by (simp add: parseJsonWebToken_def parts partAt_def decode_encodePart base64url_decode_encode commonToFed_def
        encodePart_not_Nil) (simp add: readable_def decode_encodePart)
qed

text \<open>A verifier that accepts what the signer made, and a signer that does not make empty signatures.\<close>

definition signsFor :: "fedSigner \<Rightarrow> verifyCallback \<Rightarrow> bool" where
  "signsFor sign checks = (\<forall>jwt t key. sign (ft_data t) key = Inr (ft_signature t) \<longrightarrow>
     ft_signature t \<noteq> [] \<and> checks jwt t key = Inr True)"

lemma verify_created:
  assumes "readable p header" "readable p claims" "signsFor sign checks"
    and s: "createJwtSignableInput p header claims = Inr input" "sign input key = Inr signature"
    and keys: "getUsedJsonWebKey header (case jwks of Some ks \<Rightarrow> Some ks | None \<Rightarrow> jsonWebKeySet (claimOf claims ''jwks'')) = Inr key"
  shows "parseJsonWebToken p (createJsonWebToken p header claims signature)
      = Inr \<lparr>ft_header = header, ft_claims = claims, ft_signature = signature, ft_data = input\<rparr>"
    and "verifyJwtSignature p checks (createJsonWebToken p header claims signature) jwks = Inr ()"
proof -
  let ?t = "\<lparr>ft_header = header, ft_claims = claims, ft_signature = signature, ft_data = input\<rparr>"
  have input: "input = stringToBytes (encodePart p header @ ''.'' @ encodePart p claims)"
    using s(1) by (auto simp: createJwtSignableInput_def split: if_splits)
  have sig: "signature \<noteq> [] \<and> checks jwt ?t key = Inr True" for jwt
    using assms(3) s(2) unfolding signsFor_def by (metis fedToken.select_convs(3,4))
  then show parse: "parseJsonWebToken p (createJsonWebToken p header claims signature) = Inr ?t"
    using parse_created assms(1,2) by (simp add: input)
  show "verifyJwtSignature p checks (createJsonWebToken p header claims signature) jwks = Inr ()"
    using sig keys by (cases jwks) (simp_all add: verifyJwtSignature_def parse)
qed

lemma statement_keys: "entityStatementClaims sc v = Some st \<Longrightarrow>
    jsonWebKeySet (claimOf v ''jwks'') = Some (st_jwks st) \<and> distinct (map jk_kid (st_jwks st))"
  by (auto simp: entityStatementClaims_def split: option.splits if_splits)

lemma find_distinct: "distinct (map f xs) \<Longrightarrow> x \<in> set xs \<Longrightarrow> find (\<lambda>y. f y = f x) xs = Some x"
  by (induction xs) (auto simp: image_iff)

lemma configuration_claims: "entityConfigurationClaims sc v = Some st \<longleftrightarrow> entityStatementClaims sc v = Some st \<and> st_iss st = st_sub st"
  by (auto simp: entityConfigurationClaims_def split: option.splits if_splits)

lemma created_configuration_parts:
  assumes "createEntityConfiguration p sc sign header claims = Inr jwt"
  obtains st input key signature where "entityStatementHeader header" "entityConfigurationClaims sc claims = Some st"
    "createJwtSignableInput p header claims = Inr input" "getUsedJsonWebKey header (Some (st_jwks st)) = Inr key"
    "sign input key = Inr signature" "jwt = createJsonWebToken p header claims signature"
  using assms by (auto simp: createEntityConfiguration_def validated_def validHeader_def split: option.splits if_splits)

lemma created_statement_parts:
  assumes "createEntityStatement p sc sign (Some header) key claims = Inr jwt"
  obtains st input signature where "entityStatementHeader header" "entityStatementClaims sc claims = Some st"
    "claimOf header ''kid'' = JStr (jk_kid key)" "createJwtSignableInput p header claims = Inr input"
    "sign input key = Inr signature" "jwt = createJsonWebToken p header claims signature"
  using assms by (auto simp: createEntityStatement_def Let_def validated_def validHeader_def split: option.splits if_splits)

lemma fetch_created_configuration:
  assumes "createEntityConfiguration (en_platform en) (en_schemas en) sign header claims = Inr jwt"
    and "entityConfigurationClaims (en_schemas en) claims = Some st"
    and "readable (en_platform en) header" "readable (en_platform en) claims" "signsFor sign checks"
    and "sc_httpsUrl (en_schemas en) (st_sub st)" "addPaths (st_sub st) [''.well-known'', ''openid-federation''] = Inr url"
    and "fetchGet (en_network en) n url [] (Some contentType) = Inr jwt"
  shows "fetchEntityConfiguration en checks n (st_sub st) = Inr st"
  using assms(1)
proof (rule created_configuration_parts)
  fix st' input key signature
  assume c: "entityStatementHeader header" "entityConfigurationClaims (en_schemas en) claims = Some st'"
    "createJwtSignableInput (en_platform en) header claims = Inr input" "getUsedJsonWebKey header (Some (st_jwks st')) = Inr key"
    "sign input key = Inr signature" "jwt = createJsonWebToken (en_platform en) header claims signature"
  have "getUsedJsonWebKey header (jsonWebKeySet (claimOf claims ''jwks'')) = Inr key"
    using c(2,4) statement_keys by (auto simp: configuration_claims)
  then show ?thesis
    using assms(2,6-8) c verify_created [OF assms(3-5) c(3,5), of None]
    by (simp add: fetchEntityConfiguration_def validated_def zJsonWebToken_def isSameEntityId_def)
qed

text \<open>A served federation: the configuration of an issuer and its statement about a subordinate.\<close>

definition serves :: "environment \<Rightarrow> nat \<Rightarrow> statement \<Rightarrow> string \<Rightarrow> string \<Rightarrow> string \<Rightarrow> bool" where
  "serves en n issuer configuration sub statementText =
     ((case addPaths (st_sub issuer) [''.well-known'', ''openid-federation''] of Inl _ \<Rightarrow> False
        | Inr url \<Rightarrow> sc_httpsUrl (en_schemas en) (st_sub issuer)
            \<and> fetchGet (en_network en) n url [] (Some contentType) = Inr configuration) \<and>
      (case fetchEndpoint issuer of None \<Rightarrow> False
        | Some endpoint \<Rightarrow> fetchGet (en_network en) (n + 1) endpoint [(''sub'', sub)] (Some contentType) = Inr statementText))"

text \<open>
  C35. Publishing and fetching round trip: when an issuer publishes the configuration made by
  \<open>createEntityConfiguration\<close> and answers at its fetch endpoint with a statement made by
  \<open>createEntityStatement\<close> and signed with one of the keys of its configuration, \<open>fetchEntityStatement\<close> for
  that issuer and subject, given nothing else, returns the claims the issuer gave.
\<close>

theorem created_statement_fetched:
  assumes conf: "createEntityConfiguration (en_platform en) (en_schemas en) sign confHeader confClaims = Inr confJwt"
      "entityConfigurationClaims (en_schemas en) confClaims = Some issuer"
    and st: "createEntityStatement (en_platform en) (en_schemas en) sign (Some header) key claims = Inr jwt"
      "entityStatementClaims (en_schemas en) claims = Some st" "st_iss st = st_iss issuer"
    and key: "key \<in> set (st_jwks issuer)"
    and readable: "readable (en_platform en) confHeader" "readable (en_platform en) confClaims"
      "readable (en_platform en) header" "readable (en_platform en) claims"
    and signer: "signsFor sign checks"
    and served: "serves en n issuer confJwt (st_sub st) jwt"
  shows "fetchEntityStatement en checks n (st_iss issuer) (st_sub st) None None = Inr st"
  using st(1)
proof (rule created_statement_parts)
  fix st' input signature
  assume c: "entityStatementHeader header" "entityStatementClaims (en_schemas en) claims = Some st'"
    "claimOf header ''kid'' = JStr (jk_kid key)" "createJwtSignableInput (en_platform en) header claims = Inr input"
    "sign input key = Inr signature" "jwt = createJsonWebToken (en_platform en) header claims signature"
  obtain url endpoint where serve: "addPaths (st_sub issuer) [''.well-known'', ''openid-federation''] = Inr url"
      "sc_httpsUrl (en_schemas en) (st_sub issuer)" "fetchGet (en_network en) n url [] (Some contentType) = Inr confJwt"
      "fetchEndpoint issuer = Some endpoint" "fetchGet (en_network en) (n + 1) endpoint [(''sub'', st_sub st)] (Some contentType) = Inr jwt"
    using served by (auto simp: serves_def split: sum.splits option.splits)
  have same: "st_iss issuer = st_sub issuer" "entityStatementClaims (en_schemas en) confClaims = Some issuer"
    using conf(2) by (simp_all add: configuration_claims)
  have "fetchEntityConfiguration en checks n (st_iss issuer) = Inr issuer"
    unfolding same by (rule fetch_created_configuration [OF conf readable(1,2) signer serve(2,1,3)])
  moreover have "getUsedJsonWebKey header (Some (st_jwks issuer)) = Inr key"
    using find_distinct [OF conjunct2 [OF statement_keys [OF same(2)]] key] c(3) by (simp add: getUsedJsonWebKey_def)
  ultimately show ?thesis
    using c st(2,3) serve(4,5) verify_created [OF readable(3,4) signer c(4,5), of "Some (st_jwks issuer)"]
    by (simp add: fetchEntityStatement_def statementEndpoint_def validated_def zJsonWebToken_def isSameEntityId_def)
qed

section \<open>A published configuration\<close>

definition publishedHeader :: json where
  "publishedHeader = JObj [(''typ'', JStr ''entity-statement+jwt''), (''kid'', JStr ''k'')]"

definition publishedKey :: jwk where
  "publishedKey = \<lparr>jk_kid = ''k'', jk_value = JObj [(''kty'', JStr ''EC''), (''kid'', JStr ''k'')]\<rparr>"

definition publishedClaims :: json where
  "publishedClaims = sampleClaimsOf anchorId anchorId
     [(''metadata'', JObj [(''federation_entity'', JObj [(''federation_fetch_endpoint'', JStr ''https://a/f'')])])]"

definition publishedAbout :: json where
  "publishedAbout = sampleClaimsOf anchorId leafId []"

definition publishedSigner :: fedSigner where
  "publishedSigner toBeSigned key = Inr (1 # toBeSigned)"

definition publishedCheck :: verifyCallback where
  "publishedCheck jwt t key = Inr (ft_signature t = 1 # ft_data t)"

definition publishedPlatform :: platform where
  "publishedPlatform = \<lparr>hashOf = \<lambda>s alg. [],
     stringify = \<lambda>v. if v = publishedHeader then ''h'' else if v = publishedClaims then ''1'' else ''2'',
     parseJson = map_of [(''h'', publishedHeader), (''1'', publishedClaims), (''2'', publishedAbout)]\<rparr>"

definition configurationText :: string where
  "configurationText = createJsonWebToken publishedPlatform publishedHeader publishedClaims
     (1 # stringToBytes (encodePart publishedPlatform publishedHeader @ ''.'' @ encodePart publishedPlatform publishedClaims))"

definition statementText :: string where
  "statementText = createJsonWebToken publishedPlatform publishedHeader publishedAbout
     (1 # stringToBytes (encodePart publishedPlatform publishedHeader @ ''.'' @ encodePart publishedPlatform publishedAbout))"

definition publishedEnvironment :: environment where
  "publishedEnvironment = \<lparr>en_platform = publishedPlatform, en_schemas = en_schemas sampleEnvironment,
     en_network = \<lambda>n url. if url = ''https://a/.well-known/openid-federation'' then sampleAnswer configurationText
       else if url = ''https://a/f?sub=https%3A%2F%2Fl'' then sampleAnswer statementText else Inl (FedError ''not found'')\<rparr>"

definition publishedIssuer :: statement where
  "publishedIssuer = (case entityConfigurationClaims (en_schemas sampleEnvironment) publishedClaims of Some st \<Rightarrow> st | None \<Rightarrow> sampleStatement)"

definition publishedStatement :: statement where
  "publishedStatement = (case entityStatementClaims (en_schemas sampleEnvironment) publishedAbout of Some st \<Rightarrow> st | None \<Rightarrow> sampleStatement)"

lemmas published = publishedHeader_def publishedKey_def publishedClaims_def publishedAbout_def publishedSigner_def publishedPlatform_def
  publishedEnvironment_def publishedIssuer_def publishedStatement_def configurationText_def statementText_def

lemma published_configuration:
  "createEntityConfiguration (en_platform publishedEnvironment) (en_schemas publishedEnvironment) publishedSigner
     publishedHeader publishedClaims = Inr configurationText"
  "entityConfigurationClaims (en_schemas publishedEnvironment) publishedClaims = Some publishedIssuer"
  unfolding published federation by code_simp+

lemma published_statement:
  "createEntityStatement (en_platform publishedEnvironment) (en_schemas publishedEnvironment) publishedSigner
     (Some publishedHeader) publishedKey publishedAbout = Inr statementText"
  "entityStatementClaims (en_schemas publishedEnvironment) publishedAbout = Some publishedStatement"
  "st_iss publishedStatement = st_iss publishedIssuer" "publishedKey \<in> set (st_jwks publishedIssuer)"
  unfolding published federation by code_simp+

lemma published_readable:
  "readable (en_platform publishedEnvironment) publishedHeader" "readable (en_platform publishedEnvironment) publishedClaims"
  "readable (en_platform publishedEnvironment) publishedAbout"
  unfolding readable_def jsonText_def published federation by code_simp+

lemma published_signer: "signsFor publishedSigner publishedCheck"
  by (auto simp: signsFor_def publishedSigner_def publishedCheck_def)

lemma published_served: "serves publishedEnvironment 1 publishedIssuer configurationText (st_sub publishedStatement) statementText"
  unfolding serves_def published federation by code_simp

theorem created_statement_fetched_witness:
  "fetchEntityStatement publishedEnvironment publishedCheck 1 (st_iss publishedIssuer) (st_sub publishedStatement) None None
     = Inr publishedStatement"
  by (rule created_statement_fetched [OF published_configuration published_statement published_readable(1,2,1,3)
      published_signer published_served])

end
