(* ===== verification/DcqlClaims.thy ===== *)
theory DcqlClaims imports Jwt begin

text \<open>
  The claims queries of \<open>packages/dcql\<close>: the data of a query (\<open>dcql-query\<close>), of a credential
  (\<open>u-dcql-credential.ts\<close>) and of a result (\<open>dcql-query-result\<close>), the claim parsers and
  \<open>runClaimsQuery\<close> (\<open>dcql-parser/dcql-claims-query-result.ts\<close>), and \<open>util/deep-merge.ts\<close>. The messages
  and contexts of issues are left out, their codes and paths are kept. A property named \<open>__proto__\<close> is
  read and written as JavaScript does, except that the prototype of an object never changes.
\<close>

section \<open>Values\<close>

text \<open>The symbol for a slot that is not disclosed, and zod's \<open>NEVER\<close>, a value like any other.\<close>

definition notDisclosed :: json where
  "notDisclosed = JBuiltin ''dcql.not_disclosed''"

definition zodNever :: json where
  "zodNever = JObj [(''status'', JStr ''aborted'')]"

definition isDcqlObject :: "json \<Rightarrow> bool" where
  "isDcqlObject v = (case v of JObj kvs \<Rightarrow> True | JBuiltin k \<Rightarrow> k = ''__proto__'' | _ \<Rightarrow> False)"

text \<open>\<open>v[k]\<close> of such an object; the properties of \<open>Object.prototype\<close> are its own.\<close>

definition propOf :: "json \<Rightarrow> string \<Rightarrow> json" where
  "propOf v k = (case v of JObj kvs \<Rightarrow> getProp kvs k | _ \<Rightarrow> getProp [] k)"

section \<open>Queries\<close>

text \<open>An element of a claims path pointer: a key, an index, or \<open>null\<close> for all elements.\<close>

datatype pathElem = PKey string | PIndex nat | PAll

datatype claimsQuery =
    NamespaceClaim "string option" "json list option" string string
  | PathClaim "string option" "json list option" "pathElem list"

fun claimId :: "claimsQuery \<Rightarrow> string option" where
  "claimId (NamespaceClaim i values namespace name) = i"
| "claimId (PathClaim i values path) = i"

fun claimValues :: "claimsQuery \<Rightarrow> json list option" where
  "claimValues (NamespaceClaim i values namespace name) = values"
| "claimValues (PathClaim i values path) = values"

fun claimPath :: "claimsQuery \<Rightarrow> pathElem list" where
  "claimPath (NamespaceClaim i values namespace name) = [PKey namespace, PKey name]"
| "claimPath (PathClaim i values path) = path"

datatype credentialFormat = MsoMdoc | DcSdJwt | VcSdJwt | JwtVcJson | LdpVc

datatype metaQuery =
    NoMeta
  | DoctypeMeta "string option"
  | VctMeta "string list option"
  | TypeMeta "string list list"

record trustedAuthority =
  ta_type :: string
  ta_values :: "string list"

record credentialQuery =
  cq_id :: string
  cq_format :: credentialFormat
  cq_requireBinding :: bool
  cq_multiple :: bool
  cq_claims :: "claimsQuery list option"
  cq_claimSets :: "string list list option"
  cq_authorities :: "trustedAuthority list option"
  cq_meta :: metaQuery

section \<open>Credentials\<close>

text \<open>What the formats differ in: the doctype and namespaces, the vct and claims, the types and claims.\<close>

datatype credentialBody =
    MdocBody string json
  | SdJwtVcBody credentialFormat string json
  | W3cVcBody credentialFormat "string list" json

record dcqlCredential =
  dc_authority :: "trustedAuthority option"
  dc_holderBinding :: bool
  dc_body :: credentialBody

fun bodyFormat :: "credentialBody \<Rightarrow> credentialFormat" where
  "bodyFormat (MdocBody doctype namespaces) = MsoMdoc"
| "bodyFormat (SdJwtVcBody format vct claims) = format"
| "bodyFormat (W3cVcBody format types claims) = format"

fun bodyClaims :: "credentialBody \<Rightarrow> json" where
  "bodyClaims (MdocBody doctype namespaces) = namespaces"
| "bodyClaims (SdJwtVcBody format vct claims) = claims"
| "bodyClaims (W3cVcBody format types claims) = claims"

section \<open>Issues and errors\<close>

type_synonym dcqlIssue = "string \<times> pathElem list"

datatype dcqlError =
    DcqlError string string
  | DcqlTypeError

text \<open>What \<open>safeParse\<close> returns, or the error a refinement throws.\<close>

datatype outcome = Parsed json | Failed "dcqlIssue list" | Thrown dcqlError

definition under :: "pathElem \<Rightarrow> dcqlIssue \<Rightarrow> dcqlIssue" where
  "under e i = (fst i, e # snd i)"

definition claimsPathNotFound :: dcqlIssue where
  "claimsPathNotFound = (''claims_path_not_found'', [])"

section \<open>Claim parsers\<close>

definition claimParser :: "json list option \<Rightarrow> json \<Rightarrow> outcome" where
  "claimParser values v =
     (if v = JUndefined \<or> v = notDisclosed then Failed [claimsPathNotFound]
      else case values of
          Some vs \<Rightarrow> if v \<in> set vs then Parsed v else Failed [(''claim_values_mismatch'', [])]
        | None \<Rightarrow> Parsed v)"

text \<open>\<open>z.object\<close> with one property, which becomes the only property of the result.\<close>

definition claimObject :: "string \<Rightarrow> (json \<Rightarrow> outcome) \<Rightarrow> json \<Rightarrow> outcome" where
  "claimObject k inner v =
     (if \<not> isDcqlObject v then Failed [claimsPathNotFound]
      else case inner (propOf v k) of
          Parsed x \<Rightarrow> Parsed (JObj (setProp k x []))
        | Failed is \<Rightarrow> Failed (map (under (PKey k)) is)
        | Thrown e \<Rightarrow> Thrown e)"

definition mdocClaim :: "claimsQuery \<Rightarrow> json \<Rightarrow> outcome" where
  "mdocClaim q v = (case claimPath q of
       [PKey namespace, PKey field] \<Rightarrow> claimObject namespace (claimObject field (claimParser (claimValues q))) v
     | _ \<Rightarrow> Failed [claimsPathNotFound])"

text \<open>The first element that parses, in a presentation; else the first issue of the first element.\<close>

fun anyElement :: "json \<Rightarrow> nat \<Rightarrow> outcome list \<Rightarrow> dcqlIssue option \<Rightarrow> outcome" where
  "anyElement v i [] first = Failed [case first of None \<Rightarrow> claimsPathNotFound | Some is \<Rightarrow> is]"
| "anyElement v i (Parsed x # rs) first = Parsed v"
| "anyElement v i (Thrown e # rs) first = Thrown e"
| "anyElement v i (Failed is # rs) first =
     anyElement v (Suc i) rs (case first of None \<Rightarrow> Some (under (PIndex i) (hd is)) | Some f \<Rightarrow> Some f)"

text \<open>
  All elements, those that do not parse not disclosed. When none parses their issues are reported; an
  empty array has none, so its result is \<open>NEVER\<close>, without an issue.
\<close>

fun elementIssues :: "nat \<Rightarrow> outcome list \<Rightarrow> dcqlIssue list" where
  "elementIssues i [] = []"
| "elementIssues i (Failed is # rs) = map (under (PIndex i)) is @ elementIssues (Suc i) rs"
| "elementIssues i (r # rs) = elementIssues (Suc i) rs"

fun firstThrown :: "outcome list \<Rightarrow> dcqlError option" where
  "firstThrown [] = None"
| "firstThrown (Thrown e # rs) = Some e"
| "firstThrown (r # rs) = firstThrown rs"

fun isParsed :: "outcome \<Rightarrow> bool" where
  "isParsed (Parsed x) = True"
| "isParsed r = False"

fun slotOf :: "outcome \<Rightarrow> json" where
  "slotOf (Parsed x) = x"
| "slotOf r = notDisclosed"

definition allElements :: "outcome list \<Rightarrow> outcome" where
  "allElements rs = (case firstThrown rs of
       Some e \<Rightarrow> Thrown e
     | None \<Rightarrow> if list_all (\<lambda>r. \<not> isParsed r) rs
         then (if elementIssues 0 rs = [] then Parsed zodNever else Failed (elementIssues 0 rs))
         else Parsed (JArr (map slotOf rs)))"

text \<open>
  \<open>getJsonClaimParser\<close> from an index of the path on. In a presentation a second refinement reads the
  entries of the value even when the first found that it is no array, so it throws.
\<close>

fun jsonClaim :: "bool \<Rightarrow> json list option \<Rightarrow> pathElem list \<Rightarrow> json \<Rightarrow> outcome" where
  "jsonClaim presentation values [] v = claimParser values v"
| "jsonClaim presentation values (PKey k # path) v = claimObject k (jsonClaim presentation values path) v"
| "jsonClaim presentation values (PIndex i # path) v =
     (case v of
        JArr xs \<Rightarrow>
          if presentation then anyElement v 0 (map (jsonClaim presentation values path) xs) None
          else (case jsonClaim presentation values path (case elemAt xs i of None \<Rightarrow> JUndefined | Some x \<Rightarrow> x) of
              Parsed x \<Rightarrow> Parsed (JArr (replicate (min i (length xs)) notDisclosed @ [x]))
            | Failed is \<Rightarrow> Failed [under (PIndex i) (hd is)]
            | Thrown e \<Rightarrow> Thrown e)
      | _ \<Rightarrow> if presentation then Thrown DcqlTypeError else Failed [claimsPathNotFound])"
| "jsonClaim presentation values (PAll # path) v =
     (case v of
        JArr xs \<Rightarrow> allElements (map (jsonClaim presentation values path) xs)
      | _ \<Rightarrow> Failed [claimsPathNotFound])"

section \<open>Merging\<close>

definition mergeable :: "json \<Rightarrow> bool" where
  "mergeable v = (case v of JObj kvs \<Rightarrow> True | JArr xs \<Rightarrow> True | _ \<Rightarrow> False)"

definition mergeError :: dcqlError where
  "mergeError = DcqlError ''PARSE_ERROR'' ''value provided to deepMerge is neither an array or object.''"

definition ownProp :: "json \<Rightarrow> string \<Rightarrow> json" where
  "ownProp target k = (case target of
       JObj kvs \<Rightarrow> (case map_of kvs k of None \<Rightarrow> JUndefined | Some v \<Rightarrow> v)
     | JArr xs \<Rightarrow> (case indexKey k of None \<Rightarrow> JUndefined
         | Some i \<Rightarrow> (case elemAt xs i of None \<Rightarrow> JUndefined | Some v \<Rightarrow> v))
     | _ \<Rightarrow> JUndefined)"

text \<open>
  An array grows to hold the index, with slots that are not disclosed. A key that is no number leaves
  an empty array, as its length becomes \<open>NaN\<close>.
\<close>

definition setMerged :: "json \<Rightarrow> string \<Rightarrow> json \<Rightarrow> json" where
  "setMerged target k v = (case target of
       JArr xs \<Rightarrow> (case indexKey k of
           Some i \<Rightarrow> JArr ((xs @ replicate (Suc i - length xs) notDisclosed)[i := v])
         | None \<Rightarrow> JArr [])
     | JObj kvs \<Rightarrow> JObj (defineProp k v kvs)
     | t \<Rightarrow> t)"

definition emptyLike :: "json \<Rightarrow> json" where
  "emptyLike v = (case v of JArr xs \<Rightarrow> JArr [] | _ \<Rightarrow> JObj [])"

text \<open>Where a value that is itself merged goes: into the value of the target, or into a new one.\<close>

definition mergeTarget :: "json \<Rightarrow> string \<Rightarrow> json \<Rightarrow> dcqlError + json" where
  "mergeTarget target k v =
     (let t = ownProp target k in
      if t \<noteq> JUndefined \<and> t \<noteq> notDisclosed \<and> \<not> mergeable t then Inl mergeError
      else Inr (if mergeable t then t else emptyLike v))"

fun deepMerge :: "json \<Rightarrow> json \<Rightarrow> dcqlError + json"
and mergeFields :: "fields \<Rightarrow> json \<Rightarrow> dcqlError + json"
and mergeItems :: "nat \<Rightarrow> json list \<Rightarrow> json \<Rightarrow> dcqlError + json"
and mergeEntry :: "string \<Rightarrow> json \<Rightarrow> json \<Rightarrow> dcqlError + json" where
  "deepMerge source target =
     (if \<not> mergeable target then Inl mergeError
      else case source of
          JObj kvs \<Rightarrow> mergeFields kvs target
        | JArr xs \<Rightarrow> mergeItems 0 xs target
        | _ \<Rightarrow> Inl mergeError)"
| "mergeFields [] target = Inr target"
| "mergeFields ((k, v) # kvs) target = bindR (mergeEntry k v target) (\<lambda>t. mergeFields kvs t)"
| "mergeItems i [] target = Inr target"
| "mergeItems i (v # vs) target = bindR (mergeEntry (natText i) v target) (\<lambda>t. mergeItems (Suc i) vs t)"
| "mergeEntry k v target =
     (if mergeable v then
        bindR (mergeTarget target k v) (\<lambda>validTarget.
        bindR (deepMerge v validTarget) (\<lambda>newValue. Inr (setMerged target k newValue)))
      else if v \<noteq> notDisclosed \<and> v \<noteq> JUndefined then Inr (setMerged target k v)
      else Inr target)"

section \<open>Claims\<close>

record claimResult =
  cr_index :: nat
  cr_id :: "string option"
  cr_output :: "dcqlIssue list + json"

text \<open>The result of a claim set: its index, the output or the issues, and the claims that hold and that fail.\<close>

record claimSetResult =
  cs_index :: "nat option"
  cs_output :: "dcqlIssue list + json"
  cs_valid :: "nat list"
  cs_failed :: "nat list"

record claimsResult =
  cl_success :: bool
  cl_validClaims :: "claimResult list"
  cl_failedClaims :: "claimResult list"
  cl_validSets :: "claimSetResult list"
  cl_failedSets :: "claimSetResult list"

definition parseClaim :: "credentialFormat \<Rightarrow> bool \<Rightarrow> json \<Rightarrow> claimsQuery \<Rightarrow> outcome" where
  "parseClaim format presentation claims q =
     (if format = MsoMdoc then mdocClaim q claims else jsonClaim presentation (claimValues q) (claimPath q) claims)"

fun runClaims :: "(claimsQuery \<Rightarrow> outcome) \<Rightarrow> nat \<Rightarrow> claimsQuery list \<Rightarrow> dcqlError + claimResult list" where
  "runClaims parse i [] = Inr []"
| "runClaims parse i (q # qs) = (case parse q of
       Thrown e \<Rightarrow> Inl e
     | Parsed x \<Rightarrow> bindR (runClaims parse (Suc i) qs) (\<lambda>rs. Inr (\<lparr>cr_index = i, cr_id = claimId q, cr_output = Inr x\<rparr> # rs))
     | Failed is \<Rightarrow> bindR (runClaims parse (Suc i) qs) (\<lambda>rs. Inr (\<lparr>cr_index = i, cr_id = claimId q, cr_output = Inl is\<rparr> # rs)))"

definition claimOk :: "claimResult \<Rightarrow> bool" where
  "claimOk c = isOk (cr_output c)"

text \<open>The claim a claim set names: among the valid ones first.\<close>

definition findClaim :: "claimResult list \<Rightarrow> string \<Rightarrow> dcqlError + claimResult" where
  "findClaim results i = (case find (\<lambda>c. cr_id c = Some i) (filter claimOk results @ filter (\<lambda>c. \<not> claimOk c) results) of
       Some c \<Rightarrow> Inr c
     | None \<Rightarrow> Inl (DcqlError ''PARSE_ERROR'' (''Claim with id '' @ i @ '' not found in claims of claim'')))"

definition outputOf :: "claimResult \<Rightarrow> json" where
  "outputOf c = (case cr_output c of Inr x \<Rightarrow> x | Inl is \<Rightarrow> JUndefined)"

definition issuesOf :: "claimResult \<Rightarrow> dcqlIssue list" where
  "issuesOf c = (case cr_output c of Inr x \<Rightarrow> [] | Inl is \<Rightarrow> is)"

definition mergeOutputs :: "claimResult list \<Rightarrow> dcqlError + json" where
  "mergeOutputs claims = foldR (\<lambda>merged c. deepMerge (outputOf c) merged) (JObj []) claims"

definition claimSetOf :: "nat option \<Rightarrow> claimResult list \<Rightarrow> dcqlError + claimSetResult" where
  "claimSetOf i claims =
     (let valid = map cr_index (filter claimOk claims); failed = map cr_index (filter (\<lambda>c. \<not> claimOk c) claims) in
      if list_all claimOk claims
      then bindR (mergeOutputs claims) (\<lambda>output. Inr \<lparr>cs_index = i, cs_output = Inr output, cs_valid = valid, cs_failed = []\<rparr>)
      else Inr \<lparr>cs_index = i, cs_output = Inl (concat (map issuesOf claims)), cs_valid = valid, cs_failed = failed\<rparr>)"

fun runClaimSets :: "claimResult list \<Rightarrow> nat \<Rightarrow> string list list \<Rightarrow> dcqlError + claimSetResult list" where
  "runClaimSets results i [] = Inr []"
| "runClaimSets results i (s # sets) =
     bindR (mapR (findClaim results) s) (\<lambda>claims.
     bindR (claimSetOf (Some i) claims) (\<lambda>r.
     bindR (runClaimSets results (Suc i) sets) (\<lambda>rs. Inr (r # rs))))"

definition setOk :: "claimSetResult \<Rightarrow> bool" where
  "setOk s = isOk (cs_output s)"

definition runClaimsQuery :: "credentialQuery \<Rightarrow> dcqlCredential \<Rightarrow> bool \<Rightarrow> dcqlError + claimsResult" where
  "runClaimsQuery cq credential presentation = (case cq_claims cq of
       None \<Rightarrow> Inr \<lparr>cl_success = True, cl_validClaims = [], cl_failedClaims = [],
         cl_validSets = [\<lparr>cs_index = None, cs_output = Inr (JObj []), cs_valid = [], cs_failed = []\<rparr>], cl_failedSets = []\<rparr>
     | Some qs \<Rightarrow>
         bindR (runClaims (parseClaim (cq_format cq) presentation (bodyClaims (dc_body credential))) 0 qs) (\<lambda>results.
         bindR (case cq_claimSets cq of
             Some sets \<Rightarrow> runClaimSets results 0 sets
           | None \<Rightarrow> bindR (claimSetOf None (filter claimOk results @ filter (\<lambda>c. \<not> claimOk c) results)) (\<lambda>r. Inr [r])) (\<lambda>sets.
         Inr \<lparr>cl_success = list_ex setOk sets, cl_validClaims = filter claimOk results,
           cl_failedClaims = filter (\<lambda>c. \<not> claimOk c) results, cl_validSets = filter setOk sets,
           cl_failedSets = filter (\<lambda>s. \<not> setOk s) sets\<rparr>)))"

end
