(* ===== verification/DcqlQuery.thy ===== *)
theory DcqlQuery imports DcqlClaims begin

text \<open>
  Running a query of \<open>packages/dcql\<close>: the meta query and the trusted authorities (\<open>dcql-parser\<close>), one
  credential query on all credentials, the whole query of a wallet (\<open>dcql-query-result/run-dcql-query.ts\<close>)
  and the check of a presentation by a verifier (\<open>dcql-presentation/m-dcql-presentation-result.ts\<close>).
\<close>

section \<open>Meta\<close>

text \<open>The properties of the credential a meta query reads, of which one format has each.\<close>

definition bodyDoctype :: "credentialBody \<Rightarrow> string option" where
  "bodyDoctype b = (case b of MdocBody doctype namespaces \<Rightarrow> Some doctype | _ \<Rightarrow> None)"

definition bodyVct :: "credentialBody \<Rightarrow> string option" where
  "bodyVct b = (case b of SdJwtVcBody format vct claims \<Rightarrow> Some vct | _ \<Rightarrow> None)"

definition bodyTypes :: "credentialBody \<Rightarrow> string list option" where
  "bodyTypes b = (case b of W3cVcBody format types claims \<Rightarrow> Some types | _ \<Rightarrow> None)"

definition bindingIssues :: "credentialQuery \<Rightarrow> dcqlCredential \<Rightarrow> dcqlIssue list" where
  "bindingIssues cq credential = (if cq_requireBinding cq \<and> \<not> dc_holderBinding credential
     then [(''cryptographic_holder_binding_required'', [PKey ''cryptographic_holder_binding''])] else [])"

definition formatIssues :: "credentialFormat \<Rightarrow> dcqlCredential \<Rightarrow> dcqlIssue list" where
  "formatIssues format credential = (if bodyFormat (dc_body credential) = format then []
     else [(''credential_format_mismatch'', [PKey ''credential_format''])])"

text \<open>An empty \<open>doctype_value\<close> is no constraint.\<close>

definition mdocMetaIssues :: "string option \<Rightarrow> dcqlCredential \<Rightarrow> dcqlIssue list" where
  "mdocMetaIssues doctypeValue credential = (case (doctypeValue, bodyDoctype (dc_body credential)) of
       (Some d, doctype) \<Rightarrow> if d = [] then (if doctype = None then [(''missing_value'', [PKey ''doctype''])] else [])
         else if doctype = Some d then [] else [(''doctype_mismatch'', [PKey ''doctype''])]
     | (None, None) \<Rightarrow> [(''missing_value'', [PKey ''doctype''])]
     | (None, Some _) \<Rightarrow> [])"

definition sdJwtVcMetaIssues :: "string list option \<Rightarrow> dcqlCredential \<Rightarrow> dcqlIssue list" where
  "sdJwtVcMetaIssues vctValues credential = (case (vctValues, bodyVct (dc_body credential)) of
       (Some vs, Some vct) \<Rightarrow> if vct \<in> set vs then [] else [(''vct_mismatch'', [PKey ''vct''])]
     | (Some vs, None) \<Rightarrow> [(''vct_mismatch'', [PKey ''vct''])]
     | (None, None) \<Rightarrow> [(''missing_value'', [PKey ''vct''])]
     | (None, Some _) \<Rightarrow> [])"

definition w3cVcMetaIssues :: "string list list option \<Rightarrow> dcqlCredential \<Rightarrow> dcqlIssue list" where
  "w3cVcMetaIssues typeValues credential = (case (typeValues, bodyTypes (dc_body credential)) of
       (Some tvs, Some types) \<Rightarrow> if list_ex (\<lambda>values. list_all (\<lambda>value. value \<in> set types) values) tvs then []
         else [(''type_mismatch'', [PKey ''type''])]
     | (Some tvs, None) \<Rightarrow> [(''type_mismatch'', [PKey ''type''])]
     | (None, None) \<Rightarrow> [(''missing_value'', [PKey ''type''])]
     | (None, Some types) \<Rightarrow> if types = [] then [(''empty_array'', [PKey ''type''])] else [])"

definition doctypeValueOf :: "metaQuery \<Rightarrow> string option" where
  "doctypeValueOf m = (case m of DoctypeMeta d \<Rightarrow> d | _ \<Rightarrow> None)"

definition vctValuesOf :: "metaQuery \<Rightarrow> string list option" where
  "vctValuesOf m = (case m of VctMeta vs \<Rightarrow> vs | _ \<Rightarrow> None)"

definition typeValuesOf :: "metaQuery \<Rightarrow> string list list option" where
  "typeValuesOf m = (case m of TypeMeta tvs \<Rightarrow> Some tvs | _ \<Rightarrow> None)"

text \<open>\<open>vc+sd-jwt\<close> is an SD-JWT VC format and a W3C VC format: \<open>type_values\<close> tells which is meant.\<close>

definition metaIssues :: "credentialQuery \<Rightarrow> dcqlCredential \<Rightarrow> dcqlIssue list" where
  "metaIssues cq credential = bindingIssues cq credential @ formatIssues (cq_format cq) credential @
     (case cq_format cq of
        MsoMdoc \<Rightarrow> mdocMetaIssues (doctypeValueOf (cq_meta cq)) credential
      | DcSdJwt \<Rightarrow> sdJwtVcMetaIssues (vctValuesOf (cq_meta cq)) credential
      | VcSdJwt \<Rightarrow> (case typeValuesOf (cq_meta cq) of
            Some tvs \<Rightarrow> w3cVcMetaIssues (Some tvs) credential
          | None \<Rightarrow> sdJwtVcMetaIssues (vctValuesOf (cq_meta cq)) credential)
      | _ \<Rightarrow> w3cVcMetaIssues (typeValuesOf (cq_meta cq)) credential)"

text \<open>\<open>runMetaQuery\<close>: the issues, or what was picked of the credential.\<close>

definition runMetaQuery :: "credentialQuery \<Rightarrow> dcqlCredential \<Rightarrow> dcqlIssue list + (credentialFormat \<times> bool)" where
  "runMetaQuery cq credential = (case metaIssues cq credential of
       [] \<Rightarrow> Inr (bodyFormat (dc_body credential), dc_holderBinding credential)
     | is \<Rightarrow> Inl is)"

section \<open>Trusted authorities\<close>

definition authorityIssues :: "trustedAuthority \<Rightarrow> trustedAuthority option \<Rightarrow> dcqlIssue list" where
  "authorityIssues expected authority = (case authority of
       None \<Rightarrow> [(''trusted_authority_mismatch'', [])]
     | Some a \<Rightarrow> (if ta_type a \<noteq> ta_type expected then [(''trusted_authority_mismatch'', [PKey ''type''])] else [])
         @ (if \<not> list_ex (\<lambda>v. v \<in> set (ta_values expected)) (ta_values a)
            then [(''trusted_authority_mismatch'', [PKey ''values''])] else []))"

text \<open>The type and the first value of the credential that is trusted.\<close>

definition authorityOutput :: "trustedAuthority \<Rightarrow> trustedAuthority option \<Rightarrow> string \<times> string" where
  "authorityOutput expected authority = (case authority of
       None \<Rightarrow> ([], [])
     | Some a \<Rightarrow> (ta_type a, case find (\<lambda>v. v \<in> set (ta_values expected)) (ta_values a) of Some v \<Rightarrow> v | None \<Rightarrow> []))"

record authoritiesResult =
  ar_success :: bool
  ar_valid :: "(nat \<times> string \<times> string) option"
  ar_failed :: "(nat \<times> dcqlIssue list) list"

fun runAuthorities :: "nat \<Rightarrow> trustedAuthority list \<Rightarrow> trustedAuthority option \<Rightarrow> (nat \<times> dcqlIssue list) list \<Rightarrow> authoritiesResult" where
  "runAuthorities i [] authority failed = \<lparr>ar_success = False, ar_valid = None, ar_failed = failed\<rparr>"
| "runAuthorities i (t # ts) authority failed =
     (case authorityIssues t authority of
        [] \<Rightarrow> \<lparr>ar_success = True, ar_valid = Some (i, authorityOutput t authority), ar_failed = failed\<rparr>
      | is \<Rightarrow> runAuthorities (Suc i) ts authority (failed @ [(i, is)]))"

definition runTrustedAuthoritiesQuery :: "credentialQuery \<Rightarrow> dcqlCredential \<Rightarrow> authoritiesResult" where
  "runTrustedAuthoritiesQuery cq credential = (case cq_authorities cq of
       None \<Rightarrow> \<lparr>ar_success = True, ar_valid = None, ar_failed = []\<rparr>
     | Some ts \<Rightarrow> runAuthorities 0 ts (dc_authority credential) [])"

section \<open>One credential query\<close>

record credentialResult =
  re_success :: bool
  re_index :: nat
  re_authorities :: authoritiesResult
  re_meta :: "dcqlIssue list + (credentialFormat \<times> bool)"
  re_claims :: claimsResult

record queryResult =
  qr_id :: string
  qr_valid :: "credentialResult list"
  qr_failed :: "credentialResult list"

definition qr_success :: "queryResult \<Rightarrow> bool" where
  "qr_success r = (qr_valid r \<noteq> [])"

definition credentialResultOf :: "credentialQuery \<Rightarrow> bool \<Rightarrow> nat \<Rightarrow> dcqlCredential \<Rightarrow> dcqlError + credentialResult" where
  "credentialResultOf cq presentation i credential =
     (let authorities = runTrustedAuthoritiesQuery cq credential in
      bindR (runClaimsQuery cq credential presentation) (\<lambda>claims.
      let meta = runMetaQuery cq credential in
      Inr \<lparr>re_success = (cl_success claims \<and> ar_success authorities \<and> isOk meta), re_index = i,
        re_authorities = authorities, re_meta = meta, re_claims = claims\<rparr>))"

fun credentialResults :: "credentialQuery \<Rightarrow> bool \<Rightarrow> nat \<Rightarrow> dcqlCredential list \<Rightarrow> dcqlError + credentialResult list" where
  "credentialResults cq presentation i [] = Inr []"
| "credentialResults cq presentation i (c # cs) =
     bindR (credentialResultOf cq presentation i c) (\<lambda>r.
     bindR (credentialResults cq presentation (Suc i) cs) (\<lambda>rs. Inr (r # rs)))"

definition runCredentialQuery :: "credentialQuery \<Rightarrow> bool \<Rightarrow> dcqlCredential list \<Rightarrow> dcqlError + queryResult" where
  "runCredentialQuery cq presentation credentials =
     bindR (credentialResults cq presentation 0 credentials) (\<lambda>rs.
       Inr \<lparr>qr_id = cq_id cq, qr_valid = filter re_success rs, qr_failed = filter (\<lambda>r. \<not> re_success r) rs\<rparr>)"

section \<open>The whole query\<close>

record credentialSet =
  se_options :: "string list list"
  se_required :: bool

record dcqlQuery =
  dq_credentials :: "credentialQuery list"
  dq_sets :: "credentialSet list option"

record dcqlResult =
  rq_satisfied :: bool
  rq_matches :: "(string \<times> queryResult) list"
  rq_sets :: "(credentialSet \<times> string list list) list option"

text \<open>\<open>Object.fromEntries\<close>: a later entry replaces the value of an earlier one.\<close>

definition fromEntries :: "(string \<times> 'v) list \<Rightarrow> (string \<times> 'v) list" where
  "fromEntries kvs = foldl (\<lambda>entries kv. defineProp (fst kv) (snd kv) entries) [] kvs"

text \<open>\<open>results[id].success\<close>; an inherited property is a value without a \<open>success\<close>.\<close>

definition successOf :: "(string \<times> queryResult) list \<Rightarrow> string \<Rightarrow> dcqlError + bool" where
  "successOf results i = (case map_of results i of
       Some r \<Rightarrow> Inr (qr_success r)
     | None \<Rightarrow> if i \<in> set protoKeys then Inr False else Inl DcqlTypeError)"

fun everyR :: "('a \<Rightarrow> dcqlError + bool) \<Rightarrow> 'a list \<Rightarrow> dcqlError + bool" where
  "everyR f [] = Inr True"
| "everyR f (x # xs) = bindR (f x) (\<lambda>b. if b then everyR f xs else Inr False)"

fun filterR :: "('a \<Rightarrow> dcqlError + bool) \<Rightarrow> 'a list \<Rightarrow> dcqlError + 'a list" where
  "filterR f [] = Inr []"
| "filterR f (x # xs) = bindR (f x) (\<lambda>b. bindR (filterR f xs) (\<lambda>ys. Inr (if b then x # ys else ys)))"

definition setResult :: "(string \<Rightarrow> dcqlError + bool) \<Rightarrow> credentialSet \<Rightarrow> dcqlError + credentialSet \<times> string list list" where
  "setResult success s = bindR (filterR (everyR success) (se_options s)) (\<lambda>matching. Inr (s, matching))"

text \<open>A set that is required needs an option all of whose queries have a match.\<close>

definition setsSatisfied :: "(credentialSet \<times> string list list) list \<Rightarrow> bool" where
  "setsSatisfied sets = list_all (\<lambda>(s, matching). \<not> se_required s \<or> matching \<noteq> []) sets"

definition matchedBy :: "(string \<Rightarrow> dcqlError + bool) \<Rightarrow> dcqlQuery \<Rightarrow> dcqlError + (credentialSet \<times> string list list) list option \<times> bool" where
  "matchedBy success q = (case dq_sets q of
       Some sets \<Rightarrow> bindR (mapR (setResult success) sets) (\<lambda>rs. Inr (Some rs, setsSatisfied rs))
     | None \<Rightarrow> bindR (everyR (\<lambda>c. success (cq_id c)) (dq_credentials q)) (\<lambda>b. Inr (None, b)))"

definition runDcqlQuery :: "dcqlQuery \<Rightarrow> bool \<Rightarrow> dcqlCredential list \<Rightarrow> dcqlError + dcqlResult" where
  "runDcqlQuery q presentation credentials =
     bindR (mapR (\<lambda>cq. runCredentialQuery cq presentation credentials) (dq_credentials q)) (\<lambda>rs.
     let results = fromEntries (map (\<lambda>r. (qr_id r, r)) rs) in
     bindR (matchedBy (successOf results) q) (\<lambda>(sets, satisfied).
       Inr \<lparr>rq_satisfied = satisfied, rq_matches = results, rq_sets = sets\<rparr>))"

section \<open>Presentations\<close>

text \<open>The presentations of a query: an array, or one alone as in older drafts.\<close>

datatype presented = One dcqlCredential | Many "dcqlCredential list"

fun presentedList :: "presented \<Rightarrow> dcqlCredential list" where
  "presentedList (One c) = [c]"
| "presentedList (Many cs) = cs"

definition presentedResult :: "dcqlQuery \<Rightarrow> string \<times> presented \<Rightarrow> dcqlError + queryResult" where
  "presentedResult q kv = (case find (\<lambda>c. cq_id c = fst kv) (dq_credentials q) of
       None \<Rightarrow> Inl (DcqlError ''BAD_REQUEST'' (''Query '' @ fst kv @ '' not found in the dcql query. Cannot validate presentation.''))
     | Some cq \<Rightarrow>
         bindR (case snd kv of One c \<Rightarrow> Inr ()
           | Many cs \<Rightarrow>
               bindR (ensure (cs \<noteq> []) (DcqlError ''BAD_REQUEST'' ''Each entry must at least provide one presentation.'')) (\<lambda>_.
               ensure (cq_multiple cq \<or> length cs \<le> 1) (DcqlError ''BAD_REQUEST'' ''Only a single presentation is allowed''))) (\<lambda>_.
         runCredentialQuery cq True (presentedList (snd kv))))"

text \<open>\<open>find(\<dots>)?.success\<close>: a query without presentations has no success.\<close>

definition foundSuccess :: "queryResult list \<Rightarrow> string \<Rightarrow> dcqlError + bool" where
  "foundSuccess results i = Inr (case find (\<lambda>r. qr_id r = i) results of None \<Rightarrow> False | Some r \<Rightarrow> qr_success r)"

definition fromDcqlPresentation :: "dcqlQuery \<Rightarrow> (string \<times> presented) list \<Rightarrow> dcqlError + dcqlResult" where
  "fromDcqlPresentation q presentation =
     bindR (mapR (presentedResult q) presentation) (\<lambda>results.
     bindR (matchedBy (foundSuccess results) q) (\<lambda>(sets, satisfied).
       Inr \<lparr>rq_satisfied = (list_all (\<lambda>r. qr_success r \<and> qr_failed r = []) results \<and> satisfied),
         rq_matches = fromEntries (map (\<lambda>r. (qr_id r, r)) results), rq_sets = sets\<rparr>))"

definition validateResult :: "dcqlResult \<Rightarrow> dcqlError + dcqlResult" where
  "validateResult r = bindR (ensure (rq_satisfied r) (DcqlError ''BAD_REQUEST'' ''Invalid Presentation record'')) (\<lambda>_. Inr r)"

end
