(* ===== verification/DcqlLaws.thy ===== *)
theory DcqlLaws imports DcqlQuery begin

text \<open>
  What a claims query of \<open>packages/dcql\<close> means: a claim parser succeeds when the claims path pointer
  selects a value that is wanted, what it returns is a part of the credential, and the parts of one
  credential merge to a part of it.
\<close>

section \<open>Claims path pointers\<close>

text \<open>The values a pointer selects, as OpenID4VP defines it.\<close>

fun select :: "pathElem list \<Rightarrow> json \<Rightarrow> json list" where
  "select [] v = [v]"
| "select (PKey k # path) v = (if isDcqlObject v \<and> propOf v k \<noteq> JUndefined then select path (propOf v k) else [])"
| "select (PIndex i # path) v = (case v of JArr xs \<Rightarrow> (case elemAt xs i of None \<Rightarrow> [] | Some x \<Rightarrow> select path x) | _ \<Rightarrow> [])"
| "select (PAll # path) v = (case v of JArr xs \<Rightarrow> concat (map (select path) xs) | _ \<Rightarrow> [])"

text \<open>The pointer asks for all elements of an empty array.\<close>

fun reachesEmpty :: "pathElem list \<Rightarrow> json \<Rightarrow> bool" where
  "reachesEmpty [] v = False"
| "reachesEmpty (PKey k # path) v = (isDcqlObject v \<and> reachesEmpty path (propOf v k))"
| "reachesEmpty (PIndex i # path) v = (case v of
     JArr xs \<Rightarrow> (case elemAt xs i of None \<Rightarrow> False | Some x \<Rightarrow> reachesEmpty path x) | _ \<Rightarrow> False)"
| "reachesEmpty (PAll # path) v = (case v of JArr xs \<Rightarrow> xs = [] \<or> list_ex (reachesEmpty path) xs | _ \<Rightarrow> False)"

definition wanted :: "json list option \<Rightarrow> json \<Rightarrow> bool" where
  "wanted values v = (v \<noteq> JUndefined \<and> v \<noteq> notDisclosed \<and> (case values of None \<Rightarrow> True | Some vs \<Rightarrow> v \<in> set vs))"

lemma claimParser_parsed: "isParsed (claimParser values v) \<longleftrightarrow> wanted values v"
  by (auto simp: claimParser_def wanted_def split: option.splits)

text \<open>Failures have an issue, and nothing is thrown for a credential query.\<close>

definition sound :: "outcome \<Rightarrow> bool" where
  "sound r = (case r of Parsed x \<Rightarrow> True | Failed is \<Rightarrow> is \<noteq> [] | Thrown e \<Rightarrow> False)"

lemma sound_simps [simp]: "sound (Parsed x)" "sound (Failed is) \<longleftrightarrow> is \<noteq> []" "\<not> sound (Thrown e)"
  by (simp_all add: sound_def)

lemma claimParser_sound: "sound (claimParser values v)"
  by (simp add: claimParser_def split: option.splits)

lemma claimObject_sound: "sound (inner (propOf v k)) \<Longrightarrow> sound (claimObject k inner v)"
  by (cases "inner (propOf v k)") (simp_all add: claimObject_def)

lemma claimObject_parsed: "isParsed (claimObject k inner v) \<longleftrightarrow> isDcqlObject v \<and> isParsed (inner (propOf v k))"
  by (cases "inner (propOf v k)") (simp_all add: claimObject_def)

lemma firstThrown_sound: "list_all sound rs \<Longrightarrow> firstThrown rs = None"
  by (induction rs rule: firstThrown.induct) auto

lemma elementIssues_none: "list_all sound rs \<Longrightarrow> list_all (\<lambda>r. \<not> isParsed r) rs \<Longrightarrow> elementIssues i rs = [] \<longleftrightarrow> rs = []"
  by (induction i rs rule: elementIssues.induct) auto

lemma allElements_sound: "list_all sound rs \<Longrightarrow> sound (allElements rs)"
  by (simp add: allElements_def firstThrown_sound)

lemma allElements_parsed: "list_all sound rs \<Longrightarrow> isParsed (allElements rs) \<longleftrightarrow> rs = [] \<or> list_ex isParsed rs"
  using elementIssues_none [of rs 0]
  by (auto simp: allElements_def firstThrown_sound list_ex_iff list_all_iff)

lemma jsonClaim_sound: "sound (jsonClaim False vals path v)"
proof (induction "False" vals path v rule: jsonClaim.induct)
  case (1 vals v)
  then show ?case by (simp add: claimParser_sound)
next
  case (2 vals k path v)
  then show ?case by (simp add: claimObject_sound)
next
  case (3 vals i path v)
  show ?case
  proof (cases v)
    case (JArr xs)
    let ?x = "case elemAt xs i of None \<Rightarrow> JUndefined | Some x \<Rightarrow> x"
    have "sound (jsonClaim False vals path ?x)" using 3 JArr by simp
    then show ?thesis using JArr by (cases "jsonClaim False vals path ?x") simp_all
  qed simp_all
next
  case (4 vals path v)
  then show ?case by (cases v) (auto intro!: allElements_sound simp: list_all_iff)
qed

lemma jsonClaim_undefined: "\<not> isParsed (jsonClaim False vals path JUndefined)"
  by (cases path; cases "hd path") (simp_all add: claimParser_def claimObject_def isDcqlObject_def)

lemma jsonClaim_selects:
  "isParsed (jsonClaim False vals path v) \<longleftrightarrow> (\<exists>x \<in> set (select path v). wanted vals x) \<or> reachesEmpty path v"
proof (induction "False" vals path v rule: jsonClaim.induct)
  case (1 vals v)
  then show ?case by (simp add: claimParser_parsed)
next
  case (2 vals k path v)
  then show ?case using jsonClaim_undefined [of vals path] by (auto simp: claimObject_parsed)
next
  case (3 vals i path v)
  show ?case
  proof (cases v)
    case (JArr xs)
    let ?x = "case elemAt xs i of None \<Rightarrow> JUndefined | Some x \<Rightarrow> x"
    have "isParsed (jsonClaim False vals path ?x) \<longleftrightarrow> (\<exists>x \<in> set (select path ?x). wanted vals x) \<or> reachesEmpty path ?x"
      using 3 JArr by simp
    moreover have "isParsed (jsonClaim False vals (PIndex i # path) v) \<longleftrightarrow> isParsed (jsonClaim False vals path ?x)"
      using JArr by (simp split: outcome.splits)
    ultimately show ?thesis using JArr jsonClaim_undefined [of vals path] by (auto split: option.splits)
  qed simp_all
next
  case (4 vals path v)
  show ?case
  proof (cases v)
    case (JArr xs)
    have "list_all sound (map (jsonClaim False vals path) xs)" by (simp add: list_all_iff jsonClaim_sound)
    then have "isParsed (jsonClaim False vals (PAll # path) v) \<longleftrightarrow> xs = [] \<or> (\<exists>x \<in> set xs. isParsed (jsonClaim False vals path x))"
      using JArr by (simp add: allElements_parsed list_ex_iff)
    moreover have "isParsed (jsonClaim False vals path x) \<longleftrightarrow> (\<exists>y \<in> set (select path x). wanted vals y) \<or> reachesEmpty path x"
      if "x \<in> set xs" for x using 4 JArr that by simp
    ultimately show ?thesis using JArr by (auto simp: list_ex_iff)
  qed simp_all
qed


end
