(* ===== verification/DcqlMerge.thy ===== *)
theory DcqlMerge imports DcqlLaws begin

text \<open>
  The outputs of claim parsers are parts of the credential, and \<open>deepMerge\<close> of two parts of one value is
  again a part of it: merging the claims of a claim set never throws and adds nothing.
\<close>

section \<open>Parts of a value\<close>

text \<open>Values as JavaScript has them: JSON, whose arrays have fewer than $2^{32}$ elements.\<close>

fun jsValue :: "json \<Rightarrow> bool" where
  "jsValue JUndefined = False"
| "jsValue (JBuiltin _) = False"
| "jsValue (JArr xs) = (length xs < 2 ^ 32 \<and> list_all jsValue xs)"
| "jsValue (JObj kvs) = (distinct (map fst kvs) \<and> list_all (\<lambda>p. jsValue (snd p)) kvs)"
| "jsValue _ = True"

definition readValue :: "json \<Rightarrow> bool" where
  "readValue v = (jsValue v \<or> v = JUndefined \<or> (\<exists>k \<in> set protoKeys. v = JBuiltin k))"

text \<open>
  A part has some of the properties of an object and some of the elements of an array, at their index;
  the other slots before the last are not disclosed. An empty array also has \<open>NEVER\<close> as a part.
\<close>

inductive part :: "json \<Rightarrow> json \<Rightarrow> bool" where
  whole: "part v v"
| object: "isDcqlObject v \<Longrightarrow> distinct (map fst us) \<Longrightarrow>
     (\<And>k x. (k, x) \<in> set us \<Longrightarrow> propOf v k \<noteq> JBuiltin ''__proto__'' \<and> part x (propOf v k)) \<Longrightarrow> part (JObj us) v"
| array: "length us \<le> length vs \<Longrightarrow> (\<And>i. i < length us \<Longrightarrow> us ! i = notDisclosed \<or> part (us ! i) (vs ! i)) \<Longrightarrow>
     part (JArr us) (JArr vs)"
| never: "part zodNever (JArr [])"

lemma isDcqlObject_iff: "isDcqlObject v \<longleftrightarrow> (\<exists>kvs. v = JObj kvs) \<or> v = JBuiltin ''__proto__''"
  by (auto simp: isDcqlObject_def split: json.splits)

lemma getProp_read: "distinct (map fst kvs) \<Longrightarrow> list_all (\<lambda>p. jsValue (snd p)) kvs \<Longrightarrow> readValue (getProp kvs k)"
  by (auto simp: readValue_def getProp_def list_all_iff split: option.splits dest!: map_of_SomeD)

lemma propOf_read: "readValue v \<Longrightarrow> readValue (propOf v k)"
proof (cases v)
  case (JObj kvs)
  then show "readValue v \<Longrightarrow> ?thesis" using getProp_read [of kvs k] by (simp add: propOf_def) (simp add: readValue_def)
qed (use getProp_read [of "[]" k] in \<open>simp_all add: propOf_def\<close>)

lemma elem_read: "jsValue (JArr xs) \<Longrightarrow> i < length xs \<Longrightarrow> jsValue (xs ! i)"
  by (simp add: list_all_length)

text \<open>Of a whole object, every property is a part.\<close>

lemma part_fields:
  assumes "part (JObj us) v" "isDcqlObject v" "readValue v"
  shows "distinct (map fst us) \<and> (\<forall>(k, x) \<in> set us. propOf v k \<noteq> JBuiltin ''__proto__'' \<and> part x (propOf v k))"
  using assms(1)
proof cases
  case whole
  then have d: "distinct (map fst us)" "list_all (\<lambda>p. jsValue (snd p)) us" using assms(3) by (auto simp: readValue_def)
  have "propOf v k = x \<and> jsValue x" if "(k, x) \<in> set us" for k x
    using whole d that by (auto simp: propOf_def getProp_def list_all_iff)
  then show ?thesis using d part.whole by fastforce
qed (use assms(2) in \<open>auto simp: isDcqlObject_def\<close>)

lemma part_items:
  assumes "part (JArr us) v"
  obtains vs where "v = JArr vs" "length us \<le> length vs" "\<And>i. i < length us \<Longrightarrow> us ! i = notDisclosed \<or> part (us ! i) (vs ! i)"
  using assms by cases (auto simp: zodNever_def intro: part.whole)

lemma part_mergeable:
  assumes "part x y" "mergeable x"
  shows "isDcqlObject y \<or> (\<exists>ys. y = JArr ys)"
  using assms by cases (auto simp: mergeable_def isDcqlObject_def split: json.splits)

lemma part_of_mergeable:
  assumes "part x y" "isDcqlObject y \<or> (\<exists>ys. y = JArr ys)" "y \<noteq> JBuiltin ''__proto__''"
  shows "mergeable x"
  using assms by cases (auto simp: mergeable_def isDcqlObject_def zodNever_def split: json.splits)

lemma part_of_object:
  assumes "part x y" "isDcqlObject y" "mergeable x"
  obtains us where "x = JObj us"
  using assms by cases (auto simp: mergeable_def isDcqlObject_def zodNever_def split: json.splits)

lemma part_of_array:
  assumes "part x (JArr ys)"
  shows "(\<exists>xs. x = JArr xs) \<or> (x = zodNever \<and> ys = [])"
  using assms by cases (auto simp: isDcqlObject_def)

lemma part_empty: "part (JArr []) (JArr vs)"
  by (rule part.array) simp_all

lemma part_of_Nil: "part x (JArr []) \<Longrightarrow> x = zodNever \<or> x = JArr []"
  by (erule part.cases) (auto simp: isDcqlObject_def)

lemma propOf_proto: "readValue v \<Longrightarrow> propOf v k = JBuiltin j \<Longrightarrow> j = k"
  by (cases v) (auto simp: readValue_def propOf_def getProp_def list_all_iff split: option.splits if_splits dest!: map_of_SomeD)

section \<open>Outputs are parts\<close>

definition partOutcome :: "json \<Rightarrow> outcome \<Rightarrow> bool" where
  "partOutcome v r = (case r of Parsed x \<Rightarrow> part x v | Failed is \<Rightarrow> is \<noteq> [] | Thrown e \<Rightarrow> True)"

lemma partOutcome_simps [simp]: "partOutcome v (Parsed x) = part x v" "partOutcome v (Failed is) = (is \<noteq> [])" "partOutcome v (Thrown e)"
  by (simp_all add: partOutcome_def)

lemma claimParser_part: "partOutcome v (claimParser vals v)"
  by (simp add: claimParser_def part.whole split: option.splits)

lemma claimObject_part:
  assumes "partOutcome (propOf v k) (inner (propOf v k))" "readValue v"
  shows "partOutcome v (claimObject k inner v)"
proof (cases "isDcqlObject v")
  case True
  show ?thesis
  proof (cases "inner (propOf v k)")
    case (Parsed x)
    have "part (JObj (setProp k x [])) v"
    proof (rule part.object [OF True])
      show "distinct (map fst (setProp k x []))" by (simp add: setProp_def)
      fix l y assume "(l, y) \<in> set (setProp k x [])"
      then have "l = k \<and> y = x \<and> k \<noteq> ''__proto__''" by (auto simp: setProp_def split: if_splits)
      then show "propOf v l \<noteq> JBuiltin ''__proto__'' \<and> part y (propOf v l)"
        using assms Parsed propOf_proto [OF assms(2), of k "''__proto__''"] by auto
    qed
    then show ?thesis using True Parsed by (simp add: claimObject_def)
  qed (use True assms(1) in \<open>simp_all add: claimObject_def\<close>)
qed (simp add: claimObject_def)

lemma anyElement_part: "partOutcome v (anyElement v i rs first)"
  by (induction v i rs first rule: anyElement.induct) (simp_all add: part.whole)

lemma elementIssues_reported: "Failed [] \<notin> set rs \<Longrightarrow> list_all (\<lambda>r. \<not> isParsed r) rs \<Longrightarrow> firstThrown rs = None \<Longrightarrow>
    elementIssues i rs = [] \<longleftrightarrow> rs = []"
  by (induction i rs rule: elementIssues.induct) auto

lemma allElements_part:
  assumes "\<And>x. x \<in> set xs \<Longrightarrow> partOutcome x (f x)"
  shows "partOutcome (JArr xs) (allElements (map f xs))"
proof -
  have "part (JArr (map (slotOf \<circ> f) xs)) (JArr xs)"
  proof (rule part.array)
    fix i assume i: "i < length (map (slotOf \<circ> f) xs)"
    then show "map (slotOf \<circ> f) xs ! i = notDisclosed \<or> part (map (slotOf \<circ> f) xs ! i) (xs ! i)"
      using assms [of "xs ! i"] by (cases "f (xs ! i)") simp_all
  qed simp
  moreover have "Failed [] \<notin> set (map f xs)" using assms by (metis imageE list.set_map partOutcome_simps(2))
  ultimately show ?thesis
    using elementIssues_reported [of "map f xs" 0] by (auto simp: allElements_def part.never split: option.splits)
qed

lemma jsonClaim_part: "readValue v \<Longrightarrow> partOutcome v (jsonClaim pr vals path v)"
proof (induction pr vals path v rule: jsonClaim.induct)
  case (1 pr vals v)
  then show ?case by (simp add: claimParser_part)
next
  case (2 pr vals k path v)
  then show ?case by (simp add: claimObject_part propOf_read)
next
  case (3 pr vals i path v)
  show ?case
  proof (cases v)
    case (JArr xs)
    show ?thesis
    proof (cases "\<not> pr \<and> i < length xs")
      case True
      then have x: "(case elemAt xs i of None \<Rightarrow> JUndefined | Some x \<Rightarrow> x) = xs ! i" by (simp add: elemAt_def)
      have "readValue (xs ! i)" using "3.prems" JArr True elem_read by (simp add: readValue_def list_all_length)
      then have p: "partOutcome (xs ! i) (jsonClaim pr vals path (xs ! i))" using "3.IH"(2) [OF JArr] True by (simp add: x)
      show ?thesis
      proof (cases "jsonClaim pr vals path (xs ! i)")
        case (Parsed y)
        have "part (JArr (replicate i notDisclosed @ [y])) (JArr xs)"
          using p Parsed True by (intro part.array) (auto simp: nth_append less_Suc_eq)
        then show ?thesis using JArr True Parsed by (simp add: x min_def)
      qed (use JArr True p in \<open>simp_all add: x\<close>)
    next
      case False
      have "readValue JUndefined" by (simp add: readValue_def)
      have "\<not> isParsed (jsonClaim pr vals path JUndefined)"
        by (cases path; cases "hd path") (simp_all add: claimParser_def claimObject_def isDcqlObject_def)
      then show ?thesis using JArr False anyElement_part
        by (cases "jsonClaim pr vals path JUndefined") (auto simp: elemAt_def)
    qed
  qed simp_all
next
  case (4 pr vals path v)
  show ?case
  proof (cases v)
    case (JArr xs)
    have "partOutcome x (jsonClaim pr vals path x)" if "x \<in> set xs" for x
      using 4 JArr that by (simp add: readValue_def list_all_iff)
    then show ?thesis using JArr allElements_part by simp
  qed simp_all
qed

lemma mdocClaim_part: "readValue v \<Longrightarrow> partOutcome v (mdocClaim q v)"
  using claimParser_part
  by (auto simp: mdocClaim_def intro!: claimObject_part propOf_read split: list.splits pathElem.splits)

lemma parseClaim_part: "readValue v \<Longrightarrow> partOutcome v (parseClaim format pr v q)"
  by (simp add: parseClaim_def jsonClaim_part mdocClaim_part)

section \<open>Merging parts\<close>

text \<open>What merging one entry does to the slot it goes to, when both are parts of \<open>y\<close> or missing.\<close>

definition slotPart :: "json \<Rightarrow> json \<Rightarrow> bool" where
  "slotPart y t = (t = JUndefined \<or> t = notDisclosed \<or> part t y)"

definition mergesEntry :: "string \<Rightarrow> json \<Rightarrow> json \<Rightarrow> json \<Rightarrow> bool" where
  "mergesEntry k x target y = (mergeEntry k x target = Inr target \<and> (x = notDisclosed \<or> x = JUndefined)
     \<or> (\<exists>z. mergeEntry k x target = Inr (setMerged target k z) \<and> part z y))"

lemma object_set_part:
  assumes "part (JObj us) v" "isDcqlObject v" "readValue v" "propOf v k \<noteq> JBuiltin ''__proto__''" "part z (propOf v k)"
  shows "part (JObj (defineProp k z us)) v"
proof (rule part.object [OF assms(2)])
  show "distinct (map fst (defineProp k z us))" using part_fields [OF assms(1-3)] by (simp add: distinct_defineProp)
  fix l y assume "(l, y) \<in> set (defineProp k z us)"
  then have "(l = k \<and> y = z) \<or> (l, y) \<in> set us" by (rule set_defineProp)
  then show "propOf v l \<noteq> JBuiltin ''__proto__'' \<and> part y (propOf v l)"
    using part_fields [OF assms(1-3)] assms(4,5) by (elim disjE) auto
qed

lemma array_set_part:
  assumes "part (JArr us) (JArr vs)" "i < length vs" "part z (vs ! i)"
  shows "part (JArr ((us @ replicate (Suc i - length us) notDisclosed)[i := z])) (JArr vs)"
proof (rule part.array)
  obtain l: "length us \<le> length vs" "\<And>j. j < length us \<Longrightarrow> us ! j = notDisclosed \<or> part (us ! j) (vs ! j)"
    using part_items [OF assms(1)] by auto
  then show "length ((us @ replicate (Suc i - length us) notDisclosed)[i := z]) \<le> length vs" using assms(2) by simp
  fix j assume "j < length ((us @ replicate (Suc i - length us) notDisclosed)[i := z])"
  then show "(us @ replicate (Suc i - length us) notDisclosed)[i := z] ! j = notDisclosed \<or>
      part ((us @ replicate (Suc i - length us) notDisclosed)[i := z] ! j) (vs ! j)"
    using l(2) assms(3) by (cases "j = i") (auto simp: nth_append)
qed

lemma mergeTarget_part:
  assumes "slotPart y (ownProp target k)" "part x y" "mergeable x" "y \<noteq> JBuiltin ''__proto__''"
  shows "\<exists>t. mergeTarget target k x = Inr t \<and> mergeable t \<and> (part t y \<or> t = emptyLike x)"
proof (cases "ownProp target k = JUndefined \<or> ownProp target k = notDisclosed")
  case True
  then have "\<not> mergeable (ownProp target k)" by (auto simp: mergeable_def notDisclosed_def)
  moreover have "mergeable (emptyLike x)" by (simp add: emptyLike_def mergeable_def split: json.splits)
  ultimately show ?thesis using True by (auto simp: mergeTarget_def)
next
  case False
  then have p: "part (ownProp target k) y" using assms(1) by (simp add: slotPart_def)
  then have "mergeable (ownProp target k)" using part_of_mergeable part_mergeable assms(2-4) by blast
  then show ?thesis using p by (simp add: mergeTarget_def)
qed

lemma mergeEntry_part:
  assumes "slotPart y (ownProp target k)" "x = notDisclosed \<or> part x y" "y \<noteq> JBuiltin ''__proto__''"
    and deep: "\<And>t. mergeTarget target k x = Inr t \<Longrightarrow> mergeable x \<Longrightarrow> part x y \<Longrightarrow> part t y \<or> t = emptyLike x \<Longrightarrow> mergeable t \<Longrightarrow>
      \<exists>r. deepMerge x t = Inr r \<and> part r y"
  shows "mergesEntry k x target y"
proof (cases "mergeable x")
  case True
  then have x: "part x y" using assms(2) by (auto simp: mergeable_def notDisclosed_def)
  obtain t r where "mergeTarget target k x = Inr t" "deepMerge x t = Inr r" "part r y"
    using mergeTarget_part [OF assms(1) x True assms(3)] deep True x by blast
  then show ?thesis using True by (auto simp: mergesEntry_def)
next
  case False
  then show ?thesis using assms(2) by (auto simp: mergesEntry_def)
qed

lemma merge_never: "t = zodNever \<or> t = JArr [] \<or> t = JObj [] \<Longrightarrow> \<exists>r. deepMerge zodNever t = Inr r \<and> part r (JArr []) \<and> mergeable r"
proof -
  have "deepMerge zodNever zodNever = Inr zodNever" "deepMerge zodNever (JArr []) = Inr (JArr [])"
    "deepMerge zodNever (JObj []) = Inr zodNever"
    unfolding zodNever_def by code_simp+
  then show "t = zodNever \<or> t = JArr [] \<or> t = JObj [] \<Longrightarrow> ?thesis"
    using part.never part.whole by (auto simp: mergeable_def zodNever_def)
qed

lemma object_slot: "part (JObj us) v \<Longrightarrow> isDcqlObject v \<Longrightarrow> readValue v \<Longrightarrow> slotPart (propOf v k) (ownProp (JObj us) k)"
  using part_fields [of us v] by (auto simp: slotPart_def ownProp_def split: option.splits dest!: map_of_SomeD)

lemma array_slot: "part (JArr us) (JArr vs) \<Longrightarrow> i < length vs \<Longrightarrow> length vs < 2 ^ 32 \<Longrightarrow> slotPart (vs ! i) (ownProp (JArr us) (natText i))"
  by (erule part_items) (auto simp: slotPart_def ownProp_def indexKey_natText elemAt_def)

definition mergesParts :: "json \<Rightarrow> json \<Rightarrow> json \<Rightarrow> bool" where
  "mergesParts v s t = (readValue v \<and> mergeable s \<and> part s v \<and> (part t v \<or> t = emptyLike s) \<and> mergeable t \<longrightarrow>
     (\<exists>r. deepMerge s t = Inr r \<and> part r v \<and> mergeable r))"

lemma merge_parts:
  "mergesParts v s t"
  "readValue v \<Longrightarrow> isDcqlObject v \<Longrightarrow> \<forall>(k, x) \<in> set kvs. propOf v k \<noteq> JBuiltin ''__proto__'' \<and> part x (propOf v k) \<Longrightarrow>
     t = JObj us \<Longrightarrow> part t v \<Longrightarrow> \<exists>us'. mergeFields kvs t = Inr (JObj us') \<and> part (JObj us') v"
  "jsValue (JArr vs) \<Longrightarrow> i + length xs \<le> length vs \<Longrightarrow>
     \<forall>j < length xs. xs ! j = notDisclosed \<or> part (xs ! j) (vs ! (i + j)) \<Longrightarrow>
     t = JArr ws \<Longrightarrow> part t (JArr vs) \<Longrightarrow> \<exists>us'. mergeItems i xs t = Inr (JArr us') \<and> part (JArr us') (JArr vs)"
  "readValue y \<Longrightarrow> slotPart y (ownProp t k) \<Longrightarrow> x = notDisclosed \<or> part x y \<Longrightarrow> y \<noteq> JBuiltin ''__proto__'' \<Longrightarrow> mergesEntry k x t y"
proof (induction s t and kvs t and i xs t and k x t arbitrary: v and v us and vs ws and y
    rule: deepMerge_mergeFields_mergeItems_mergeEntry.induct)
  case (1 source target)
  note items = "1.IH"(1) and fields = "1.IH"(2)
  show ?case unfolding mergesParts_def
  proof (intro impI, elim conjE)
    assume m: "mergeable source" "mergeable target" and s: "part source v" and v: "readValue v"
      and t: "part target v \<or> target = emptyLike source"
    show "\<exists>r. deepMerge source target = Inr r \<and> part r v \<and> mergeable r"
    proof (cases source)
      case (JObj us)
      show ?thesis
      proof (cases "isDcqlObject v")
        case True
        obtain ts where ts: "target = JObj ts" "part (JObj ts) v"
          using t m(2) part_of_object [OF _ True] JObj part.object [OF True, of "[]"] by (auto simp: emptyLike_def)
        then show ?thesis
          using fields [of us v ts] JObj m v True part_fields [OF _ True v] s by (auto simp: mergeable_def)
      next
        case False
        then obtain ys where "v = JArr ys" using part_mergeable [OF s m(1)] by auto
        then have "v = JArr []" "source = zodNever" using part_of_array s JObj by auto
        moreover have "target = zodNever \<or> target = JArr [] \<or> target = JObj []"
          using t part_of_Nil calculation by (auto simp: emptyLike_def zodNever_def)
        ultimately show ?thesis using merge_never by simp
      qed
    next
      case (JArr xs)
      then obtain vs where vs: "v = JArr vs" "length xs \<le> length vs" "\<And>i. i < length xs \<Longrightarrow> xs ! i = notDisclosed \<or> part (xs ! i) (vs ! i)"
        using s part_items by blast
      show ?thesis
      proof (cases "\<exists>ts. target = JArr ts")
        case True
        then obtain ts where "target = JArr ts" by blast
        moreover have "part target v" using t JArr vs(1) part_empty by (auto simp: emptyLike_def)
        ultimately show ?thesis
          using items [of xs vs ts] JArr m vs v by (auto simp: mergeable_def readValue_def)
      next
        case False
        then have "target = zodNever \<and> vs = []" using t part_of_array vs(1) JArr by (auto simp: emptyLike_def)
        then show ?thesis using JArr vs by (auto simp: mergeable_def zodNever_def intro: part.never [unfolded zodNever_def])
      qed
    qed (use m in \<open>simp_all add: mergeable_def\<close>)
  qed
next
  case (2 target)
  then show ?case by auto
next
  case (3 k x kvs target)
  have x: "propOf v k \<noteq> JBuiltin ''__proto__''" "part x (propOf v k)" using "3.prems"(3) by auto
  have "mergesEntry k x target (propOf v k)"
    using "3.IH"(1) "3.prems" x object_slot propOf_read by simp
  then consider (same) "mergeEntry k x target = Inr target"
    | (set) z where "mergeEntry k x target = Inr (JObj (defineProp k z us))" "part z (propOf v k)"
    using "3.prems"(4) by (auto simp: mergesEntry_def setMerged_def)
  then show ?case
  proof cases
    case same
    then show ?thesis using "3.IH"(2) [OF same, of v us] "3.prems" by simp
  next
    case set
    then have "part (JObj (defineProp k z us)) v" using object_set_part "3.prems" x by blast
    then show ?thesis using "3.IH"(2) [OF set(1), of v "defineProp k z us"] "3.prems" set(1) by simp
  qed
next
  case (4 i target)
  then show ?case by auto
next
  case (5 i x xs target)
  have i: "i < length vs" "length vs < 2 ^ 32" using "5.prems"(1,2) by auto
  have x: "x = notDisclosed \<or> part x (vs ! i)" using "5.prems"(3) [THEN spec, of 0] by simp
  have y: "readValue (vs ! i)" "vs ! i \<noteq> JBuiltin ''__proto__''"
    using elem_read [OF "5.prems"(1) i(1)] by (auto simp: readValue_def)
  have rest: "\<forall>j < length xs. xs ! j = notDisclosed \<or> part (xs ! j) (vs ! (Suc i + j))"
    using "5.prems"(3) by force
  have "mergesEntry (natText i) x target (vs ! i)"
    using "5.IH"(1) [OF y(1) _ x y(2)] "5.prems"(4,5) array_slot [OF _ i] by simp
  then consider (same) "mergeEntry (natText i) x target = Inr target"
    | (set) z where "mergeEntry (natText i) x target = Inr (JArr ((ws @ replicate (Suc i - length ws) notDisclosed)[i := z]))" "part z (vs ! i)"
    using "5.prems"(4) i by (auto simp: mergesEntry_def setMerged_def indexKey_natText)
  then show ?case
  proof cases
    case same
    then show ?thesis using "5.IH"(2) [OF same, of vs ws] "5.prems" rest by simp
  next
    case set
    then have "part (JArr ((ws @ replicate (Suc i - length ws) notDisclosed)[i := z])) (JArr vs)"
      using array_set_part "5.prems"(4,5) i(1) by blast
    then show ?thesis using "5.IH"(2) [OF set(1), of vs "(ws @ replicate (Suc i - length ws) notDisclosed)[i := z]"]
        "5.prems"(1,2) set(1) rest by simp
  qed
next
  case (6 k x target)
  show ?case
  proof (rule mergeEntry_part [OF "6.prems"(2,3,4)])
    fix t
    assume "mergeTarget target k x = Inr t" "mergeable x" "part x y" "part t y \<or> t = emptyLike x" "mergeable t"
    then show "\<exists>r. deepMerge x t = Inr r \<and> part r y"
      using "6.IH" [of t y] "6.prems"(1) unfolding mergesParts_def by blast
  qed
qed

end
