(* ===== verification/DcqlParse.thy ===== *)
theory DcqlParse imports DcqlQuery begin

text \<open>
  The schemas of a query in \<open>packages/dcql/src/dcql-query\<close>: \<open>parseDcqlQuery\<close> is \<open>DcqlQuery.parse\<close>. A schema
  is a function to what it returns, or to nothing when the value does not fit; the checks beyond the
  structure report their issues. The syntax of URLs is a parameter. What no operation reads, the
  \<open>intent_to_retain\<close> of a claim and the \<open>purpose\<close> of a credential set, is checked and not kept.
\<close>

section \<open>Schemas\<close>

definition isWordChar :: "char \<Rightarrow> bool" where
  "isWordChar c = (let n = (of_char c :: nat) in
     (48 \<le> n \<and> n \<le> 57) \<or> (65 \<le> n \<and> n \<le> 90) \<or> (97 \<le> n \<and> n \<le> 122) \<or> c = CHR ''_'' \<or> c = CHR ''-'')"

definition zIdString :: "json \<Rightarrow> string option" where
  "zIdString v = (case v of JStr s \<Rightarrow> if s \<noteq> [] \<and> list_all isWordChar s then Some s else None | _ \<Rightarrow> None)"

text \<open>\<open>base64urlRegex\<close>, on ASCII.\<close>

definition isBase64Url :: "string \<Rightarrow> bool" where
  "isBase64Url s = (let n = length (takeWhile isWordChar s); rest = dropWhile isWordChar s in
     (n mod 4 = 0 \<and> rest = []) \<or> (n mod 4 = 2 \<and> (rest = [] \<or> rest = ''=='')) \<or> (n mod 4 = 3 \<and> (rest = [] \<or> rest = ''='')))"

text \<open>An optional member, and one with a default.\<close>

definition zOptional :: "(json \<Rightarrow> 'a option) \<Rightarrow> json \<Rightarrow> 'a option option" where
  "zOptional f v = (if v = JUndefined then Some None else map_option Some (f v))"

definition zBoolDefault :: "bool \<Rightarrow> json \<Rightarrow> bool option" where
  "zBoolDefault d v = (case v of JUndefined \<Rightarrow> Some d | JBool b \<Rightarrow> Some b | _ \<Rightarrow> None)"

definition zArrayOf :: "(json \<Rightarrow> 'a option) \<Rightarrow> json \<Rightarrow> 'a list option" where
  "zArrayOf f v = (case v of JArr xs \<Rightarrow> those (map f xs) | _ \<Rightarrow> None)"

definition zNonEmptyArray :: "(json \<Rightarrow> 'a option) \<Rightarrow> json \<Rightarrow> 'a list option" where
  "zNonEmptyArray f v = (case zArrayOf f v of Some (x # xs) \<Rightarrow> Some (x # xs) | _ \<Rightarrow> None)"

definition zObjectWith :: "json \<Rightarrow> 'a option \<Rightarrow> 'a option" where
  "zObjectWith v r = (case v of JObj kvs \<Rightarrow> r | _ \<Rightarrow> None)"

definition isWhole :: "rat \<Rightarrow> bool" where
  "isWhole q = (of_int \<lfloor>q\<rfloor> = q)"

definition zClaimValue :: "json \<Rightarrow> json option" where
  "zClaimValue v = (case v of JStr s \<Rightarrow> Some v | JBool b \<Rightarrow> Some v | JNum q \<Rightarrow> if isWhole q then Some v else None | _ \<Rightarrow> None)"

definition zPath :: "json \<Rightarrow> pathElem option" where
  "zPath v = (case v of
       JStr s \<Rightarrow> Some (PKey s)
     | JNull \<Rightarrow> Some PAll
     | JNum q \<Rightarrow> if isWhole q \<and> 0 \<le> q \<and> q \<le> of_int maxSafe then Some (PIndex (nat \<lfloor>q\<rfloor>)) else None
     | _ \<Rightarrow> None)"

section \<open>Claims queries\<close>

definition zClaimBase :: "json \<Rightarrow> (string option \<times> json list option) option" where
  "zClaimBase v = (case (zOptional zIdString (claimOf v ''id''), zOptional (zArrayOf zClaimValue) (claimOf v ''values'')) of
       (Some i, Some vs) \<Rightarrow> Some (i, vs)
     | _ \<Rightarrow> None)"

definition zJsonClaim :: "json \<Rightarrow> claimsQuery option" where
  "zJsonClaim v = zObjectWith v (case (zClaimBase v, zNonEmptyArray zPath (claimOf v ''path'')) of
       (Some (i, vs), Some path) \<Rightarrow> Some (PathClaim i vs path)
     | _ \<Rightarrow> None)"

definition zMdocPath :: "json \<Rightarrow> pathElem list option" where
  "zMdocPath v = (case v of JArr [JStr namespace, JStr name] \<Rightarrow> Some [PKey namespace, PKey name] | _ \<Rightarrow> None)"

definition zMdocClaim :: "json \<Rightarrow> claimsQuery option" where
  "zMdocClaim v = zObjectWith v
     (if claimOf v ''namespace'' \<noteq> JUndefined
      then (case (zClaimBase v, strOf (claimOf v ''namespace''), strOf (claimOf v ''claim_name'')) of
          (Some (i, vs), Some namespace, Some name) \<Rightarrow> Some (NamespaceClaim i vs namespace name)
        | _ \<Rightarrow> None)
      else (case (zClaimBase v, zMdocPath (claimOf v ''path''), zBoolDefault False (claimOf v ''intent_to_retain'')) of
          (Some (i, vs), Some path, Some retain) \<Rightarrow> Some (PathClaim i vs path)
        | _ \<Rightarrow> None))"

section \<open>Trusted authorities\<close>

definition zAuthorityValue :: "(string \<Rightarrow> bool) \<Rightarrow> json \<Rightarrow> string option" where
  "zAuthorityValue accepts v = (case v of JStr s \<Rightarrow> if accepts s then Some s else None | _ \<Rightarrow> None)"

definition zTrustedAuthority :: "(string \<Rightarrow> bool) \<Rightarrow> json \<Rightarrow> trustedAuthority option" where
  "zTrustedAuthority isUrl v = zObjectWith v (case claimOf v ''type'' of
       JStr t \<Rightarrow>
         if t \<notin> {''aki'', ''etsi_tl'', ''openid_federation''} then None
         else map_option (\<lambda>vs. \<lparr>ta_type = t, ta_values = vs\<rparr>)
           (zNonEmptyArray (zAuthorityValue (if t = ''aki'' then isBase64Url else isUrl)) (claimOf v ''values''))
     | _ \<Rightarrow> None)"

section \<open>Credential queries\<close>

definition zDoctypeMeta :: "json \<Rightarrow> metaQuery option" where
  "zDoctypeMeta v = zObjectWith v (map_option DoctypeMeta (zOptional strOf (claimOf v ''doctype_value'')))"

definition zVctMeta :: "json \<Rightarrow> metaQuery option" where
  "zVctMeta v = zObjectWith v (map_option VctMeta (zOptional (zNonEmptyArray strOf) (claimOf v ''vct_values'')))"

definition zTypeMeta :: "json \<Rightarrow> metaQuery option" where
  "zTypeMeta v = zObjectWith v (map_option TypeMeta (zNonEmptyArray (zNonEmptyArray strOf) (claimOf v ''type_values'')))"

definition orNoMeta :: "(json \<Rightarrow> metaQuery option) \<Rightarrow> json \<Rightarrow> metaQuery option" where
  "orNoMeta f v = (if v = JUndefined then Some NoMeta else f v)"

text \<open>The meta of each format; \<open>vc+sd-jwt\<close> has the one of a W3C VC when it holds \<open>type_values\<close>.\<close>

definition zMeta :: "credentialFormat \<Rightarrow> json \<Rightarrow> metaQuery option" where
  "zMeta format v = (case format of
       MsoMdoc \<Rightarrow> orNoMeta zDoctypeMeta v
     | DcSdJwt \<Rightarrow> orNoMeta zVctMeta v
     | VcSdJwt \<Rightarrow> if claimOf v ''type_values'' \<noteq> JUndefined then zTypeMeta v else orNoMeta zVctMeta v
     | _ \<Rightarrow> zTypeMeta v)"

definition zFormat :: "json \<Rightarrow> credentialFormat option" where
  "zFormat v = (case v of JStr s \<Rightarrow> map_of [(''mso_mdoc'', MsoMdoc), (''dc+sd-jwt'', DcSdJwt), (''vc+sd-jwt'', VcSdJwt),
       (''jwt_vc_json'', JwtVcJson), (''ldp_vc'', LdpVc)] s
     | _ \<Rightarrow> None)"

definition zBaseQuery :: "(string \<Rightarrow> bool) \<Rightarrow> json \<Rightarrow>
    (string \<times> bool \<times> bool \<times> string list list option \<times> trustedAuthority list option) option" where
  "zBaseQuery isUrl v =
     (case (zIdString (claimOf v ''id''), zBoolDefault True (claimOf v ''require_cryptographic_holder_binding''),
            zBoolDefault False (claimOf v ''multiple''),
            zOptional (zNonEmptyArray (zNonEmptyArray zIdString)) (claimOf v ''claim_sets''),
            zOptional (zNonEmptyArray (zTrustedAuthority isUrl)) (claimOf v ''trusted_authorities'')) of
        (Some i, Some binding, Some multiple, Some sets, Some authorities) \<Rightarrow> Some (i, binding, multiple, sets, authorities)
      | _ \<Rightarrow> None)"

text \<open>A claim needs an id when there are claim sets, no id may occur twice, and claim sets name claims.\<close>

fun claimIdIssues :: "bool \<Rightarrow> nat \<Rightarrow> string list \<Rightarrow> string option list \<Rightarrow> dcqlIssue list" where
  "claimIdIssues hasSets i seen [] = []"
| "claimIdIssues hasSets i seen (None # ids) =
     (if hasSets then [(''missing_value'', [PKey ''claims'', PIndex i, PKey ''id''])] else [])
     @ claimIdIssues hasSets (Suc i) seen ids"
| "claimIdIssues hasSets i seen (Some c # ids) =
     (if c \<in> set seen then [(''duplicate_claim_id'', [PKey ''claims'', PIndex i, PKey ''id''])] else [])
     @ claimIdIssues hasSets (Suc i) (c # seen) ids"

fun unknownIds :: "string \<Rightarrow> string list \<Rightarrow> pathElem list \<Rightarrow> nat \<Rightarrow> string list \<Rightarrow> dcqlIssue list" where
  "unknownIds code known path i [] = []"
| "unknownIds code known path i (x # xs) =
     (if x \<in> set known then [] else [(code, path @ [PIndex i])]) @ unknownIds code known path (Suc i) xs"

fun unknownInSets :: "string \<Rightarrow> string list \<Rightarrow> pathElem list \<Rightarrow> nat \<Rightarrow> string list list \<Rightarrow> dcqlIssue list" where
  "unknownInSets code known path i [] = []"
| "unknownInSets code known path i (s # sets) =
     unknownIds code known (path @ [PIndex i]) 0 s @ unknownInSets code known path (Suc i) sets"

definition optionList :: "'a list option \<Rightarrow> 'a list" where
  "optionList m = (case m of None \<Rightarrow> [] | Some xs \<Rightarrow> xs)"

definition idsOf :: "claimsQuery list \<Rightarrow> string list" where
  "idsOf qs = List.map_filter claimId qs"

definition checkClaimIds :: "credentialQuery \<Rightarrow> dcqlIssue list" where
  "checkClaimIds cq =
     claimIdIssues (cq_claimSets cq \<noteq> None) 0 [] (map claimId (optionList (cq_claims cq)))
     @ unknownInSets ''unknown_claim_id'' (idsOf (optionList (cq_claims cq))) [PKey ''claim_sets''] 0 (optionList (cq_claimSets cq))"

definition claimSchema :: "credentialFormat \<Rightarrow> json \<Rightarrow> claimsQuery option" where
  "claimSchema format = (if format = MsoMdoc then zMdocClaim else zJsonClaim)"

definition zCredentialQuery :: "(string \<Rightarrow> bool) \<Rightarrow> json \<Rightarrow> credentialQuery option" where
  "zCredentialQuery isUrl v = zObjectWith v (case zFormat (claimOf v ''format'') of
       None \<Rightarrow> None
     | Some format \<Rightarrow>
         (case (zBaseQuery isUrl v,
                zOptional (zNonEmptyArray (claimSchema format)) (claimOf v ''claims''),
                zMeta format (claimOf v ''meta'')) of
            (Some (i, binding, multiple, sets, authorities), Some claims, Some meta) \<Rightarrow>
              (let cq = \<lparr>cq_id = i, cq_format = format, cq_requireBinding = binding, cq_multiple = multiple,
                 cq_claims = claims, cq_claimSets = sets, cq_authorities = authorities, cq_meta = meta\<rparr> in
               if checkClaimIds cq = [] then Some cq else None)
          | _ \<Rightarrow> None))"

section \<open>The query\<close>

definition isPurpose :: "json \<Rightarrow> bool" where
  "isPurpose v = (case v of JUndefined \<Rightarrow> True | JStr s \<Rightarrow> True | JNum q \<Rightarrow> True | JObj kvs \<Rightarrow> True | _ \<Rightarrow> False)"

definition zCredentialSet :: "json \<Rightarrow> credentialSet option" where
  "zCredentialSet v = zObjectWith v
     (case (zNonEmptyArray (zArrayOf zIdString) (claimOf v ''options''), zBoolDefault True (claimOf v ''required'')) of
        (Some options, Some required) \<Rightarrow>
          if isPurpose (claimOf v ''purpose'') then Some \<lparr>se_options = options, se_required = required\<rparr> else None
      | _ \<Rightarrow> None)"

fun duplicateIds :: "nat \<Rightarrow> string list \<Rightarrow> string list \<Rightarrow> dcqlIssue list" where
  "duplicateIds i seen [] = []"
| "duplicateIds i seen (x # xs) =
     (if x \<in> set seen then [(''duplicate_credential_query_id'', [PKey ''credentials'', PIndex i, PKey ''id''])] else [])
     @ duplicateIds (Suc i) (x # seen) xs"

fun unknownInOptions :: "string list \<Rightarrow> nat \<Rightarrow> credentialSet list \<Rightarrow> dcqlIssue list" where
  "unknownInOptions known i [] = []"
| "unknownInOptions known i (s # sets) =
     unknownInSets ''unknown_credential_query_id'' known [PKey ''credential_sets'', PIndex i, PKey ''options''] 0 (se_options s)
     @ unknownInOptions known (Suc i) sets"

definition checkCredentialQueryIds :: "dcqlQuery \<Rightarrow> dcqlIssue list" where
  "checkCredentialQueryIds q = duplicateIds 0 [] (map cq_id (dq_credentials q))
     @ unknownInOptions (map cq_id (dq_credentials q)) 0 (optionList (dq_sets q))"

definition zDcqlQuery :: "(string \<Rightarrow> bool) \<Rightarrow> json \<Rightarrow> dcqlQuery option" where
  "zDcqlQuery isUrl v = zObjectWith v
     (case (zNonEmptyArray (zCredentialQuery isUrl) (claimOf v ''credentials''),
            zOptional (zNonEmptyArray zCredentialSet) (claimOf v ''credential_sets'')) of
        (Some credentials, Some sets) \<Rightarrow>
          (let q = \<lparr>dq_credentials = credentials, dq_sets = sets\<rparr> in if checkCredentialQueryIds q = [] then Some q else None)
      | _ \<Rightarrow> None)"

definition parseDcqlQuery :: "(string \<Rightarrow> bool) \<Rightarrow> json \<Rightarrow> dcqlError + dcqlQuery" where
  "parseDcqlQuery isUrl v = (case zDcqlQuery isUrl v of
       Some q \<Rightarrow> Inr q
     | None \<Rightarrow> Inl (DcqlError ''PARSE_ERROR'' ''Invalid DCQL query''))"

section \<open>Presentations\<close>

text \<open>The answer to a query: for each id its presentations, or one alone as in older drafts.\<close>

definition zPresentationEntry :: "json \<Rightarrow> bool" where
  "zPresentationEntry v = (case v of JStr s \<Rightarrow> True | JObj kvs \<Rightarrow> True | _ \<Rightarrow> False)"

definition zPresentation :: "json \<Rightarrow> bool" where
  "zPresentation v = (case v of
       JObj kvs \<Rightarrow> list_all (\<lambda>kv. zIdString (JStr (fst kv)) \<noteq> None) kvs \<and>
         (list_all (\<lambda>kv. case snd kv of JArr xs \<Rightarrow> xs \<noteq> [] \<and> list_all zPresentationEntry xs | _ \<Rightarrow> False) kvs
          \<or> list_all (\<lambda>kv. zPresentationEntry (snd kv)) kvs)
     | _ \<Rightarrow> False)"

definition parseDcqlPresentation :: "platform \<Rightarrow> json \<Rightarrow> dcqlError + json" where
  "parseDcqlPresentation p input =
     bindR (case input of
         JStr s \<Rightarrow> (case parseJson p s of None \<Rightarrow> Inl (DcqlError ''PARSE_ERROR'' ''Invalid JSON'') | Some v \<Rightarrow> Inr v)
       | v \<Rightarrow> Inr v) (\<lambda>v.
     bindR (ensure (zPresentation v) (DcqlError ''PARSE_ERROR'' ''Invalid DCQL presentation'')) (\<lambda>_. Inr v))"

end
