(* ===== verification/DcqlSound.thy ===== *)
theory DcqlSound imports DcqlMerge DcqlParse begin

text \<open>
  Queries of \<open>packages/dcql\<close> that are well-formed, as the parser makes them, can be run on every
  credential, and what the runs report is what OpenID4VP asks: the abstract match of a query.
\<close>

section \<open>The abstract match\<close>

definition claimHolds :: "bool \<Rightarrow> credentialFormat \<Rightarrow> json \<Rightarrow> claimsQuery \<Rightarrow> bool" where
  "claimHolds pr format claims q = isParsed (parseClaim format pr claims q)"

text \<open>All claims hold, or with claim sets all claims of one of them.\<close>

definition claimsMatch :: "bool \<Rightarrow> credentialQuery \<Rightarrow> dcqlCredential \<Rightarrow> bool" where
  "claimsMatch pr cq c = (case cq_claims cq of None \<Rightarrow> True
     | Some qs \<Rightarrow> let holds = claimHolds pr (cq_format cq) (bodyClaims (dc_body c)) in
         (case cq_claimSets cq of
            None \<Rightarrow> \<forall>q \<in> set qs. holds q
          | Some sets \<Rightarrow> \<exists>s \<in> set sets. \<forall>i \<in> set s. \<exists>q \<in> set qs. claimId q = Some i \<and> holds q))"

definition authorityMatches :: "credentialQuery \<Rightarrow> dcqlCredential \<Rightarrow> bool" where
  "authorityMatches cq c = (case cq_authorities cq of None \<Rightarrow> True
     | Some ts \<Rightarrow> \<exists>t \<in> set ts. \<exists>a. dc_authority c = Some a \<and> ta_type a = ta_type t \<and> set (ta_values a) \<inter> set (ta_values t) \<noteq> {})"

definition metaMatches :: "credentialQuery \<Rightarrow> dcqlCredential \<Rightarrow> bool" where
  "metaMatches cq c = ((cq_requireBinding cq \<longrightarrow> dc_holderBinding c) \<and> bodyFormat (dc_body c) = cq_format cq \<and>
     (case dc_body c of
        MdocBody doctype namespaces \<Rightarrow> (\<forall>d. doctypeValueOf (cq_meta cq) = Some d \<and> d \<noteq> [] \<longrightarrow> doctype = d)
      | SdJwtVcBody format vct claims \<Rightarrow> (format = DcSdJwt \<or> format = VcSdJwt \<and> typeValuesOf (cq_meta cq) = None)
          \<and> (\<forall>vs. vctValuesOf (cq_meta cq) = Some vs \<longrightarrow> vct \<in> set vs)
      | W3cVcBody format types claims \<Rightarrow> (case typeValuesOf (cq_meta cq) of
            None \<Rightarrow> (format = JwtVcJson \<or> format = LdpVc) \<and> types \<noteq> []
          | Some tvs \<Rightarrow> (format = JwtVcJson \<or> format = LdpVc \<or> format = VcSdJwt) \<and> (\<exists>ts \<in> set tvs. set ts \<subseteq> set types))))"

definition credentialMatches :: "bool \<Rightarrow> credentialQuery \<Rightarrow> dcqlCredential \<Rightarrow> bool" where
  "credentialMatches pr cq c = (authorityMatches cq c \<and> metaMatches cq c \<and> claimsMatch pr cq c)"

section \<open>Meta and authorities\<close>

lemma metaIssues_iff: "isOk (runMetaQuery cq c) \<longleftrightarrow> metaMatches cq c"
proof -
  have "isOk (runMetaQuery cq c) \<longleftrightarrow> metaIssues cq c = []" by (simp add: runMetaQuery_def split: list.splits)
  also have "\<dots> \<longleftrightarrow> metaMatches cq c"
    by (cases "dc_body c"; cases "cq_format cq")
      (auto simp: metaIssues_def metaMatches_def bindingIssues_def formatIssues_def mdocMetaIssues_def sdJwtVcMetaIssues_def
        w3cVcMetaIssues_def bodyDoctype_def bodyVct_def bodyTypes_def list_ex_iff list_all_iff subset_iff split: option.splits if_splits)
  finally show ?thesis .
qed

lemma authorityIssues_none: "authorityIssues t a = [] \<longleftrightarrow>
    (\<exists>b. a = Some b \<and> ta_type b = ta_type t \<and> set (ta_values b) \<inter> set (ta_values t) \<noteq> {})"
  by (auto simp: authorityIssues_def list_ex_iff split: option.splits)

lemma runAuthorities_success: "ar_success (runAuthorities i ts a failed) \<longleftrightarrow> (\<exists>t \<in> set ts. authorityIssues t a = [])"
  by (induction i ts a failed rule: runAuthorities.induct) (auto split: list.splits)

lemma authorities_iff: "ar_success (runTrustedAuthoritiesQuery cq c) \<longleftrightarrow> authorityMatches cq c"
  by (simp add: runTrustedAuthoritiesQuery_def authorityMatches_def runAuthorities_success authorityIssues_none split: option.splits)

section \<open>Claims\<close>

lemma runClaims_results: "runClaims parse i qs = Inr rs \<Longrightarrow>
    list_all2 (\<lambda>q r. cr_id r = claimId q \<and> claimOk r = isParsed (parse q) \<and> (\<forall>x. parse q = Parsed x \<longrightarrow> cr_output r = Inr x)) qs rs"
proof (induction parse i qs arbitrary: rs rule: runClaims.induct)
  case (2 parse i q qs)
  then show ?case by (cases "parse q") (auto simp: claimOk_def)
qed simp

lemma results_ex: "list_all2 (\<lambda>q r. cr_id r = claimId q \<and> claimOk r = isParsed (parse q) \<and> R q r) qs rs \<Longrightarrow>
    (\<exists>r \<in> set rs. cr_id r = i \<and> claimOk r) \<longleftrightarrow> (\<exists>q \<in> set qs. claimId q = i \<and> isParsed (parse q))"
  by (induction rule: list_all2_induct) auto

lemma results_all: "list_all2 (\<lambda>q r. cr_id r = claimId q \<and> claimOk r = isParsed (parse q) \<and> R q r) qs rs \<Longrightarrow>
    (\<forall>r \<in> set rs. claimOk r) \<longleftrightarrow> (\<forall>q \<in> set qs. isParsed (parse q))"
  by (induction rule: list_all2_induct) auto

lemma find_Some_set: "find P xs = Some x \<Longrightarrow> x \<in> set xs \<and> P x"
  by (induction xs) (auto split: if_splits)

lemma find_append: "find P (xs @ ys) = (case find P xs of None \<Rightarrow> find P ys | Some x \<Rightarrow> Some x)"
  by (induction xs) auto

lemma findClaim_ok: "findClaim rs i = Inr c \<Longrightarrow> c \<in> set rs \<and> cr_id c = Some i \<and>
    (claimOk c \<longleftrightarrow> (\<exists>r \<in> set rs. cr_id r = Some i \<and> claimOk r))"
  by (auto simp: findClaim_def find_append find_None_iff split: option.splits dest!: find_Some_set)

lemma findClaim_total: "\<exists>r \<in> set rs. cr_id r = Some i \<Longrightarrow> \<exists>c. findClaim rs i = Inr c"
  by (cases "findClaim rs i") (auto simp: findClaim_def find_None_iff split: option.splits)

lemma claimSetOf_ok: "claimSetOf i claims = Inr s \<Longrightarrow> setOk s \<longleftrightarrow> (\<forall>c \<in> set claims. claimOk c)"
  by (auto simp: claimSetOf_def setOk_def Let_def list_all_iff split: if_splits)

lemma runClaimSets_ok: "runClaimSets rs i sets = Inr ss \<Longrightarrow>
    list_ex setOk ss \<longleftrightarrow> (\<exists>s \<in> set sets. \<forall>k \<in> set s. \<exists>r \<in> set rs. cr_id r = Some k \<and> claimOk r)"
proof (induction rs i sets arbitrary: ss rule: runClaimSets.induct)
  case (2 rs i s sets)
  then obtain claims r ss' where m: "mapR (findClaim rs) s = Inr claims" "claimSetOf (Some i) claims = Inr r"
      "runClaimSets rs (Suc i) sets = Inr ss'" "ss = r # ss'" by auto
  have "claimOk (claims ! j) \<longleftrightarrow> (\<exists>r \<in> set rs. cr_id r = Some (s ! j) \<and> claimOk r)" if "j < length s" for j
    using findClaim_ok mapR_nth [OF m(1) that] by blast
  then have "(\<forall>c \<in> set claims. claimOk c) \<longleftrightarrow> (\<forall>k \<in> set s. \<exists>r \<in> set rs. cr_id r = Some k \<and> claimOk r)"
    using mapR_length [OF m(1)] by (simp add: all_set_conv_all_nth)
  then show ?case using 2 m claimSetOf_ok by simp
qed simp

lemma claimsQuery_iff: "runClaimsQuery cq c pr = Inr r \<Longrightarrow> cl_success r \<longleftrightarrow> claimsMatch pr cq c"
proof (cases "cq_claims cq")
  case None
  then show "runClaimsQuery cq c pr = Inr r \<Longrightarrow> ?thesis" by (auto simp: runClaimsQuery_def claimsMatch_def)
next
  case (Some qs)
  let ?parse = "parseClaim (cq_format cq) pr (bodyClaims (dc_body c))"
  assume "runClaimsQuery cq c pr = Inr r"
  then obtain rs sets where rs: "runClaims ?parse 0 qs = Inr rs"
    and sets: "(case cq_claimSets cq of Some sets \<Rightarrow> runClaimSets rs 0 sets
       | None \<Rightarrow> bindR (claimSetOf None (filter claimOk rs @ filter (\<lambda>c. \<not> claimOk c) rs)) (\<lambda>r. Inr [r])) = Inr sets"
    and r: "cl_success r = list_ex setOk sets"
    using Some by (auto simp: runClaimsQuery_def)
  note results = runClaims_results [OF rs]
  show ?thesis
  proof (cases "cq_claimSets cq")
    case None
    then obtain r0 where "claimSetOf None (filter claimOk rs @ filter (\<lambda>c. \<not> claimOk c) rs) = Inr r0" "sets = [r0]"
      using sets by auto
    then have "list_ex setOk sets \<longleftrightarrow> (\<forall>r \<in> set rs. claimOk r)" using claimSetOf_ok [of None _ r0] by auto
    then show ?thesis using Some None r results_all [OF results] by (simp add: claimsMatch_def claimHolds_def)
  next
    case (Some cs)
    then have "list_ex setOk sets \<longleftrightarrow> (\<exists>s \<in> set cs. \<forall>k \<in> set s. \<exists>r \<in> set rs. cr_id r = Some k \<and> claimOk r)"
      using sets runClaimSets_ok by simp
    then show ?thesis using \<open>cq_claims cq = Some qs\<close> Some r results_ex [OF results]
      by (simp add: claimsMatch_def claimHolds_def)
  qed
qed

section \<open>Results of a credential query\<close>

lemma credentialResult_iff: "credentialResultOf cq pr i c = Inr r \<Longrightarrow> re_success r \<longleftrightarrow> credentialMatches pr cq c"
  using claimsQuery_iff [of cq c pr]
  by (auto simp: credentialResultOf_def Let_def credentialMatches_def metaIssues_iff authorities_iff)

lemma credentialResults_all2: "credentialResults cq pr i cs = Inr rs \<Longrightarrow> list_all2 (\<lambda>c r. re_success r = credentialMatches pr cq c) cs rs"
  by (induction cq pr i cs arbitrary: rs rule: credentialResults.induct) (auto simp: credentialResult_iff)

lemma queryResult_iff:
  assumes "runCredentialQuery cq pr cs = Inr r"
  shows "qr_id r = cq_id cq" "qr_success r \<longleftrightarrow> (\<exists>c \<in> set cs. credentialMatches pr cq c)"
    "qr_failed r = [] \<longleftrightarrow> (\<forall>c \<in> set cs. credentialMatches pr cq c)"
proof -
  obtain rs where rs: "credentialResults cq pr 0 cs = Inr rs"
    and r: "r = \<lparr>qr_id = cq_id cq, qr_valid = filter re_success rs, qr_failed = filter (\<lambda>r. \<not> re_success r) rs\<rparr>"
    using assms by (auto simp: runCredentialQuery_def)
  have "(\<exists>r \<in> set rs. re_success r) \<longleftrightarrow> (\<exists>c \<in> set cs. credentialMatches pr cq c)"
    "(\<forall>r \<in> set rs. re_success r) \<longleftrightarrow> (\<forall>c \<in> set cs. credentialMatches pr cq c)"
    using credentialResults_all2 [OF rs] by (induction rule: list_all2_induct) auto
  then show "qr_id r = cq_id cq" "qr_success r \<longleftrightarrow> (\<exists>c \<in> set cs. credentialMatches pr cq c)"
    "qr_failed r = [] \<longleftrightarrow> (\<forall>c \<in> set cs. credentialMatches pr cq c)"
    by (auto simp: r qr_success_def filter_empty_conv)
qed

section \<open>Well-formed queries and credentials\<close>

definition wfClaim :: "credentialFormat \<Rightarrow> claimsQuery \<Rightarrow> bool" where
  "wfClaim format q = (claimPath q \<noteq> [] \<and> (format = MsoMdoc \<longrightarrow> (\<exists>namespace name. claimPath q = [PKey namespace, PKey name])))"

definition wfCredentialQuery :: "credentialQuery \<Rightarrow> bool" where
  "wfCredentialQuery cq = (list_all (wfClaim (cq_format cq)) (optionList (cq_claims cq)) \<and>
     distinct (idsOf (optionList (cq_claims cq))) \<and>
     (\<forall>s \<in> set (optionList (cq_claimSets cq)). set s \<subseteq> set (idsOf (optionList (cq_claims cq)))))"

definition wfQuery :: "dcqlQuery \<Rightarrow> bool" where
  "wfQuery q = (dq_credentials q \<noteq> [] \<and> list_all wfCredentialQuery (dq_credentials q) \<and> distinct (map cq_id (dq_credentials q)) \<and>
     (\<forall>s \<in> set (optionList (dq_sets q)). \<forall>option \<in> set (se_options s). set option \<subseteq> cq_id ` set (dq_credentials q)))"

text \<open>The claims of a credential are an object of JSON values.\<close>

definition wfCredential :: "dcqlCredential \<Rightarrow> bool" where
  "wfCredential c = ((\<exists>kvs. bodyClaims (dc_body c) = JObj kvs) \<and> jsValue (bodyClaims (dc_body c)))"

section \<open>Queries of a wallet never throw\<close>

lemma parseClaim_sound: "sound (parseClaim format False claims q)"
  by (auto simp: parseClaim_def mdocClaim_def jsonClaim_sound claimParser_sound intro!: claimObject_sound split: list.splits pathElem.splits)

lemma runClaims_total: "(\<And>q. q \<in> set qs \<Longrightarrow> sound (parse q)) \<Longrightarrow> \<exists>rs. runClaims parse i qs = Inr rs"
proof (induction qs arbitrary: i)
  case (Cons q qs)
  obtain rs where "runClaims parse (Suc i) qs = Inr rs" using Cons by fastforce
  then show ?case using Cons.prems [of q] by (cases "parse q") auto
qed simp

lemma mergeable_simps [simp]: "mergeable (JArr xs)" "mergeable (JObj kvs)"
  by (simp_all add: mergeable_def)

lemma claimObject_mergeable: "claimObject k inner v = Parsed x \<Longrightarrow> mergeable x"
  by (auto simp: claimObject_def mergeable_def split: if_splits outcome.splits)

lemma allElements_mergeable: "allElements rs = Parsed x \<Longrightarrow> mergeable x"
  by (auto simp: allElements_def mergeable_def zodNever_def split: if_splits option.splits)

lemma parsed_mergeable: "parseClaim format False claims q = Parsed x \<Longrightarrow> wfClaim format q \<Longrightarrow> mergeable x"
proof -
  assume p: "parseClaim format False claims q = Parsed x" "wfClaim format q"
  show "mergeable x"
  proof (cases "format = MsoMdoc")
    case True
    then show ?thesis using p claimObject_mergeable by (auto simp: parseClaim_def mdocClaim_def wfClaim_def)
  next
    case False
    then have j: "jsonClaim False (claimValues q) (claimPath q) claims = Parsed x" using p by (simp add: parseClaim_def)
    show ?thesis
    proof (cases "claimPath q")
      case (Cons e path)
      then show ?thesis using j claimObject_mergeable allElements_mergeable
        by (cases e) (auto split: json.splits outcome.splits)
    qed (use p(2) in \<open>simp add: wfClaim_def\<close>)
  qed
qed

text \<open>The outputs of valid claims merge to a part of the claims.\<close>

definition partClaim :: "json \<Rightarrow> claimResult \<Rightarrow> bool" where
  "partClaim claims c = (claimOk c \<longrightarrow> (\<exists>x. cr_output c = Inr x \<and> part x claims \<and> mergeable x))"

lemma mergeOutputs_part:
  assumes "jsValue claims" "isDcqlObject claims" "\<forall>c \<in> set cs. partClaim claims c \<and> claimOk c"
  shows "\<exists>out. mergeOutputs cs = Inr out \<and> part out claims"
proof -
  have "\<exists>out. foldR (\<lambda>merged c. deepMerge (outputOf c) merged) m cs = Inr out \<and> part out claims"
    if "part m claims" "mergeable m" for m
    using assms(3) that
  proof (induction cs arbitrary: m)
    case (Cons c cs)
    then obtain x where x: "cr_output c = Inr x" "part x claims" "mergeable x" by (auto simp: partClaim_def)
    have "readValue claims" using assms(1) by (simp add: readValue_def)
    then obtain r where "deepMerge x m = Inr r" "part r claims" "mergeable r"
      using merge_parts(1) [of claims x m] x Cons.prems unfolding mergesParts_def by blast
    then show ?case using Cons x(1) by (auto simp: outputOf_def)
  qed simp
  moreover have "part (JObj []) claims" using assms(2) by (auto intro: part.object)
  ultimately show ?thesis by (simp add: mergeOutputs_def mergeable_def)
qed

lemma claimSetOf_total:
  assumes "jsValue claims" "isDcqlObject claims" "\<forall>c \<in> set cs. partClaim claims c"
  shows "\<exists>s. claimSetOf i cs = Inr s \<and> (\<forall>out. cs_output s = Inr out \<longrightarrow> part out claims)"
  using mergeOutputs_part [OF assms(1,2), of cs] assms(3) by (auto simp: claimSetOf_def Let_def list_all_iff)

lemma runClaimSets_total:
  assumes "jsValue claims" "isDcqlObject claims" "\<forall>c \<in> set rs. partClaim claims c"
    and "\<forall>s \<in> set sets. \<forall>k \<in> set s. \<exists>r \<in> set rs. cr_id r = Some k"
  shows "\<exists>ss. runClaimSets rs i sets = Inr ss \<and> (\<forall>s \<in> set ss. \<forall>out. cs_output s = Inr out \<longrightarrow> part out claims)"
  using assms(4)
proof (induction sets arbitrary: i)
  case (Cons s sets)
  have find: "\<exists>cs. mapR (findClaim rs) s = Inr cs \<and> set cs \<subseteq> set rs" if "\<forall>k \<in> set s. \<exists>r \<in> set rs. cr_id r = Some k" for s
    using that
  proof (induction s)
    case (Cons k s)
    then obtain c where c: "findClaim rs k = Inr c" using findClaim_total by fastforce
    then have "c \<in> set rs" using findClaim_ok by blast
    then show ?case using Cons c by auto
  qed simp
  obtain cs where cs: "mapR (findClaim rs) s = Inr cs" "set cs \<subseteq> set rs" using find [of s] Cons.prems by auto
  then obtain r where "claimSetOf (Some i) cs = Inr r" "\<forall>out. cs_output r = Inr out \<longrightarrow> part out claims"
    using claimSetOf_total [OF assms(1,2), of cs "Some i"] assms(3) by blast
  then show ?case using Cons cs(1) by (simp) (metis set_ConsD)
qed simp

lemma idsOf_set: "i \<in> set (idsOf qs) \<longleftrightarrow> (\<exists>q \<in> set qs. claimId q = Some i)"
  by (induction qs) (auto simp: idsOf_def List.map_filter_def)

lemma results_ids: "list_all2 (\<lambda>q r. cr_id r = claimId q \<and> R q r) qs rs \<Longrightarrow>
    (\<exists>r \<in> set rs. cr_id r = i) \<longleftrightarrow> (\<exists>q \<in> set qs. claimId q = i)"
  by (induction rule: list_all2_induct) auto

definition partSet :: "json \<Rightarrow> claimSetResult \<Rightarrow> bool" where
  "partSet claims s = (\<forall>out. cs_output s = Inr out \<longrightarrow> part out claims)"

lemma results_part:
  assumes "runClaims (parseClaim format False claims) i qs = Inr rs" "list_all (wfClaim format) qs" "readValue claims"
  shows "\<forall>c \<in> set rs. partClaim claims c"
proof -
  have one: "partClaim claims r" if "q \<in> set qs" "claimOk r = isParsed (parseClaim format False claims q)"
    "\<forall>x. parseClaim format False claims q = Parsed x \<longrightarrow> cr_output r = Inr x" for q r
  proof (cases "parseClaim format False claims q")
    case (Parsed x)
    then show ?thesis using that assms(2) parsed_mergeable [OF Parsed] parseClaim_part [OF assms(3), of format False q]
      by (auto simp: partClaim_def list_all_iff)
  qed (use that in \<open>simp_all add: partClaim_def\<close>)
  show ?thesis
  proof
    fix r assume "r \<in> set rs"
    then obtain j where j: "j < length rs" "r = rs ! j" by (auto simp: in_set_conv_nth)
    then show "partClaim claims r"
      using one [of "qs ! j" r] runClaims_results [OF assms(1)] by (simp add: list_all2_conv_all_nth)
  qed
qed

lemma claimsQuery_total:
  assumes "wfCredentialQuery cq" "wfCredential c"
  shows "\<exists>r. runClaimsQuery cq c False = Inr r \<and> (\<forall>s \<in> set (cl_validSets r). partSet (bodyClaims (dc_body c)) s)"
proof (cases "cq_claims cq")
  case None
  then show ?thesis using assms(2)
    by (auto simp: runClaimsQuery_def partSet_def wfCredential_def isDcqlObject_def intro!: part.object)
next
  case (Some qs)
  let ?claims = "bodyClaims (dc_body c)"
  have claims: "jsValue ?claims" "isDcqlObject ?claims" "readValue ?claims"
    using assms(2) by (auto simp: wfCredential_def isDcqlObject_def readValue_def)
  obtain rs where rs: "runClaims (parseClaim (cq_format cq) False ?claims) 0 qs = Inr rs"
    using runClaims_total parseClaim_sound by meson
  have parts: "\<forall>r \<in> set rs. partClaim ?claims r"
    using results_part [OF rs _ claims(3)] assms(1) Some by (simp add: wfCredentialQuery_def optionList_def)
  show ?thesis
  proof (cases "cq_claimSets cq")
    case None
    obtain s where "claimSetOf None (filter claimOk rs @ filter (\<lambda>c. \<not> claimOk c) rs) = Inr s" "partSet ?claims s"
      using claimSetOf_total [OF claims(1,2), of "filter claimOk rs @ filter (\<lambda>c. \<not> claimOk c) rs" None] parts
      by (auto simp: partSet_def)
    then show ?thesis using Some None rs by (auto simp: runClaimsQuery_def)
  next
    case (Some sets)
    have "\<forall>s \<in> set sets. \<forall>k \<in> set s. \<exists>r \<in> set rs. cr_id r = Some k"
      using results_ids [OF runClaims_results [OF rs]] assms(1) Some \<open>cq_claims cq = Some qs\<close>
      by (auto simp: wfCredentialQuery_def optionList_def idsOf_set subset_iff)
    then obtain ss where "runClaimSets rs 0 sets = Inr ss" "\<forall>s \<in> set ss. partSet ?claims s"
      using runClaimSets_total [OF claims(1,2) parts, of sets 0] by (auto simp: partSet_def)
    then show ?thesis using Some \<open>cq_claims cq = Some qs\<close> rs by (auto simp: runClaimsQuery_def)
  qed
qed

end
