(* ===== verification/DcqlResults.thy ===== *)
theory DcqlResults imports DcqlSound begin

text \<open>
  The properties of running a DCQL query: a parsed query never goes wrong on a credential, it can be
  satisfied exactly when the credentials match it, what it discloses is a part of the credential, and a
  presentation that is accepted matches.
\<close>

section \<open>Lookups\<close>

lemma map_of_fromEntries: "distinct (map fst kvs) \<Longrightarrow> map_of (fromEntries kvs) = map_of kvs"
proof -
  have "distinct (map fst acc) \<Longrightarrow> distinct (map fst kvs) \<Longrightarrow> fst ` set kvs \<inter> fst ` set acc = {} \<Longrightarrow>
      map_of (foldl (\<lambda>entries kv. defineProp (fst kv) (snd kv) entries) acc kvs) = map_of acc ++ map_of kvs" for acc
  proof (induction kvs arbitrary: acc)
    case (Cons kv kvs)
    have keys: "fst ` set (defineProp (fst kv) (snd kv) acc) = insert (fst kv) (fst ` set acc)"
      using Cons.prems(3) by (auto simp: defineProp_def set_insertProp)
    have "map_of (foldl (\<lambda>entries kv. defineProp (fst kv) (snd kv) entries) (defineProp (fst kv) (snd kv) acc) kvs)
        = map_of (defineProp (fst kv) (snd kv) acc) ++ map_of kvs"
      using Cons.prems keys by (intro Cons.IH) (auto simp: distinct_defineProp)
    then show ?case using Cons.prems by (cases kv) (simp add: map_of_defineProp map_add_upd_left dom_map_of_conv_image_fst, simp add: map_add_def fun_eq_iff)
  qed simp
  from this [of "[]"] show "distinct (map fst kvs) \<Longrightarrow> ?thesis" by (simp add: fromEntries_def)
qed

lemma everyR_pure: "(\<And>x. x \<in> set xs \<Longrightarrow> f x = Inr (g x)) \<Longrightarrow> everyR f xs = Inr (list_all g xs)"
  by (induction xs) auto

lemma filterR_pure: "(\<And>x. x \<in> set xs \<Longrightarrow> f x = Inr (g x)) \<Longrightarrow> filterR f xs = Inr (filter g xs)"
  by (induction xs) auto

text \<open>With a success that is known for every query named, the sets are satisfied as they say.\<close>

definition covered :: "(string \<Rightarrow> bool) \<Rightarrow> dcqlQuery \<Rightarrow> bool" where
  "covered matched q = (case dq_sets q of
       None \<Rightarrow> \<forall>cq \<in> set (dq_credentials q). matched (cq_id cq)
     | Some sets \<Rightarrow> \<forall>s \<in> set sets. se_required s \<longrightarrow> (\<exists>option \<in> set (se_options s). \<forall>i \<in> set option. matched i))"

lemma matchedBy_covered:
  assumes "wfQuery q" "\<And>i. i \<in> cq_id ` set (dq_credentials q) \<Longrightarrow> success i = Inr (matched i)"
  shows "\<exists>sets. matchedBy success q = Inr (sets, covered matched q)"
proof (cases "dq_sets q")
  case None
  have "everyR (\<lambda>c. success (cq_id c)) (dq_credentials q) = Inr (list_all (\<lambda>c. matched (cq_id c)) (dq_credentials q))"
    using assms(2) by (intro everyR_pure) simp
  then show ?thesis using None by (simp add: matchedBy_def covered_def list_all_iff)
next
  case (Some sets)
  define g where "g = (\<lambda>s :: credentialSet. (s, filter (list_all matched) (se_options s)))"
  have "setResult success s = Inr (g s)" if "s \<in> set sets" for s
  proof -
    have "everyR success option = Inr (list_all matched option)" if "option \<in> set (se_options s)" for option
    proof (rule everyR_pure)
      fix i assume "i \<in> set option"
      moreover have "set option \<subseteq> cq_id ` set (dq_credentials q)"
        using assms(1) \<open>s \<in> set sets\<close> that Some by (simp add: wfQuery_def optionList_def)
      ultimately show "success i = Inr (matched i)" using assms(2) by blast
    qed
    then have "filterR (everyR success) (se_options s) = Inr (filter (list_all matched) (se_options s))" by (rule filterR_pure)
    then show ?thesis by (simp add: setResult_def g_def)
  qed
  then have "mapR (setResult success) sets = Inr (map g sets)" by (rule mapR_Inr)
  moreover have "setsSatisfied (map g sets) = covered matched q"
  proof -
    have each: "(\<not> se_required s \<or> filter (list_all matched) (se_options s) \<noteq> [])
        = (se_required s \<longrightarrow> (\<exists>option \<in> set (se_options s). \<forall>i \<in> set option. matched i))" for s :: credentialSet
      by (auto simp: filter_empty_conv list_all_iff)
    show ?thesis
      unfolding setsSatisfied_def g_def list.pred_map comp_def prod.case each by (simp add: covered_def Some list_all_iff)
  qed
  ultimately show ?thesis by (simp add: matchedBy_def Some del: mapR.simps)
qed

section \<open>The wallet\<close>

definition queryMatched :: "bool \<Rightarrow> dcqlQuery \<Rightarrow> dcqlCredential list \<Rightarrow> string \<Rightarrow> bool" where
  "queryMatched pr q cs i = (\<exists>cq \<in> set (dq_credentials q). cq_id cq = i \<and> (\<exists>c \<in> set cs. credentialMatches pr cq c))"

lemma runDcqlQuery_covered:
  assumes "wfQuery q" "mapR (\<lambda>cq. runCredentialQuery cq pr cs) (dq_credentials q) = Inr rs"
  shows "\<exists>r. runDcqlQuery q pr cs = Inr r \<and> rq_satisfied r = covered (queryMatched pr q cs) q"
proof -
  have len: "length rs = length (dq_credentials q)" using mapR_length [OF assms(2)] .
  have each: "qr_id (rs ! j) = cq_id (dq_credentials q ! j)"
      "qr_success (rs ! j) \<longleftrightarrow> (\<exists>c \<in> set cs. credentialMatches pr (dq_credentials q ! j) c)"
    if "j < length rs" for j
    using queryResult_iff [OF mapR_nth [OF assms(2)]] that len by auto
  have ids: "map qr_id rs = map cq_id (dq_credentials q)" using each(1) len by (simp add: list_eq_iff_nth_eq)
  then have "distinct (map qr_id rs)" using assms(1) by (simp add: wfQuery_def)
  then have lookup: "map_of (fromEntries (map (\<lambda>r. (qr_id r, r)) rs)) = map_of (map (\<lambda>r. (qr_id r, r)) rs)"
    and inj: "distinct (map cq_id (dq_credentials q))"
    using ids by (simp_all add: map_of_fromEntries comp_def)
  have "successOf (fromEntries (map (\<lambda>r. (qr_id r, r)) rs)) i = Inr (queryMatched pr q cs i)"
    if i: "i \<in> cq_id ` set (dq_credentials q)" for i
  proof -
    obtain j where j: "j < length rs" "i = cq_id (dq_credentials q ! j)" using i len by (auto simp: in_set_conv_nth)
    have "map_of (map (\<lambda>r. (qr_id r, r)) rs) i = Some (rs ! j)"
      using \<open>distinct (map qr_id rs)\<close> j each(1) [OF j(1)]
      by (intro map_of_is_SomeI) (auto simp: comp_def intro: image_eqI [of _ _ "rs ! j"])
    moreover have "queryMatched pr q cs i \<longleftrightarrow> (\<exists>c \<in> set cs. credentialMatches pr (dq_credentials q ! j) c)"
    proof -
      have "cq = dq_credentials q ! j" if "cq \<in> set (dq_credentials q)" "cq_id cq = i" for cq
        using inj that j len by (auto simp: distinct_map dest: inj_onD)
      moreover have "dq_credentials q ! j \<in> set (dq_credentials q)" using j(1) len by simp
      ultimately show ?thesis unfolding queryMatched_def j(2) [symmetric] using j(2) by blast
    qed
    ultimately show ?thesis using each(2) j(1) by (simp add: successOf_def lookup)
  qed
  then obtain sets where "matchedBy (successOf (fromEntries (map (\<lambda>r. (qr_id r, r)) rs))) q
      = Inr (sets, covered (queryMatched pr q cs) q)"
    using matchedBy_covered [OF assms(1)] by blast
  then show ?thesis using assms(2) by (simp add: runDcqlQuery_def Let_def)
qed

text \<open>The outputs of a result are parts of the claims of the credential at its index.\<close>

definition disclosesParts :: "nat \<Rightarrow> dcqlCredential list \<Rightarrow> credentialResult \<Rightarrow> bool" where
  "disclosesParts i cs cr = (i \<le> re_index cr \<and> re_index cr < i + length cs \<and>
     (\<forall>s \<in> set (cl_validSets (re_claims cr)). partSet (bodyClaims (dc_body (cs ! (re_index cr - i)))) s))"

lemma disclosesParts_Suc: "disclosesParts (Suc i) cs cr \<Longrightarrow> disclosesParts i (c # cs) cr"
  by (auto simp: disclosesParts_def nth_Cons' Suc_diff_le)

lemma runCredentialQuery_total:
  assumes "wfCredentialQuery cq" "\<forall>c \<in> set cs. wfCredential c"
  shows "\<exists>r. runCredentialQuery cq False cs = Inr r \<and> (\<forall>cr \<in> set (qr_valid r) \<union> set (qr_failed r). disclosesParts 0 cs cr)"
proof -
  have "\<exists>rs. credentialResults cq False i cs = Inr rs \<and> (\<forall>cr \<in> set rs. disclosesParts i cs cr)" for i
    using assms(2)
  proof (induction cs arbitrary: i)
    case (Cons c cs)
    obtain claims where "runClaimsQuery cq c False = Inr claims" "\<forall>s \<in> set (cl_validSets claims). partSet (bodyClaims (dc_body c)) s"
      using claimsQuery_total [OF assms(1), of c] Cons.prems by auto
    moreover obtain rs where "credentialResults cq False (Suc i) cs = Inr rs" "\<forall>cr \<in> set rs. disclosesParts (Suc i) cs cr"
      using Cons.IH [of "Suc i"] Cons.prems by auto
    moreover obtain r0 where "credentialResultOf cq False i c = Inr r0" "re_index r0 = i" "re_claims r0 = claims"
      using calculation(1) by (simp add: credentialResultOf_def Let_def)
    moreover have "disclosesParts i (c # cs) r0" using calculation by (simp add: disclosesParts_def)
    moreover have "\<forall>cr \<in> set rs. disclosesParts i (c # cs) cr" using calculation(4) disclosesParts_Suc by blast
    ultimately show ?case by simp
  qed simp
  from this [of 0] show ?thesis by (auto simp: runCredentialQuery_def)
qed

lemma queries_total:
  assumes "wfQuery q" "\<forall>c \<in> set cs. wfCredential c"
  shows "\<exists>rs. mapR (\<lambda>cq. runCredentialQuery cq False cs) (dq_credentials q) = Inr rs"
proof -
  have "isOk (mapR (\<lambda>cq. runCredentialQuery cq False cs) cqs)" if "\<forall>cq \<in> set cqs. wfCredentialQuery cq" for cqs
    using that
  proof (induction cqs)
    case (Cons cq cqs)
    then show ?case using runCredentialQuery_total [OF _ assms(2), of cq] by (fastforce simp: isOk_iff)
  qed simp
  then show ?thesis using assms(1) by (auto simp: wfQuery_def list_all_iff isOk_iff)
qed


section \<open>What is disclosed\<close>

lemma fromEntries_sub: "(k, v) \<in> set (fromEntries kvs) \<Longrightarrow> (k, v) \<in> set kvs"
proof -
  have "(k, v) \<in> set (foldl (\<lambda>entries kv. defineProp (fst kv) (snd kv) entries) acc kvs) \<Longrightarrow> (k, v) \<in> set acc \<or> (k, v) \<in> set kvs" for acc
  proof (induction kvs arbitrary: acc)
    case (Cons kv kvs)
    then show ?case using set_defineProp [of k v "fst kv" "snd kv" acc] by (cases kv) fastforce
  qed simp
  from this [of "[]"] show "(k, v) \<in> set (fromEntries kvs) \<Longrightarrow> ?thesis" by (simp add: fromEntries_def)
qed

lemma run_discloses:
  assumes q: "wfQuery q" and cs: "\<forall>c \<in> set cs. wfCredential c" and r: "runDcqlQuery q False cs = Inr r"
    and m: "(i, qr) \<in> set (rq_matches r)" "cr \<in> set (qr_valid qr)"
  shows "disclosesParts 0 cs cr"
proof -
  obtain rs where rs: "mapR (\<lambda>cq. runCredentialQuery cq False cs) (dq_credentials q) = Inr rs"
    and "rq_matches r = fromEntries (map (\<lambda>r. (qr_id r, r)) rs)"
    using r by (auto simp: runDcqlQuery_def Let_def split: prod.splits)
  then have "qr \<in> set rs" using m(1) fromEntries_sub [of i qr] by fastforce
  then obtain cq where "cq \<in> set (dq_credentials q)" "runCredentialQuery cq False cs = Inr qr"
    using mapR_set [OF rs] by blast
  then show ?thesis using runCredentialQuery_total [OF _ cs, of cq] q m(2) by (auto simp: wfQuery_def list_all_iff)
qed


section \<open>Parsing\<close>

lemma claimIdIssues_none: "claimIdIssues h i seen ids = [] \<Longrightarrow>
    distinct (List.map_filter id ids) \<and> set (List.map_filter id ids) \<inter> set seen = {}"
  by (induction h i seen ids rule: claimIdIssues.induct) (auto simp: List.map_filter_def split: if_splits)

lemma unknownIds_none: "unknownIds code known path i xs = [] \<Longrightarrow> set xs \<subseteq> set known"
  by (induction code known path i xs rule: unknownIds.induct) (auto split: if_splits)

lemma unknownInSets_none: "unknownInSets code known path i sets = [] \<Longrightarrow> s \<in> set sets \<Longrightarrow> set s \<subseteq> set known"
  by (induction code known path i sets rule: unknownInSets.induct) (auto dest: unknownIds_none)

lemma unknownInOptions_none: "unknownInOptions known i sets = [] \<Longrightarrow> s \<in> set sets \<Longrightarrow> option \<in> set (se_options s) \<Longrightarrow> set option \<subseteq> set known"
  by (induction known i sets rule: unknownInOptions.induct) (auto dest: unknownInSets_none)

lemma duplicateIds_none: "duplicateIds i seen xs = [] \<Longrightarrow> distinct xs \<and> set xs \<inter> set seen = {}"
  by (induction i seen xs rule: duplicateIds.induct) (auto split: if_splits)

lemma zNonEmptyArray_Some: "zNonEmptyArray f v = Some ys \<Longrightarrow> ys \<noteq> [] \<and> (\<exists>xs. v = JArr xs \<and> map f xs = map Some ys)"
  by (auto simp: zNonEmptyArray_def zArrayOf_def those_Some split: json.splits option.splits list.splits)

lemma zNonEmptyArray_all:
  assumes "zNonEmptyArray f v = Some ys" "\<And>x y. f x = Some y \<Longrightarrow> P y"
  shows "ys \<noteq> [] \<and> list_all P ys"
proof -
  obtain xs where xs: "map f xs = map Some ys" "ys \<noteq> []" using zNonEmptyArray_Some [OF assms(1)] by blast
  have "P y" if "y \<in> set ys" for y
  proof -
    have "Some y \<in> set (map f xs)" using that by (simp add: xs(1))
    then show ?thesis using assms(2) by (metis imageE list.set_map)
  qed
  then show ?thesis using xs(2) by (simp add: list_all_iff)
qed

lemma zJsonClaim_wf: "format \<noteq> MsoMdoc \<Longrightarrow> zJsonClaim v = Some q \<Longrightarrow> wfClaim format q"
  by (auto simp: zJsonClaim_def zObjectWith_def wfClaim_def split: json.splits option.splits prod.splits dest: zNonEmptyArray_Some)

lemma zMdocClaim_wf: "zMdocClaim v = Some q \<Longrightarrow> wfClaim format q"
  by (auto simp: zMdocClaim_def zObjectWith_def wfClaim_def zMdocPath_def
      split: json.splits option.splits prod.splits if_splits list.splits)

lemma zCredentialQuery_wf:
  assumes "zCredentialQuery isUrl v = Some cq"
  shows "wfCredentialQuery cq"
proof -
  obtain format claims where c: "zOptional (zNonEmptyArray (claimSchema format)) (claimOf v ''claims'') = Some claims"
      "cq_claims cq = claims" "cq_format cq = format" "checkClaimIds cq = []"
    using assms by (auto simp: zCredentialQuery_def zObjectWith_def Let_def split: json.splits option.splits prod.splits if_splits)
  have "list_all (wfClaim format) (optionList claims)"
  proof (cases claims)
    case (Some qs)
    then have "zNonEmptyArray (claimSchema format) (claimOf v ''claims'') = Some qs"
      using c(1) by (simp add: zOptional_def split: if_splits)
    moreover have "wfClaim format q" if "claimSchema format x = Some q" for x q
      using that zMdocClaim_wf zJsonClaim_wf by (auto simp: claimSchema_def split: if_splits)
    ultimately show ?thesis using Some zNonEmptyArray_all by (simp add: optionList_def) blast
  qed (simp add: optionList_def)
  moreover have ids: "idsOf qs = List.map_filter id (map claimId qs)" for qs by (simp add: idsOf_def List.map_filter_def comp_def filter_map)
  ultimately show ?thesis
    using c(2-4) claimIdIssues_none [of "cq_claimSets cq \<noteq> None" 0 "[]" "map claimId (optionList (cq_claims cq))"] unknownInSets_none
    unfolding wfCredentialQuery_def checkClaimIds_def ids append_is_Nil_conv by blast
qed

lemma zDcqlQuery_wf:
  assumes "zDcqlQuery isUrl v = Some q"
  shows "wfQuery q"
proof -
  obtain credentials where c: "zNonEmptyArray (zCredentialQuery isUrl) (claimOf v ''credentials'') = Some credentials"
      "dq_credentials q = credentials" "checkCredentialQueryIds q = []"
    using assms by (auto simp: zDcqlQuery_def zObjectWith_def Let_def split: json.splits option.splits if_splits)
  have "credentials \<noteq> [] \<and> list_all wfCredentialQuery credentials"
    using zNonEmptyArray_all [OF c(1)] zCredentialQuery_wf by blast
  moreover have "distinct (map cq_id credentials)" "unknownInOptions (map cq_id credentials) 0 (optionList (dq_sets q)) = []"
    using c(2,3) duplicateIds_none by (auto simp: checkCredentialQueryIds_def)
  ultimately show ?thesis using c(2) unknownInOptions_none by (simp add: wfQuery_def) (metis list.set_map)
qed


section \<open>The verifier\<close>

lemma presentedResult_iff:
  assumes "presentedResult q kv = Inr r"
  obtains cq where "cq \<in> set (dq_credentials q)" "cq_id cq = fst kv" "presentedList (snd kv) \<noteq> []"
    "\<not> cq_multiple cq \<Longrightarrow> length (presentedList (snd kv)) = 1" "runCredentialQuery cq True (presentedList (snd kv)) = Inr r"
proof -
  obtain cq where cq: "find (\<lambda>c. cq_id c = fst kv) (dq_credentials q) = Some cq"
      "runCredentialQuery cq True (presentedList (snd kv)) = Inr r"
    and one: "case snd kv of One c \<Rightarrow> True | Many cs \<Rightarrow> cs \<noteq> [] \<and> (cq_multiple cq \<or> length cs \<le> 1)"
    using assms by (auto simp: presentedResult_def split: option.splits presented.splits)
  show ?thesis
  proof (rule that [OF _ _ _ _ cq(2)])
    show "cq \<in> set (dq_credentials q)" "cq_id cq = fst kv" using find_Some_set [OF cq(1)] by simp_all
    show "presentedList (snd kv) \<noteq> []" using one by (cases "snd kv") auto
    show "\<not> cq_multiple cq \<Longrightarrow> length (presentedList (snd kv)) = 1"
      using one by (cases "snd kv") (auto simp: le_Suc_eq)
  qed
qed

definition presentationMatches :: "dcqlQuery \<Rightarrow> string \<times> presented \<Rightarrow> bool" where
  "presentationMatches q kv = (\<exists>cq \<in> set (dq_credentials q). cq_id cq = fst kv \<and> presentedList (snd kv) \<noteq> [] \<and>
     (cq_multiple cq \<or> length (presentedList (snd kv)) = 1) \<and> (\<forall>c \<in> set (presentedList (snd kv)). credentialMatches True cq c))"

lemma covered_mono: "covered matched q \<Longrightarrow> (\<And>i. matched i \<Longrightarrow> matched' i) \<Longrightarrow> covered matched' q"
  by (fastforce simp: covered_def split: option.splits)

text \<open>
  C39. What a verifier accepts: when the presentations of a response pass \<open>DcqlPresentationResult.validate\<close>,
  each entry is for a credential query of the request, holds one presentation unless the query allows
  several, every one of its presentations matches that query, and the entries cover the required
  credential sets, or all queries when there are no sets.
\<close>

theorem accepted_presentation:
  assumes "wfQuery q" "fromDcqlPresentation q presentation = Inr r" "validateResult r = Inr r'"
  shows "(\<forall>kv \<in> set presentation. presentationMatches q kv) \<and> covered (\<lambda>i. i \<in> fst ` set presentation) q"
proof -
  obtain rs sets satisfied where rs: "mapR (presentedResult q) presentation = Inr rs"
    and m: "matchedBy (foundSuccess rs) q = Inr (sets, satisfied)"
    and ok: "\<forall>r \<in> set rs. qr_success r \<and> qr_failed r = []" "satisfied"
    using assms(2,3) by (auto simp: fromDcqlPresentation_def validateResult_def list_all_iff)
  have each: "presentationMatches q kv \<and> qr_id res = fst kv" if "presentedResult q kv = Inr res" "qr_failed res = []" for kv res
    using that(1) by (rule presentedResult_iff) (use that(2) queryResult_iff in \<open>fastforce simp: presentationMatches_def\<close>)
  have len: "length rs = length presentation" using mapR_length [OF rs] .
  have matches: "presentationMatches q kv" if "kv \<in> set presentation" for kv
  proof -
    obtain j where "j < length presentation" "kv = presentation ! j" using \<open>kv \<in> set presentation\<close> by (auto simp: in_set_conv_nth)
    then show ?thesis using each [OF mapR_nth [OF rs]] ok(1) len by simp
  qed
  have ids: "qr_id res \<in> fst ` set presentation" if "res \<in> set rs" for res
    using mapR_set [OF rs that] each ok(1) that by (metis image_eqI)
  define found where "found = (\<lambda>i. case find (\<lambda>r. qr_id r = i) rs of None \<Rightarrow> False | Some r \<Rightarrow> qr_success r)"
  have mono: "found i \<Longrightarrow> i \<in> fst ` set presentation" for i
    using ids by (auto simp: found_def split: option.splits dest!: find_Some_set)
  have "foundSuccess rs i = Inr (found i)" for i by (simp add: foundSuccess_def found_def)
  then have "covered found q" using matchedBy_covered [OF assms(1), of "foundSuccess rs" found] m ok(2) by auto
  then have "covered (\<lambda>i. i \<in> fst ` set presentation) q" using mono by (rule covered_mono)
  then show ?thesis using matches by blast
qed

end
