(* ===== verification/DcqlExample.thy ===== *)
theory DcqlExample imports DcqlResults begin

text \<open>
  A DCQL query for an identity card, read from JSON, run on a wallet of two credentials, and answered by
  a presentation: the hypotheses of the properties of \<open>packages/dcql\<close> hold on it.
\<close>

section \<open>A query and a wallet\<close>

definition cardQueryJson :: json where
  "cardQueryJson = JObj [(''credentials'', JArr [JObj [(''id'', JStr ''card''), (''format'', JStr ''dc+sd-jwt''),
       (''meta'', JObj [(''vct_values'', JArr [JStr ''urn:card''])]),
       (''claims'', JArr [
          JObj [(''id'', JStr ''a''), (''path'', JArr [JStr ''name''])],
          JObj [(''id'', JStr ''b''), (''path'', JArr [JStr ''citizen_of'', JNum 1]), (''values'', JArr [JStr ''NL''])],
          JObj [(''id'', JStr ''c''), (''path'', JArr [JStr ''citizen_of'', JNull])]]),
       (''claim_sets'', JArr [JArr [JStr ''b'', JStr ''a''], JArr [JStr ''c'']])]]),
     (''credential_sets'', JArr [JObj [(''options'', JArr [JArr [JStr ''card'']])]])]"

definition cardQuery :: dcqlQuery where
  "cardQuery = \<lparr>dq_credentials = [\<lparr>cq_id = ''card'', cq_format = DcSdJwt, cq_requireBinding = True, cq_multiple = False,
       cq_claims = Some [PathClaim (Some ''a'') None [PKey ''name''],
         PathClaim (Some ''b'') (Some [JStr ''NL'']) [PKey ''citizen_of'', PIndex 1],
         PathClaim (Some ''c'') None [PKey ''citizen_of'', PAll]],
       cq_claimSets = Some [[''b'', ''a''], [''c'']], cq_authorities = None, cq_meta = VctMeta (Some [''urn:card''])\<rparr>],
     dq_sets = Some [\<lparr>se_options = [[''card'']], se_required = True\<rparr>]\<rparr>"

definition cardClaims :: json where
  "cardClaims = JObj [(''name'', JStr ''Ada''), (''citizen_of'', JArr [JStr ''BE'', JStr ''NL'']), (''age'', JStr ''36'')]"

definition card :: dcqlCredential where
  "card = \<lparr>dc_authority = None, dc_holderBinding = True, dc_body = SdJwtVcBody DcSdJwt ''urn:card'' cardClaims\<rparr>"

definition wallet :: "dcqlCredential list" where
  "wallet = [card\<lparr>dc_body := MdocBody ''org.iso.18013.5.1.mDL'' (JObj [])\<rparr>, card]"

definition walletResult :: dcqlResult where
  "walletResult = (case runDcqlQuery cardQuery False wallet of Inr r \<Rightarrow> r | Inl e \<Rightarrow> \<lparr>rq_satisfied = False, rq_matches = [], rq_sets = None\<rparr>)"

definition disclosedSet :: claimSetResult where
  "disclosedSet = \<lparr>cs_index = Some 0, cs_output = Inr (JObj [(''citizen_of'', JArr [notDisclosed, JStr ''NL'']), (''name'', JStr ''Ada'')]),
     cs_valid = [1, 0], cs_failed = []\<rparr>"

lemmas dcql_example = cardQueryJson_def cardQuery_def cardClaims_def card_def wallet_def

lemma card_parsed: "parseDcqlQuery (\<lambda>s. True) cardQueryJson = Inr cardQuery"
  unfolding dcql_example by code_simp

lemma wallet_wf: "\<forall>c \<in> set wallet. wfCredential c"
  by (simp add: wfCredential_def dcql_example)

lemma cardQuery_wf: "wfQuery cardQuery"
  using card_parsed by (auto simp: parseDcqlQuery_def zDcqlQuery_wf split: option.splits)

definition walletMatches :: "queryResult list" where
  "walletMatches = map snd (rq_matches walletResult)"

lemma wallet_run: "runDcqlQuery cardQuery False wallet = Inr walletResult"
  unfolding walletResult_def dcql_example by code_simp

lemma wallet_discloses: "\<exists>qr cr. (''card'', qr) \<in> set (rq_matches walletResult) \<and> cr \<in> set (qr_valid qr) \<and>
    disclosedSet \<in> set (cl_validSets (re_claims cr)) \<and> re_index cr = 1"
proof -
  let ?qr = "snd (hd (rq_matches walletResult))"
  let ?cr = "hd (qr_valid ?qr)"
  have m: "rq_matches walletResult \<noteq> [] \<and> fst (hd (rq_matches walletResult)) = ''card'' \<and> qr_valid ?qr \<noteq> [] \<and> re_index ?cr = 1
      \<and> cl_validSets (re_claims ?cr) \<noteq> [] \<and> hd (cl_validSets (re_claims ?cr)) = disclosedSet"
    unfolding walletResult_def disclosedSet_def dcql_example by code_simp
  then have "(''card'', ?qr) \<in> set (rq_matches walletResult)" "?cr \<in> set (qr_valid ?qr)"
      "disclosedSet \<in> set (cl_validSets (re_claims ?cr))"
    using hd_in_set [of "rq_matches walletResult"] hd_in_set [of "qr_valid ?qr"] hd_in_set [of "cl_validSets (re_claims ?cr)"]
    by (metis prod.collapse, simp_all)
  then show ?thesis using m by blast
qed

section \<open>Witnesses\<close>

theorem claims_query_nothing_selected:
  "isParsed (jsonClaim False (Some [JStr ''NL'']) [PKey ''citizen_of'', PAll] (JObj [(''citizen_of'', JArr [])]))
     \<and> select [PKey ''citizen_of'', PAll] (JObj [(''citizen_of'', JArr [])]) = []"
  by code_simp




definition cardPresentation :: "(string \<times> presented) list" where
  "cardPresentation = [(''card'', Many [card\<lparr>dc_body := SdJwtVcBody DcSdJwt ''urn:card''
     (JObj [(''name'', JStr ''Ada''), (''citizen_of'', JArr [JStr ''NL''])])\<rparr>])]"

definition presentationResult :: dcqlResult where
  "presentationResult = (case fromDcqlPresentation cardQuery cardPresentation of
     Inr r \<Rightarrow> r | Inl e \<Rightarrow> \<lparr>rq_satisfied = False, rq_matches = [], rq_sets = None\<rparr>)"

lemma presentation_run: "fromDcqlPresentation cardQuery cardPresentation = Inr presentationResult"
  unfolding presentationResult_def cardPresentation_def dcql_example by code_simp

lemma presentation_validated: "validateResult presentationResult = Inr presentationResult"
proof -
  have "rq_satisfied presentationResult"
    unfolding presentationResult_def cardPresentation_def dcql_example by code_simp
  then show ?thesis by (simp add: validateResult_def)
qed

definition presentedCard :: presented where
  "presentedCard = snd (hd cardPresentation)"

lemma cardPresentation_single: "cardPresentation = [(''card'', presentedCard)]"
  by (simp add: presentedCard_def cardPresentation_def)

theorem accepted_presentation_witness:
  "presentationMatches cardQuery (''card'', presentedCard) \<and> covered (\<lambda>i. i = ''card'') cardQuery"
  using accepted_presentation [OF cardQuery_wf presentation_run presentation_validated]
  by (simp add: cardPresentation_single)

end
