(* ===== verification/ElementMatch.thy ===== *)
theory ElementMatch imports Prelude "HOL-Library.AList" begin

text \<open>
  The elements of a document against those a doc request asks for, in \<open>packages/mdoc/src/utils\<close>:
  \<open>ageOver.ts\<close>, \<open>keyAuthorizations.ts\<close> and \<open>matchElements\<close> of \<open>matchDeviceRequest.ts\<close>. A \<open>Map\<close> is the
  list of its entries in their order. The objects \<open>collectElements\<close> makes are told apart by their position
  in its result, which is how the set of used elements names them. Reasons, which are texts, are left out.
\<close>

section \<open>Data\<close>

text \<open>The code tests values only for \<open>true\<close> and \<open>false\<close>; any other value is kept as its encoding.\<close>

datatype elementValue = BoolValue bool | OtherValue string

type_synonym elementRef = "string \<times> string"

record issuerSignedItem =
  it_digestId :: nat
  it_element :: string
  it_value :: elementValue

record keyAuthorizations =
  ka_namespaces :: "string list option"
  ka_dataElements :: "(string \<times> string list) list option"

record issuerSigned =
  is_namespaces :: "(string \<times> issuerSignedItem list) list"
  is_docType :: string
  is_keyAuthorizations :: "keyAuthorizations option"
  is_certificateChain :: "bytes list option"

type_synonym deviceNamespaces = "(string \<times> (string \<times> elementValue) list) list"

datatype elementSource = IssuerSigned | DeviceSigned

datatype allowedSource = Only elementSource | AnySource

record elementMatchOptions =
  eo_optional :: "bool option"
  eo_source :: "allowedSource option"

type_synonym elementOptions = "(string \<times> (string \<times> elementMatchOptions) list) list"

record alternativeSet =
  as_requested :: elementRef
  as_sets :: "elementRef list list"

record disclosedElement =
  de_namespace :: string
  de_element :: string
  de_value :: elementValue
  de_source :: elementSource

record elementCandidate =
  ec_position :: nat
  ec_namespace :: string
  ec_element :: string
  ec_value :: elementValue
  ec_source :: elementSource
  ec_item :: "issuerSignedItem option"

section \<open>Age attestations\<close>

definition ageDigit :: "char \<Rightarrow> bool" where
  "ageDigit c = (48 \<le> (of_char c :: nat) \<and> (of_char c :: nat) \<le> 57)"

fun digitsNn :: "string \<Rightarrow> nat option" where
  "digitsNn [c, d] = (if ageDigit c \<and> ageDigit d then Some (10 * (of_char c - 48) + (of_char d - 48)) else None)"
| "digitsNn _ = None"

definition parseAgeOverIdentifier :: "string \<Rightarrow> nat option" where
  "parseAgeOverIdentifier elementIdentifier =
     (if take 9 elementIdentifier = ''age_over_'' then digitsNn (drop 9 elementIdentifier) else None)"

text \<open>The first element in the order of a key, as \<open>sort(...)[0]\<close> of a stable sort.\<close>

definition nearest :: "('a \<Rightarrow> int) \<Rightarrow> 'a list \<Rightarrow> 'a option" where
  "nearest key xs = (case sort_key key xs of [] \<Rightarrow> None | x # _ \<Rightarrow> Some x)"

definition ageOverCandidates :: "elementCandidate list \<Rightarrow> (nat \<times> elementCandidate) list" where
  "ageOverCandidates candidates = concat (map (\<lambda>c. case parseAgeOverIdentifier (ec_element c) of
      None \<Rightarrow> [] | Some nn \<Rightarrow> [(nn, c)]) candidates)"

definition findAgeOverCandidate :: "string \<Rightarrow> elementCandidate list \<Rightarrow> elementCandidate option" where
  "findAgeOverCandidate requested candidates = (case parseAgeOverIdentifier requested of
       None \<Rightarrow> None
     | Some requestedNn \<Rightarrow>
         (let found = ageOverCandidates candidates
          in case nearest (\<lambda>a. int (fst a)) (filter (\<lambda>(nn, c). ec_value c = BoolValue True \<and> requestedNn \<le> nn) found) of
              Some a \<Rightarrow> Some (snd a)
            | None \<Rightarrow> map_option snd
                (nearest (\<lambda>a. - int (fst a)) (filter (\<lambda>(nn, c). ec_value c = BoolValue False \<and> nn \<le> requestedNn) found))))"

definition maximumAgeOverRequests :: nat where
  "maximumAgeOverRequests = 2"

definition findAgeOverLimitViolations :: "(string \<times> string list) list \<Rightarrow> (string \<times> string list) list" where
  "findAgeOverLimitViolations namespaces = filter (\<lambda>v. maximumAgeOverRequests < length (snd v))
     (map (\<lambda>(namespace, elements).
        (namespace, filter (\<lambda>e. parseAgeOverIdentifier e \<noteq> None) (rev (remdups (rev elements))))) namespaces)"

definition findAgeOverRequestLimitViolations :: "(string \<times> (string \<times> bool) list) list \<Rightarrow> (string \<times> string list) list" where
  "findAgeOverRequestLimitViolations namespaces =
     findAgeOverLimitViolations (map (\<lambda>(namespace, elements). (namespace, map fst elements)) namespaces)"

section \<open>Key authorizations\<close>

definition isDeviceSignedElementAuthorized :: "keyAuthorizations option \<Rightarrow> string \<Rightarrow> string \<Rightarrow> bool" where
  "isDeviceSignedElementAuthorized auth namespace element = (case auth of
       None \<Rightarrow> False
     | Some ka \<Rightarrow> (case ka_namespaces ka of None \<Rightarrow> False | Some ns \<Rightarrow> namespace \<in> set ns)
         \<or> (case ka_dataElements ka of None \<Rightarrow> False
            | Some m \<Rightarrow> (case map_of m namespace of None \<Rightarrow> False | Some es \<Rightarrow> element \<in> set es)))"

definition collectDeviceSignedElements :: "deviceNamespaces \<Rightarrow> elementRef list" where
  "collectDeviceSignedElements namespaces =
     concat (map (\<lambda>(namespace, items). map (\<lambda>i. (namespace, fst i)) items) namespaces)"

definition findUnauthorizedDeviceSignedElements :: "deviceNamespaces \<Rightarrow> keyAuthorizations option \<Rightarrow> elementRef list" where
  "findUnauthorizedDeviceSignedElements namespaces auth =
     filter (\<lambda>(n, e). \<not> isDeviceSignedElementAuthorized auth n e) (collectDeviceSignedElements namespaces)"

section \<open>The elements that are there\<close>

definition toDisclosedElement :: "elementCandidate \<Rightarrow> disclosedElement" where
  "toDisclosedElement c = \<lparr>de_namespace = ec_namespace c, de_element = ec_element c, de_value = ec_value c, de_source = ec_source c\<rparr>"

definition issuerCandidates :: "issuerSigned \<Rightarrow> elementCandidate list" where
  "issuerCandidates issuer = concat (map (\<lambda>(namespace, items). map (\<lambda>item.
     \<lparr>ec_position = 0, ec_namespace = namespace, ec_element = it_element item, ec_value = it_value item,
      ec_source = IssuerSigned, ec_item = Some item\<rparr>) items) (is_namespaces issuer))"

definition deviceCandidates :: "deviceNamespaces \<Rightarrow> elementCandidate list" where
  "deviceCandidates namespaces = concat (map (\<lambda>(namespace, items). map (\<lambda>(element, v).
     \<lparr>ec_position = 0, ec_namespace = namespace, ec_element = element, ec_value = v,
      ec_source = DeviceSigned, ec_item = None\<rparr>) items) namespaces)"

definition placed :: "elementCandidate list \<Rightarrow> elementCandidate list" where
  "placed cs = map (\<lambda>(i, c). c\<lparr>ec_position := i\<rparr>) (enumerate 0 cs)"

definition collectElements :: "issuerSigned \<Rightarrow> deviceNamespaces option \<Rightarrow> elementCandidate list" where
  "collectElements issuer device =
     placed (issuerCandidates issuer @ (case device of None \<Rightarrow> [] | Some namespaces \<Rightarrow> deviceCandidates namespaces))"

definition findElement :: "string \<Rightarrow> elementCandidate list \<Rightarrow> elementCandidate option" where
  "findElement element candidates = (case List.find (\<lambda>c. ec_element c = element) candidates of
       Some c \<Rightarrow> Some c
     | None \<Rightarrow> findAgeOverCandidate element candidates)"

definition inNamespace :: "elementCandidate list \<Rightarrow> string \<Rightarrow> elementSource \<Rightarrow> elementCandidate list" where
  "inNamespace available namespace source = filter (\<lambda>c. ec_namespace c = namespace \<and> ec_source c = source) available"

section \<open>Looking an element up\<close>

datatype matchMode = Holder | Verifier

record matchContext =
  mc_mode :: matchMode
  mc_elements :: elementOptions
  mc_available :: "elementCandidate list"
  mc_keyAuthorizations :: "keyAuthorizations option"
  mc_alternatives :: "alternativeSet list"

definition authorizedDeviceSigned :: "matchContext \<Rightarrow> string \<Rightarrow> elementCandidate list" where
  "authorizedDeviceSigned ctx namespace =
     filter (\<lambda>c. isDeviceSignedElementAuthorized (mc_keyAuthorizations ctx) (ec_namespace c) (ec_element c))
       (inNamespace (mc_available ctx) namespace DeviceSigned)"

text \<open>The options of an element, or those of its namespace under the name \<open>*\<close>.\<close>

definition optionsOf :: "elementOptions \<Rightarrow> string \<Rightarrow> string \<Rightarrow> elementMatchOptions" where
  "optionsOf elements namespace element = (case map_of elements namespace of
       None \<Rightarrow> \<lparr>eo_optional = None, eo_source = None\<rparr>
     | Some m \<Rightarrow> (case map_of m element of
           Some opts \<Rightarrow> opts
         | None \<Rightarrow> (case map_of m ''*'' of Some opts \<Rightarrow> opts | None \<Rightarrow> \<lparr>eo_optional = None, eo_source = None\<rparr>)))"

definition sourceOf :: "elementOptions \<Rightarrow> string \<Rightarrow> string \<Rightarrow> allowedSource" where
  "sourceOf elements namespace element =
     (case eo_source (optionsOf elements namespace element) of None \<Rightarrow> Only IssuerSigned | Some s \<Rightarrow> s)"

definition elementOptional :: "elementOptions \<Rightarrow> string \<Rightarrow> string \<Rightarrow> bool" where
  "elementOptional elements namespace element =
     (case eo_optional (optionsOf elements namespace element) of None \<Rightarrow> False | Some b \<Rightarrow> b)"

definition orElse :: "'a option \<Rightarrow> 'a option \<Rightarrow> 'a option" where
  "orElse a b = (case a of None \<Rightarrow> b | Some x \<Rightarrow> Some x)"

definition lookup :: "matchContext \<Rightarrow> string \<Rightarrow> string \<Rightarrow> elementCandidate option" where
  "lookup ctx namespace element =
     (let issuer = inNamespace (mc_available ctx) namespace IssuerSigned;
          device = authorizedDeviceSigned ctx namespace
      in case mc_mode ctx of
           Holder \<Rightarrow> orElse (findElement element issuer) (List.find (\<lambda>c. ec_element c = element) device)
         | Verifier \<Rightarrow> (case sourceOf (mc_elements ctx) namespace element of
               Only DeviceSigned \<Rightarrow> findElement element device
             | Only IssuerSigned \<Rightarrow> findElement element issuer
             | AnySource \<Rightarrow> orElse (findElement element issuer) (findElement element device)))"

section \<open>The options to answer an element\<close>

record elementOption =
  op_alternative :: "nat option"
  op_elements :: "elementCandidate list"

definition alternativeFor :: "matchContext \<Rightarrow> string \<Rightarrow> string \<Rightarrow> alternativeSet option" where
  "alternativeFor ctx namespace element = List.find (\<lambda>a. as_requested a = (namespace, element)) (mc_alternatives ctx)"

fun allSome :: "'a option list \<Rightarrow> 'a list option" where
  "allSome [] = Some []"
| "allSome (None # xs) = None"
| "allSome (Some x # xs) = map_option (Cons x) (allSome xs)"

definition setOption :: "matchContext \<Rightarrow> nat \<times> elementRef list \<Rightarrow> elementOption list" where
  "setOption ctx entry = (case allSome (map (\<lambda>(n, e). lookup ctx n e) (snd entry)) of
       Some (c # cs) \<Rightarrow> [\<lparr>op_alternative = Some (fst entry), op_elements = c # cs\<rparr>]
     | _ \<Rightarrow> [])"

definition findAlternatives :: "matchContext \<Rightarrow> string \<Rightarrow> string \<Rightarrow> elementOption list option" where
  "findAlternatives ctx namespace element =
     map_option (\<lambda>a. concat (map (setOption ctx) (enumerate 0 (as_sets a)))) (alternativeFor ctx namespace element)"

text \<open>The options, none when the list is empty, and whether the element has alternatives.\<close>

definition optionsFor :: "matchContext \<Rightarrow> string \<Rightarrow> string \<Rightarrow> elementCandidate option \<Rightarrow> elementOption list \<times> bool" where
  "optionsFor ctx namespace element found =
     (let alternatives = findAlternatives ctx namespace element
      in ((case found of None \<Rightarrow> [] | Some c \<Rightarrow> [\<lparr>op_alternative = None, op_elements = [c]\<rparr>])
            @ (case alternatives of None \<Rightarrow> [] | Some os \<Rightarrow> os),
          alternatives \<noteq> None))"

section \<open>Claims\<close>

record claimBase =
  cb_namespace :: string
  cb_element :: string
  cb_intentToRetain :: bool
  cb_optional :: bool

datatype claimFailure = NotDisclosed | DisallowedSource | DeviceKeyNotAuthorized

record claimOption =
  co_alternative :: "nat option"
  co_elements :: "disclosedElement list"

record claimSuccess =
  cs_disclosed :: string
  cs_value :: elementValue
  cs_source :: elementSource
  cs_options :: "claimOption list option"

datatype claimOutcome = ClaimSuccess claimSuccess | ClaimFailure claimFailure "elementSource option"

record claimMatch =
  cm_base :: claimBase
  cm_outcome :: claimOutcome

fun claimAnswered :: "claimMatch \<Rightarrow> bool" where
  "claimAnswered c = (case cm_outcome c of ClaimSuccess _ \<Rightarrow> True | ClaimFailure _ _ \<Rightarrow> False)"

record elementMatch =
  em_claim :: claimMatch
  em_element :: "elementCandidate option"
  em_options :: "elementOption list option"

text \<open>A claim, with the positions of the elements it uses.\<close>

type_synonym settled = "elementMatch \<times> nat list"

definition claimOptionOf :: "elementOption \<Rightarrow> claimOption" where
  "claimOptionOf op = \<lparr>co_alternative = op_alternative op, co_elements = map toDisclosedElement (op_elements op)\<rparr>"

definition success :: "claimBase \<Rightarrow> elementOption list \<Rightarrow> bool \<Rightarrow> settled" where
  "success claim options listOptions =
     (let first = hd options; element = hd (op_elements first)
      in (\<lparr>em_claim = \<lparr>cm_base = claim, cm_outcome = ClaimSuccess
              \<lparr>cs_disclosed = ec_element element, cs_value = ec_value element, cs_source = ec_source element,
               cs_options = if listOptions then Some (map claimOptionOf options) else None\<rparr>\<rparr>,
            em_element = Some element,
            em_options = if listOptions then Some options else None\<rparr>,
          map ec_position (op_elements first)))"

definition failure :: "claimBase \<Rightarrow> claimFailure \<Rightarrow> elementSource option \<Rightarrow> elementCandidate option list \<Rightarrow> settled" where
  "failure claim kind disclosedFrom disclosed =
     (\<lparr>em_claim = \<lparr>cm_base = claim, cm_outcome = ClaimFailure kind disclosedFrom\<rparr>, em_element = None, em_options = None\<rparr>,
      concat (map (\<lambda>d. case d of None \<Rightarrow> [] | Some c \<Rightarrow> [ec_position c]) disclosed))"

type_synonym requestedElement = "string \<times> string \<times> bool"

definition requestedElements :: "(string \<times> (string \<times> bool) list) list \<Rightarrow> requestedElement list" where
  "requestedElements namespaces =
     concat (map (\<lambda>(namespace, elements). map (\<lambda>(element, intent). (namespace, element, intent)) elements) namespaces)"

definition disallowedElement :: "matchContext \<Rightarrow> string \<Rightarrow> string \<Rightarrow> elementCandidate option" where
  "disallowedElement ctx namespace element = (case sourceOf (mc_elements ctx) namespace element of
       AnySource \<Rightarrow> None
     | Only IssuerSigned \<Rightarrow> findElement element (inNamespace (mc_available ctx) namespace DeviceSigned)
     | Only DeviceSigned \<Rightarrow> findElement element (inNamespace (mc_available ctx) namespace IssuerSigned))"

definition unauthorizedElement :: "matchContext \<Rightarrow> string \<Rightarrow> string \<Rightarrow> elementCandidate option" where
  "unauthorizedElement ctx namespace element = (case sourceOf (mc_elements ctx) namespace element of
       Only IssuerSigned \<Rightarrow> None
     | _ \<Rightarrow> findElement element (inNamespace (mc_available ctx) namespace DeviceSigned))"

definition verifierClaim :: "matchContext \<Rightarrow> requestedElement \<Rightarrow> settled" where
  "verifierClaim ctx requested =
     (let (namespace, element, intent) = requested;
          claim = \<lparr>cb_namespace = namespace, cb_element = element, cb_intentToRetain = intent,
                   cb_optional = elementOptional (mc_elements ctx) namespace element\<rparr>;
          (options, hasAlternatives) = optionsFor ctx namespace element (lookup ctx namespace element);
          disallowed = disallowedElement ctx namespace element;
          unauthorized = unauthorizedElement ctx namespace element
      in if options \<noteq> [] then success claim options hasAlternatives
         else case unauthorized of
             Some c \<Rightarrow> failure claim DeviceKeyNotAuthorized (Some DeviceSigned) [unauthorized, disallowed]
           | None \<Rightarrow> (case disallowed of
                 Some c \<Rightarrow> failure claim DisallowedSource (Some (ec_source c)) [disallowed]
               | None \<Rightarrow> failure claim NotDisclosed None []))"

record holderClaim =
  hc_claim :: claimBase
  hc_element :: "elementCandidate option"
  hc_options :: "elementOption list"
  hc_hasAlternatives :: bool

definition holderClaimOf :: "matchContext \<Rightarrow> requestedElement \<Rightarrow> holderClaim" where
  "holderClaimOf ctx requested =
     (let (namespace, element, intent) = requested;
          found = lookup ctx namespace element;
          (options, hasAlternatives) = optionsFor ctx namespace element found
      in \<lparr>hc_claim = \<lparr>cb_namespace = namespace, cb_element = element, cb_intentToRetain = intent, cb_optional = False\<rparr>,
          hc_element = found, hc_options = options, hc_hasAlternatives = hasAlternatives\<rparr>)"

definition groupByNamespace :: "elementCandidate list \<Rightarrow> (string \<times> string list) list" where
  "groupByNamespace elements = foldl (\<lambda>m c. AList.update (ec_namespace c)
     ((case map_of m (ec_namespace c) of None \<Rightarrow> [] | Some es \<Rightarrow> es) @ [ec_element c]) m) [] elements"

definition otherElements :: "holderClaim list \<Rightarrow> nat \<Rightarrow> elementCandidate list" where
  "otherElements claims claimIndex = concat (map (\<lambda>(i, other). if i \<noteq> claimIndex
     then (case hc_element other of None \<Rightarrow> [] | Some c \<Rightarrow> [c]) else []) (enumerate 0 claims))"

definition settleHolder :: "holderClaim list \<Rightarrow> nat \<times> holderClaim \<Rightarrow> settled" where
  "settleHolder claims entry =
     (let (claimIndex, hc) = entry;
          others = otherElements claims claimIndex;
          options = filter (\<lambda>op. op_alternative op = None
             \<or> findAgeOverLimitViolations (groupByNamespace (others @ op_elements op)) = []) (hc_options hc)
      in if options \<noteq> [] then success (hc_claim hc) options (hc_hasAlternatives hc)
         else failure (hc_claim hc) NotDisclosed None [])"

text \<open>The elements of the alternative sets of a requested element are requested too.\<close>

definition isRequested :: "(string \<times> (string \<times> bool) list) list \<Rightarrow> elementRef \<Rightarrow> bool" where
  "isRequested namespaces ref = (case map_of namespaces (fst ref) of
       None \<Rightarrow> False | Some elements \<Rightarrow> map_of elements (snd ref) \<noteq> None)"

definition alternativesUsed :: "matchContext \<Rightarrow> (string \<times> (string \<times> bool) list) list \<Rightarrow> nat list" where
  "alternativesUsed ctx namespaces = concat (map (\<lambda>a. if isRequested namespaces (as_requested a)
     then concat (map (\<lambda>(n, e). case lookup ctx n e of None \<Rightarrow> [] | Some c \<Rightarrow> [ec_position c]) (concat (as_sets a)))
     else []) (mc_alternatives ctx))"

definition matchElements :: "matchContext \<Rightarrow> (string \<times> (string \<times> bool) list) list \<Rightarrow> elementMatch list \<times> disclosedElement list" where
  "matchElements ctx namespaces =
     (let requested = requestedElements namespaces;
          settled = (case mc_mode ctx of
              Verifier \<Rightarrow> map (verifierClaim ctx) requested
            | Holder \<Rightarrow> (let claims = map (holderClaimOf ctx) requested
                in map (settleHolder claims) (enumerate 0 claims)));
          used = concat (map snd settled) @ alternativesUsed ctx namespaces
      in (map fst settled,
          map toDisclosedElement (filter (\<lambda>c. ec_position c \<notin> set used) (mc_available ctx))))"

record claimsOutcome =
  cr_success :: bool
  cr_valid :: "claimMatch list"
  cr_failed :: "claimMatch list"

definition toClaimsMatchResult :: "elementMatch list \<Rightarrow> claimsOutcome" where
  "toClaimsMatchResult claims =
     (let valid = filter claimAnswered (map em_claim claims);
          failed = filter (\<lambda>c. \<not> claimAnswered c) (map em_claim claims)
      in if list_ex (\<lambda>c. \<not> cb_optional (cm_base c)) failed
         then \<lparr>cr_success = False, cr_valid = valid, cr_failed = failed\<rparr>
         else \<lparr>cr_success = True, cr_valid = valid, cr_failed = filter (\<lambda>c. cb_optional (cm_base c)) failed\<rparr>)"

end
