(* ===== verification/ElementLaws.thy ===== *)
theory ElementLaws imports ElementMatch begin

text \<open>
  What matching elements means: a requested element is answered by one that is there under its name, or by
  an age attestation that decides it, from a source that is allowed and, when it is signed by the device,
  with a key authorized for it.
\<close>

section \<open>Age attestations\<close>

text \<open>An attestation answers a request for an age when its value decides it.\<close>

definition decidesAge :: "nat \<Rightarrow> elementCandidate \<Rightarrow> bool" where
  "decidesAge requested c \<longleftrightarrow> (\<exists>nn. parseAgeOverIdentifier (ec_element c) = Some nn \<and>
     ((ec_value c = BoolValue True \<and> requested \<le> nn) \<or> (ec_value c = BoolValue False \<and> nn \<le> requested)))"

definition answersName :: "string \<Rightarrow> elementCandidate \<Rightarrow> bool" where
  "answersName element c \<longleftrightarrow> ec_element c = element \<or> (\<exists>n. parseAgeOverIdentifier element = Some n \<and> decidesAge n c)"

lemma nearest_None: "nearest key xs = None \<longleftrightarrow> xs = []"
proof -
  have "length (sort_key key xs) = length xs" by simp
  then show ?thesis unfolding nearest_def by (cases xs; cases "sort_key key xs") auto
qed

lemma nearest_Some:
  assumes "nearest key xs = Some x"
  shows "x \<in> set xs" "\<And>y. y \<in> set xs \<Longrightarrow> key x \<le> key y"
proof -
  obtain ys where ys: "sort_key key xs = x # ys" using assms by (auto simp: nearest_def split: list.splits)
  have s: "set xs = set (x # ys)" "sorted (map key (x # ys))" using ys by (metis set_sort, metis sorted_sort_key)
  then show "x \<in> set xs" "\<And>y. y \<in> set xs \<Longrightarrow> key x \<le> key y" by auto
qed

lemma set_ageOverCandidates:
  "(nn, c) \<in> set (ageOverCandidates cs) \<longleftrightarrow> c \<in> set cs \<and> parseAgeOverIdentifier (ec_element c) = Some nn"
  by (auto simp: ageOverCandidates_def split: option.splits)

definition trueFrom :: "nat \<Rightarrow> elementCandidate list \<Rightarrow> (nat \<times> elementCandidate) list" where
  "trueFrom n cs = filter (\<lambda>(nn, c). ec_value c = BoolValue True \<and> n \<le> nn) (ageOverCandidates cs)"

definition falseTo :: "nat \<Rightarrow> elementCandidate list \<Rightarrow> (nat \<times> elementCandidate) list" where
  "falseTo n cs = filter (\<lambda>(nn, c). ec_value c = BoolValue False \<and> nn \<le> n) (ageOverCandidates cs)"

lemma set_trueFrom: "(m, d) \<in> set (trueFrom n cs) \<longleftrightarrow>
    d \<in> set cs \<and> parseAgeOverIdentifier (ec_element d) = Some m \<and> ec_value d = BoolValue True \<and> n \<le> m"
  by (auto simp: trueFrom_def set_ageOverCandidates)

lemma set_falseTo: "(m, d) \<in> set (falseTo n cs) \<longleftrightarrow>
    d \<in> set cs \<and> parseAgeOverIdentifier (ec_element d) = Some m \<and> ec_value d = BoolValue False \<and> m \<le> n"
  by (auto simp: falseTo_def set_ageOverCandidates)

lemma decidesAge_iff: "(\<exists>c \<in> set cs. decidesAge n c) \<longleftrightarrow> trueFrom n cs \<noteq> [] \<or> falseTo n cs \<noteq> []"
proof -
  have "trueFrom n cs \<noteq> [] \<longleftrightarrow> (\<exists>m d. (m, d) \<in> set (trueFrom n cs))"
    "falseTo n cs \<noteq> [] \<longleftrightarrow> (\<exists>m d. (m, d) \<in> set (falseTo n cs))" by (cases "trueFrom n cs"; cases "falseTo n cs"; fastforce)+
  then show ?thesis unfolding set_trueFrom set_falseTo decidesAge_def by blast
qed

lemma findAge_cases [consumes 2, case_names none true false]:
  assumes "parseAgeOverIdentifier element = Some n" "findAgeOverCandidate element cs = r"
  obtains "r = None" "trueFrom n cs = []" "falseTo n cs = []"
  | m d where "r = Some d" "(m, d) \<in> set (trueFrom n cs)" "\<And>k e. (k, e) \<in> set (trueFrom n cs) \<Longrightarrow> m \<le> k"
  | m d where "r = Some d" "trueFrom n cs = []" "(m, d) \<in> set (falseTo n cs)" "\<And>k e. (k, e) \<in> set (falseTo n cs) \<Longrightarrow> k \<le> m"
proof -
  have eq: "findAgeOverCandidate element cs = (case nearest (\<lambda>a. int (fst a)) (trueFrom n cs) of
      Some a \<Rightarrow> Some (snd a) | None \<Rightarrow> map_option snd (nearest (\<lambda>a. - int (fst a)) (falseTo n cs)))"
    unfolding findAgeOverCandidate_def Let_def trueFrom_def falseTo_def assms(1) by simp
  show ?thesis
  proof (cases "nearest (\<lambda>a. int (fst a)) (trueFrom n cs)")
    case (Some a)
    show ?thesis
      by (rule that(2) [of "snd a" "fst a"]) (use eq Some assms(2) nearest_Some [OF Some] in fastforce)+
  next
    case None
    then have t: "trueFrom n cs = []" by (simp add: nearest_None)
    show ?thesis
    proof (cases "nearest (\<lambda>a. - int (fst a)) (falseTo n cs)")
      case (Some a)
      show ?thesis
        by (rule that(3) [of "snd a" "fst a"]) (use eq Some None t assms(2) nearest_Some [OF Some] in fastforce)+
    next
      case none: None
      then have "falseTo n cs = []" by (simp add: nearest_None)
      then show ?thesis using that(1) eq None none t assms(2) by simp
    qed
  qed
qed

lemma findAgeOverCandidate_None:
  "findAgeOverCandidate element cs = None \<longleftrightarrow> \<not> (\<exists>n. parseAgeOverIdentifier element = Some n \<and> (\<exists>c \<in> set cs. decidesAge n c))"
proof (cases "parseAgeOverIdentifier element")
  case (Some n)
  have "findAgeOverCandidate element cs = None \<longleftrightarrow> \<not> (\<exists>c \<in> set cs. decidesAge n c)"
    unfolding decidesAge_iff by (cases rule: findAge_cases [OF Some refl, of cs]) auto
  then show ?thesis using Some by auto
qed (simp add: findAgeOverCandidate_def)

lemma findAgeOverCandidate_Some:
  assumes "findAgeOverCandidate element cs = Some c"
  shows "c \<in> set cs \<and> (\<exists>n. parseAgeOverIdentifier element = Some n \<and> decidesAge n c)"
proof -
  obtain n where n: "parseAgeOverIdentifier element = Some n" using assms by (auto simp: findAgeOverCandidate_def split: option.splits)
  from n assms show ?thesis
    by (cases rule: findAge_cases) (use n in \<open>auto simp: set_trueFrom set_falseTo decidesAge_def\<close>)
qed

definition nearestAttestation :: "nat \<Rightarrow> nat \<Rightarrow> elementCandidate list \<Rightarrow> elementCandidate \<Rightarrow> bool" where
  "nearestAttestation n nn cs c \<longleftrightarrow>
     (ec_value c = BoolValue True \<and> n \<le> nn \<and> (\<forall>d \<in> set cs. \<forall>m. parseAgeOverIdentifier (ec_element d) = Some m \<longrightarrow>
            ec_value d = BoolValue True \<longrightarrow> n \<le> m \<longrightarrow> nn \<le> m))
   \<or> (ec_value c = BoolValue False \<and> nn \<le> n \<and> (\<forall>d \<in> set cs. \<forall>m. parseAgeOverIdentifier (ec_element d) = Some m \<longrightarrow>
            (ec_value d = BoolValue True \<longrightarrow> m < n) \<and> (ec_value d = BoolValue False \<longrightarrow> m \<le> n \<longrightarrow> m \<le> nn)))"

lemma findAge_nearest:
  assumes "findAgeOverCandidate element cs = Some c" "parseAgeOverIdentifier element = Some n"
  shows "\<exists>nn. parseAgeOverIdentifier (ec_element c) = Some nn \<and> nearestAttestation n nn cs c"
  using assms(2,1)
proof (cases rule: findAge_cases)
  case (true m d)
  have "m \<le> k" if "e \<in> set cs" "parseAgeOverIdentifier (ec_element e) = Some k" "ec_value e = BoolValue True" "n \<le> k" for k e
    using true(3) [of k e] that by (simp add: set_trueFrom)
  then show ?thesis using true(1,2) unfolding nearestAttestation_def by (simp add: set_trueFrom)
next
  case (false m d)
  have "k < n" if "e \<in> set cs" "parseAgeOverIdentifier (ec_element e) = Some k" "ec_value e = BoolValue True" for k e
    using set_trueFrom [of k e n cs] that false(2) by auto
  moreover have "k \<le> m" if "e \<in> set cs" "parseAgeOverIdentifier (ec_element e) = Some k" "ec_value e = BoolValue False" "k \<le> n" for k e
    using false(4) [of k e] that by (simp add: set_falseTo)
  ultimately show ?thesis using false(1,3) unfolding nearestAttestation_def by (simp add: set_falseTo)
qed simp

section \<open>Looking an element up\<close>

lemma findElement_None: "findElement element cs = None \<longleftrightarrow> \<not> (\<exists>c \<in> set cs. answersName element c)"
proof (cases "List.find (\<lambda>c. ec_element c = element) cs")
  case None
  then have "c \<in> set cs \<Longrightarrow> ec_element c \<noteq> element" for c by (auto simp: find_None_iff)
  then show ?thesis using None by (auto simp: findElement_def findAgeOverCandidate_None answersName_def)
next
  case (Some c)
  then have "c \<in> set cs \<and> ec_element c = element" by (auto simp: find_Some_iff)
  then show ?thesis using Some by (auto simp: findElement_def answersName_def)
qed

lemma findElement_Some: "findElement element cs = Some c \<Longrightarrow> c \<in> set cs \<and> answersName element c"
proof (cases "List.find (\<lambda>c. ec_element c = element) cs")
  case None
  then show "findElement element cs = Some c \<Longrightarrow> ?thesis"
    using findAgeOverCandidate_Some [of element cs c] by (simp add: findElement_def answersName_def)
next
  case (Some d)
  then have "d \<in> set cs \<and> ec_element d = element" by (auto simp: find_Some_iff)
  then show "findElement element cs = Some c \<Longrightarrow> ?thesis" using Some by (auto simp: findElement_def answersName_def)
qed

text \<open>What may answer a request, by the mode and the source the options allow.\<close>

definition allowedFrom :: "matchContext \<Rightarrow> elementRef \<Rightarrow> elementSource \<Rightarrow> bool" where
  "allowedFrom ctx ref source \<longleftrightarrow> mc_mode ctx = Holder \<or> sourceOf (mc_elements ctx) (fst ref) (snd ref) \<in> {AnySource, Only source}"

definition mayAnswer :: "matchContext \<Rightarrow> elementRef \<Rightarrow> elementCandidate \<Rightarrow> bool" where
  "mayAnswer ctx ref c \<longleftrightarrow> c \<in> set (mc_available ctx) \<and> ec_namespace c = fst ref \<and> allowedFrom ctx ref (ec_source c)
     \<and> (ec_source c = DeviceSigned \<longrightarrow> isDeviceSignedElementAuthorized (mc_keyAuthorizations ctx) (ec_namespace c) (ec_element c))
     \<and> (if mc_mode ctx = Holder \<and> ec_source c = DeviceSigned then ec_element c = snd ref else answersName (snd ref) c)"

lemma set_inNamespace: "set (inNamespace cs n s) = {c \<in> set cs. ec_namespace c = n \<and> ec_source c = s}"
  by (auto simp: inNamespace_def)

lemma set_authorized: "set (authorizedDeviceSigned ctx n) = {c \<in> set (mc_available ctx). ec_namespace c = n \<and>
    ec_source c = DeviceSigned \<and> isDeviceSignedElementAuthorized (mc_keyAuthorizations ctx) (ec_namespace c) (ec_element c)}"
  by (auto simp: authorizedDeviceSigned_def set_inNamespace)

lemma orElse_None [simp]: "orElse a b = None \<longleftrightarrow> a = None \<and> b = None"
  by (cases a) (auto simp: orElse_def)

lemma orElse_Some: "orElse a b = Some x \<longleftrightarrow> a = Some x \<or> (a = None \<and> b = Some x)"
  by (cases a) (auto simp: orElse_def)

lemma find_name_None: "List.find (\<lambda>c. ec_element c = e) cs = None \<longleftrightarrow> \<not> (\<exists>c \<in> set cs. ec_element c = e)"
  by (auto simp: find_None_iff)

lemma find_name_Some: "List.find (\<lambda>c. ec_element c = e) cs = Some c \<Longrightarrow> c \<in> set cs \<and> ec_element c = e"
  by (auto simp: find_Some_iff)

lemma lookup_None: "lookup ctx n e = None \<longleftrightarrow> \<not> (\<exists>c. mayAnswer ctx (n, e) c)"
proof -
  have two: "ec_source c \<noteq> DeviceSigned \<longleftrightarrow> ec_source c = IssuerSigned" for c :: elementCandidate by (cases "ec_source c") auto
  show ?thesis
  proof (cases "mc_mode ctx")
    case Holder
    then show ?thesis unfolding lookup_def Let_def mayAnswer_def allowedFrom_def
      by (auto simp: findElement_None find_name_None set_inNamespace set_authorized two)
  next
    case Verifier
    show ?thesis
    proof (cases "sourceOf (mc_elements ctx) n e")
      case (Only s)
      then show ?thesis using Verifier unfolding lookup_def Let_def mayAnswer_def allowedFrom_def
        by (cases s) (auto simp: findElement_None set_inNamespace set_authorized)
    next
      case AnySource
      then show ?thesis using Verifier unfolding lookup_def Let_def mayAnswer_def allowedFrom_def
        by (auto simp: findElement_None set_inNamespace set_authorized two) (metis elementSource.exhaust)
    qed
  qed
qed

lemma lookup_Some: "lookup ctx n e = Some c \<Longrightarrow> mayAnswer ctx (n, e) c"
proof (cases "mc_mode ctx")
  case Holder
  then show "lookup ctx n e = Some c \<Longrightarrow> ?thesis" unfolding lookup_def Let_def mayAnswer_def allowedFrom_def
    by (auto simp: orElse_Some set_inNamespace set_authorized dest!: findElement_Some find_name_Some)
next
  case Verifier
  show "lookup ctx n e = Some c \<Longrightarrow> ?thesis"
  proof (cases "sourceOf (mc_elements ctx) n e")
    case (Only s)
    then show "lookup ctx n e = Some c \<Longrightarrow> ?thesis" using Verifier unfolding lookup_def Let_def mayAnswer_def allowedFrom_def
      by (cases s) (auto simp: set_inNamespace set_authorized dest!: findElement_Some)
  next
    case AnySource
    then show "lookup ctx n e = Some c \<Longrightarrow> ?thesis" using Verifier unfolding lookup_def Let_def mayAnswer_def allowedFrom_def
      by (auto simp: orElse_Some set_inNamespace set_authorized dest!: findElement_Some)
  qed
qed

section \<open>Options\<close>

lemma allSome_Some: "allSome xs = Some ys \<longleftrightarrow> xs = map Some ys"
proof (induction xs arbitrary: ys)
  case (Cons x xs)
  then show ?case by (cases x; cases ys) auto
qed auto

lemma allSome_None: "allSome xs = None \<longleftrightarrow> None \<in> set xs"
proof (induction xs)
  case (Cons x xs)
  then show ?case by (cases x) auto
qed simp

text \<open>An option discloses elements that may answer, one for each reference it stands for.\<close>

definition optionFor :: "matchContext \<Rightarrow> elementRef \<Rightarrow> elementOption \<Rightarrow> bool" where
  "optionFor ctx ref op \<longleftrightarrow> op_elements op \<noteq> [] \<and> (case op_alternative op of
       None \<Rightarrow> list_all2 (mayAnswer ctx) [ref] (op_elements op)
     | Some i \<Rightarrow> \<exists>a. alternativeFor ctx (fst ref) (snd ref) = Some a \<and> i < length (as_sets a)
         \<and> list_all2 (mayAnswer ctx) (as_sets a ! i) (op_elements op))"

definition alternativeAnswers :: "matchContext \<Rightarrow> elementRef \<Rightarrow> bool" where
  "alternativeAnswers ctx ref \<longleftrightarrow> (\<exists>a. alternativeFor ctx (fst ref) (snd ref) = Some a \<and>
     (\<exists>s \<in> set (as_sets a). s \<noteq> [] \<and> (\<forall>r \<in> set s. \<exists>c. mayAnswer ctx r c)))"

lemma setOption_cases:
  assumes "op \<in> set (setOption ctx (i, s))"
  shows "op_alternative op = Some i \<and> op_elements op \<noteq> [] \<and> list_all2 (mayAnswer ctx) s (op_elements op)"
proof -
  have op: "allSome (map (\<lambda>(n, e). lookup ctx n e) s) = Some (op_elements op) \<and> op_alternative op = Some i \<and> op_elements op \<noteq> []"
    using assms by (cases "allSome (map (\<lambda>(n, e). lookup ctx n e) s)") (auto simp: setOption_def split: list.splits)
  then have cs: "map (\<lambda>(n, e). lookup ctx n e) s = map Some (op_elements op)" by (simp add: allSome_Some)
  have len: "length s = length (op_elements op)" using arg_cong [OF cs, of length] by simp
  have "list_all2 (mayAnswer ctx) s (op_elements op)"
  proof (rule list_all2_all_nthI [OF len])
    fix j assume "j < length s"
    then have "(\<lambda>(n, e). lookup ctx n e) (s ! j) = Some (op_elements op ! j)"
      using arg_cong [OF cs, of "\<lambda>xs. xs ! j"] len by simp
    then show "mayAnswer ctx (s ! j) (op_elements op ! j)" using lookup_Some by (cases "s ! j") auto
  qed
  then show ?thesis using op by simp
qed

lemma setOption_Nil: "setOption ctx (i, s) = [] \<longleftrightarrow> \<not> (s \<noteq> [] \<and> (\<forall>r \<in> set s. \<exists>c. mayAnswer ctx r c))"
proof (cases "allSome (map (\<lambda>(n, e). lookup ctx n e) s)")
  case None
  then obtain n e where "(n, e) \<in> set s" "lookup ctx n e = None" by (auto simp: allSome_None)
  then show ?thesis using None lookup_None by (auto simp: setOption_def)
next
  case (Some cs)
  then have eq: "map (\<lambda>(n, e). lookup ctx n e) s = map Some cs" by (simp add: allSome_Some)
  have "\<exists>c. mayAnswer ctx r c" if "r \<in> set s" for r
  proof -
    obtain n e where r: "r = (n, e)" by (cases r)
    have "None \<notin> set (map (\<lambda>(n, e). lookup ctx n e) s)" unfolding eq by auto
    then have "lookup ctx n e \<noteq> None" using that r by force
    then show ?thesis using lookup_None [of ctx n e] r by simp
  qed
  moreover have "s = [] \<longleftrightarrow> cs = []" using arg_cong [OF eq, of length] by auto
  ultimately show ?thesis using Some by (auto simp: setOption_def split: list.splits)
qed

lemma optionsFor_options:
  assumes "op \<in> set (fst (optionsFor ctx n e (lookup ctx n e)))"
  shows "optionFor ctx (n, e) op"
proof -
  consider c where "lookup ctx n e = Some c" "op = \<lparr>op_alternative = None, op_elements = [c]\<rparr>"
    | os where "findAlternatives ctx n e = Some os" "op \<in> set os"
    using assms by (cases "lookup ctx n e"; cases "findAlternatives ctx n e") (auto simp: optionsFor_def Let_def)
  then show ?thesis
  proof cases
    case 1
    then show ?thesis using lookup_Some by (auto simp: optionFor_def)
  next
    case 2
    then obtain a i s where "alternativeFor ctx n e = Some a" "(i, s) \<in> set (enumerate 0 (as_sets a))" "op \<in> set (setOption ctx (i, s))"
      by (auto simp: findAlternatives_def)
    then show ?thesis using setOption_cases by (fastforce simp: optionFor_def in_set_enumerate_eq)
  qed
qed

lemma optionsFor_Nil:
  "fst (optionsFor ctx n e (lookup ctx n e)) = [] \<longleftrightarrow> \<not> ((\<exists>c. mayAnswer ctx (n, e) c) \<or> alternativeAnswers ctx (n, e))"
proof -
  have "(case findAlternatives ctx n e of None \<Rightarrow> [] | Some os \<Rightarrow> os) = [] \<longleftrightarrow> \<not> alternativeAnswers ctx (n, e)"
  proof (cases "alternativeFor ctx n e")
    case None
    then show ?thesis by (simp add: findAlternatives_def alternativeAnswers_def)
  next
    case (Some a)
    have "concat (map (setOption ctx) (enumerate 0 (as_sets a))) = [] \<longleftrightarrow> (\<forall>s \<in> set (as_sets a). \<forall>i. setOption ctx (i, s) = [])"
    proof -
      have same: "setOption ctx (i, s) = [] \<longleftrightarrow> setOption ctx (j, s) = []" for i j s by (simp only: setOption_Nil)
      have mem: "s \<in> set (as_sets a) \<longleftrightarrow> (\<exists>i. (i, s) \<in> set (enumerate 0 (as_sets a)))" for s
        unfolding in_set_enumerate_eq by (auto simp: in_set_conv_nth)
      have "concat (map (setOption ctx) (enumerate 0 (as_sets a))) = [] \<longleftrightarrow> (\<forall>p \<in> set (enumerate 0 (as_sets a)). setOption ctx p = [])"
        by (simp only: concat_eq_Nil_conv set_map ball_simps)
      also have "\<dots> \<longleftrightarrow> (\<forall>s \<in> set (as_sets a). \<forall>i. setOption ctx (i, s) = [])"
      proof (intro iffI ballI allI)
        fix s i assume all: "\<forall>p \<in> set (enumerate 0 (as_sets a)). setOption ctx p = []" and "s \<in> set (as_sets a)"
        then obtain j where "(j, s) \<in> set (enumerate 0 (as_sets a))" using mem by blast
        then have "setOption ctx (j, s) = []" using all by blast
        then show "setOption ctx (i, s) = []" using same by blast
      next
        fix p assume "\<forall>s \<in> set (as_sets a). \<forall>i. setOption ctx (i, s) = []" "p \<in> set (enumerate 0 (as_sets a))"
        then show "setOption ctx p = []" using mem by (cases p) blast
      qed
      finally show ?thesis .
    qed
    then show ?thesis using Some unfolding setOption_Nil by (simp add: findAlternatives_def alternativeAnswers_def)
  qed
  then show ?thesis unfolding optionsFor_def Let_def using lookup_None [of ctx n e] by (auto split: option.splits)
qed

section \<open>Claims\<close>

text \<open>A requested element is answered when it, or each element of one of its alternative sets, may be.\<close>

definition answered :: "matchContext \<Rightarrow> elementRef \<Rightarrow> bool" where
  "answered ctx ref \<longleftrightarrow> (\<exists>c. mayAnswer ctx ref c) \<or> alternativeAnswers ctx ref"

declare claimAnswered.simps [simp del]

lemma success_ok [simp]: "claimAnswered (em_claim (fst (success claim options b)))"
  "cm_base (em_claim (fst (success claim options b))) = claim"
  by (simp_all add: success_def Let_def claimAnswered.simps)

lemma failure_not_ok [simp]: "\<not> claimAnswered (em_claim (fst (failure claim kind from ds)))"
  "cm_base (em_claim (fst (failure claim kind from ds))) = claim"
  by (simp_all add: failure_def claimAnswered.simps)

lemma verifierClaim_ok:
  assumes "mc_mode ctx = Verifier"
  shows "claimAnswered (em_claim (fst (verifierClaim ctx (n, e, i)))) \<longleftrightarrow> answered ctx (n, e)"
    "cm_base (em_claim (fst (verifierClaim ctx (n, e, i))))
       = \<lparr>cb_namespace = n, cb_element = e, cb_intentToRetain = i, cb_optional = elementOptional (mc_elements ctx) n e\<rparr>"
  using optionsFor_Nil [of ctx n e] unfolding answered_def
  by (auto simp: verifierClaim_def Let_def split: prod.splits option.splits)

lemma toClaims_success:
  "cr_success (toClaimsMatchResult ems) \<longleftrightarrow> (\<forall>em \<in> set ems. claimAnswered (em_claim em) \<or> cb_optional (cm_base (em_claim em)))"
  by (auto simp: toClaimsMatchResult_def Let_def list_ex_iff)

lemma verifier_claims:
  assumes "mc_mode ctx = Verifier"
  shows "cr_success (toClaimsMatchResult (fst (matchElements ctx namespaces))) \<longleftrightarrow>
     (\<forall>(n, e, i) \<in> set (requestedElements namespaces). elementOptional (mc_elements ctx) n e \<or> answered ctx (n, e))"
  unfolding toClaims_success using verifierClaim_ok [OF assms]
  by (auto simp: matchElements_def Let_def assms)

text \<open>A claim that succeeds has options whose elements may all answer it, and discloses the first.\<close>

definition justified :: "matchContext \<Rightarrow> elementMatch \<Rightarrow> bool" where
  "justified ctx em \<longleftrightarrow> (case cm_outcome (em_claim em) of
       ClaimFailure _ _ \<Rightarrow> em_element em = None
     | ClaimSuccess s \<Rightarrow> \<exists>ops. ops \<noteq> []
         \<and> (\<forall>op \<in> set ops. optionFor ctx (cb_namespace (cm_base (em_claim em)), cb_element (cm_base (em_claim em))) op)
         \<and> em_element em = Some (hd (op_elements (hd ops)))
         \<and> (if em_options em = None then \<forall>op \<in> set ops. op_alternative op = None else em_options em = Some ops)
         \<and> cs_disclosed s = ec_element (hd (op_elements (hd ops))) \<and> cs_value s = ec_value (hd (op_elements (hd ops)))
         \<and> cs_source s = ec_source (hd (op_elements (hd ops))))"

lemma success_justified:
  assumes "options \<noteq> []" "\<And>op. op \<in> set options \<Longrightarrow> optionFor ctx (cb_namespace claim, cb_element claim) op"
    "\<not> b \<Longrightarrow> \<forall>op \<in> set options. op_alternative op = None"
  shows "justified ctx (fst (success claim options b))"
  using assms unfolding justified_def success_def Let_def by (auto intro!: exI [of _ options])

lemma failure_justified: "justified ctx (fst (failure claim kind from ds))"
  by (simp add: justified_def failure_def)

lemma optionsFor_alone:
  "\<not> snd (optionsFor ctx n e found) \<Longrightarrow> op \<in> set (fst (optionsFor ctx n e found)) \<Longrightarrow> op_alternative op = None"
  by (auto simp: optionsFor_def Let_def split: option.splits)

lemma verifierClaim_justified: "justified ctx (fst (verifierClaim ctx (n, e, i)))"
  using optionsFor_options [of _ ctx n e] optionsFor_alone [of ctx n e "lookup ctx n e"]
  by (auto simp: verifierClaim_def Let_def failure_justified intro!: success_justified split: prod.splits option.splits)

lemma settleHolder_justified:
  assumes "hc = holderClaimOf ctx (n, e, i)"
  shows "justified ctx (fst (settleHolder claims (k, hc)))"
  using optionsFor_options [of _ ctx n e] optionsFor_alone [of ctx n e "lookup ctx n e"] assms
  by (auto simp: settleHolder_def holderClaimOf_def Let_def failure_justified intro!: success_justified split: prod.splits option.splits)

lemma holder_claims:
  assumes "mc_mode ctx = Holder"
  shows "map (\<lambda>em. cm_base (em_claim em)) (fst (matchElements ctx namespaces))
     = map (\<lambda>(n, e, i). \<lparr>cb_namespace = n, cb_element = e, cb_intentToRetain = i, cb_optional = False\<rparr>) (requestedElements namespaces)"
proof -
  have "cm_base (em_claim (fst (settleHolder cs (k, hc)))) = hc_claim hc" for cs k hc
    by (simp add: settleHolder_def Let_def)
  then have "cm_base (em_claim (fst (settleHolder cs p))) = hc_claim (snd p)" for cs p by (cases p) simp
  moreover have "hc_claim (holderClaimOf ctx r) = (case r of (n, e, i) \<Rightarrow> \<lparr>cb_namespace = n, cb_element = e, cb_intentToRetain = i, cb_optional = False\<rparr>)" for r
    by (cases r) (simp add: holderClaimOf_def Let_def case_prod_beta)
  moreover have "map (\<lambda>p. hc_claim (snd p)) (enumerate k xs) = map hc_claim xs" for k :: nat and xs :: "holderClaim list"
    by (induction xs arbitrary: k) simp_all
  ultimately show ?thesis by (simp add: matchElements_def Let_def assms comp_def)
qed

lemma matchElements_justified:
  assumes "em \<in> set (fst (matchElements ctx namespaces))"
  shows "justified ctx em"
proof (cases "mc_mode ctx")
  case Verifier
  then show ?thesis using assms verifierClaim_justified by (auto simp: matchElements_def Let_def)
next
  case Holder
  let ?claims = "map (holderClaimOf ctx) (requestedElements namespaces)"
  obtain k hc where em: "em = fst (settleHolder ?claims (k, hc))" "(k, hc) \<in> set (enumerate 0 ?claims)"
    using assms Holder by (auto simp: matchElements_def Let_def)
  then have "hc \<in> set ?claims" by (metis in_set_enumerate_eq add_0_right diff_zero fst_conv nth_mem snd_conv)
  then obtain n e i where "hc = holderClaimOf ctx (n, e, i)" by auto
  then show ?thesis using em(1) settleHolder_justified by simp
qed

end
