(* ===== verification/Attribution.thy ===== *)
theory Attribution imports Prelude "HOL-Library.AList" begin

text \<open>
  \<open>packages/mdoc/src/utils/attribution.ts\<close>: which document of a response answers which doc request. A
  document that only doc requests with \<open>uniqueDocSetRequired\<close> may answer needs one of them to itself, so the
  documents are matched to doc requests with Kuhn's algorithm, and documents too many are found from the
  matching. A \<open>Map\<close> is the list of its entries in the order they were added, which \<open>AList.update\<close> keeps, and a
  \<open>Set\<close> a list without duplicates.
\<close>

section \<open>Maximum matching\<close>

text \<open>
  \<open>takenBy\<close> has the document each doc request is taken by. \<open>augment\<close> changes it and the set \<open>visited\<close> in
  place, so both are arguments and results. \<open>tryNeighbours\<close> is the second loop of \<open>augment\<close>.
\<close>

function (sequential) augment :: "(nat \<Rightarrow> nat list) \<Rightarrow> nat \<Rightarrow> (nat \<times> nat) list \<Rightarrow> nat list \<Rightarrow> bool \<times> (nat \<times> nat) list \<times> nat list"
and tryNeighbours :: "(nat \<Rightarrow> nat list) \<Rightarrow> nat \<Rightarrow> nat list \<Rightarrow> (nat \<times> nat) list \<Rightarrow> nat list \<Rightarrow> bool \<times> (nat \<times> nat) list \<times> nat list" where
  "augment neighbours documentIndex takenBy visited =
     (case List.find (\<lambda>docRequestIndex. map_of takenBy docRequestIndex = None) (neighbours documentIndex) of
        Some free \<Rightarrow> (True, AList.update free documentIndex takenBy, visited)
      | None \<Rightarrow> tryNeighbours neighbours documentIndex (neighbours documentIndex) takenBy visited)"
| "tryNeighbours neighbours documentIndex [] takenBy visited = (False, takenBy, visited)"
| "tryNeighbours neighbours documentIndex (docRequestIndex # rest) takenBy visited =
     (if docRequestIndex \<in> set visited then tryNeighbours neighbours documentIndex rest takenBy visited
      else case map_of takenBy docRequestIndex of
          None \<Rightarrow> tryNeighbours neighbours documentIndex rest takenBy (docRequestIndex # visited)
        | Some current \<Rightarrow>
            (case augment neighbours current takenBy (docRequestIndex # visited) of
               (True, takenBy', visited') \<Rightarrow> (True, AList.update docRequestIndex documentIndex takenBy', visited')
             | (False, takenBy', visited') \<Rightarrow> tryNeighbours neighbours documentIndex rest takenBy' visited'))"
  by pat_completeness auto

text \<open>When no document is moved, \<open>takenBy\<close> is unchanged and \<open>visited\<close> has only grown.\<close>

lemma augment_False_dom:
  "augment_tryNeighbours_dom (Inl (neighbours, d, takenBy, visited)) \<Longrightarrow>
     augment neighbours d takenBy visited = (False, takenBy', visited') \<Longrightarrow> takenBy' = takenBy \<and> set visited \<subseteq> set visited'"
  "augment_tryNeighbours_dom (Inr (neighbours, d, rs, takenBy, visited)) \<Longrightarrow>
     tryNeighbours neighbours d rs takenBy visited = (False, takenBy', visited') \<Longrightarrow> takenBy' = takenBy \<and> set visited \<subseteq> set visited'"
proof (induction neighbours d takenBy visited and neighbours d rs takenBy visited arbitrary: takenBy' visited' and takenBy' visited'
    rule: augment_tryNeighbours.pinduct)
  case (1 neighbours documentIndex takenBy visited)
  then show ?case by (auto simp: augment.psimps split: option.splits)
next
  case (2 neighbours documentIndex takenBy visited)
  then show ?case by (auto simp: tryNeighbours.psimps)
next
  case (3 neighbours documentIndex docRequestIndex rest takenBy visited)
  note ps = tryNeighbours.psimps(2) [OF "3.hyps"]
  show ?case
  proof (cases "docRequestIndex \<in> set visited")
    case True
    then show ?thesis using "3.IH"(1) "3.prems" by (simp add: ps)
  next
    case new: False
    show ?thesis
    proof (cases "map_of takenBy docRequestIndex")
      case None
      then show ?thesis using "3.IH"(2) [OF new None] "3.prems" new by (simp add: ps)
    next
      case (Some current)
      obtain ok t v where inner: "augment neighbours current takenBy (docRequestIndex # visited) = (ok, t, v)"
        by (cases "augment neighbours current takenBy (docRequestIndex # visited)") auto
      have ok: "ok = False" using "3.prems" new Some inner by (cases ok) (auto simp: ps)
      have rest: "tryNeighbours neighbours documentIndex rest t v = (False, takenBy', visited')"
        using "3.prems" new Some inner ok by (simp add: ps)
      have t: "t = takenBy \<and> set (docRequestIndex # visited) \<subseteq> set v"
        using "3.IH"(3) [OF new Some inner [unfolded ok]] .
      show ?thesis using "3.IH"(4) [OF new Some inner [symmetric] ok refl rest] t by auto
    qed
  qed
qed

lemma augment_total: "All augment_tryNeighbours_dom"
proof (relation "inv_image (less_than <*lex*> less_than)
    (case_sum (\<lambda>(nb, d, t, v). (card (fst ` set t - set v), Suc (length (nb d))))
              (\<lambda>(nb, d, rs, t, v). (card (fst ` set t - set v), length rs)))", goal_cases)
  case 1 then show ?case by blast
next
  case 2 then show ?case by simp
next
  case 3 then show ?case by simp
next
  case (4 nb d r rs t v)
  then have "r \<notin> fst ` set t" by (simp add: map_of_eq_None_iff)
  then have "fst ` set t - set (r # v) = fst ` set t - set v" by auto
  then show ?case by simp
next
  case (5 nb d r rs t v current)
  then have "r \<in> fst ` set t - set v" by (metis DiffI domI dom_map_of_conv_image_fst) 
  then have "card (fst ` set t - set (r # v)) < card (fst ` set t - set v)"
    by (intro psubset_card_mono) auto
  then show ?case by simp
next
  case (6 nb d r rs t v current ok y t' v')
  then have "augment nb current t (r # v) = (False, t', v')" by (cases ok) auto
  then have "t' = t" "set (r # v) \<subseteq> set v'" using augment_False_dom(1) [OF 6(6)] by simp_all
  then have "card (fst ` set t' - set v') \<le> card (fst ` set t - set v)"
    by (intro card_mono) auto
  then show ?case by auto
qed

termination augment by (rule augment_total)

lemmas augment_False = augment_False_dom [OF augment_total [rule_format]]

definition newMap :: "('k \<times> 'v) list \<Rightarrow> ('k \<times> 'v) list" where
  "newMap entries = foldl (\<lambda>m kv. AList.update (fst kv) (snd kv) m) [] entries"

definition swapped :: "('k \<times> 'v) list \<Rightarrow> ('v \<times> 'k) list" where
  "swapped = map prod.swap"

definition maximumMatching :: "nat list \<Rightarrow> (nat \<Rightarrow> nat list) \<Rightarrow> (nat \<times> nat) list" where
  "maximumMatching documents neighbours =
     newMap (swapped (foldl (\<lambda>takenBy d. fst (snd (augment neighbours d takenBy []))) [] documents))"

section \<open>Documents too many\<close>

definition getList :: "('k \<times> 'v list) list \<Rightarrow> 'k \<Rightarrow> 'v list" where
  "getList m k = (case map_of m k of None \<Rightarrow> [] | Some vs \<Rightarrow> vs)"

record excess =
  ex_documents :: "nat list"
  ex_requests :: "nat list"

definition reachStep :: "(nat \<times> nat) list \<Rightarrow> nat list \<times> nat list \<Rightarrow> nat \<Rightarrow> nat list \<times> nat list" where
  "reachStep takes state docRequestIndex = (case map_of takes docRequestIndex of
       None \<Rightarrow> state
     | Some later \<Rightarrow> if later \<in> set (snd state) then state else (fst state @ [later], snd state @ [later]))"

lemma reachSteps_measure:
  "length (fst (foldl (reachStep takes) s rs)) + card (snd ` set takes - set (snd (foldl (reachStep takes) s rs)))
     = length (fst s) + card (snd ` set takes - set (snd s))"
proof (induction rs arbitrary: s)
  case (Cons r rs)
  have "length (fst (reachStep takes s r)) + card (snd ` set takes - set (snd (reachStep takes s r)))
      = length (fst s) + card (snd ` set takes - set (snd s))"
  proof (cases "map_of takes r")
    case (Some d)
    then have d: "d \<in> snd ` set takes" by (force dest: map_of_SomeD)
    show ?thesis
    proof (cases "d \<in> set (snd s)")
      case False
      then have "card (snd ` set takes - set (snd s)) = Suc (card (snd ` set takes - set (snd s @ [d])))"
        using d by (subst card.remove [of _ d]) (auto intro!: arg_cong [of _ _ card])
      then show ?thesis using Some False by (simp add: reachStep_def)
    qed (simp add: reachStep_def Some)
  qed (simp add: reachStep_def)
  then show ?case using Cons by simp
qed simp

function reachLoop :: "(nat \<times> nat) list \<Rightarrow> (nat \<times> nat list) list \<Rightarrow> nat \<Rightarrow> nat list \<times> nat list \<Rightarrow> nat list" where
  "reachLoop takes candidatesOf position state =
     (if position < length (fst state)
      then reachLoop takes candidatesOf (Suc position)
             (foldl (reachStep takes) state (getList candidatesOf (fst state ! position)))
      else snd state)"
  by pat_completeness auto
termination
proof (relation "measure (\<lambda>(takes, c, p, s). length (fst s) + card (snd ` set takes - set (snd s)) - p)", goal_cases)
  case (2 takes c p s)
  then show ?case by (simp add: reachSteps_measure)
qed simp

declare reachLoop.simps [simp del]

definition findExcess :: "nat list \<Rightarrow> (nat \<times> nat list) list \<Rightarrow> (nat \<times> nat) list \<Rightarrow> excess" where
  "findExcess documents candidatesOf matching =
     (let takes = newMap (swapped matching);
          queue = filter (\<lambda>d. map_of matching d = None) documents;
          documentIndexes = sort (reachLoop takes candidatesOf 0 (queue, remdups queue))
      in \<lparr>ex_documents = documentIndexes,
          ex_requests = sort (remdups (concat (map (getList candidatesOf) documentIndexes)))\<rparr>)"

section \<open>Attribution\<close>

record docRequestCandidates =
  dr_index :: nat
  dr_unique :: bool
  dr_candidates :: "nat list"
  dr_valid :: "nat list"

text \<open>What the functions that \<open>createAttribution\<close> returns share.\<close>

record attribution =
  at_requests :: "docRequestCandidates list"
  at_byIndex :: "(nat \<times> docRequestCandidates) list"
  at_satisfying :: "(nat \<times> nat list) list"
  at_candidatesOf :: "(nat \<times> nat list) list"
  at_excess :: excess
  at_remaining :: "nat list"

definition addCandidate :: "nat \<Rightarrow> (nat \<times> nat list) list \<Rightarrow> nat \<Rightarrow> (nat \<times> nat list) list" where
  "addCandidate docRequestIndex candidatesOf documentIndex =
     AList.update documentIndex (getList candidatesOf documentIndex @ [docRequestIndex]) candidatesOf"

definition candidatesMap :: "docRequestCandidates list \<Rightarrow> (nat \<times> nat list) list" where
  "candidatesMap docRequests =
     foldl (\<lambda>m dr. foldl (addCandidate (dr_index dr)) m (dr_candidates dr)) [] docRequests"

definition needsUnique :: "(nat \<times> docRequestCandidates) list \<Rightarrow> nat \<Rightarrow> bool" where
  "needsUnique byIndex i = (case map_of byIndex i of None \<Rightarrow> False | Some dr \<Rightarrow> dr_unique dr)"

definition createAttribution :: "docRequestCandidates list \<Rightarrow> attribution" where
  "createAttribution docRequests =
     (let byIndex = newMap (map (\<lambda>dr. (dr_index dr, dr)) docRequests);
          satisfying = newMap (map (\<lambda>dr. (dr_index dr, dr_valid dr)) docRequests);
          candidatesOf = candidatesMap docRequests;
          onlyUnique = sort (map fst (filter (\<lambda>c. list_all (needsUnique byIndex) (snd c)) candidatesOf));
          excess = findExcess onlyUnique candidatesOf (maximumMatching onlyUnique (getList candidatesOf))
      in \<lparr>at_requests = docRequests, at_byIndex = byIndex, at_satisfying = satisfying,
          at_candidatesOf = candidatesOf, at_excess = excess,
          at_remaining = filter (\<lambda>d. d \<notin> set (ex_documents excess)) onlyUnique\<rparr>)"

definition shareNeighbours :: "attribution \<Rightarrow> nat list \<Rightarrow> nat \<Rightarrow> nat list" where
  "shareNeighbours a required documentIndex =
     filter (\<lambda>r. r \<notin> set (ex_requests (at_excess a)) \<and>
         (r \<notin> set required \<or> documentIndex \<in> set (getList (at_satisfying a) r)))
       (getList (at_candidatesOf a) documentIndex)"

definition shareOut :: "attribution \<Rightarrow> nat list \<Rightarrow> (nat \<times> nat) list option" where
  "shareOut a required =
     (let taken = maximumMatching (at_remaining a) (shareNeighbours a required)
      in if length taken = length (at_remaining a) then Some taken else None)"

definition answerable :: "attribution \<Rightarrow> nat \<Rightarrow> bool" where
  "answerable a i = (case map_of (at_byIndex a) i of None \<Rightarrow> False
     | Some dr \<Rightarrow> dr_valid dr \<noteq> [] \<and> i \<notin> set (ex_requests (at_excess a)))"

definition canAnswerUncached :: "attribution \<Rightarrow> nat list \<Rightarrow> bool" where
  "canAnswerUncached a required = (list_all (answerable a) required \<and> shareOut a required \<noteq> None)"

text \<open>The answers already worked out, by the sorted indexes without duplicates.\<close>

definition canAnswer :: "attribution \<Rightarrow> (nat list \<times> bool) list \<Rightarrow> nat list \<Rightarrow> bool \<times> (nat list \<times> bool) list" where
  "canAnswer a answers docRequestIndexes =
     (let required = remdups docRequestIndexes; key = sort required
      in case map_of answers key of
           Some known \<Rightarrow> (known, answers)
         | None \<Rightarrow> let result = canAnswerUncached a required in (result, AList.update key result answers))"

definition answerOf :: "attribution \<Rightarrow> (nat \<times> nat) list \<Rightarrow> docRequestCandidates \<Rightarrow> nat list" where
  "answerOf a takes dr =
     (if \<not> dr_unique dr then dr_candidates dr
      else if dr_index dr \<in> set (ex_requests (at_excess a)) then []
      else case map_of takes (dr_index dr) of
          Some documentIndex \<Rightarrow> [documentIndex]
        | None \<Rightarrow> take 1 (dr_valid dr))"

definition answer :: "attribution \<Rightarrow> nat list \<Rightarrow> (nat \<times> nat list) list" where
  "answer a docRequestIndexes =
     (let required = remdups docRequestIndexes;
          taken = (case shareOut a required of Some t \<Rightarrow> t | None \<Rightarrow> []);
          takes = newMap (swapped taken)
      in newMap (map (\<lambda>dr. (dr_index dr, answerOf a takes dr)) (at_requests a)))"

end
