(* ===== verification/DeviceMatch.thy ===== *)
theory DeviceMatch imports ElementMatch Attribution Bytes begin

text \<open>
  \<open>matchDeviceRequest\<close> and \<open>matchCredentialsToDeviceRequest\<close> of
  \<open>packages/mdoc/src/utils/matchDeviceRequest.ts\<close>: the documents of a response, or the credentials of a
  holder, against every doc request, and the use cases these satisfy together. The CBOR structures are
  records of what their getters return; reading a certificate is a parameter.
  The callback \<open>canAnswer\<close> is the predicate \<open>together\<close>; that it remembers answers changes none of them, which
  \<open>canAnswer_remembered\<close> shows.
\<close>

section \<open>Data\<close>

record requestInfo =
  ri_alternatives :: "alternativeSet list option"
  ri_issuerIdentifiers :: "bytes list option"
  ri_unique :: "bool option"
  ri_maximumResponseSize :: "nat option"

record docRequest =
  rq_docType :: string
  rq_namespaces :: "(string \<times> (string \<times> bool) list) list"
  rq_info :: "requestInfo option"

record useCase =
  us_mandatory :: bool
  us_purposeHints :: "(string \<times> int) list option"
  us_documentSets :: "nat list list"

record deviceRequest =
  dv_docRequests :: "docRequest list"
  dv_useCases :: "useCase list option"

record document =
  do_docType :: string
  do_issuerSigned :: issuerSigned
  do_deviceNamespaces :: deviceNamespaces

record docRequestOptions =
  ro_index :: jsnum
  ro_elements :: "elementOptions option"

record matchOptions =
  mo_docRequests :: "docRequestOptions list option"
  mo_alternatives :: bool

datatype matchOptionsError = InvalidDeviceRequestMatchOptions

definition alternativesOf :: "docRequest \<Rightarrow> alternativeSet list" where
  "alternativesOf r = (case rq_info r of None \<Rightarrow> [] | Some info \<Rightarrow>
     (case ri_alternatives info of None \<Rightarrow> [] | Some as \<Rightarrow> as))"

definition issuersOf :: "docRequest \<Rightarrow> bytes list option" where
  "issuersOf r = (case rq_info r of None \<Rightarrow> None | Some info \<Rightarrow> ri_issuerIdentifiers info)"

definition uniqueOf :: "docRequest \<Rightarrow> bool" where
  "uniqueOf r = (case rq_info r of None \<Rightarrow> False | Some info \<Rightarrow> (case ri_unique info of None \<Rightarrow> False | Some b \<Rightarrow> b))"

section \<open>Match options\<close>

definition indexStep :: "nat \<Rightarrow> (nat \<times> docRequestOptions) list \<Rightarrow> docRequestOptions \<Rightarrow>
    matchOptionsError + (nat \<times> docRequestOptions) list" where
  "indexStep count found opts = (case intOf (ro_index opts) of
       None \<Rightarrow> Inl InvalidDeviceRequestMatchOptions
     | Some i \<Rightarrow>
         if i < 0 \<or> int count \<le> i \<or> map_of found (nat i) \<noteq> None then Inl InvalidDeviceRequestMatchOptions
         else Inr (AList.update (nat i) opts found))"

definition indexDocRequestOptions :: "deviceRequest \<Rightarrow> matchOptions \<Rightarrow> matchOptionsError + (nat \<times> docRequestOptions) list" where
  "indexDocRequestOptions request opts = foldR (indexStep (length (dv_docRequests request))) []
     (case mo_docRequests opts of None \<Rightarrow> [] | Some rs \<Rightarrow> rs)"

definition elementsOf :: "(nat \<times> docRequestOptions) list \<Rightarrow> nat \<Rightarrow> elementOptions" where
  "elementsOf found i = (case map_of found i of None \<Rightarrow> []
     | Some opts \<Rightarrow> (case ro_elements opts of None \<Rightarrow> [] | Some elements \<Rightarrow> elements))"

section \<open>Issuers\<close>

text \<open>\<open>keyIdentifier\<close> reads the authority key identifier of a certificate, in hex, when it has one and
  parses. No issuer named is \<open>None\<close>.\<close>

definition matchIssuer :: "(bytes \<Rightarrow> string option) \<Rightarrow> bytes list option \<Rightarrow> bytes list option \<Rightarrow> bool option" where
  "matchIssuer keyIdentifier issuerIdentifiers certificateChain = (case issuerIdentifiers of
       None \<Rightarrow> None
     | Some identifiers \<Rightarrow> (case certificateChain of
           None \<Rightarrow> Some False
         | Some chain \<Rightarrow> Some (list_ex (\<lambda>i. Some (hexEncode i) \<in> set (map keyIdentifier chain)) identifiers)))"

section \<open>Documents against doc requests\<close>

datatype docTypeResult = DocTypeOk string | OtherDocType string | OtherSignedDocType string

fun docTypeOk :: "docTypeResult \<Rightarrow> bool" where
  "docTypeOk (DocTypeOk _) = True"
| "docTypeOk _ = False"

record documentMatch =
  dm_index :: nat
  dm_success :: bool
  dm_docType :: docTypeResult
  dm_issuer :: "bool option"
  dm_claims :: claimsOutcome
  dm_unrequested :: "disclosedElement list"

definition verifierContext :: "elementOptions \<Rightarrow> docRequest \<Rightarrow> document \<Rightarrow> matchContext" where
  "verifierContext elements request document =
     \<lparr>mc_mode = Verifier, mc_elements = elements,
      mc_available = collectElements (do_issuerSigned document) (Some (do_deviceNamespaces document)),
      mc_keyAuthorizations = is_keyAuthorizations (do_issuerSigned document),
      mc_alternatives = alternativesOf request\<rparr>"

definition matchDocument :: "(bytes \<Rightarrow> string option) \<Rightarrow> elementOptions \<Rightarrow> docRequest \<Rightarrow> bytes list option \<Rightarrow> nat \<times> document \<Rightarrow> documentMatch" where
  "matchDocument keyIdentifier elements request chain entry =
     (let (documentIndex, document) = entry;
          docType = (if do_docType document \<noteq> rq_docType request then OtherDocType (do_docType document)
            else if is_docType (do_issuerSigned document) \<noteq> rq_docType request then OtherSignedDocType (do_docType document)
            else DocTypeOk (rq_docType request));
          issuer = matchIssuer keyIdentifier (issuersOf request) chain;
          (claims, unused) = matchElements (verifierContext elements request document) (rq_namespaces request);
          result = toClaimsMatchResult claims
      in \<lparr>dm_index = documentIndex, dm_success = docTypeOk docType \<and> cr_success result \<and> issuer \<noteq> Some False,
          dm_docType = docType, dm_issuer = issuer, dm_claims = result, dm_unrequested = unused\<rparr>)"

definition isCandidate :: "documentMatch \<Rightarrow> bool" where
  "isCandidate m = (docTypeOk (dm_docType m) \<and> dm_issuer m \<noteq> Some False)"

datatype docRequestFailure = ExcessDocuments "nat list" "nat list" | NoneLeft "nat list"

record docRequestMatch =
  rm_index :: nat
  rm_docType :: string
  rm_success :: bool
  rm_valid :: "documentMatch list"
  rm_failed :: "documentMatch list"
  rm_reason :: "docRequestFailure option"

definition chainOf :: "bytes list option list option \<Rightarrow> nat \<Rightarrow> bytes list option" where
  "chainOf certificateChains i = (case certificateChains of None \<Rightarrow> None | Some cs \<Rightarrow> if i < length cs then cs ! i else None)"

text \<open>Per doc request its index and the match of every document.\<close>

definition documentMatches :: "(bytes \<Rightarrow> string option) \<Rightarrow> bytes list option list option \<Rightarrow> (nat \<times> docRequestOptions) list \<Rightarrow>
    document list \<Rightarrow> nat \<times> docRequest \<Rightarrow> documentMatch list" where
  "documentMatches keyIdentifier certificateChains opts documents entry =
     map (\<lambda>(i, d). matchDocument keyIdentifier (elementsOf opts (fst entry)) (snd entry) (chainOf certificateChains i) (i, d))
       (enumerate 0 documents)"

definition candidatesFor :: "nat \<times> docRequest \<Rightarrow> documentMatch list \<Rightarrow> docRequestCandidates" where
  "candidatesFor entry ms =
     \<lparr>dr_index = fst entry, dr_unique = uniqueOf (snd entry),
      dr_candidates = map dm_index (filter isCandidate ms), dr_valid = map dm_index (filter dm_success ms)\<rparr>"

definition docRequestResult :: "attribution \<Rightarrow> docRequestCandidates list \<Rightarrow> (nat \<times> docRequest) \<times> documentMatch list \<Rightarrow> docRequestMatch" where
  "docRequestResult a all entry =
     (let ((i, request), ms) = entry;
          valid = filter dm_success ms; failed = filter (\<lambda>m. \<not> dm_success m) ms;
          excess = (if uniqueOf request
            then filter (\<lambda>d. d \<in> set (ex_documents (at_excess a))) (map dm_index (filter isCandidate ms)) else []);
          base = \<lparr>rm_index = i, rm_docType = rq_docType request, rm_success = False, rm_valid = valid, rm_failed = failed, rm_reason = None\<rparr>
      in if excess \<noteq> []
         then base\<lparr>rm_reason := Some (ExcessDocuments excess
                (map dr_index (filter (\<lambda>other. list_ex (\<lambda>d. d \<in> set excess) (dr_candidates other)) all)))\<rparr>
         else if uniqueOf request \<and> valid \<noteq> [] \<and> \<not> canAnswerUncached a [i]
         then base\<lparr>rm_reason := Some (NoneLeft (map dm_index valid))\<rparr>
         else if valid \<noteq> [] then base\<lparr>rm_success := True\<rparr> else base)"

section \<open>Use cases\<close>

datatype useCasesSource = DeviceRequestInfo | AllDocRequests | EachDocRequest

record useCaseMatch =
  uc_index :: nat
  uc_mandatory :: bool
  uc_purposeHints :: "(string \<times> int) list option"
  uc_success :: bool
  uc_documentSets :: "nat list list"
  uc_matching :: "nat list list"

definition resolveUseCases :: "deviceRequest \<Rightarrow> bool \<Rightarrow> useCasesSource \<times> useCase list" where
  "resolveUseCases request alternatives = (case dv_useCases request of
       Some useCases \<Rightarrow> (DeviceRequestInfo, useCases)
     | None \<Rightarrow> (let indexes = [0..<length (dv_docRequests request)]
         in if alternatives \<and> 1 < length indexes
            then (EachDocRequest, map (\<lambda>i. \<lparr>us_mandatory = False, us_purposeHints = None, us_documentSets = [[i]]\<rparr>) indexes)
            else (AllDocRequests, [\<lparr>us_mandatory = True, us_purposeHints = None, us_documentSets = [indexes]\<rparr>])))"

definition satisfiedAt :: "bool list \<Rightarrow> nat \<Rightarrow> bool" where
  "satisfiedAt successes i = (i < length successes \<and> successes ! i)"

definition matchUseCase :: "bool list \<Rightarrow> (nat list \<Rightarrow> bool) \<Rightarrow> nat \<times> useCase \<Rightarrow> useCaseMatch" where
  "matchUseCase successes together entry =
     (let (i, u) = entry;
          satisfied = filter (\<lambda>s. list_all (satisfiedAt successes) s \<and> together s) (us_documentSets u)
      in \<lparr>uc_index = i, uc_mandatory = us_mandatory u, uc_purposeHints = us_purposeHints u,
          uc_success = satisfied \<noteq> [], uc_documentSets = us_documentSets u, uc_matching = satisfied\<rparr>)"

definition matchUseCases :: "useCase list \<Rightarrow> bool list \<Rightarrow> (nat list \<Rightarrow> bool) \<Rightarrow> useCaseMatch list \<times> bool" where
  "matchUseCases useCases successes together =
     (let matches = map (matchUseCase successes together) (enumerate 0 useCases)
      in (matches, list_all (\<lambda>u. \<not> uc_mandatory u \<or> uc_success u) matches \<and> list_ex uc_success matches))"

text \<open>A use case with the document set that answers it.\<close>

type_synonym chosenSet = "nat \<times> nat list"

definition preferredSets :: "(nat list \<Rightarrow> nat) \<Rightarrow> useCaseMatch \<Rightarrow> chosenSet list" where
  "preferredSets documentsOf u = map (\<lambda>s. (uc_index u, s)) (sort_key (\<lambda>s. - int (documentsOf s)) (uc_matching u))"

definition docRequestsIn :: "chosenSet list \<Rightarrow> nat list" where
  "docRequestsIn chosen = concat (map snd chosen)"

fun searchSets :: "(nat list \<Rightarrow> bool) \<Rightarrow> (useCaseMatch \<Rightarrow> chosenSet list) \<Rightarrow> useCaseMatch list \<Rightarrow> chosenSet list \<Rightarrow> chosenSet list option"
and trySets :: "(nat list \<Rightarrow> bool) \<Rightarrow> (useCaseMatch \<Rightarrow> chosenSet list) \<Rightarrow> useCaseMatch list \<Rightarrow> chosenSet list \<Rightarrow> chosenSet list \<Rightarrow> chosenSet list option" where
  "searchSets together preferred [] chosen = Some chosen"
| "searchSets together preferred (u # us) chosen = trySets together preferred us chosen (preferred u)"
| "trySets together preferred us chosen [] = None"
| "trySets together preferred us chosen (option # rest) =
     (if \<not> together (docRequestsIn (chosen @ [option])) then trySets together preferred us chosen rest
      else case searchSets together preferred us (chosen @ [option]) of
          Some found \<Rightarrow> Some found
        | None \<Rightarrow> trySets together preferred us chosen rest)"

definition addOptional :: "(nat list \<Rightarrow> bool) \<Rightarrow> (useCaseMatch \<Rightarrow> chosenSet list) \<Rightarrow> chosenSet list \<Rightarrow> useCaseMatch \<Rightarrow> chosenSet list" where
  "addOptional together preferred chosen u =
     (if uc_mandatory u then chosen
      else case List.find (\<lambda>option. together (docRequestsIn chosen @ snd option)) (preferred u) of
          Some option \<Rightarrow> chosen @ [option]
        | None \<Rightarrow> chosen)"

definition chooseDocumentSets :: "useCaseMatch list \<Rightarrow> (nat list \<Rightarrow> bool) \<Rightarrow> (nat list \<Rightarrow> nat) \<Rightarrow> chosenSet list option" where
  "chooseDocumentSets useCases together documentsOf =
     (let preferences = newMap (map (\<lambda>u. (uc_index u, preferredSets documentsOf u)) useCases);
          preferred = (\<lambda>u. getList preferences (uc_index u))
      in case searchSets together preferred (filter uc_mandatory useCases) [] of
           None \<Rightarrow> None
         | Some found \<Rightarrow> (let chosen = sort_key fst (foldl (addOptional together preferred) found useCases)
             in if chosen \<noteq> [] then Some chosen else None))"

section \<open>Matching a response\<close>

datatype togetherFailure = UseCasesNotTogether | DocRequestsNotTogether

record deviceMatch =
  mt_success :: bool
  mt_source :: useCasesSource
  mt_useCases :: "useCaseMatch list"
  mt_docRequests :: "docRequestMatch list"
  mt_unrequested :: "(nat \<times> string) list"
  mt_answered :: "chosenSet list"
  mt_attributed :: "(nat \<times> nat list) list"
  mt_reason :: "togetherFailure option"

definition pushDocRequest :: "nat list list \<Rightarrow> nat \<times> nat \<Rightarrow> nat list list" where
  "pushDocRequest docRequestsOf entry =
     (if snd entry < length docRequestsOf
      then docRequestsOf[snd entry := docRequestsOf ! snd entry @ [fst entry]] else docRequestsOf)"

text \<open>Per document the doc requests it answers, from the documents each doc request is answered by.\<close>

definition docRequestsOfDocuments :: "nat \<Rightarrow> (nat \<times> nat list) list \<Rightarrow> nat list list" where
  "docRequestsOfDocuments count byDocRequest = foldl pushDocRequest (replicate count [])
     (concat (map (\<lambda>(i, ds). map (\<lambda>d. (i, d)) ds) (sort_key fst byDocRequest)))"

definition documentsOfSet :: "docRequestCandidates list \<Rightarrow> nat list \<Rightarrow> nat" where
  "documentsOfSet all s = card (set (concat (map (\<lambda>i. if i < length all then dr_candidates (all ! i) else []) s)))"

definition responseMatches :: "(bytes \<Rightarrow> string option) \<Rightarrow> bytes list option list option \<Rightarrow> (nat \<times> docRequestOptions) list \<Rightarrow>
    document list \<Rightarrow> deviceRequest \<Rightarrow> documentMatch list list" where
  "responseMatches keyIdentifier certificateChains opts documents request =
     map (documentMatches keyIdentifier certificateChains opts documents) (enumerate 0 (dv_docRequests request))"

definition responseCandidates :: "(bytes \<Rightarrow> string option) \<Rightarrow> bytes list option list option \<Rightarrow> (nat \<times> docRequestOptions) list \<Rightarrow>
    document list \<Rightarrow> deviceRequest \<Rightarrow> docRequestCandidates list" where
  "responseCandidates keyIdentifier certificateChains opts documents request =
     map2 candidatesFor (enumerate 0 (dv_docRequests request)) (responseMatches keyIdentifier certificateChains opts documents request)"

definition docRequestResults :: "(bytes \<Rightarrow> string option) \<Rightarrow> bytes list option list option \<Rightarrow> (nat \<times> docRequestOptions) list \<Rightarrow>
    document list \<Rightarrow> deviceRequest \<Rightarrow> docRequestMatch list" where
  "docRequestResults keyIdentifier certificateChains opts documents request =
     (let all = responseCandidates keyIdentifier certificateChains opts documents request
      in map (docRequestResult (createAttribution all) all)
           (zip (enumerate 0 (dv_docRequests request)) (responseMatches keyIdentifier certificateChains opts documents request)))"

definition unrequestedDocuments :: "deviceRequest \<Rightarrow> document list \<Rightarrow> (nat \<times> string) list" where
  "unrequestedDocuments request documents =
     concat (map (\<lambda>(i, d). if do_docType d \<in> set (map rq_docType (dv_docRequests request)) then [] else [(i, do_docType d)])
       (enumerate 0 documents))"

text \<open>The result, a failure when no document sets were chosen.\<close>

definition concludeMatch :: "useCasesSource \<Rightarrow> useCaseMatch list \<Rightarrow> bool \<Rightarrow> docRequestMatch list \<Rightarrow> (nat \<times> string) list \<Rightarrow>
    chosenSet list option \<Rightarrow> (nat \<times> nat list) list \<Rightarrow> deviceMatch" where
  "concludeMatch source useCases satisfied docRequests unrequested chosen attributed =
     (let result = \<lparr>mt_success = False, mt_source = source, mt_useCases = useCases, mt_docRequests = docRequests,
            mt_unrequested = unrequested, mt_answered = (case chosen of None \<Rightarrow> [] | Some c \<Rightarrow> c),
            mt_attributed = attributed, mt_reason = None\<rparr>
      in if chosen = None
         then result\<lparr>mt_reason := if satisfied then Some UseCasesNotTogether
             else if source = AllDocRequests \<and> list_all rm_success docRequests then Some DocRequestsNotTogether else None\<rparr>
         else if source \<noteq> AllDocRequests then result\<lparr>mt_success := True\<rparr>
         else result\<lparr>mt_success := True, mt_docRequests := filter rm_success docRequests\<rparr>)"

definition matchDeviceRequest :: "(bytes \<Rightarrow> string option) \<Rightarrow> deviceRequest \<Rightarrow> document list \<Rightarrow> matchOptions \<Rightarrow>
    bytes list option list option \<Rightarrow> matchOptionsError + deviceMatch" where
  "matchDeviceRequest keyIdentifier request documents opts certificateChains =
     bindR (indexDocRequestOptions request opts) (\<lambda>docRequestOptions.
       (let all = responseCandidates keyIdentifier certificateChains docRequestOptions documents request;
            a = createAttribution all;
            docRequests = docRequestResults keyIdentifier certificateChains docRequestOptions documents request;
            (source, resolved) = resolveUseCases request (mo_alternatives opts);
            (useCases, satisfied) = matchUseCases resolved (map rm_success docRequests) (canAnswerUncached a);
            chosen = (if satisfied then chooseDocumentSets useCases (canAnswerUncached a) (documentsOfSet all) else None);
            byDocRequest = answer a (docRequestsIn (case chosen of None \<Rightarrow> [] | Some c \<Rightarrow> c))
        in Inr (concludeMatch source useCases satisfied docRequests (unrequestedDocuments request documents) chosen
             (enumerate 0 (docRequestsOfDocuments (length documents) byDocRequest)))))"

section \<open>Matching the credentials of a holder\<close>

record holderCredential =
  hd_issuerSigned :: issuerSigned
  hd_deviceNamespaces :: "deviceNamespaces option"

record credentialMatch =
  cd_index :: nat
  cd_success :: bool
  cd_docType :: docTypeResult
  cd_issuer :: "bool option"
  cd_claims :: claimsOutcome

record holderDocRequestMatch =
  hr_index :: nat
  hr_docType :: string
  hr_success :: bool
  hr_valid :: "credentialMatch list"
  hr_failed :: "credentialMatch list"
  hr_invalid :: bool

record holderMatch =
  hm_success :: bool
  hm_source :: useCasesSource
  hm_useCases :: "useCaseMatch list"
  hm_docRequests :: "holderDocRequestMatch list"

definition holderContext :: "docRequest \<Rightarrow> holderCredential \<Rightarrow> matchContext" where
  "holderContext request credential =
     \<lparr>mc_mode = Holder, mc_elements = [],
      mc_available = collectElements (hd_issuerSigned credential) (hd_deviceNamespaces credential),
      mc_keyAuthorizations = is_keyAuthorizations (hd_issuerSigned credential),
      mc_alternatives = alternativesOf request\<rparr>"

definition matchCredential :: "(bytes \<Rightarrow> string option) \<Rightarrow> docRequest \<Rightarrow> nat \<times> holderCredential \<Rightarrow> credentialMatch" where
  "matchCredential keyIdentifier request entry =
     (let (i, credential) = entry;
          docType = (if is_docType (hd_issuerSigned credential) = rq_docType request then DocTypeOk (rq_docType request)
            else OtherSignedDocType (is_docType (hd_issuerSigned credential)));
          issuer = matchIssuer keyIdentifier (issuersOf request) (is_certificateChain (hd_issuerSigned credential));
          result = toClaimsMatchResult (fst (matchElements (holderContext request credential) (rq_namespaces request)))
      in \<lparr>cd_index = i, cd_success = docTypeOk docType \<and> cr_success result \<and> issuer \<noteq> Some False,
          cd_docType = docType, cd_issuer = issuer, cd_claims = result\<rparr>)"

definition matchHolderDocRequest :: "(bytes \<Rightarrow> string option) \<Rightarrow> holderCredential list \<Rightarrow> nat \<times> docRequest \<Rightarrow> holderDocRequestMatch" where
  "matchHolderDocRequest keyIdentifier credentials entry =
     (let (i, request) = entry;
          ms = map (matchCredential keyIdentifier request) (enumerate 0 credentials);
          valid = filter cd_success ms; failed = filter (\<lambda>m. \<not> cd_success m) ms;
          base = \<lparr>hr_index = i, hr_docType = rq_docType request, hr_success = False, hr_valid = [], hr_failed = [], hr_invalid = False\<rparr>
      in if findAgeOverRequestLimitViolations (rq_namespaces request) \<noteq> [] then base\<lparr>hr_invalid := True\<rparr>
         else base\<lparr>hr_success := valid \<noteq> [], hr_valid := valid, hr_failed := failed\<rparr>)"

definition matchCredentialsToDeviceRequest :: "(bytes \<Rightarrow> string option) \<Rightarrow> deviceRequest \<Rightarrow> holderCredential list \<Rightarrow> bool \<Rightarrow> holderMatch" where
  "matchCredentialsToDeviceRequest keyIdentifier request credentials alternatives =
     (let docRequests = map (matchHolderDocRequest keyIdentifier credentials) (enumerate 0 (dv_docRequests request));
          (source, resolved) = resolveUseCases request alternatives;
          (useCases, satisfied) = matchUseCases resolved (map hr_success docRequests) (\<lambda>s. True)
      in \<lparr>hm_success = satisfied, hm_source = source, hm_useCases = useCases,
          hm_docRequests = if satisfied \<and> source = AllDocRequests then filter hr_success docRequests else docRequests\<rparr>)"

end
