(* ===== verification/MaximumMatching.thy ===== *)
theory MaximumMatching imports Attribution "HOL-Library.Multiset" "HOL-Library.Transitive_Closure_Table" begin

text \<open>
  Kuhn's algorithm finds a maximum matching, and the documents that the search from those left out reaches
  are the ones that some maximum matching leaves out. A failed search visits doc requests that are taken by
  documents with no neighbour outside them, which stays so in every later search; counting these gives the
  bound on all matchings.
\<close>

section \<open>Matchings\<close>

definition matching :: "(nat \<Rightarrow> nat list) \<Rightarrow> nat set \<Rightarrow> (nat \<times> nat) set \<Rightarrow> bool" where
  "matching nb D M \<longleftrightarrow> inj_on fst M \<and> inj_on snd M \<and> (\<forall>(d, r) \<in> M. d \<in> D \<and> r \<in> set (nb d))"

definition maximum :: "(nat \<Rightarrow> nat list) \<Rightarrow> nat set \<Rightarrow> (nat \<times> nat) set \<Rightarrow> bool" where
  "maximum nb D M \<longleftrightarrow> matching nb D M \<and> (\<forall>N. matching nb D N \<longrightarrow> card N \<le> card M)"

lemma matching_edge: "matching nb D M \<Longrightarrow> (d, r) \<in> M \<Longrightarrow> d \<in> D \<and> r \<in> set (nb d)"
  unfolding matching_def by blast

lemma matching_inj: "matching nb D M \<Longrightarrow> inj_on fst M" "matching nb D M \<Longrightarrow> inj_on snd M"
  unfolding matching_def by blast+

lemma matching_fun:
  "matching nb D M \<Longrightarrow> (d, r) \<in> M \<Longrightarrow> (d, s) \<in> M \<Longrightarrow> r = s"
  "matching nb D M \<Longrightarrow> (d, r) \<in> M \<Longrightarrow> (e, r) \<in> M \<Longrightarrow> d = e"
  unfolding matching_def inj_on_def by fastforce+

lemma matchingI:
  "inj_on fst M \<Longrightarrow> inj_on snd M \<Longrightarrow> (\<And>d r. (d, r) \<in> M \<Longrightarrow> d \<in> D \<and> r \<in> set (nb d)) \<Longrightarrow> matching nb D M"
  unfolding matching_def by blast

lemma matching_finite: "matching nb D M \<Longrightarrow> finite D \<Longrightarrow> finite M"
  unfolding matching_def by (rule finite_imageD [of fst], rule finite_subset [of _ D]) auto

text \<open>The documents of \<open>B\<close> whose neighbours are all in \<open>V\<close> can be matched at most to all of \<open>V\<close>.\<close>

lemma matching_blocked:
  assumes "matching nb D M" "finite D" "finite V" "\<And>b. b \<in> B \<Longrightarrow> set (nb b) \<subseteq> V"
  shows "card M \<le> card (D - B) + card V"
proof -
  let ?in = "{p \<in> M. fst p \<in> B}" and ?out = "{p \<in> M. fst p \<notin> B}"
  have inj: "inj_on fst ?out" "inj_on snd ?in" using assms(1) by (auto simp: matching_def intro: inj_on_subset)
  have edge: "fst p \<in> D \<and> snd p \<in> set (nb (fst p))" if "p \<in> M" for p using assms(1) that by (auto simp: matching_def)
  have "snd ` ?in \<subseteq> V"
  proof
    fix r assume "r \<in> snd ` ?in"
    then obtain p where "p \<in> M" "fst p \<in> B" "r = snd p" by blast
    then show "r \<in> V" using edge [of p] assms(4) [of "fst p"] by blast
  qed
  then have i: "card ?in \<le> card V" by (rule card_inj_on_le [OF inj(2) _ assms(3)])
  have "fst ` ?out \<subseteq> D - B" using edge by blast
  then have o: "card ?out \<le> card (D - B)" by (rule card_inj_on_le [OF inj(1)]) (simp add: assms(2))
  have "card M = card (?in \<union> ?out)" by (rule arg_cong [of _ _ card]) auto
  also have "\<dots> \<le> card ?in + card ?out" by (rule card_Un_le)
  finally show ?thesis using i o by linarith
qed

section \<open>Augmenting\<close>

text \<open>Doc requests that are taken, and whose documents have no neighbour outside them.\<close>

definition shut :: "(nat \<Rightarrow> nat list) \<Rightarrow> (nat \<times> nat) list \<Rightarrow> nat set \<Rightarrow> bool" where
  "shut nb t V \<longleftrightarrow> (\<forall>r \<in> V. \<exists>d. map_of t r = Some d \<and> set (nb d) \<subseteq> V)"

lemma find_untaken:
  "List.find (\<lambda>r. map_of t r = None) rs = Some f \<Longrightarrow> f \<in> set rs \<and> f \<notin> fst ` set t"
  by (auto simp: find_Some_iff map_of_eq_None_iff)

lemma find_taken: "List.find (\<lambda>r. map_of t r = None) rs = None \<longleftrightarrow> set rs \<subseteq> fst ` set t"
  by (auto simp: find_None_iff map_of_eq_None_iff)

lemma try_cases [consumes 1, case_names skip untaken moved rest]:
  assumes "tryNeighbours nb d (r # rs) t v = (ok, t', v')"
  obtains "r \<in> set v" "tryNeighbours nb d rs t v = (ok, t', v')"
  | "r \<notin> set v" "map_of t r = None" "tryNeighbours nb d rs t (r # v) = (ok, t', v')"
  | current t1 where "r \<notin> set v" "map_of t r = Some current" "augment nb current t (r # v) = (True, t1, v')"
      "ok" "t' = AList.update r d t1"
  | current v1 where "r \<notin> set v" "map_of t r = Some current" "augment nb current t (r # v) = (False, t, v1)"
      "tryNeighbours nb d rs t v1 = (ok, t', v')"
proof (cases "r \<in> set v")
  case False
  show ?thesis
  proof (cases "map_of t r")
    case (Some current)
    obtain b t1 v1 where inner: "augment nb current t (r # v) = (b, t1, v1)" by (cases "augment nb current t (r # v)") auto
    show ?thesis
    proof (cases b)
      case True
      then show ?thesis using assms False Some inner that(3) [of current t1] by auto
    next
      case no: False
      then have "t1 = t" using augment_False(1) inner by simp
      then show ?thesis using assms False Some inner no that(4) [of current v1] by auto
    qed
  qed (use assms False that(2) in auto)
qed (use assms that(1) in auto)

text \<open>When it fails, the doc requests visited are taken, by documents whose neighbours were visited too.\<close>

definition explored :: "(nat \<Rightarrow> nat list) \<Rightarrow> (nat \<times> nat) list \<Rightarrow> nat list \<Rightarrow> nat list \<Rightarrow> bool" where
  "explored nb t v v' \<longleftrightarrow> set v \<subseteq> set v' \<and> set v' \<subseteq> set v \<union> fst ` set t
     \<and> (\<forall>r \<in> set v' - set v. \<exists>d. map_of t r = Some d \<and> set (nb d) \<subseteq> set v')"

lemma explored_move:
  assumes "explored nb t (r # v) v1" "map_of t r = Some c" "set (nb c) \<subseteq> set v1" "explored nb t v1 v'"
  shows "explored nb t v v'"
proof -
  have "r \<in> fst ` set t" using assms(2) by (metis domI dom_map_of_conv_image_fst)
  moreover have "\<exists>d. map_of t s = Some d \<and> set (nb d) \<subseteq> set v'" if "s \<in> set v'" "s \<notin> set v" for s
  proof (cases "s \<in> set v1")
    case True
    have "\<exists>d. map_of t s = Some d \<and> set (nb d) \<subseteq> set v1"
      using assms(1-3) that(2) True by (cases "s = r") (auto simp: explored_def)
    then show ?thesis using assms(4) by (auto simp: explored_def)
  next
    case False
    then show ?thesis using assms(4) that by (auto simp: explored_def)
  qed
  ultimately show ?thesis using assms(1,4) by (auto simp: explored_def)
qed

lemma augment_fails:
  "augment nb d t v = (False, t', v') \<Longrightarrow> explored nb t v v' \<and> set (nb d) \<subseteq> set v'"
  "tryNeighbours nb d rs t v = (False, t', v') \<Longrightarrow> set rs \<subseteq> fst ` set t \<Longrightarrow> explored nb t v v' \<and> set rs \<subseteq> set v'"
proof (induction nb d t v and nb d rs t v arbitrary: t' v' and t' v' rule: augment_tryNeighbours.induct)
  case (1 nb d t v)
  then show ?case by (auto simp: find_taken split: option.splits)
next
  case (2 nb d t v)
  then show ?case by (simp add: explored_def)
next
  case (3 nb d r rs t v)
  from "3.prems"(1) show ?case
  proof (cases rule: try_cases)
    case skip
    then show ?thesis using 3 by (auto simp: explored_def)
  next
    case untaken
    then show ?thesis using "3.prems" by (auto simp: map_of_eq_None_iff)
  next
    case (rest current v1)
    have e: "explored nb t (r # v) v1" "set (nb current) \<subseteq> set v1"
      using "3.IH"(3) [OF rest(1,2,3)] by auto
    have f: "explored nb t v1 v' \<and> set rs \<subseteq> set v'"
      using "3.IH"(4) [OF rest(1,2) rest(3) [symmetric] refl refl rest(4)] "3.prems"(2) by auto
    have "r \<in> set v'" using e(1) f by (auto simp: explored_def)
    then show ?thesis using explored_move [OF e(1) rest(2) e(2)] f by auto
  qed simp
qed

text \<open>When augmenting succeeds, one document more is in, no visited doc request has moved, and every doc
  request is taken by a document it is a neighbour of.\<close>

lemma update_new: "k \<notin> fst ` set al \<Longrightarrow> AList.update k v al = al @ [(k, v)]"
  by (induction al) auto

lemma mset_update_old:
  "distinct (map fst al) \<Longrightarrow> map_of al k = Some w \<Longrightarrow>
     add_mset w (mset (map snd (AList.update k v al))) = add_mset v (mset (map snd al))"
  by (induction al) (auto split: if_splits simp: add_mset_commute)

definition grows :: "(nat \<Rightarrow> nat list) \<Rightarrow> nat \<Rightarrow> (nat \<times> nat) list \<Rightarrow> nat list \<Rightarrow> (nat \<times> nat) list \<Rightarrow> bool" where
  "grows nb d t v t' \<longleftrightarrow> distinct (map fst t') \<and> (\<forall>r \<in> set v. map_of t' r = map_of t r)
     \<and> mset (map snd t') = add_mset d (mset (map snd t))
     \<and> (\<forall>(r, x) \<in> set t'. (r, x) \<in> set t \<or> r \<in> set (nb x))"

lemma grows_free:
  assumes "distinct (map fst t)" "set v \<subseteq> fst ` set t" "r \<in> set (nb d)" "r \<notin> fst ` set t"
  shows "grows nb d t v (AList.update r d t)"
proof -
  have "map_of (t @ [(r, d)]) s = map_of t s" if "s \<in> set v" for s
    using assms(2,4) that by (auto simp: map_add_def split: option.splits)
  then show ?thesis using assms by (auto simp: grows_def update_new)
qed

lemma grows_move:
  assumes "distinct (map fst t)" "map_of t r = Some c" "r \<notin> set v" "r \<in> set (nb d)" "grows nb c t (r # v) t'"
  shows "grows nb d t v (AList.update r d t')"
proof -
  have g: "distinct (map fst t')" "\<forall>s \<in> set (r # v). map_of t' s = map_of t s" "mset (map snd t') = add_mset c (mset (map snd t))"
    "\<forall>(s, x) \<in> set t'. (s, x) \<in> set t \<or> s \<in> set (nb x)"
    using assms(5) by (auto simp: grows_def)
  have "add_mset c (mset (map snd (AList.update r d t'))) = add_mset d (add_mset c (mset (map snd t)))"
    using mset_update_old [of t' r c d] g(1,2,3) assms(2) by simp
  then have "mset (map snd (AList.update r d t')) = add_mset d (mset (map snd t))" by (simp add: add_mset_commute)
  moreover have "(s, x) \<in> set t \<or> s \<in> set (nb x)" if "(s, x) \<in> set (AList.update r d t')" for s x
  proof (cases "s = r")
    case True
    then have "x = d" using that g(1) by (metis distinct_update map_of_eq_Some_iff update_Some_unfold)
    then show ?thesis using True assms(4) by simp
  next
    case False
    then have "(s, x) \<in> set t'" using that g(1)
      by (metis distinct_update map_of_eq_Some_iff update_Some_unfold)
    then show ?thesis using g(4) by auto
  qed
  ultimately show ?thesis using g(1,2) assms(3) by (auto simp: grows_def distinct_update update_conv')
qed

lemma augment_grows:
  "augment nb d t v = (True, t', v') \<Longrightarrow> distinct (map fst t) \<Longrightarrow> set v \<subseteq> fst ` set t \<Longrightarrow> grows nb d t v t'"
  "tryNeighbours nb d rs t v = (True, t', v') \<Longrightarrow> distinct (map fst t) \<Longrightarrow> set v \<subseteq> fst ` set t \<Longrightarrow>
     set rs \<subseteq> fst ` set t \<Longrightarrow> set rs \<subseteq> set (nb d) \<Longrightarrow> grows nb d t v t'"
proof (induction nb d t v and nb d rs t v arbitrary: t' v' and t' v' rule: augment_tryNeighbours.induct)
  case (1 nb d t v)
  show ?case
  proof (cases "List.find (\<lambda>r. map_of t r = None) (nb d)")
    case None
    then have "set (nb d) \<subseteq> fst ` set t" by (simp add: find_taken)
    then show ?thesis using 1 None by auto
  next
    case (Some f)
    then show ?thesis using 1 grows_free [of t v f nb d] find_untaken [OF Some] by auto
  qed
next
  case (2 nb d t v)
  then show ?case by simp
next
  case (3 nb d r rs t v)
  have r: "map_of t r \<noteq> None" using "3.prems" by (auto simp: map_of_eq_None_iff)
  from "3.prems"(1) show ?case
  proof (cases rule: try_cases)
    case skip
    then show ?thesis using 3 by auto
  next
    case untaken
    then show ?thesis using r by simp
  next
    case (moved current t1)
    have "grows nb current t (r # v) t1" using "3.IH"(3) [OF moved(1,2,3)] "3.prems" by auto
    then show ?thesis using grows_move [of t r current v nb d t1] moved "3.prems" by auto
  next
    case (rest current v1)
    have v1: "set v1 \<subseteq> fst ` set t" "set v \<subseteq> set v1"
      using augment_fails(1) [OF rest(3)] "3.prems" by (auto simp: explored_def)
    have "grows nb d t v1 t'"
      using "3.IH"(4) [OF rest(1,2) rest(3) [symmetric] refl refl rest(4)] "3.prems" v1 by auto
    then show ?thesis using v1(2) by (auto simp: grows_def)
  qed
qed

text \<open>Doc requests that are shut are of no use and stay as they are.\<close>

lemma augment_shut:
  "shut nb t V \<Longrightarrow> set (nb d) \<subseteq> V \<Longrightarrow> \<exists>v'. augment nb d t v = (False, t, v')"
  "shut nb t V \<Longrightarrow> set rs \<subseteq> V \<Longrightarrow> \<exists>v'. tryNeighbours nb d rs t v = (False, t, v')"
proof (induction nb d t v and nb d rs t v rule: augment_tryNeighbours.induct)
  case (1 nb d t v)
  then have "set (nb d) \<subseteq> fst ` set t" by (force simp: shut_def dest: map_of_SomeD)
  then have "List.find (\<lambda>r. map_of t r = None) (nb d) = None" by (simp add: find_taken)
  then show ?case using 1 by simp
next
  case (2 nb d t v)
  then show ?case by simp
next
  case (3 nb d r rs t v)
  show ?case
  proof (cases "r \<in> set v")
    case True
    then show ?thesis using 3 by simp
  next
    case False
    obtain c where c: "map_of t r = Some c" "set (nb c) \<subseteq> V" using "3.prems" by (auto simp: shut_def)
    obtain v1 where v1: "augment nb c t (r # v) = (False, t, v1)" using "3.IH"(3) [OF False c(1)] "3.prems" c by auto
    show ?thesis using "3.IH"(4) [OF False c(1) v1 [symmetric] refl refl] "3.prems" False c v1 by auto
  qed
qed

lemma augment_avoids:
  "augment nb d t v = (True, t', v') \<Longrightarrow> shut nb t V \<Longrightarrow> r \<in> V \<Longrightarrow> map_of t' r = map_of t r"
  "tryNeighbours nb d rs t v = (True, t', v') \<Longrightarrow> shut nb t V \<Longrightarrow> r \<in> V \<Longrightarrow> map_of t' r = map_of t r"
proof (induction nb d t v and nb d rs t v arbitrary: t' v' and t' v' rule: augment_tryNeighbours.induct)
  case (1 nb d t v)
  have taken: "map_of t r \<noteq> None" using "1.prems" by (auto simp: shut_def)
  show ?case
  proof (cases "List.find (\<lambda>r. map_of t r = None) (nb d)")
    case None
    then have "tryNeighbours nb d (nb d) t v = (True, t', v')" using "1.prems"(1) by simp
    then show ?thesis by (rule "1.IH" [OF None _ "1.prems"(2,3)])
  next
    case (Some f)
    then have "map_of t f = None" using find_untaken [OF Some] by (simp add: map_of_eq_None_iff)
    then have "f \<noteq> r" using taken by auto
    then show ?thesis using "1.prems"(1) Some by (auto simp: update_conv')
  qed
next
  case (2 nb d t v)
  then show ?case by simp
next
  case (3 nb d s rs t v)
  from "3.prems"(1) show ?case
  proof (cases rule: try_cases)
    case skip
    then show ?thesis by (intro "3.IH"(1) "3.prems")
  next
    case untaken
    then show ?thesis by (intro "3.IH"(2) "3.prems")
  next
    case (moved current t1)
    have "s \<notin> V"
    proof
      assume "s \<in> V"
      then have "\<exists>d. map_of t s = Some d \<and> set (nb d) \<subseteq> V" using "3.prems"(2) unfolding shut_def by blast
      then have "set (nb current) \<subseteq> V" using moved(2) by simp
      then show False using augment_shut(1) [OF "3.prems"(2), of current "s # v"] moved(3) by auto
    qed
    then have "s \<noteq> r" using "3.prems"(3) by auto
    then show ?thesis using "3.IH"(3) [OF moved(1,2,3) "3.prems"(2,3)] moved(5) by (simp add: update_conv')
  next
    case (rest current v1)
    show ?thesis by (rule "3.IH"(4) [OF rest(1,2) rest(3) [symmetric] refl refl rest(4) "3.prems"(2,3)])
  qed
qed

section \<open>The algorithm finds a maximum matching\<close>

declare augment.simps [simp del]

text \<open>The state after some documents: \<open>U\<close> are those that could not be matched, and their neighbours are shut.\<close>

definition matched :: "(nat \<Rightarrow> nat list) \<Rightarrow> nat list \<Rightarrow> (nat \<times> nat) list \<Rightarrow> bool" where
  "matched nb ds t \<longleftrightarrow> distinct (map fst t) \<and> (\<forall>(r, d) \<in> set t. r \<in> set (nb d))
     \<and> (\<exists>U V. mset ds = mset (map snd t) + U \<and> shut nb t V \<and> (\<forall>d \<in># U. set (nb d) \<subseteq> V))"

lemma shut_mono: "shut nb t V \<Longrightarrow> shut nb t W \<Longrightarrow> shut nb t (V \<union> W)"
  unfolding shut_def by (meson UnE le_supI1 le_supI2)

lemma matched_augment:
  assumes "matched nb ds t"
  shows "matched nb (ds @ [d]) (fst (snd (augment nb d t [])))"
proof -
  obtain U V where t: "distinct (map fst t)" "\<forall>(r, d) \<in> set t. r \<in> set (nb d)"
    and u: "mset ds = mset (map snd t) + U" "shut nb t V" "\<forall>d \<in># U. set (nb d) \<subseteq> V"
    using assms by (auto simp: matched_def)
  obtain ok t' v' where a: "augment nb d t [] = (ok, t', v')" by (cases "augment nb d t []") auto
  show ?thesis
  proof (cases ok)
    case True
    then have g: "grows nb d t [] t'" using augment_grows(1) a t(1) by simp
    have "map_of t' r = map_of t r" if "r \<in> V" for r using augment_avoids(1) a True u(2) that by simp
    then have "shut nb t' V" using u(2) by (simp add: shut_def)
    moreover have "\<forall>(r, d) \<in> set t'. r \<in> set (nb d)" using g t(2) by (fastforce simp: grows_def)
    moreover have "mset (ds @ [d]) = mset (map snd t') + U" using g u(1) by (simp add: grows_def)
    ultimately show ?thesis using g u(3) a unfolding matched_def grows_def by auto
  next
    case False
    then have "t' = t" "explored nb t [] v'" "set (nb d) \<subseteq> set v'"
      using augment_False(1) [of nb d t "[]"] augment_fails(1) [of nb d t "[]"] a by auto
    then have "shut nb t (set v')" by (auto simp: explored_def shut_def)
    then have "shut nb t (V \<union> set v')" by (rule shut_mono [OF u(2)])
    moreover have "mset (ds @ [d]) = mset (map snd t) + add_mset d U" using u(1) by simp
    moreover have "\<forall>x \<in># add_mset d U. set (nb x) \<subseteq> V \<union> set v'" using u(3) \<open>set (nb d) \<subseteq> set v'\<close> by auto
    ultimately show ?thesis using t a \<open>t' = t\<close> unfolding matched_def by fastforce
  qed
qed

lemma matched_all: "matched nb ds (foldl (\<lambda>t d. fst (snd (augment nb d t []))) [] ds)"
proof (induction ds rule: rev_induct)
  case Nil
  show ?case by (auto simp: matched_def shut_def)
next
  case (snoc d ds)
  then show ?case by (simp add: matched_augment)
qed

lemma newMap_distinct: "distinct (map fst m) \<Longrightarrow> newMap m = m"
proof -
  have "distinct (map fst (a @ m)) \<Longrightarrow> foldl (\<lambda>m kv. AList.update (fst kv) (snd kv) m) a m = a @ m" for a
  proof (induction m arbitrary: a)
    case (Cons kv m)
    then have "AList.update (fst kv) (snd kv) a = a @ [kv]" by (auto simp: update_new)
    then show ?case using Cons by simp
  qed simp
  then show "distinct (map fst m) \<Longrightarrow> newMap m = m" by (simp add: newMap_def)
qed

lemma swapped_simps [simp]: "map fst (swapped m) = map snd m" "map snd (swapped m) = map fst m"
  "set (swapped m) = prod.swap ` set m" "length (swapped m) = length m" "swapped (swapped m) = m"
  by (induction m) (auto simp: swapped_def)

lemma maximumMatching_spec:
  assumes "distinct ds"
  shows "maximum nb (set ds) (set (maximumMatching ds nb))" "distinct (map fst (maximumMatching ds nb))"
    "distinct (map snd (maximumMatching ds nb))"
proof -
  let ?t = "foldl (\<lambda>t d. fst (snd (augment nb d t []))) [] ds"
  obtain U V where t: "distinct (map fst ?t)" "\<forall>(r, d) \<in> set ?t. r \<in> set (nb d)"
    and u: "mset ds = mset (map snd ?t) + U" "shut nb ?t V" "\<forall>d \<in># U. set (nb d) \<subseteq> V"
    using matched_all [of nb ds] unfolding matched_def by blast
  obtain us where us: "mset us = U" by (metis ex_mset)
  then have "mset ds = mset (map snd ?t @ us)" using u(1) by simp
  then have "distinct (map snd ?t @ us)" "set ds = set (map snd ?t @ us)" "length ds = length (map snd ?t @ us)"
    using assms mset_eq_imp_distinct_iff mset_eq_setD mset_eq_length by blast+
  then have du: "distinct (map snd ?t)" "set us \<inter> set (map snd ?t) = {}" "distinct us"
    and ds: "set ds = set (map snd ?t) \<union> set us" "length ds = length ?t + length us" by auto
  have U: "set_mset U = set us" using us by auto
  have M: "maximumMatching ds nb = swapped ?t"
    using du(1) by (simp add: maximumMatching_def newMap_distinct)
  show "distinct (map fst (maximumMatching ds nb))" "distinct (map snd (maximumMatching ds nb))"
    using M du(1) t(1) by simp_all
  have dist: "distinct (map fst (swapped ?t))" "distinct (map snd (swapped ?t))" using du(1) t(1) by simp_all
  have "d \<in> set ds \<and> r \<in> set (nb d)" if "(d, r) \<in> set (swapped ?t)" for d r
  proof -
    have "(r, d) \<in> set ?t" using that by auto
    then show ?thesis using t(2) ds(1) by force
  qed
  then have inM: "matching nb (set ds) (set (swapped ?t))"
    using dist by (intro matchingI) (simp_all only: distinct_map)
  let ?owned = "snd ` {p \<in> set ?t. fst p \<in> V}"
  have dom: "V = fst ` {p \<in> set ?t. fst p \<in> V}" using u(2) by (force simp: shut_def dest: map_of_SomeD)
  then have "V \<subseteq> fst ` set ?t" by blast
  then have V: "finite V" by (rule finite_subset) simp
  have "inj_on fst {p \<in> set ?t. fst p \<in> V}" "inj_on snd {p \<in> set ?t. fst p \<in> V}"
    using t(1) du(1) by (auto simp: distinct_map intro: inj_on_subset)
  then have "card ?owned = card (fst ` {p \<in> set ?t. fst p \<in> V})" by (simp only: card_image)
  then have owned: "card ?owned = card V" by (simp only: dom [symmetric])
  have sub: "set us \<union> ?owned \<subseteq> set ds" "set us \<inter> ?owned = {}" using ds du(2) by auto
  have "card (set us \<union> ?owned) = length us + card V" using du(3) owned sub(2) by (simp add: card_Un_disjoint distinct_card)
  then have "card (set ds - (set us \<union> ?owned)) + card V + length us = length ds"
    using card_Diff_subset [OF _ sub(1)] card_mono [OF _ sub(1)] assms by (simp add: distinct_card)
  then have len: "card (set ds - (set us \<union> ?owned)) + card V = length ?t" using ds(2) by simp
  have "set (nb d) \<subseteq> V" if mem: "d \<in> set us \<union> ?owned" for d
  proof (cases "d \<in> set us")
    case True
    then show ?thesis using u(3) U by simp
  next
    case False
    then obtain r where "(r, d) \<in> set ?t" "r \<in> V" using mem by auto
    moreover from this have "map_of ?t r = Some d" using t(1) by simp
    moreover have "\<exists>x. map_of ?t r = Some x \<and> set (nb x) \<subseteq> V" using u(2) \<open>r \<in> V\<close> unfolding shut_def by blast
    ultimately show ?thesis by (simp only:) blast
  qed
  then have "card N \<le> length ?t" if "matching nb (set ds) N" for N
    using matching_blocked [OF that List.finite_set V, of "set us \<union> ?owned"] len by (simp only:)
  moreover have "card (set (swapped ?t)) = length ?t" using dist(1) unfolding distinct_map by (simp only: distinct_card swapped_simps(4))
  ultimately show "maximum nb (set ds) (set (maximumMatching ds nb))" using M inM by (simp add: maximum_def)
qed

section \<open>The documents some maximum matching leaves out\<close>

text \<open>From a document to one that takes a neighbour of it.\<close>

definition alternates :: "(nat \<Rightarrow> nat list) \<Rightarrow> (nat \<times> nat) set \<Rightarrow> nat \<Rightarrow> nat \<Rightarrow> bool" where
  "alternates nb M d e \<longleftrightarrow> (\<exists>r \<in> set (nb d). (e, r) \<in> M)"

text \<open>Along a path from a document left out, each document can take the doc request of the next one.\<close>

lemma matching_shift:
  assumes "matching nb D M" "d \<in> D" "d \<notin> fst ` M" "r \<in> set (nb d)" "(e, r) \<in> M" "finite M"
  shows "matching nb D (insert (d, r) (M - {(e, r)}))" "card (insert (d, r) (M - {(e, r)})) = card M"
    "e \<notin> fst ` insert (d, r) (M - {(e, r)})" "snd ` insert (d, r) (M - {(e, r)}) = snd ` M"
proof -
  have inj: "inj_on fst M" "inj_on snd M" using assms(1) by (auto simp: matching_def)
  have "x = e" if "(x, r) \<in> M" for x using inj_onD [OF inj(2), of "(x, r)" "(e, r)"] that assms(5) by simp
  then have r: "r \<notin> snd ` (M - {(e, r)})" by force
  have "s = r" if "(e, s) \<in> M" for s using inj_onD [OF inj(1), of "(e, s)" "(e, r)"] that assms(5) by simp
  then have e: "e \<notin> fst ` (M - {(e, r)})" by force
  show "matching nb D (insert (d, r) (M - {(e, r)}))"
  proof (rule matchingI)
    show "inj_on fst (insert (d, r) (M - {(e, r)}))" using inj(1) assms(3) by (auto simp: inj_on_def)
    show "inj_on snd (insert (d, r) (M - {(e, r)}))" using inj_on_subset [OF inj(2), of "M - {(e, r)}"] r by auto
    show "\<And>a s. (a, s) \<in> insert (d, r) (M - {(e, r)}) \<Longrightarrow> a \<in> D \<and> s \<in> set (nb a)"
      using matching_edge [OF assms(1)] assms(2,4) by blast
  qed
  have "(d, r) \<notin> M - {(e, r)}" using assms(3) by force
  then have "card (insert (d, r) (M - {(e, r)})) = Suc (card (M - {(e, r)}))" using assms(6) by simp
  then show "card (insert (d, r) (M - {(e, r)})) = card M" using card.remove [OF assms(6,5)] by simp
  have "e \<noteq> d" using assms(3,5) by force
  then show "e \<notin> fst ` insert (d, r) (M - {(e, r)})" using e by simp
  show "snd ` insert (d, r) (M - {(e, r)}) = snd ` M" using assms(5) by force
qed

lemma path_flip:
  assumes "rtrancl_path (alternates nb M0) d ds e" "distinct (d # ds)" "finite D"
    "matching nb D M" "d \<in> D" "d \<notin> fst ` M" "\<And>x r. x \<in> set ds \<Longrightarrow> (x, r) \<in> M0 \<Longrightarrow> (x, r) \<in> M"
  shows "e \<in> D \<and> (\<exists>N. matching nb D N \<and> card N = card M \<and> e \<notin> fst ` N \<and> snd ` N = snd ` M)"
  using assms
proof (induction arbitrary: M rule: rtrancl_path.induct)
  case (base d)
  then show ?case by auto
next
  case (step d x xs e)
  obtain r where r: "r \<in> set (nb d)" "(x, r) \<in> M" using step.hyps(1) step.prems(6) [of x] by (auto simp: alternates_def)
  let ?M = "insert (d, r) (M - {(x, r)})"
  note shift = matching_shift [OF step.prems(3,4,5) r matching_finite [OF step.prems(3,2)]]
  have "x \<in> D" using step.prems(3) r(2) by (auto simp: matching_def)
  moreover have "(y, s) \<in> ?M" if "y \<in> set xs" "(y, s) \<in> M0" for y s
    using step.prems(1) step.prems(6) [of y s] that by auto
  ultimately have "e \<in> D \<and> (\<exists>N. matching nb D N \<and> card N = card ?M \<and> e \<notin> fst ` N \<and> snd ` N = snd ` ?M)"
    using step.IH [of ?M] step.prems(1,2) shift(1,3) by auto
  then show ?case using shift(2,4) by simp
qed

lemma left_out:
  assumes "finite D" "maximum nb D M" "u \<in> D" "u \<notin> fst ` M" "(alternates nb M)\<^sup>*\<^sup>* u e"
  obtains N where "maximum nb D N" "e \<in> D" "e \<notin> fst ` N" "snd ` N = snd ` M" "card N = card M"
proof -
  obtain xs where "rtrancl_path (alternates nb M) u xs e" using assms(5) by (auto simp: rtranclp_eq_rtrancl_path)
  then obtain xs where xs: "rtrancl_path (alternates nb M) u xs e" "distinct (u # xs)" by (rule rtrancl_path_distinct)
  have "e \<in> D \<and> (\<exists>N. matching nb D N \<and> card N = card M \<and> e \<notin> fst ` N \<and> snd ` N = snd ` M)"
    by (rule path_flip [OF xs assms(1) _ assms(3,4)]) (use assms(2) in \<open>auto simp: maximum_def\<close>)
  then show ?thesis using that assms(2) by (auto simp: maximum_def)
qed

text \<open>The documents reached from those left out are the ones a maximum matching can leave out.\<close>

definition reachedFrom :: "(nat \<Rightarrow> nat list) \<Rightarrow> nat set \<Rightarrow> (nat \<times> nat) set \<Rightarrow> nat set" where
  "reachedFrom nb D M = {e. \<exists>u \<in> D - fst ` M. (alternates nb M)\<^sup>*\<^sup>* u e}"

lemma reached_taken:
  assumes "finite D" "maximum nb D M" "e \<in> reachedFrom nb D M" "r \<in> set (nb e)"
  shows "\<exists>d \<in> reachedFrom nb D M. (d, r) \<in> M"
proof -
  obtain u where u: "u \<in> D" "u \<notin> fst ` M" "(alternates nb M)\<^sup>*\<^sup>* u e" using assms(3) by (auto simp: reachedFrom_def)
  obtain N where N: "maximum nb D N" "e \<in> D" "e \<notin> fst ` N" "snd ` N = snd ` M" using left_out [OF assms(1,2) u] by metis
  have m: "matching nb D N" "finite N" using N(1) matching_finite assms(1) by (auto simp: maximum_def)
  have "r \<in> snd ` N"
  proof (rule ccontr)
    assume "r \<notin> snd ` N"
    then have "matching nb D (insert (e, r) N)" using m(1) N(2,3) assms(4) unfolding matching_def inj_on_insert by force
    moreover have "card (insert (e, r) N) = Suc (card N)" using m(2) N(3) by (force intro: card_insert_disjoint)
    ultimately show False using N(1) by (auto simp: maximum_def)
  qed
  then obtain d where d: "(d, r) \<in> M" using N(4) by force
  then have "alternates nb M e d" using assms(4) by (auto simp: alternates_def)
  then have "d \<in> reachedFrom nb D M" using u by (auto simp: reachedFrom_def intro: rtranclp.rtrancl_into_rtrancl)
  then show ?thesis using d by auto
qed

lemma reachedFrom_iff:
  assumes "finite D" "maximum nb D M"
  shows "reachedFrom nb D M = {d \<in> D. \<exists>N. maximum nb D N \<and> d \<notin> fst ` N}"
proof
  show "reachedFrom nb D M \<subseteq> {d \<in> D. \<exists>N. maximum nb D N \<and> d \<notin> fst ` N}"
  proof
    fix e assume "e \<in> reachedFrom nb D M"
    then obtain u where "u \<in> D" "u \<notin> fst ` M" "(alternates nb M)\<^sup>*\<^sup>* u e" by (auto simp: reachedFrom_def)
    then obtain N where "maximum nb D N" "e \<in> D" "e \<notin> fst ` N" using left_out [OF assms] by metis
    then show "e \<in> {d \<in> D. \<exists>N. maximum nb D N \<and> d \<notin> fst ` N}" by blast
  qed
  show "{d \<in> D. \<exists>N. maximum nb D N \<and> d \<notin> fst ` N} \<subseteq> reachedFrom nb D M"
  proof
    fix d assume "d \<in> {d \<in> D. \<exists>N. maximum nb D N \<and> d \<notin> fst ` N}"
    then obtain N where d: "d \<in> D" "maximum nb D N" "d \<notin> fst ` N" by auto
    let ?R = "reachedFrom nb D M" let ?V = "\<Union>e \<in> ?R. set (nb e)"
    have m: "matching nb D M" "finite M" using assms matching_finite by (auto simp: maximum_def)
    let ?in = "{p \<in> M. fst p \<in> ?R}" and ?out = "{p \<in> M. fst p \<notin> ?R}"
    have inj: "inj_on snd ?in" "inj_on fst ?out" using matching_inj [OF m(1)] by (auto intro: inj_on_subset)
    have V: "?V = snd ` ?in"
    proof (intro equalityI subsetI)
      fix r assume "r \<in> ?V"
      then obtain e where "e \<in> ?R" "r \<in> set (nb e)" by blast
      then obtain d where "d \<in> ?R" "(d, r) \<in> M" using reached_taken [OF assms] by blast
      then show "r \<in> snd ` ?in" by force
    next
      fix r assume "r \<in> snd ` ?in"
      then obtain d where "d \<in> ?R" "(d, r) \<in> M" by force
      then show "r \<in> ?V" using matching_edge [OF m(1)] by blast
    qed
    have D: "D - ?R = fst ` ?out"
    proof (intro equalityI subsetI)
      fix d assume "d \<in> D - ?R"
      then have "d \<in> fst ` M" by (auto simp: reachedFrom_def)
      then show "d \<in> fst ` ?out" using \<open>d \<in> D - ?R\<close> by force
    next
      fix d assume "d \<in> fst ` ?out"
      then show "d \<in> D - ?R" using matching_edge [OF m(1)] by force
    qed
    have "card M = card (?in \<union> ?out)" by (rule arg_cong [of _ _ card]) blast
    also have "\<dots> = card ?in + card ?out" using m(2) by (intro card_Un_disjoint) auto
    also have "\<dots> = card ?V + card (D - ?R)" unfolding V D by (simp only: card_image [OF inj(1)] card_image [OF inj(2)])
    finally have cM: "card M = card ?V + card (D - ?R)" .
    show "d \<in> ?R"
    proof (rule ccontr)
      assume "d \<notin> ?R"
      then have less: "card (D - {d} - ?R) < card (D - ?R)" using d(1) assms(1) by (intro psubset_card_mono) auto
      have N: "matching nb D N" using d(2) by (simp add: maximum_def)
      have "matching nb (D - {d}) N" using matching_inj [OF N] matching_edge [OF N] d(3) by (intro matchingI) force+
      then have "card N \<le> card (D - {d} - ?R) + card ?V"
        by (rule matching_blocked) (use V m(2) assms(1) in auto)
      moreover have "card M \<le> card N" using d(2) m(1) by (simp add: maximum_def)
      ultimately show False using less cM by simp
    qed
  qed
qed

section \<open>The search for excess documents\<close>

definition nextOf :: "(nat \<times> nat) list \<Rightarrow> nat list \<Rightarrow> nat set" where
  "nextOf takes rs = {d. \<exists>r \<in> set rs. map_of takes r = Some d}"

lemma reachSteps:
  "set (fst s) = set (snd s) \<Longrightarrow> (let s' = foldl (reachStep takes) s rs in
     set (fst s') = set (snd s') \<and> set (snd s') = set (snd s) \<union> nextOf takes rs \<and> (\<exists>zs. fst s' = fst s @ zs))"
proof (induction rs arbitrary: s)
  case (Cons r rs)
  have "set (fst (reachStep takes s r)) = set (snd (reachStep takes s r))" using Cons.prems by (simp add: reachStep_def split: option.split)
  moreover have "set (snd (reachStep takes s r)) = set (snd s) \<union> nextOf takes [r]"
    by (auto simp: reachStep_def nextOf_def split: option.split)
  moreover have "\<exists>zs. fst (reachStep takes s r) = fst s @ zs" by (simp add: reachStep_def split: option.split)
  moreover have "nextOf takes (r # rs) = nextOf takes [r] \<union> nextOf takes rs" by (auto simp: nextOf_def)
  ultimately show ?case using Cons.IH [of "reachStep takes s r"] by (auto simp: Let_def)
qed (simp add: nextOf_def)

lemma reachLoop_spec:
  assumes "set (fst s) = set (snd s)" "\<And>i. i < p \<Longrightarrow> i < length (fst s) \<Longrightarrow> nextOf takes (getList cands (fst s ! i)) \<subseteq> set (snd s)"
    "\<And>d. d \<in> set (snd s) \<Longrightarrow> Q d" "\<And>d e. Q d \<Longrightarrow> e \<in> nextOf takes (getList cands d) \<Longrightarrow> Q e"
  shows "set (snd s) \<subseteq> set (reachLoop takes cands p s)
     \<and> (\<forall>d \<in> set (reachLoop takes cands p s). Q d \<and> nextOf takes (getList cands d) \<subseteq> set (reachLoop takes cands p s))"
  using assms
proof (induction takes cands p s rule: reachLoop.induct)
  case (1 takes cands p s)
  show ?case
  proof (cases "p < length (fst s)")
    case True
    let ?s = "foldl (reachStep takes) s (getList cands (fst s ! p))"
    obtain zs where s: "set (fst ?s) = set (snd ?s)" "set (snd ?s) = set (snd s) \<union> nextOf takes (getList cands (fst s ! p))"
      "fst ?s = fst s @ zs" using reachSteps [OF "1.prems"(1)] unfolding Let_def by blast
    have closed: "nextOf takes (getList cands (fst ?s ! i)) \<subseteq> set (snd ?s)" if "i < Suc p" "i < length (fst ?s)" for i
    proof (cases "i = p")
      case False
      then have "nextOf takes (getList cands (fst s ! i)) \<subseteq> set (snd s)" using "1.prems"(2) that(1) True by simp
      then show ?thesis using s(2,3) that(1) True by (auto simp: nth_append)
    qed (use s(2,3) True in \<open>simp add: nth_append\<close>)
    have "fst s ! p \<in> set (snd s)" using True "1.prems"(1) by (metis nth_mem)
    then have Q: "Q d" if "d \<in> set (snd ?s)" for d using that s(2) "1.prems"(3,4) by blast
    have eq: "reachLoop takes cands p s = reachLoop takes cands (Suc p) ?s" using True by (subst reachLoop.simps) simp
    have "set (snd ?s) \<subseteq> set (reachLoop takes cands (Suc p) ?s) \<and> (\<forall>d \<in> set (reachLoop takes cands (Suc p) ?s).
        Q d \<and> nextOf takes (getList cands d) \<subseteq> set (reachLoop takes cands (Suc p) ?s))"
      by (rule "1.IH" [OF True s(1)]) (fact closed, fact Q, fact "1.prems"(4))
    then show ?thesis unfolding eq using s(2) by blast
  next
    case False
    have "nextOf takes (getList cands d) \<subseteq> set (snd s)" if "d \<in> set (snd s)" for d
    proof -
      have "d \<in> set (fst s)" using that "1.prems"(1) by blast
      then obtain i where i: "i < length (fst s)" "d = fst s ! i" unfolding in_set_conv_nth by blast
      then have "i < p" using False by linarith
      then show ?thesis unfolding i(2) by (rule "1.prems"(2) [OF _ i(1)])
    qed
    moreover have "reachLoop takes cands p s = snd s" using False by (subst reachLoop.simps) simp
    ultimately show ?thesis using "1.prems"(3) by simp
  qed
qed

lemma map_of_swapped: "distinct (map snd M) \<Longrightarrow> map_of (swapped M) r = Some d \<longleftrightarrow> (d, r) \<in> set M"
  by (subst map_of_eq_Some_iff) auto

lemma findExcess_documents:
  assumes "distinct ds" "maximum (getList cands) (set ds) (set M)" "distinct (map snd M)"
  shows "set (ex_documents (findExcess ds cands M)) = reachedFrom (getList cands) (set ds) (set M)"
proof -
  let ?takes = "newMap (swapped M)" and ?queue = "filter (\<lambda>d. map_of M d = None) ds"
  let ?R = "reachLoop ?takes cands 0 (?queue, remdups ?queue)" and ?step = "alternates (getList cands) (set M)"
  have nextOf: "nextOf ?takes (getList cands d) = {e. ?step d e}" for d
    using assms(3) by (simp add: newMap_distinct nextOf_def map_of_swapped alternates_def)
  have queue: "set ?queue = set ds - fst ` set M" by (auto simp: map_of_eq_None_iff)
  have spec: "set ?queue \<subseteq> set ?R \<and> (\<forall>d \<in> set ?R. (\<exists>u \<in> set ?queue. ?step\<^sup>*\<^sup>* u d) \<and> {e. ?step d e} \<subseteq> set ?R)"
  proof -
    have "\<exists>u \<in> set ?queue. ?step\<^sup>*\<^sup>* u e" if "\<exists>u \<in> set ?queue. ?step\<^sup>*\<^sup>* u d" "e \<in> nextOf ?takes (getList cands d)" for d e
      using that unfolding nextOf by (blast intro: rtranclp.rtrancl_into_rtrancl)
    moreover have "\<exists>u \<in> set ?queue. ?step\<^sup>*\<^sup>* u d" if "d \<in> set ?queue" for d using that by blast
    ultimately show ?thesis
      using reachLoop_spec [of "(?queue, remdups ?queue)" 0 ?takes cands "\<lambda>e. \<exists>u \<in> set ?queue. ?step\<^sup>*\<^sup>* u e"]
      unfolding nextOf fst_conv snd_conv set_remdups by blast
  qed
  have "e \<in> set ?R" if "?step\<^sup>*\<^sup>* u e" "u \<in> set ?queue" for u e
    using that(1) by (induction rule: rtranclp_induct) (use spec that(2) in blast)+
  then have "set ?R = reachedFrom (getList cands) (set ds) (set M)"
    using spec unfolding reachedFrom_def queue by blast
  then show ?thesis by (simp add: findExcess_def Let_def)
qed

end
