(* ===== verification/AttributionLaws.thy ===== *)
theory AttributionLaws imports MaximumMatching begin

text \<open>
  What the attribution of documents to doc requests means: the excess documents are those that some maximum
  matching leaves out, whatever the order of the documents, and a set of doc requests can be answered exactly
  when the documents can be shared out for it.
\<close>

section \<open>Attribution\<close>

definition wfRequests :: "docRequestCandidates list \<Rightarrow> bool" where
  "wfRequests drs \<longleftrightarrow> distinct (map dr_index drs) \<and> (\<forall>dr \<in> set drs. set (dr_valid dr) \<subseteq> set (dr_candidates dr))"

text \<open>The doc requests a document may answer, and the documents that only doc requests with
  \<open>uniqueDocSetRequired\<close> may answer.\<close>

definition requestsFor :: "docRequestCandidates list \<Rightarrow> nat \<Rightarrow> nat list" where
  "requestsFor drs d = map dr_index (filter (\<lambda>dr. d \<in> set (dr_candidates dr)) drs)"

definition onlyUnique :: "docRequestCandidates list \<Rightarrow> nat set" where
  "onlyUnique drs = {d. requestsFor drs d \<noteq> [] \<and> (\<forall>dr \<in> set drs. d \<in> set (dr_candidates dr) \<longrightarrow> dr_unique dr)}"

lemma getList_update: "getList (AList.update k v m) l = (if l = k then v else getList m l)"
  by (simp add: getList_def update_conv')

lemma addCandidates:
  "set (getList (foldl (addCandidate i) m ds) d) = set (getList m d) \<union> (if d \<in> set ds then {i} else {})"
  "distinct (map fst m) \<Longrightarrow> distinct (map fst (foldl (addCandidate i) m ds))"
  "fst ` set (foldl (addCandidate i) m ds) = fst ` set m \<union> set ds"
  by (induction ds arbitrary: m) (auto simp: addCandidate_def getList_update distinct_update dom_update)

lemma candidatesMap_spec:
  "set (getList (candidatesMap drs) d) = set (requestsFor drs d)"
  "distinct (map fst (candidatesMap drs))"
  "fst ` set (candidatesMap drs) = (\<Union>dr \<in> set drs. set (dr_candidates dr))"
proof -
  have "set (getList (foldl (\<lambda>m dr. foldl (addCandidate (dr_index dr)) m (dr_candidates dr)) m drs) d)
      = set (getList m d) \<union> set (requestsFor drs d)" for m
    by (induction drs arbitrary: m) (auto simp: addCandidates requestsFor_def)
  then show "set (getList (candidatesMap drs) d) = set (requestsFor drs d)" by (simp add: candidatesMap_def getList_def)
  have "distinct (map fst m) \<Longrightarrow> distinct (map fst (foldl (\<lambda>m dr. foldl (addCandidate (dr_index dr)) m (dr_candidates dr)) m drs))" for m
    by (induction drs arbitrary: m) (auto simp: addCandidates)
  then show "distinct (map fst (candidatesMap drs))" by (simp add: candidatesMap_def)
  have "fst ` set (foldl (\<lambda>m dr. foldl (addCandidate (dr_index dr)) m (dr_candidates dr)) m drs)
      = fst ` set m \<union> (\<Union>dr \<in> set drs. set (dr_candidates dr))" for m
    by (induction drs arbitrary: m) (auto simp: addCandidates)
  then show "fst ` set (candidatesMap drs) = (\<Union>dr \<in> set drs. set (dr_candidates dr))" by (simp add: candidatesMap_def)
qed

text \<open>\<open>onlyUnique\<close> as the code computes it.\<close>

definition onlyUniqueList :: "docRequestCandidates list \<Rightarrow> nat list" where
  "onlyUniqueList drs = sort (map fst (filter (\<lambda>c. list_all (needsUnique (newMap (map (\<lambda>dr. (dr_index dr, dr)) drs))) (snd c)) (candidatesMap drs)))"

lemma byIndex_map:
  assumes "distinct (map dr_index drs)"
  shows "map_of (newMap (map (\<lambda>dr. (dr_index dr, f dr)) drs)) i = Some x \<longleftrightarrow> (\<exists>dr \<in> set drs. dr_index dr = i \<and> x = f dr)"
proof -
  have "distinct (map fst (map (\<lambda>dr. (dr_index dr, f dr)) drs))" using assms by (simp add: comp_def)
  then show ?thesis by (auto simp: newMap_distinct)
qed

lemma index_unique:
  "distinct (map dr_index drs) \<Longrightarrow> dr \<in> set drs \<Longrightarrow> dr' \<in> set drs \<Longrightarrow> dr_index dr = dr_index dr' \<Longrightarrow> dr = dr'"
  unfolding distinct_map by (blast dest: inj_onD)

lemma onlyUniqueList_spec:
  assumes "distinct (map dr_index drs)"
  shows "set (onlyUniqueList drs) = onlyUnique drs" "distinct (onlyUniqueList drs)"
proof -
  note m = candidatesMap_spec [of drs]
  have needs: "needsUnique (newMap (map (\<lambda>dr. (dr_index dr, dr)) drs)) (dr_index dr) = dr_unique dr" if "dr \<in> set drs" for dr
  proof -
    have "map_of (newMap (map (\<lambda>dr. (dr_index dr, dr)) drs)) (dr_index dr) = Some dr"
      using byIndex_map [OF assms, of "\<lambda>dr. dr" "dr_index dr" dr] that by simp
    then show ?thesis by (simp add: needsUnique_def)
  qed
  have "d \<in> set (onlyUniqueList drs) \<longleftrightarrow> d \<in> onlyUnique drs" for d
  proof -
    have entry: "(d, is) \<in> set (candidatesMap drs) \<Longrightarrow> set is = set (requestsFor drs d)" for "is"
      using m(1) [of d] m(2) by (simp add: getList_def)
    have key: "d \<in> fst ` set (candidatesMap drs) \<longleftrightarrow> requestsFor drs d \<noteq> []"
      unfolding m(3) by (auto simp: requestsFor_def filter_empty_conv)
    have "d \<in> set (onlyUniqueList drs) \<longleftrightarrow> (\<exists>is. (d, is) \<in> set (candidatesMap drs) \<and>
        (\<forall>i \<in> set is. needsUnique (newMap (map (\<lambda>dr. (dr_index dr, dr)) drs)) i))"
      by (force simp: onlyUniqueList_def list_all_iff)
    also have "\<dots> \<longleftrightarrow> d \<in> fst ` set (candidatesMap drs) \<and>
        (\<forall>i \<in> set (requestsFor drs d). needsUnique (newMap (map (\<lambda>dr. (dr_index dr, dr)) drs)) i)"
      using entry by force
    also have "\<dots> \<longleftrightarrow> d \<in> onlyUnique drs"
      unfolding key by (auto simp: onlyUnique_def requestsFor_def needs)
    finally show ?thesis .
  qed
  then show "set (onlyUniqueList drs) = onlyUnique drs" by blast
  show "distinct (onlyUniqueList drs)" using m(2) by (simp add: onlyUniqueList_def distinct_map_filter)
qed

lemma finite_onlyUnique: "distinct (map dr_index drs) \<Longrightarrow> finite (onlyUnique drs)"
  using onlyUniqueList_spec(1) by (metis List.finite_set)

lemma maximum_cong: "(\<And>d. set (nb d) = set (nb' d)) \<Longrightarrow> maximum nb D = maximum nb' D"
  by (simp add: maximum_def matching_def fun_eq_iff)

lemma createAttribution_simps:
  "at_requests (createAttribution drs) = drs"
  "at_byIndex (createAttribution drs) = newMap (map (\<lambda>dr. (dr_index dr, dr)) drs)"
  "at_satisfying (createAttribution drs) = newMap (map (\<lambda>dr. (dr_index dr, dr_valid dr)) drs)"
  "at_candidatesOf (createAttribution drs) = candidatesMap drs"
  "at_excess (createAttribution drs) = findExcess (onlyUniqueList drs) (candidatesMap drs)
     (maximumMatching (onlyUniqueList drs) (getList (candidatesMap drs)))"
  "at_remaining (createAttribution drs) = filter (\<lambda>d. d \<notin> set (ex_documents (at_excess (createAttribution drs)))) (onlyUniqueList drs)"
  by (simp_all add: createAttribution_def onlyUniqueList_def Let_def)

abbreviation excessDocuments :: "docRequestCandidates list \<Rightarrow> nat set" where
  "excessDocuments drs \<equiv> set (ex_documents (at_excess (createAttribution drs)))"

abbreviation excessRequests :: "docRequestCandidates list \<Rightarrow> nat set" where
  "excessRequests drs \<equiv> set (ex_requests (at_excess (createAttribution drs)))"

theorem excess_iff:
  assumes "distinct (map dr_index drs)"
  shows "d \<in> excessDocuments drs \<longleftrightarrow>
    d \<in> onlyUnique drs \<and> (\<exists>M. maximum (requestsFor drs) (onlyUnique drs) M \<and> d \<notin> fst ` M)"
proof -
  let ?nb = "getList (candidatesMap drs)"
  note ou = onlyUniqueList_spec [OF assms]
  note mm = maximumMatching_spec [OF ou(2), of ?nb]
  have "excessDocuments drs = reachedFrom ?nb (set (onlyUniqueList drs)) (set (maximumMatching (onlyUniqueList drs) ?nb))"
    unfolding createAttribution_simps by (rule findExcess_documents [OF ou(2) mm(1,3)])
  also have "\<dots> = {d \<in> onlyUnique drs. \<exists>N. maximum ?nb (onlyUnique drs) N \<and> d \<notin> fst ` N}"
    unfolding ou(1) by (rule reachedFrom_iff [OF finite_onlyUnique [OF assms] mm(1) [unfolded ou(1)]])
  also have "maximum ?nb (onlyUnique drs) = maximum (requestsFor drs) (onlyUnique drs)" by (rule maximum_cong, rule candidatesMap_spec)
  finally show ?thesis by simp
qed

lemma excessRequests_eq: "excessRequests drs = (\<Union>d \<in> excessDocuments drs. set (requestsFor drs d))"
  by (simp add: createAttribution_simps findExcess_def Let_def candidatesMap_spec)

text \<open>The documents that need a doc request to themselves can be shared out, so that the doc requests of
  \<open>S\<close> only take documents that satisfy them.\<close>

definition shares :: "docRequestCandidates list \<Rightarrow> nat set \<Rightarrow> (nat \<Rightarrow> nat) \<Rightarrow> bool" where
  "shares drs S f \<longleftrightarrow> inj_on f (onlyUnique drs - excessDocuments drs) \<and>
     (\<forall>d \<in> onlyUnique drs - excessDocuments drs. f d \<notin> excessRequests drs \<and>
        (\<exists>dr \<in> set drs. dr_index dr = f d \<and> d \<in> set (dr_candidates dr) \<and> (f d \<in> S \<longrightarrow> d \<in> set (dr_valid dr))))"

lemma validOf:
  assumes "distinct (map dr_index drs)"
  shows "d \<in> set (getList (at_satisfying (createAttribution drs)) i) \<longleftrightarrow> (\<exists>dr \<in> set drs. dr_index dr = i \<and> d \<in> set (dr_valid dr))"
proof (cases "map_of (at_satisfying (createAttribution drs)) i")
  case None
  then show ?thesis using byIndex_map [OF assms, of dr_valid i] by (auto simp: getList_def createAttribution_simps)
next
  case (Some ds)
  then obtain dr where dr: "dr \<in> set drs" "dr_index dr = i" "ds = dr_valid dr"
    using byIndex_map [OF assms, of dr_valid i] by (auto simp: createAttribution_simps)
  have "dr' = dr" if "dr' \<in> set drs" "dr_index dr' = i" for dr'
    by (rule index_unique [OF assms that(1) dr(1)]) (simp add: that(2) dr(2))
  then have "(\<exists>dr \<in> set drs. dr_index dr = i \<and> d \<in> set (dr_valid dr)) \<longleftrightarrow> d \<in> set (dr_valid dr)" using dr(1,2) by blast
  then show ?thesis using Some dr(3) by (simp add: getList_def)
qed

lemma shareNeighbours_iff:
  assumes "distinct (map dr_index drs)"
  shows "r \<in> set (shareNeighbours (createAttribution drs) S d) \<longleftrightarrow> r \<notin> excessRequests drs \<and>
    (\<exists>dr \<in> set drs. dr_index dr = r \<and> d \<in> set (dr_candidates dr) \<and> (r \<in> set S \<longrightarrow> d \<in> set (dr_valid dr)))"
proof -
  have "dr' = dr" if "dr \<in> set drs" "dr' \<in> set drs" "dr_index dr' = dr_index dr" for dr dr'
    using index_unique [OF assms] that by blast
  then show ?thesis
    unfolding shareNeighbours_def createAttribution_simps(4) set_filter mem_Collect_eq candidatesMap_spec(1) validOf [OF assms]
    by (auto simp: requestsFor_def)
qed

lemma remaining_spec:
  assumes "distinct (map dr_index drs)"
  shows "set (at_remaining (createAttribution drs)) = onlyUnique drs - excessDocuments drs"
    "distinct (at_remaining (createAttribution drs))"
  using onlyUniqueList_spec [OF assms] by (auto simp: createAttribution_simps(6) distinct_filter)

lemma shareOut_Some:
  assumes "distinct (map dr_index drs)" "shareOut (createAttribution drs) S = Some taken"
  shows "fst ` set taken = onlyUnique drs - excessDocuments drs"
    "matching (shareNeighbours (createAttribution drs) S) (onlyUnique drs - excessDocuments drs) (set taken)"
    "distinct (map fst taken)" "distinct (map snd taken)"
proof -
  let ?a = "createAttribution drs"
  note r = remaining_spec [OF assms(1)]
  have t: "taken = maximumMatching (at_remaining ?a) (shareNeighbours ?a S)" "length taken = length (at_remaining ?a)"
    using assms(2) by (auto simp: shareOut_def Let_def split: if_splits)
  note m = maximumMatching_spec [OF r(2), of "shareNeighbours ?a S", folded t(1)]
  show "distinct (map fst taken)" "distinct (map snd taken)" by (fact m)+
  show match: "matching (shareNeighbours ?a S) (onlyUnique drs - excessDocuments drs) (set taken)"
    using m(1) unfolding maximum_def r(1) by blast
  have "card (fst ` set taken) = length (at_remaining ?a)" using distinct_card [OF m(2)] t(2) by simp
  also have "\<dots> = card (onlyUnique drs - excessDocuments drs)" using distinct_card [OF r(2)] r(1) by simp
  finally show "fst ` set taken = onlyUnique drs - excessDocuments drs"
    using match finite_onlyUnique [OF assms(1)] by (intro card_subset_eq) (auto simp: matching_def)
qed

lemma shareOut_iff:
  assumes "distinct (map dr_index drs)"
  shows "shareOut (createAttribution drs) S \<noteq> None \<longleftrightarrow> (\<exists>f. shares drs (set S) f)"
proof
  assume "shareOut (createAttribution drs) S \<noteq> None"
  then obtain taken where taken: "shareOut (createAttribution drs) S = Some taken" by blast
  note s = shareOut_Some [OF assms taken]
  let ?f = "\<lambda>d. the (map_of taken d)"
  have f: "(d, ?f d) \<in> set taken" if d: "d \<in> onlyUnique drs - excessDocuments drs" for d
  proof -
    have "d \<in> fst ` set taken" using d s(1) by blast
    then obtain r where "(d, r) \<in> set taken" by force
    then show ?thesis using s(3) by simp
  qed
  have "inj_on ?f (onlyUnique drs - excessDocuments drs)"
    by (rule inj_onI) (metis f matching_fun(2) [OF s(2)])
  moreover have "?f d \<in> set (shareNeighbours (createAttribution drs) S d)" if "d \<in> onlyUnique drs - excessDocuments drs" for d
    using matching_edge [OF s(2) f [OF that]] by blast
  ultimately have "shares drs (set S) ?f" unfolding shares_def shareNeighbours_iff [OF assms] by blast
  then show "\<exists>f. shares drs (set S) f" by blast
next
  let ?a = "createAttribution drs"
  note r = remaining_spec [OF assms(1)]
  note m = maximumMatching_spec [OF r(2), of "shareNeighbours ?a S"]
  assume "\<exists>f. shares drs (set S) f"
  then obtain f where f: "inj_on f (set (at_remaining ?a))" "\<And>d. d \<in> set (at_remaining ?a) \<Longrightarrow> f d \<in> set (shareNeighbours ?a S d)"
    unfolding shares_def shareNeighbours_iff [OF assms] r(1) by blast
  let ?N = "(\<lambda>d. (d, f d)) ` set (at_remaining ?a)"
  have "matching (shareNeighbours ?a S) (set (at_remaining ?a)) ?N"
    using f by (intro matchingI) (auto simp: inj_on_def)
  then have "card ?N \<le> card (set (maximumMatching (at_remaining ?a) (shareNeighbours ?a S)))"
    using m(1) unfolding maximum_def by blast
  moreover have "card ?N = length (at_remaining ?a)" using r(2) by (simp add: card_image inj_on_def distinct_card)
  moreover have "card (set (maximumMatching (at_remaining ?a) (shareNeighbours ?a S))) = length (maximumMatching (at_remaining ?a) (shareNeighbours ?a S))"
    using m(2) by (simp add: distinct_card distinct_map)
  moreover have "length (maximumMatching (at_remaining ?a) (shareNeighbours ?a S)) \<le> length (at_remaining ?a)"
  proof -
    have "card (fst ` set (maximumMatching (at_remaining ?a) (shareNeighbours ?a S))) \<le> card (set (at_remaining ?a))"
      using m(1) by (intro card_mono) (auto simp: maximum_def matching_def)
    then show ?thesis using distinct_card [OF m(2)] distinct_card [OF r(2)] by simp
  qed
  ultimately show "shareOut ?a S \<noteq> None" by (simp add: shareOut_def Let_def)
qed

theorem canAnswer_iff:
  assumes "distinct (map dr_index drs)"
  shows "canAnswerUncached (createAttribution drs) S \<longleftrightarrow>
    (\<forall>i \<in> set S. i \<notin> excessRequests drs \<and> (\<exists>dr \<in> set drs. dr_index dr = i \<and> dr_valid dr \<noteq> [])) \<and> (\<exists>f. shares drs (set S) f)"
proof -
  have "answerable (createAttribution drs) i \<longleftrightarrow> i \<notin> excessRequests drs \<and> (\<exists>dr \<in> set drs. dr_index dr = i \<and> dr_valid dr \<noteq> [])" for i
  proof (cases "map_of (at_byIndex (createAttribution drs)) i")
    case None
    then show ?thesis using byIndex_map [OF assms, of "\<lambda>dr. dr" i] by (auto simp: answerable_def createAttribution_simps(2))
  next
    case (Some dr)
    then have dr: "dr \<in> set drs" "dr_index dr = i" using byIndex_map [OF assms, of "\<lambda>dr. dr" i] by (auto simp: createAttribution_simps(2))
    have "dr' = dr" if "dr' \<in> set drs" "dr_index dr' = i" for dr'
      by (rule index_unique [OF assms that(1) dr(1)]) (simp add: that(2) dr(2))
    then have "(\<exists>dr \<in> set drs. dr_index dr = i \<and> dr_valid dr \<noteq> []) \<longleftrightarrow> dr_valid dr \<noteq> []" using dr by blast
    then show ?thesis using Some by (auto simp: answerable_def)
  qed
  then show ?thesis by (simp only: canAnswerUncached_def list_all_iff shareOut_iff [OF assms] Ball_def)
qed

lemma canAnswer_mono:
  assumes "distinct (map dr_index drs)" "set S \<subseteq> set T" "canAnswerUncached (createAttribution drs) T"
  shows "canAnswerUncached (createAttribution drs) S"
  using assms(3) subsetD [OF assms(2)] unfolding canAnswer_iff [OF assms(1)] shares_def by meson

lemma canAnswer_set:
  "distinct (map dr_index drs) \<Longrightarrow> set S = set T \<Longrightarrow>
     canAnswerUncached (createAttribution drs) S = canAnswerUncached (createAttribution drs) T"
  by (simp add: canAnswer_iff)

text \<open>Remembering answers changes none: the list of remembered ones only has right ones.\<close>

definition remembered :: "docRequestCandidates list \<Rightarrow> (nat list \<times> bool) list \<Rightarrow> bool" where
  "remembered drs answers \<longleftrightarrow> (\<forall>(key, known) \<in> set answers. known = canAnswerUncached (createAttribution drs) key)"

lemma canAnswer_remembered:
  assumes "distinct (map dr_index drs)" "remembered drs answers"
  shows "fst (canAnswer (createAttribution drs) answers S) = canAnswerUncached (createAttribution drs) S"
    "remembered drs (snd (canAnswer (createAttribution drs) answers S))"
proof -
  let ?a = "createAttribution drs" and ?key = "sort (remdups S)"
  have eq: "canAnswerUncached ?a ?key = canAnswerUncached ?a S" "canAnswerUncached ?a (remdups S) = canAnswerUncached ?a S"
    by (rule canAnswer_set [OF assms(1)], simp)+
  have r: "known = canAnswerUncached ?a key" if "(key, known) \<in> set answers" for key known
    using assms(2) that by (auto simp: remembered_def)
  show "fst (canAnswer ?a answers S) = canAnswerUncached ?a S"
    using r [of ?key] eq by (auto simp: canAnswer_def Let_def split: option.split dest: map_of_SomeD)
  have "set (AList.update ?key (canAnswerUncached ?a (remdups S)) answers) \<subseteq> insert (?key, canAnswerUncached ?a ?key) (set answers)"
    unfolding eq by (induction answers) auto
  then have "remembered drs (AList.update ?key (canAnswerUncached ?a (remdups S)) answers)"
    using r by (fastforce simp: remembered_def)
  then show "remembered drs (snd (canAnswer ?a answers S))"
    using assms(2) by (auto simp: canAnswer_def Let_def split: option.split)
qed

theorem answer_valid:
  assumes "wfRequests drs" "canAnswerUncached (createAttribution drs) S"
  defines "documentsOf \<equiv> getList (answer (createAttribution drs) S)"
  shows "\<forall>dr \<in> set drs. set (documentsOf (dr_index dr)) \<subseteq> set (dr_candidates dr)
       \<and> (dr_unique dr \<longrightarrow> length (documentsOf (dr_index dr)) \<le> 1)
       \<and> (dr_index dr \<in> set S \<longrightarrow> (\<exists>d \<in> set (documentsOf (dr_index dr)). d \<in> set (dr_valid dr)))"
    "\<forall>d \<in> onlyUnique drs - excessDocuments drs. \<exists>dr \<in> set drs. d \<in> set (documentsOf (dr_index dr))"
proof -
  let ?a = "createAttribution drs"
  have w: "distinct (map dr_index drs)" "\<And>dr. dr \<in> set drs \<Longrightarrow> set (dr_valid dr) \<subseteq> set (dr_candidates dr)"
    using assms(1) by (auto simp: wfRequests_def)
  have "canAnswerUncached ?a (remdups S)" using assms(2) canAnswer_set [OF w(1), of "remdups S" S] by simp
  then obtain taken where taken: "shareOut ?a (remdups S) = Some taken" by (auto simp: canAnswerUncached_def)
  note s = shareOut_Some [OF w(1) taken]
  have takes: "map_of (newMap (swapped taken)) r = Some d \<longleftrightarrow> (d, r) \<in> set taken" for d r
    using s(4) by (simp add: newMap_distinct map_of_swapped)
  have docs: "documentsOf (dr_index dr) = answerOf ?a (newMap (swapped taken)) dr" if "dr \<in> set drs" for dr
  proof -
    have "map_of (newMap (map (\<lambda>dr. (dr_index dr, answerOf ?a (newMap (swapped taken)) dr)) drs)) (dr_index dr)
        = Some (answerOf ?a (newMap (swapped taken)) dr)"
      by (subst byIndex_map [OF w(1)]) (use that in blast)
    then show ?thesis by (simp add: documentsOf_def answer_def taken getList_def createAttribution_simps(1))
  qed
  have edge: "r \<notin> excessRequests drs \<and> (\<exists>dr \<in> set drs. dr_index dr = r \<and> d \<in> set (dr_candidates dr) \<and> (r \<in> set S \<longrightarrow> d \<in> set (dr_valid dr)))"
    if "(d, r) \<in> set taken" for d r
    using matching_edge [OF s(2) that] unfolding shareNeighbours_iff [OF w(1)] by simp
  have own: "d \<in> set (dr_candidates dr) \<and> (dr_index dr \<in> set S \<longrightarrow> d \<in> set (dr_valid dr))"
    if o: "dr \<in> set drs" "(d, dr_index dr) \<in> set taken" for d dr
  proof -
    obtain dr' where dr': "dr' \<in> set drs" "dr_index dr' = dr_index dr" "d \<in> set (dr_candidates dr')"
      "dr_index dr \<in> set S \<longrightarrow> d \<in> set (dr_valid dr')" using edge [OF o(2)] by blast
    moreover have "dr = dr'" by (rule index_unique [OF w(1) o(1) dr'(1)]) (simp add: dr'(2))
    ultimately show ?thesis by simp
  qed
  have S: "dr_index dr \<notin> excessRequests drs \<and> dr_valid dr \<noteq> []" if o: "dr \<in> set drs" "dr_index dr \<in> set S" for dr
  proof -
    obtain dr' where dr': "dr' \<in> set drs" "dr_index dr' = dr_index dr" "dr_valid dr' \<noteq> []" "dr_index dr \<notin> excessRequests drs"
      using assms(2) o(2) unfolding canAnswer_iff [OF w(1)] by blast
    moreover have "dr = dr'" by (rule index_unique [OF w(1) o(1) dr'(1)]) (simp add: dr'(2))
    ultimately show ?thesis by simp
  qed
  have take1: "set (take 1 xs) \<subseteq> set xs" "length (take 1 xs) \<le> 1" "xs \<noteq> [] \<Longrightarrow> hd xs \<in> set (take 1 xs)" for xs :: "nat list"
    by (cases xs; simp)+
  show "\<forall>dr \<in> set drs. set (documentsOf (dr_index dr)) \<subseteq> set (dr_candidates dr)
       \<and> (dr_unique dr \<longrightarrow> length (documentsOf (dr_index dr)) \<le> 1)
       \<and> (dr_index dr \<in> set S \<longrightarrow> (\<exists>d \<in> set (documentsOf (dr_index dr)). d \<in> set (dr_valid dr)))"
  proof
    fix dr assume dr: "dr \<in> set drs"
    show "set (documentsOf (dr_index dr)) \<subseteq> set (dr_candidates dr)
       \<and> (dr_unique dr \<longrightarrow> length (documentsOf (dr_index dr)) \<le> 1)
       \<and> (dr_index dr \<in> set S \<longrightarrow> (\<exists>d \<in> set (documentsOf (dr_index dr)). d \<in> set (dr_valid dr)))"
    proof (cases "map_of (newMap (swapped taken)) (dr_index dr)")
      case None
      then show ?thesis using docs [OF dr] w(2) [OF dr] S [OF dr] take1 [of "dr_valid dr"]
        unfolding answerOf_def by (cases "dr_valid dr") auto
    next
      case (Some d)
      then show ?thesis using docs [OF dr] w(2) [OF dr] S [OF dr] own [OF dr, of d] takes [of "dr_index dr" d]
        unfolding answerOf_def by (cases "dr_valid dr") auto
    qed
  qed
  show "\<forall>d \<in> onlyUnique drs - excessDocuments drs. \<exists>dr \<in> set drs. d \<in> set (documentsOf (dr_index dr))"
  proof
    fix d assume d: "d \<in> onlyUnique drs - excessDocuments drs"
    then have "d \<in> fst ` set taken" using s(1) by blast
    then obtain r where r: "(d, r) \<in> set taken" by force
    then obtain dr where dr: "dr \<in> set drs" "dr_index dr = r" "d \<in> set (dr_candidates dr)" "r \<notin> excessRequests drs" using edge by blast
    then have "dr_unique dr" using d by (auto simp: onlyUnique_def)
    then have "documentsOf (dr_index dr) = [d]" using docs [OF dr(1)] takes [of r d] r dr by (simp add: answerOf_def)
    then show "\<exists>dr \<in> set drs. d \<in> set (documentsOf (dr_index dr))" using dr(1) by (intro bexI [of _ dr]) simp_all
  qed
qed

end
