(* ===== verification/DeviceMatchLaws.thy ===== *)
theory DeviceMatchLaws imports ElementLaws DeviceMatch AttributionLaws begin

text \<open>
  What matching a device request means: which documents satisfy a doc request, and that the match succeeds
  exactly when every mandatory use case has a document set that can be answered together with those of the
  others, and at least one use case can be answered.
\<close>

section \<open>Searching document sets\<close>

text \<open>A set that can be answered can be answered with doc requests left out.\<close>

definition shrinks :: "(nat list \<Rightarrow> bool) \<Rightarrow> bool" where
  "shrinks together \<longleftrightarrow> (\<forall>S T. set S \<subseteq> set T \<longrightarrow> together T \<longrightarrow> together S)"

lemma shrinksD: "shrinks together \<Longrightarrow> together T \<Longrightarrow> set S \<subseteq> set T \<Longrightarrow> together S"
  by (auto simp: shrinks_def)

definition picks :: "(useCaseMatch \<Rightarrow> chosenSet list) \<Rightarrow> useCaseMatch list \<Rightarrow> chosenSet list \<Rightarrow> bool" where
  "picks preferred us options \<longleftrightarrow> list_all2 (\<lambda>u option. option \<in> set (preferred u)) us options"

lemma docRequestsIn_append [simp]: "docRequestsIn (a @ b) = docRequestsIn a @ docRequestsIn b"
  by (simp add: docRequestsIn_def)

lemma searchSets_Some:
  "searchSets together preferred us chosen = Some found \<Longrightarrow>
     \<exists>options. found = chosen @ options \<and> picks preferred us options \<and> (us \<noteq> [] \<longrightarrow> together (docRequestsIn found))"
  "trySets together preferred us chosen os = Some found \<Longrightarrow>
     \<exists>option options. option \<in> set os \<and> found = chosen @ option # options \<and> picks preferred us options \<and> together (docRequestsIn found)"
proof (induction together preferred us chosen and together preferred us chosen os arbitrary: found and found rule: searchSets_trySets.induct)
  case (1 together preferred chosen)
  then show ?case by (simp add: picks_def)
next
  case (2 together preferred u us chosen)
  then obtain option options where "option \<in> set (preferred u)" "found = chosen @ option # options"
    "picks preferred us options" "together (docRequestsIn found)" by auto
  then show ?case by (intro exI [of _ "option # options"]) (simp add: picks_def)
next
  case (3 together preferred us chosen)
  then show ?case by simp
next
  case (4 together preferred us chosen option rest)
  show ?case
  proof (cases "together (docRequestsIn (chosen @ [option]))")
    case False
    then show ?thesis using 4 by fastforce
  next
    case True
    show ?thesis
    proof (cases "searchSets together preferred us (chosen @ [option])")
      case None
      then show ?thesis using "4.IH"(3) [of found] "4.prems" True by fastforce
    next
      case (Some f)
      then have f: "f = found" using "4.prems" True by simp
      obtain options where o: "f = (chosen @ [option]) @ options" "picks preferred us options" "us \<noteq> [] \<longrightarrow> together (docRequestsIn f)"
        using "4.IH"(2) Some True by blast
      have "together (docRequestsIn f)" using o True by (cases "us = []") (auto simp: picks_def)
      then show ?thesis using o f by (intro exI [of _ option] exI [of _ options]) simp
    qed
  qed
qed

lemma searchSets_None:
  "searchSets together preferred us chosen = None \<Longrightarrow> shrinks together \<Longrightarrow> picks preferred us options \<Longrightarrow>
     \<not> together (docRequestsIn (chosen @ options))"
  "trySets together preferred us chosen os = None \<Longrightarrow> shrinks together \<Longrightarrow> option \<in> set os \<Longrightarrow> picks preferred us options \<Longrightarrow>
     \<not> together (docRequestsIn (chosen @ option # options))"
proof (induction together preferred us chosen and together preferred us chosen os arbitrary: options and option options rule: searchSets_trySets.induct)
  case (1 together preferred chosen)
  then show ?case by simp
next
  case (2 together preferred u us chosen)
  then obtain option rest where "options = option # rest" "option \<in> set (preferred u)" "picks preferred us rest"
    by (auto simp: picks_def list_all2_Cons1)
  then show ?case using "2.IH" [OF _ "2.prems"(2)] "2.prems"(1) by simp
next
  case (3 together preferred us chosen)
  then show ?case by simp
next
  case (4 together preferred us chosen first rest)
  have rest: "trySets together preferred us chosen rest = None"
    using "4.prems"(1) by (auto split: if_splits option.splits)
  show ?case
  proof (cases "option = first")
    case True
    show ?thesis
    proof (cases "together (docRequestsIn (chosen @ [first]))")
      case False
      have "set (docRequestsIn (chosen @ [first])) \<subseteq> set (docRequestsIn (chosen @ option # options))"
        using True by (auto simp: docRequestsIn_def)
      then show ?thesis using False shrinksD [OF "4.prems"(2)] by blast
    next
      case yes: True
      then have "searchSets together preferred us (chosen @ [first]) = None" using "4.prems"(1) by (auto split: option.splits)
      then show ?thesis using "4.IH"(2) [OF _ _ "4.prems"(2,4)] yes True by simp
    qed
  next
    case False
    then have o: "option \<in> set rest" using "4.prems"(3) by simp
    show ?thesis
    proof (cases "together (docRequestsIn (chosen @ [first]))")
      case True
      then have "searchSets together preferred us (chosen @ [first]) = None" using "4.prems"(1) by (auto split: option.splits)
      then show ?thesis using "4.IH"(3) [OF _ _ rest "4.prems"(2) o "4.prems"(4)] True by simp
    next
      case False
      then show ?thesis using "4.IH"(1) [OF _ rest "4.prems"(2) o "4.prems"(4)] by simp
    qed
  qed
qed

section \<open>Choosing a document set for each use case\<close>

lemma set_preferredSets: "set (preferredSets documentsOf u) = Pair (uc_index u) ` set (uc_matching u)"
  by (simp add: preferredSets_def)

lemma newMap_get:
  assumes "distinct (map f us)" "u \<in> set us"
  shows "getList (newMap (map (\<lambda>u. (f u, g u)) us)) (f u) = g u"
proof -
  have d: "distinct (map fst (map (\<lambda>u. (f u, g u)) us))" using assms(1) by (simp add: comp_def)
  have "map_of (map (\<lambda>u. (f u, g u)) us) (f u) = Some (g u)"
    unfolding map_of_eq_Some_iff [OF d] using assms(2) by auto
  then show ?thesis by (simp add: newMap_distinct [OF d] getList_def)
qed

lemma foldl_addOptional_grows: "chosen \<noteq> [] \<Longrightarrow> foldl (addOptional together preferred) chosen us \<noteq> []"
  by (induction us arbitrary: chosen) (auto simp: addOptional_def split: option.split)

lemma foldl_addOptional:
  assumes "u \<in> set us" "\<not> uc_mandatory u" "option \<in> set (preferred u)" "together (snd option)"
  shows "foldl (addOptional together preferred) chosen us \<noteq> []"
  using assms(1)
proof (induction us arbitrary: chosen)
  case (Cons v us)
  show ?case
  proof (cases "addOptional together preferred chosen v = []")
    case False
    then show ?thesis by (simp add: foldl_addOptional_grows)
  next
    case True
    have "u \<noteq> v"
    proof
      assume "u = v"
      then have "List.find (\<lambda>option. together (docRequestsIn chosen @ snd option)) (preferred v) = None" "chosen = []"
        using True assms(2) by (auto simp: addOptional_def split: option.splits if_splits)
      then show False using assms(3,4) \<open>u = v\<close> by (cases option) (auto simp: find_None_iff docRequestsIn_def)
    qed
    then show ?thesis using Cons True by simp
  qed
qed simp

lemma sort_key_Nil: "sort_key f xs = [] \<longleftrightarrow> xs = []"
  using length_sort [of f xs] by (metis length_0_conv)

definition selects :: "useCaseMatch list \<Rightarrow> (nat \<Rightarrow> nat list) \<Rightarrow> bool" where
  "selects us \<sigma> \<longleftrightarrow> (\<forall>u \<in> set us. uc_mandatory u \<longrightarrow> \<sigma> (uc_index u) \<in> set (uc_matching u))"

definition selected :: "useCaseMatch list \<Rightarrow> (nat \<Rightarrow> nat list) \<Rightarrow> nat list" where
  "selected us \<sigma> = concat (map (\<lambda>u. \<sigma> (uc_index u)) (filter uc_mandatory us))"

lemma chooseDocumentSets_iff:
  assumes shrinks: "shrinks together" and index: "distinct (map uc_index us)"
    and some: "u \<in> set us" "s \<in> set (uc_matching u)" "together s"
  shows "chooseDocumentSets us together documentsOf \<noteq> None \<longleftrightarrow> (\<exists>\<sigma>. selects us \<sigma> \<and> together (selected us \<sigma>))"
proof -
  let ?preferred = "\<lambda>u. getList (newMap (map (\<lambda>u. (uc_index u, preferredSets documentsOf u)) us)) (uc_index u)"
  let ?ms = "filter uc_mandatory us"
  have pref: "set (?preferred v) = Pair (uc_index v) ` set (uc_matching v)" if "v \<in> set us" for v
    by (subst newMap_get [OF index that]) (rule set_preferredSets)
  have "chooseDocumentSets us together documentsOf \<noteq> None \<longleftrightarrow> searchSets together ?preferred ?ms [] \<noteq> None"
  proof (cases "searchSets together ?preferred ?ms []")
    case (Some found)
    have "foldl (addOptional together ?preferred) found us \<noteq> []"
    proof (cases "found = []")
      case True
      then have "?ms = []" using searchSets_Some(1) [OF Some] by (auto simp: picks_def)
      then have "\<not> uc_mandatory u" using some(1) by (auto simp: filter_empty_conv)
      moreover have "(uc_index u, s) \<in> set (?preferred u)" unfolding pref [OF some(1)] using some(2) by blast
      ultimately show ?thesis using foldl_addOptional [OF some(1), of "(uc_index u, s)" ?preferred together found] some(3)
        by (simp only: snd_conv not_True_eq_False simp_thms)
    qed (rule foldl_addOptional_grows)
    then have "sort_key fst (foldl (addOptional together ?preferred) found us) \<noteq> []"
      unfolding sort_key_Nil .
    then show ?thesis unfolding chooseDocumentSets_def Let_def Some by (simp only: option.case if_True) simp
  next
    case None
    then show ?thesis unfolding chooseDocumentSets_def Let_def None by simp
  qed
  also have "\<dots> \<longleftrightarrow> (\<exists>\<sigma>. selects us \<sigma> \<and> together (selected us \<sigma>))"
  proof
    assume "searchSets together ?preferred ?ms [] \<noteq> None"
    then obtain found where found: "searchSets together ?preferred ?ms [] = Some found" by blast
    then have p: "picks ?preferred ?ms found" and t: "?ms \<noteq> [] \<Longrightarrow> together (docRequestsIn found)"
      using searchSets_Some(1) [OF found] by auto
    have fst: "map fst found = map uc_index ?ms" and sets: "\<And>i. i < length ?ms \<Longrightarrow> snd (found ! i) \<in> set (uc_matching (?ms ! i))"
    proof -
      have nth: "fst (found ! i) = uc_index (?ms ! i) \<and> snd (found ! i) \<in> set (uc_matching (?ms ! i))" if "i < length ?ms" for i
      proof -
        have "?ms ! i \<in> set us" using nth_mem [OF that] by auto
        then show ?thesis using list_all2_nthD [OF p [unfolded picks_def] that] pref by auto
      qed
      have len: "length found = length ?ms" using p list_all2_lengthD unfolding picks_def by fastforce
      show "map fst found = map uc_index ?ms" using nth len by (intro nth_equalityI) auto
      show "\<And>i. i < length ?ms \<Longrightarrow> snd (found ! i) \<in> set (uc_matching (?ms ! i))" using nth by blast
    qed
    have d: "distinct (map fst found)" unfolding fst using index by (rule distinct_map_filter)
    define \<sigma> where "\<sigma> i = the (map_of found i)" for i
    have len: "length found = length ?ms" using arg_cong [OF fst, of length] by simp
    have \<sigma>: "\<sigma> (uc_index (?ms ! i)) = snd (found ! i)" if "i < length ?ms" for i
    proof -
      have "fst (found ! i) = uc_index (?ms ! i)" using arg_cong [OF fst, of "\<lambda>xs. xs ! i"] that len by simp
      then have "(uc_index (?ms ! i), snd (found ! i)) \<in> set found" using that len nth_mem [of i found] by (metis prod.collapse)
      then show ?thesis using d by (simp add: \<sigma>_def)
    qed
    have "selects us \<sigma>" unfolding selects_def
    proof (intro ballI impI)
      fix v assume "v \<in> set us" "uc_mandatory v"
      then have "v \<in> set ?ms" by simp
      then obtain i where "i < length ?ms" "v = ?ms ! i" unfolding in_set_conv_nth by blast
      then show "\<sigma> (uc_index v) \<in> set (uc_matching v)" using \<sigma> sets by simp
    qed
    moreover have "map (\<lambda>u. \<sigma> (uc_index u)) ?ms = map snd found" using \<sigma> len by (intro nth_equalityI) auto
    then have "selected us \<sigma> = docRequestsIn found" by (simp add: selected_def docRequestsIn_def)
    moreover have "together (docRequestsIn found)"
    proof (cases "?ms = []")
      case True
      then have "docRequestsIn found = []" using len by (simp add: docRequestsIn_def)
      then show ?thesis using shrinksD [OF shrinks some(3)] by simp
    qed (rule t)
    ultimately show "\<exists>\<sigma>. selects us \<sigma> \<and> together (selected us \<sigma>)" by auto
  next
    assume "\<exists>\<sigma>. selects us \<sigma> \<and> together (selected us \<sigma>)"
    then obtain \<sigma> where \<sigma>: "selects us \<sigma>" "together (selected us \<sigma>)" by blast
    let ?options = "map (\<lambda>u. (uc_index u, \<sigma> (uc_index u))) ?ms"
    have "picks ?preferred ?ms ?options"
      unfolding picks_def using \<sigma>(1) pref by (auto simp: list_all2_conv_all_nth selects_def dest!: nth_mem)
    moreover have "docRequestsIn ([] @ ?options) = selected us \<sigma>" by (simp add: docRequestsIn_def selected_def comp_def)
    ultimately show "searchSets together ?preferred ?ms [] \<noteq> None"
      using searchSets_None(1) [OF _ shrinks, of ?preferred ?ms "[]" ?options] \<sigma>(2) by auto
  qed
  finally show ?thesis .
qed

section \<open>Documents that satisfy a doc request\<close>

lemma matchDocument_fields:
  "dm_success (matchDocument k elements request chain (i, d)) \<longleftrightarrow> docTypeOk (dm_docType (matchDocument k elements request chain (i, d)))
     \<and> cr_success (dm_claims (matchDocument k elements request chain (i, d))) \<and> matchIssuer k (issuersOf request) chain \<noteq> Some False"
  "docTypeOk (dm_docType (matchDocument k elements request chain (i, d))) \<longleftrightarrow>
     do_docType d = rq_docType request \<and> is_docType (do_issuerSigned d) = rq_docType request"
  "dm_claims (matchDocument k elements request chain (i, d))
     = toClaimsMatchResult (fst (matchElements (verifierContext elements request d) (rq_namespaces request)))"
  by (simp_all add: matchDocument_def Let_def case_prod_beta)

lemma dm_success_iff:
  "dm_success (matchDocument keyIdentifier elements request chain (i, d)) \<longleftrightarrow>
     do_docType d = rq_docType request \<and> is_docType (do_issuerSigned d) = rq_docType request
   \<and> matchIssuer keyIdentifier (issuersOf request) chain \<noteq> Some False
   \<and> (\<forall>(n, e, _) \<in> set (requestedElements (rq_namespaces request)).
        elementOptional elements n e \<or> answered (verifierContext elements request d) (n, e))"
proof -
  have v: "mc_mode (verifierContext elements request d) = Verifier" "mc_elements (verifierContext elements request d) = elements"
    by (simp_all add: verifierContext_def)
  show ?thesis unfolding matchDocument_fields verifier_claims [OF v(1)] v(2) by (simp only: conj_ac)
qed

section \<open>The doc requests a response answers\<close>

lemma length_responses [simp]:
  "length (responseMatches k cs opts ds request) = length (dv_docRequests request)"
  "length (responseCandidates k cs opts ds request) = length (dv_docRequests request)"
  "length (docRequestResults k cs opts ds request) = length (dv_docRequests request)"
  by (simp_all add: responseMatches_def responseCandidates_def docRequestResults_def Let_def)

lemma nth_responses:
  assumes "i < length (dv_docRequests request)"
  shows "responseMatches k cs opts ds request ! i = documentMatches k cs opts ds (i, dv_docRequests request ! i)"
    "responseCandidates k cs opts ds request ! i
       = candidatesFor (i, dv_docRequests request ! i) (responseMatches k cs opts ds request ! i)"
    "docRequestResults k cs opts ds request ! i
       = docRequestResult (createAttribution (responseCandidates k cs opts ds request)) (responseCandidates k cs opts ds request)
           ((i, dv_docRequests request ! i), responseMatches k cs opts ds request ! i)"
  using assms by (simp_all add: responseMatches_def responseCandidates_def docRequestResults_def Let_def nth_enumerate_eq)

lemma response_index:
  "map dr_index (responseCandidates k cs opts ds request) = [0..<length (dv_docRequests request)]"
  by (rule nth_equalityI) (simp_all add: nth_responses(2) candidatesFor_def)

lemma dm_success_candidate:
  "dm_success (matchDocument k elements request chain entry) \<Longrightarrow> isCandidate (matchDocument k elements request chain entry)"
  by (cases entry) (auto simp: matchDocument_def isCandidate_def Let_def split: prod.splits if_splits)

lemma response_wf: "wfRequests (responseCandidates k cs opts ds request)"
proof -
  have cand: "dm_success m \<Longrightarrow> isCandidate m" if "m \<in> set (documentMatches k cs opts ds entry)" for m entry
    using that dm_success_candidate by (auto simp: documentMatches_def)
  have "set (dr_valid dr) \<subseteq> set (dr_candidates dr)" if dr: "dr \<in> set (responseCandidates k cs opts ds request)" for dr
  proof -
    obtain i where i: "i < length (dv_docRequests request)" "dr = responseCandidates k cs opts ds request ! i"
      using dr by (auto simp: in_set_conv_nth)
    let ?ms = "documentMatches k cs opts ds (i, dv_docRequests request ! i)"
    have "set (filter dm_success ?ms) \<subseteq> set (filter isCandidate ?ms)" using cand [of _ "(i, dv_docRequests request ! i)"] by auto
    then have "dm_index ` set (filter dm_success ?ms) \<subseteq> dm_index ` set (filter isCandidate ?ms)" by (rule image_mono)
    then show ?thesis unfolding i(2) nth_responses(2) [OF i(1)] nth_responses(1) [OF i(1)] by (simp add: candidatesFor_def)
  qed
  then show ?thesis using response_index [of k cs opts ds request] unfolding wfRequests_def by simp
qed

text \<open>Doc requests that can be answered together: each has a document that satisfies it, none has documents
  too many, and the documents that need a doc request of their own can be shared out.\<close>

definition answeredTogether :: "docRequestCandidates list \<Rightarrow> nat set \<Rightarrow> bool" where
  "answeredTogether drs S \<longleftrightarrow> (\<forall>i \<in> S. i \<notin> excessRequests drs \<and> (\<exists>dr \<in> set drs. dr_index dr = i \<and> dr_valid dr \<noteq> []))
     \<and> (\<exists>f. shares drs S f)"

lemma canAnswer_together:
  "wfRequests drs \<Longrightarrow> canAnswerUncached (createAttribution drs) S \<longleftrightarrow> answeredTogether drs (set S)"
  by (simp add: canAnswer_iff answeredTogether_def wfRequests_def)

lemma canAnswer_shrinks: "wfRequests drs \<Longrightarrow> shrinks (canAnswerUncached (createAttribution drs))"
  unfolding shrinks_def wfRequests_def using canAnswer_mono by blast

lemma answeredTogether_mono: "answeredTogether drs S \<Longrightarrow> T \<subseteq> S \<Longrightarrow> answeredTogether drs T"
proof -
  assume S: "answeredTogether drs S" and T: "T \<subseteq> S"
  obtain f where "shares drs S f" using S by (auto simp: answeredTogether_def)
  then have "shares drs T f" using T unfolding shares_def by blast
  then show "answeredTogether drs T" using S T unfolding answeredTogether_def by blast
qed

text \<open>A doc request that can be answered, with others or alone, is satisfied.\<close>

lemma answered_satisfied:
  assumes "answeredTogether (responseCandidates k cs opts ds request) S" "i \<in> S"
  shows "satisfiedAt (map rm_success (docRequestResults k cs opts ds request)) i"
proof -
  let ?drs = "responseCandidates k cs opts ds request"
  note wf = response_wf [of k cs opts ds request]
  obtain dr where dr: "dr \<in> set ?drs" "dr_index dr = i" "dr_valid dr \<noteq> []" "i \<notin> excessRequests ?drs"
    using assms by (auto simp: answeredTogether_def)
  then obtain j where "j < length (dv_docRequests request)" "?drs ! j = dr" by (auto simp: in_set_conv_nth)
  then have i: "i < length (dv_docRequests request)" "?drs ! i = dr" using dr(2) by (auto simp: nth_responses candidatesFor_def)
  let ?ms = "responseMatches k cs opts ds request ! i"
  have valid: "filter dm_success ?ms \<noteq> []" using dr(3) i by (auto simp: nth_responses(2) candidatesFor_def)
  have "answeredTogether ?drs {i}" using answeredTogether_mono [OF assms(1)] assms(2) by blast
  then have alone: "canAnswerUncached (createAttribution ?drs) [i]" by (simp add: canAnswer_together [OF wf])
  have "d \<notin> excessDocuments ?drs" if "d \<in> set (map dm_index (filter isCandidate ?ms))" for d
  proof
    assume "d \<in> excessDocuments ?drs"
    moreover have "i \<in> set (requestsFor ?drs d)"
      using that i dr(1,2) by (auto simp: requestsFor_def nth_responses(2) candidatesFor_def intro!: image_eqI [of _ _ dr])
    ultimately show False using dr(4) by (auto simp: excessRequests_eq)
  qed
  then have "filter (\<lambda>d. d \<in> excessDocuments ?drs) (map dm_index (filter isCandidate ?ms)) = []" by (auto simp: filter_empty_conv)
  then have "rm_success (docRequestResults k cs opts ds request ! i)"
    using valid alone unfolding nth_responses(3) [OF i(1)] docRequestResult_def Let_def by simp
  then show ?thesis using i(1) by (simp add: satisfiedAt_def)
qed

section \<open>Matching a response\<close>

lemma concludeMatch_success [simp]: "mt_success (concludeMatch source us b rs unrequested chosen ts) \<longleftrightarrow> chosen \<noteq> None"
  by (simp add: concludeMatch_def Let_def)

lemma matchDeviceRequest_unfold:
  assumes "matchDeviceRequest k request ds opts cs = Inr r"
  obtains found where "indexDocRequestOptions request opts = Inr found"
    "mt_success r \<longleftrightarrow> (let all = responseCandidates k cs found ds request; can = canAnswerUncached (createAttribution all);
        matched = matchUseCases (snd (resolveUseCases request (mo_alternatives opts))) (map rm_success (docRequestResults k cs found ds request)) can
      in snd matched \<and> chooseDocumentSets (fst matched) can (documentsOfSet all) \<noteq> None)"
proof -
  obtain found where found: "indexDocRequestOptions request opts = Inr found"
    using assms by (auto simp: matchDeviceRequest_def)
  let ?all = "responseCandidates k cs found ds request"
  obtain source us where us: "resolveUseCases request (mo_alternatives opts) = (source, us)" by fastforce
  obtain ums b where ums: "matchUseCases us (map rm_success (docRequestResults k cs found ds request)) (canAnswerUncached (createAttribution ?all)) = (ums, b)"
    by fastforce
  have "mt_success r \<longleftrightarrow> (if b then chooseDocumentSets ums (canAnswerUncached (createAttribution ?all)) (documentsOfSet ?all) else None) \<noteq> None"
    using assms unfolding matchDeviceRequest_def found bindR.simps Let_def us prod.case ums by (simp only: sum.inject) (use concludeMatch_success in blast)
  then show ?thesis using that [OF found] us ums by (auto simp: Let_def)
qed

text \<open>Document sets for the mandatory use cases, and the doc requests they ask for.\<close>

definition answersMandatory :: "useCase list \<Rightarrow> (nat \<Rightarrow> nat list) \<Rightarrow> bool" where
  "answersMandatory us \<sigma> \<longleftrightarrow> (\<forall>i < length us. us_mandatory (us ! i) \<longrightarrow> \<sigma> i \<in> set (us_documentSets (us ! i)))"

definition mandatoryRequests :: "useCase list \<Rightarrow> (nat \<Rightarrow> nat list) \<Rightarrow> nat set" where
  "mandatoryRequests us \<sigma> = (\<Union>i \<in> {i. i < length us \<and> us_mandatory (us ! i)}. set (\<sigma> i))"

lemma uc_fields:
  "uc_index (matchUseCase ok can (i, u)) = i" "uc_mandatory (matchUseCase ok can (i, u)) = us_mandatory u"
  "uc_matching (matchUseCase ok can (i, u)) = filter (\<lambda>s. list_all (satisfiedAt ok) s \<and> can s) (us_documentSets u)"
  "uc_success (matchUseCase ok can (i, u)) \<longleftrightarrow> (\<exists>D \<in> set (us_documentSets u). list_all (satisfiedAt ok) D \<and> can D)"
  by (auto simp: matchUseCase_def Let_def filter_empty_conv)

lemma matchUseCases_selects:
  fixes us :: "useCase list"
  assumes can: "\<forall>D. can D \<longrightarrow> list_all (satisfiedAt ok) D"
  defines "ums \<equiv> fst (matchUseCases us ok can)"
  shows "selects ums \<sigma> \<longleftrightarrow> (\<forall>i < length us. us_mandatory (us ! i) \<longrightarrow> \<sigma> i \<in> set (us_documentSets (us ! i)) \<and> can (\<sigma> i))"
    "set (selected ums \<sigma>) = mandatoryRequests us \<sigma>"
    "distinct (map uc_index ums)"
    "snd (matchUseCases us ok can) \<longleftrightarrow> (\<forall>i < length us. us_mandatory (us ! i) \<longrightarrow> (\<exists>D \<in> set (us_documentSets (us ! i)). can D))
       \<and> (\<exists>u \<in> set us. \<exists>D \<in> set (us_documentSets u). can D)"
proof -
  let ?u = "matchUseCase ok can"
  have ums: "ums = map ?u (enumerate 0 us)" by (simp add: ums_def matchUseCases_def Let_def)
  have mem: "u \<in> set ums \<longleftrightarrow> (\<exists>i < length us. u = ?u (i, us ! i))" for u
    unfolding ums by (auto simp: in_set_enumerate_eq image_iff Bex_def)
  have matching: "uc_matching (?u (i, u)) = filter can (us_documentSets u)" for i u
    unfolding uc_fields using can by (intro filter_cong) auto
  have ok: "uc_success (?u (i, u)) \<longleftrightarrow> (\<exists>D \<in> set (us_documentSets u). can D)" for i u
    unfolding uc_fields using can by blast
  show "selects ums \<sigma> \<longleftrightarrow> (\<forall>i < length us. us_mandatory (us ! i) \<longrightarrow> \<sigma> i \<in> set (us_documentSets (us ! i)) \<and> can (\<sigma> i))"
    unfolding selects_def Ball_def mem by (auto simp: uc_fields(1,2) matching)
  have "set (selected ums \<sigma>) = (\<Union>u \<in> {u \<in> set ums. uc_mandatory u}. set (\<sigma> (uc_index u)))" by (auto simp: selected_def)
  also have "\<dots> = mandatoryRequests us \<sigma>" unfolding mandatoryRequests_def mem by (auto simp: uc_fields(1,2))
  finally show "set (selected ums \<sigma>) = mandatoryRequests us \<sigma>" .
  have "map uc_index ums = [0..<length us]" unfolding ums by (rule nth_equalityI) (simp_all add: nth_enumerate_eq uc_fields)
  then show "distinct (map uc_index ums)" by simp
  have "snd (matchUseCases us ok can) \<longleftrightarrow> (\<forall>u \<in> set ums. uc_mandatory u \<longrightarrow> uc_success u) \<and> (\<exists>u \<in> set ums. uc_success u)"
    by (auto simp: matchUseCases_def Let_def ums list_all_iff list_ex_iff)
  also have "\<dots> \<longleftrightarrow> (\<forall>i < length us. us_mandatory (us ! i) \<longrightarrow> (\<exists>D \<in> set (us_documentSets (us ! i)). can D))
       \<and> (\<exists>i < length us. \<exists>D \<in> set (us_documentSets (us ! i)). can D)"
  proof -
    have "(\<forall>u \<in> set ums. uc_mandatory u \<longrightarrow> uc_success u) \<longleftrightarrow>
        (\<forall>i < length us. uc_mandatory (?u (i, us ! i)) \<longrightarrow> uc_success (?u (i, us ! i)))" unfolding Ball_def mem by fast
    moreover have "(\<exists>u \<in> set ums. uc_success u) \<longleftrightarrow> (\<exists>i < length us. uc_success (?u (i, us ! i)))" unfolding Bex_def mem by fast
    ultimately show ?thesis by (simp only: uc_fields(2) ok)
  qed
  also have "(\<exists>i < length us. \<exists>D \<in> set (us_documentSets (us ! i)). can D) \<longleftrightarrow> (\<exists>u \<in> set us. \<exists>D \<in> set (us_documentSets u). can D)"
    by (metis in_set_conv_nth)
  finally show "snd (matchUseCases us ok can) \<longleftrightarrow> (\<forall>i < length us. us_mandatory (us ! i) \<longrightarrow> (\<exists>D \<in> set (us_documentSets (us ! i)). can D))
       \<and> (\<exists>u \<in> set us. \<exists>D \<in> set (us_documentSets u). can D)" .
qed

lemma choose_selects:
  assumes shrinks: "shrinks can" and can: "\<forall>D. can D \<longrightarrow> list_all (satisfiedAt ok) D" and T: "\<And>D. can D \<longleftrightarrow> T (set D)"
  shows "snd (matchUseCases us ok can) \<and> chooseDocumentSets (fst (matchUseCases us ok can)) can documentsOf \<noteq> None \<longleftrightarrow>
    (\<exists>\<sigma>. answersMandatory us \<sigma> \<and> T (mandatoryRequests us \<sigma>)) \<and> (\<exists>u \<in> set us. \<exists>D \<in> set (us_documentSets u). T (set D))"
    (is "?match \<and> ?choose \<longleftrightarrow> ?all \<and> ?some")
proof -
  let ?ums = "fst (matchUseCases us ok can)"
  note m = matchUseCases_selects [where us = us and can = can and ok = ok, OF can]
  have small: "can (\<sigma> i)" if "T (mandatoryRequests us \<sigma>)" "i < length us" "us_mandatory (us ! i)" for \<sigma> i
  proof -
    have "can (selected ?ums \<sigma>)" using that(1) m(2) T by simp
    then show ?thesis by (rule shrinksD [OF shrinks]) (use m(2) that in \<open>auto simp: mandatoryRequests_def\<close>)
  qed
  have choose: "?choose \<longleftrightarrow> ?all" if some: ?some
  proof -
    obtain i D where i: "i < length us" "D \<in> set (us_documentSets (us ! i))" "can D" using some unfolding T [symmetric] by (metis in_set_conv_nth)
    have u: "matchUseCase ok can (i, us ! i) \<in> set ?ums"
      using i(1) by (auto simp: matchUseCases_def Let_def in_set_enumerate_eq intro!: image_eqI)
    have D: "D \<in> set (uc_matching (matchUseCase ok can (i, us ! i)))" using i can by (simp add: uc_fields)
    have "?choose \<longleftrightarrow> (\<exists>\<sigma>. selects ?ums \<sigma> \<and> can (selected ?ums \<sigma>))"
      by (rule chooseDocumentSets_iff [OF shrinks m(3) u D i(3)])
    also have "\<dots> \<longleftrightarrow> ?all"
    proof -
      have "selects ?ums \<sigma> \<and> can (selected ?ums \<sigma>) \<longleftrightarrow> answersMandatory us \<sigma> \<and> T (mandatoryRequests us \<sigma>)" for \<sigma>
      proof -
        have "can (selected ?ums \<sigma>) \<longleftrightarrow> T (mandatoryRequests us \<sigma>)" using T [of "selected ?ums \<sigma>"] m(2) [of \<sigma>] by simp
        moreover have "can (\<sigma> i)" if "T (mandatoryRequests us \<sigma>)" "i < length us" "us_mandatory (us ! i)" for i using small that by blast
        ultimately show ?thesis unfolding m(1) answersMandatory_def by metis
      qed
      then show ?thesis by (simp only:)
    qed
    finally show ?thesis .
  qed
  have match: "?match \<longleftrightarrow> (\<forall>i < length us. us_mandatory (us ! i) \<longrightarrow> (\<exists>D \<in> set (us_documentSets (us ! i)). can D)) \<and> ?some"
    unfolding m(4) Bex_def T ..
  have "\<exists>D \<in> set (us_documentSets (us ! i)). can D" if all: ?all and i: "i < length us" "us_mandatory (us ! i)" for i
  proof -
    obtain \<sigma> where "answersMandatory us \<sigma>" "T (mandatoryRequests us \<sigma>)" using all by blast
    then have "\<sigma> i \<in> set (us_documentSets (us ! i))" "can (\<sigma> i)" using small i by (auto simp: answersMandatory_def)
    then show ?thesis by blast
  qed
  then show ?thesis using choose match by blast
qed

lemma device_request_satisfied:
  assumes "indexDocRequestOptions request opts = Inr found" "matchDeviceRequest k request ds opts cs = Inr r"
  shows "mt_success r \<longleftrightarrow> (let drs = responseCandidates k cs found ds request; us = snd (resolveUseCases request (mo_alternatives opts))
     in (\<exists>\<sigma>. answersMandatory us \<sigma> \<and> answeredTogether drs (mandatoryRequests us \<sigma>))
      \<and> (\<exists>u \<in> set us. \<exists>D \<in> set (us_documentSets u). answeredTogether drs (set D)))"
proof -
  let ?drs = "responseCandidates k cs found ds request"
  let ?can = "canAnswerUncached (createAttribution ?drs)"
  let ?us = "snd (resolveUseCases request (mo_alternatives opts))"
  note wf = response_wf [of k cs found ds request]
  have can: "list_all (satisfiedAt (map rm_success (docRequestResults k cs found ds request))) D" if "?can D" for D
    using answered_satisfied [of k cs found ds request "set D"] that by (simp add: canAnswer_together [OF wf] list_all_iff)
  have "mt_success r \<longleftrightarrow> snd (matchUseCases ?us (map rm_success (docRequestResults k cs found ds request)) ?can)
     \<and> chooseDocumentSets (fst (matchUseCases ?us (map rm_success (docRequestResults k cs found ds request)) ?can)) ?can (documentsOfSet ?drs) \<noteq> None"
    using matchDeviceRequest_unfold [OF assms(2)] assms(1) by (metis (no_types, lifting) sum.inject(2))
  also have "\<dots> \<longleftrightarrow> (\<exists>\<sigma>. answersMandatory ?us \<sigma> \<and> answeredTogether ?drs (mandatoryRequests ?us \<sigma>))
      \<and> (\<exists>u \<in> set ?us. \<exists>D \<in> set (us_documentSets u). answeredTogether ?drs (set D))"
    by (rule choose_selects [OF canAnswer_shrinks [OF wf]]) (use can canAnswer_together [OF wf] in blast)+
  finally show ?thesis by (simp only: Let_def)
qed

end
