(* ===== verification/DeviceReport.thy ===== *)
theory DeviceReport imports DeviceMatchLaws begin

text \<open>
  Reporting a match through a verification callback: \<open>reportDeviceRequestMatch\<close> and \<open>findOverDisclosure\<close> of
  \<open>packages/mdoc/src/utils/matchDeviceRequest.ts\<close>, and the callback of \<open>mdoc/check-callback.ts\<close> that is used
  by default, which throws on a check that fails. The checks are kept without their texts, which name what
  the constructors of \<open>checkKind\<close> hold, and without the match that is attached to them.
\<close>

section \<open>Checks\<close>

datatype checkStatus = PASSED | FAILED | WARNING

datatype checkKind = MandatoryUseCase nat | AnyUseCase | AnyAlternative | DocRequestCheck nat string | AnsweredTogether
  | OverDisclosure nat "nat list" "disclosedElement list" | OneSetPerUseCase "nat list" | UnrequestedDocuments "(nat \<times> string) list"

record check =
  ck_status :: checkStatus
  ck_kind :: checkKind

definition passedOr :: "bool \<Rightarrow> checkKind \<Rightarrow> check" where
  "passedOr passed kind = \<lparr>ck_status = if passed then PASSED else FAILED, ck_kind = kind\<rparr>"

definition warning :: "checkKind \<Rightarrow> check" where
  "warning kind = \<lparr>ck_status = WARNING, ck_kind = kind\<rparr>"

definition defaultVerificationCallback :: "check \<Rightarrow> check + unit" where
  "defaultVerificationCallback verification =
     (if ck_status verification \<noteq> FAILED then Inr () else Inl verification)"

section \<open>Elements disclosed without being asked for\<close>

definition sameElement :: "disclosedElement \<Rightarrow> disclosedElement \<Rightarrow> bool" where
  "sameElement other claim = (de_namespace other = de_namespace claim \<and> de_element other = de_element claim
     \<and> de_source other = de_source claim)"

type_synonym overDisclosure = "nat list \<times> disclosedElement list"

definition overDisclosureStep :: "(nat \<times> overDisclosure) list \<Rightarrow> nat \<times> documentMatch \<Rightarrow> (nat \<times> overDisclosure) list" where
  "overDisclosureStep documents entry =
     (let (docRequestIndex, document) = entry
      in if \<not> docTypeOk (dm_docType document) then documents
         else case map_of documents (dm_index document) of
             None \<Rightarrow> documents @ [(dm_index document, ([docRequestIndex], dm_unrequested document))]
           | Some (docRequestIndexes, unrequestedClaims) \<Rightarrow>
               AList.update (dm_index document) (docRequestIndexes @ [docRequestIndex],
                 filter (\<lambda>claim. list_ex (\<lambda>other. sameElement other claim) (dm_unrequested document)) unrequestedClaims) documents)"

definition matchedDocuments :: "docRequestMatch list \<Rightarrow> (nat \<times> documentMatch) list" where
  "matchedDocuments docRequests = concat (map (\<lambda>r. map (Pair (rm_index r)) (rm_valid r @ rm_failed r)) docRequests)"

definition findOverDisclosure :: "deviceMatch \<Rightarrow> (nat \<times> overDisclosure) list" where
  "findOverDisclosure m = sort_key fst (filter (\<lambda>(_, _, unrequestedClaims). unrequestedClaims \<noteq> [])
     (foldl overDisclosureStep [] (matchedDocuments (mt_docRequests m))))"

section \<open>Documents that answer nothing\<close>

text \<open>The documents of the docType of a doc request, of an issuer it accepts, of a use case that is not answered.\<close>

definition mayAnswerUnanswered :: "deviceMatch \<Rightarrow> nat list" where
  "mayAnswerUnanswered m =
     (let unanswered = concat (map (\<lambda>u. if uc_index u \<in> set (map fst (mt_answered m)) then [] else concat (uc_documentSets u)) (mt_useCases m))
      in map (\<lambda>(_, d). dm_index d) (filter (\<lambda>(i, d). isCandidate d)
           (matchedDocuments (filter (\<lambda>r. rm_index r \<in> set unanswered) (mt_docRequests m)))))"

definition unattributedDocuments :: "deviceMatch \<Rightarrow> nat list" where
  "unattributedDocuments m = map fst (filter (\<lambda>(documentIndex, docRequestIndexes).
       documentIndex \<notin> set (map fst (mt_unrequested m))
     \<and> documentIndex \<notin> set (mayAnswerUnanswered m)
     \<and> \<not> list_ex (\<lambda>i. i \<in> set (docRequestsIn (mt_answered m))) docRequestIndexes) (mt_attributed m))"

section \<open>The report\<close>

definition requestChecks :: "deviceMatch \<Rightarrow> check list" where
  "requestChecks m = (case mt_source m of
       DeviceRequestInfo \<Rightarrow>
         concat (map (\<lambda>u. if uc_mandatory u then [passedOr (uc_success u) (MandatoryUseCase (uc_index u))] else []) (mt_useCases m))
         @ [passedOr (list_ex uc_success (mt_useCases m)) AnyUseCase]
     | EachDocRequest \<Rightarrow> [passedOr (mt_success m) AnyAlternative]
     | AllDocRequests \<Rightarrow> map (\<lambda>r. passedOr (rm_success r) (DocRequestCheck (rm_index r) (rm_docType r))) (mt_docRequests m))"

text \<open>The calls of the callback, in their order.\<close>

definition reportDeviceRequestMatch :: "deviceMatch \<Rightarrow> check list" where
  "reportDeviceRequestMatch m =
     requestChecks m
     @ (if \<not> mt_success m \<and> mt_reason m \<noteq> None then [passedOr False AnsweredTogether] else [])
     @ map (\<lambda>(documentIndex, docRequestIndexes, claims). warning (OverDisclosure documentIndex docRequestIndexes claims)) (findOverDisclosure m)
     @ (if mt_success m \<and> unattributedDocuments m \<noteq> [] then [warning (OneSetPerUseCase (unattributedDocuments m))] else [])
     @ (if mt_unrequested m \<noteq> [] then [warning (UnrequestedDocuments (mt_unrequested m))] else [])"

definition reportWith :: "(check \<Rightarrow> check + unit) \<Rightarrow> deviceMatch \<Rightarrow> check + unit" where
  "reportWith onCheck m = foldR (\<lambda>_. onCheck) () (reportDeviceRequestMatch m)"

section \<open>What is reported\<close>

lemma foldR_all_ok: "isOk (foldR (\<lambda>_ :: unit. f) () xs) \<longleftrightarrow> (\<forall>x \<in> set xs. isOk (f x))"
proof (induction xs)
  case (Cons x xs)
  then show ?case by (cases "f x") auto
qed simp

lemma reportWith_default: "isOk (reportWith defaultVerificationCallback m) \<longleftrightarrow> (\<forall>c \<in> set (reportDeviceRequestMatch m). ck_status c \<noteq> FAILED)"
  by (simp add: reportWith_def foldR_all_ok defaultVerificationCallback_def)

lemma status_simps [simp]: "ck_status (passedOr b kind) = FAILED \<longleftrightarrow> \<not> b" "ck_status (warning kind) \<noteq> FAILED"
  by (simp_all add: passedOr_def warning_def)

lemma report_failed: "(\<forall>c \<in> set (reportDeviceRequestMatch m). ck_status c \<noteq> FAILED) \<longleftrightarrow>
    (\<forall>c \<in> set (requestChecks m). ck_status c \<noteq> FAILED) \<and> (mt_success m \<or> mt_reason m = None)"
proof -
  let ?over = "map (\<lambda>(documentIndex, docRequestIndexes, claims). warning (OverDisclosure documentIndex docRequestIndexes claims)) (findOverDisclosure m)"
  have "\<forall>c \<in> set ?over. ck_status c \<noteq> FAILED" by auto
  then show ?thesis unfolding reportDeviceRequestMatch_def set_append ball_Un by simp
qed

lemma matchDeviceRequest_concluded:
  assumes "matchDeviceRequest k request ds opts cs = Inr r"
  obtains source us can ok unrequested chosen rs attributed where
    "r = concludeMatch source (fst (matchUseCases us ok can)) (snd (matchUseCases us ok can)) rs unrequested chosen attributed"
    "chosen \<noteq> None \<longrightarrow> snd (matchUseCases us ok can)"
proof -
  obtain found where found: "indexDocRequestOptions request opts = Inr found" using assms by (auto simp: matchDeviceRequest_def)
  let ?all = "responseCandidates k cs found ds request"
  let ?rs = "docRequestResults k cs found ds request"
  let ?can = "canAnswerUncached (createAttribution ?all)"
  obtain source us where us: "resolveUseCases request (mo_alternatives opts) = (source, us)" by fastforce
  obtain ums b where ums: "matchUseCases us (map rm_success ?rs) ?can = (ums, b)" by fastforce
  let ?chosen = "if b then chooseDocumentSets ums ?can (documentsOfSet ?all) else None"
  show ?thesis
  proof (rule that [of source us "map rm_success ?rs" ?can ?rs "unrequestedDocuments request ds" ?chosen])
    show "r = concludeMatch source (fst (matchUseCases us (map rm_success ?rs) ?can)) (snd (matchUseCases us (map rm_success ?rs) ?can)) ?rs
        (unrequestedDocuments request ds) ?chosen
        (enumerate 0 (docRequestsOfDocuments (length ds) (answer (createAttribution ?all) (docRequestsIn (case ?chosen of None \<Rightarrow> [] | Some c \<Rightarrow> c)))))"
      using assms unfolding matchDeviceRequest_def found bindR.simps Let_def us prod.case ums fst_conv snd_conv by (simp only: sum.inject)
    show "?chosen \<noteq> None \<longrightarrow> snd (matchUseCases us (map rm_success ?rs) ?can)" unfolding ums by simp
  qed
qed

lemma matchUseCases_ok:
  "snd (matchUseCases us ok can) \<longleftrightarrow> (\<forall>u \<in> set (fst (matchUseCases us ok can)). uc_mandatory u \<longrightarrow> uc_success u)
     \<and> list_ex uc_success (fst (matchUseCases us ok can))"
  by (auto simp: matchUseCases_def Let_def list_all_iff)

text \<open>C21. With the default callback, reporting a match throws exactly when the response does not satisfy the request,
  however the request's use cases are read: a response that fails always has a check that fails, and one that
  succeeds only gets warnings, about elements and documents it should not contain.\<close>

theorem report_fails_iff:
  assumes "matchDeviceRequest k request ds opts cs = Inr r"
  shows "isOk (reportWith defaultVerificationCallback r) \<longleftrightarrow> mt_success r"
  using assms
proof (rule matchDeviceRequest_concluded)
  fix source us can ok unrequested chosen rs attributed
  let ?m = "matchUseCases us ok can"
  assume r: "r = concludeMatch source (fst ?m) (snd ?m) rs unrequested chosen attributed" and chosen: "chosen \<noteq> None \<longrightarrow> snd ?m"
  have fields: "mt_source r = source" "mt_useCases r = fst ?m" "mt_success r \<longleftrightarrow> chosen \<noteq> None"
    "mt_docRequests r = (if chosen \<noteq> None \<and> source = AllDocRequests then filter rm_success rs else rs)"
    "chosen = None \<Longrightarrow> mt_reason r = (if snd ?m then Some UseCasesNotTogether
       else if source = AllDocRequests \<and> list_all rm_success rs then Some DocRequestsNotTogether else None)"
    by (simp_all add: r concludeMatch_def Let_def)
  show ?thesis
  proof (cases source)
    case DeviceRequestInfo
    have "(\<forall>c \<in> set (requestChecks r). ck_status c \<noteq> FAILED) \<longleftrightarrow> snd ?m"
      unfolding matchUseCases_ok by (auto simp: requestChecks_def fields(1,2) DeviceRequestInfo)
    then show ?thesis using chosen fields(3,5) by (auto simp: reportWith_default report_failed)
  next
    case EachDocRequest
    then show ?thesis by (auto simp: reportWith_default report_failed requestChecks_def fields(1))
  next
    case AllDocRequests
    show ?thesis
    proof (cases "chosen = None")
      case True
      have "(\<forall>c \<in> set (requestChecks r). ck_status c \<noteq> FAILED) \<longleftrightarrow> list_all rm_success rs"
        by (simp add: requestChecks_def fields(1,4) AllDocRequests True list_all_iff)
      then show ?thesis using True fields(3) fields(5) [OF True] AllDocRequests by (simp add: reportWith_default report_failed)
    next
      case False
      have "\<forall>c \<in> set (requestChecks r). ck_status c \<noteq> FAILED"
        using False by (simp add: requestChecks_def fields(1,4) AllDocRequests)
      then show ?thesis using False fields(3) by (simp add: reportWith_default report_failed)
    qed
  qed
qed

theorem report_fails_iff_witness:
  "\<exists>r. matchDeviceRequest (\<lambda>_. None) \<lparr>dv_docRequests = [], dv_useCases = Some []\<rparr> [] \<lparr>mo_docRequests = None, mo_alternatives = False\<rparr> None = Inr r
     \<and> \<not> isOk (reportWith defaultVerificationCallback r)"
proof -
  let ?request = "\<lparr>dv_docRequests = [], dv_useCases = Some []\<rparr>" and ?opts = "\<lparr>mo_docRequests = None, mo_alternatives = False\<rparr>"
  obtain r where r: "matchDeviceRequest (\<lambda>_. None) ?request [] ?opts None = Inr r"
    by (simp add: matchDeviceRequest_def indexDocRequestOptions_def Let_def case_prod_beta)
  moreover have "\<not> mt_success r"
    using r by (auto simp: matchDeviceRequest_def indexDocRequestOptions_def resolveUseCases_def matchUseCases_def Let_def)
  ultimately show ?thesis using report_fails_iff [OF r] by blast
qed

section \<open>What is over-disclosed\<close>

text \<open>The doc requests a document may answer, with its match, in their order.\<close>

definition answering :: "(nat \<times> documentMatch) list \<Rightarrow> nat \<Rightarrow> (nat \<times> documentMatch) list" where
  "answering entries i = filter (\<lambda>(_, d). docTypeOk (dm_docType d) \<and> dm_index d = i) entries"

definition askedByNone :: "(nat \<times> documentMatch) list \<Rightarrow> disclosedElement \<Rightarrow> bool" where
  "askedByNone entries claim = list_all (\<lambda>(_, d). list_ex (\<lambda>other. sameElement other claim) (dm_unrequested d)) entries"

lemma overDisclosure_some:
  "map_of documents i = Some (is, claims) \<Longrightarrow> map_of (foldl overDisclosureStep documents entries) i
     = Some (is @ map fst (answering entries i), filter (askedByNone (answering entries i)) claims)"
proof (induction entries arbitrary: documents "is" claims)
  case (Cons entry entries)
  obtain k d where e: "entry = (k, d)" by (cases entry)
  show ?case
  proof (cases "docTypeOk (dm_docType d)")
    case False
    then show ?thesis using Cons by (simp add: e overDisclosureStep_def answering_def)
  next
    case ok: True
    show ?thesis
    proof (cases "dm_index d = i")
      case True
      have "map_of (overDisclosureStep documents entry) i
          = Some (is @ [k], filter (\<lambda>claim. list_ex (\<lambda>other. sameElement other claim) (dm_unrequested d)) claims)"
        using Cons.prems True ok by (simp add: e overDisclosureStep_def update_conv')
      from Cons.IH [OF this] show ?thesis using True ok
        by (simp add: e answering_def askedByNone_def conj_commute cong: filter_cong)
    next
      case False
      then have "map_of (overDisclosureStep documents entry) i = Some (is, claims)"
        using Cons.prems ok by (auto simp: e overDisclosureStep_def update_conv' map_add_def split: option.splits)
      from Cons.IH [OF this] show ?thesis using False by (simp add: e answering_def)
    qed
  qed
qed (simp add: answering_def askedByNone_def)

lemma overDisclosure_none:
  "map_of documents i = None \<Longrightarrow> map_of (foldl overDisclosureStep documents entries) i = (case answering entries i of
       [] \<Rightarrow> None
     | (k, d) # rest \<Rightarrow> Some (k # map fst rest, filter (askedByNone rest) (dm_unrequested d)))"
proof (induction entries arbitrary: documents)
  case (Cons entry entries)
  obtain k d where e: "entry = (k, d)" by (cases entry)
  show ?case
  proof (cases "docTypeOk (dm_docType d) \<and> dm_index d = i")
    case True
    then have "map_of (overDisclosureStep documents entry) i = Some ([k], dm_unrequested d)"
      using Cons.prems by (simp add: e overDisclosureStep_def map_add_def)
    from overDisclosure_some [OF this] show ?thesis using True by (simp add: e answering_def)
  next
    case False
    then have "map_of (overDisclosureStep documents entry) i = None"
      using Cons.prems by (auto simp: e overDisclosureStep_def update_conv' map_add_def split: option.splits)
    moreover have "answering (entry # entries) i = answering entries i" using False by (simp add: e answering_def)
    ultimately show ?thesis using Cons.IH by simp
  qed
qed (simp add: answering_def)

lemma overDisclosure_distinct:
  "distinct (map fst documents) \<Longrightarrow> distinct (map fst (foldl overDisclosureStep documents entries))"
proof (induction entries arbitrary: documents)
  case (Cons entry entries)
  have "distinct (map fst (overDisclosureStep documents entry))"
    using Cons.prems by (auto simp: overDisclosureStep_def Let_def distinct_update map_of_eq_None_iff split: prod.splits option.splits)
  then show ?case using Cons.IH by simp
qed simp

text \<open>A document is reported with the elements that none of the doc requests it may answer asks for, when there
  are any.\<close>

lemma findOverDisclosure_iff:
  "(i, is, claims) \<in> set (findOverDisclosure m) \<longleftrightarrow> claims \<noteq> [] \<and> (\<exists>k d rest. answering (matchedDocuments (mt_docRequests m)) i = (k, d) # rest
     \<and> is = k # map fst rest \<and> claims = filter (askedByNone rest) (dm_unrequested d))"
proof -
  let ?fold = "foldl overDisclosureStep [] (matchedDocuments (mt_docRequests m))"
  have "(i, is, claims) \<in> set (findOverDisclosure m) \<longleftrightarrow> claims \<noteq> [] \<and> (i, is, claims) \<in> set ?fold"
    by (auto simp: findOverDisclosure_def)
  also have "(i, is, claims) \<in> set ?fold \<longleftrightarrow> map_of ?fold i = Some (is, claims)"
    using overDisclosure_distinct [of "[]"] by simp
  also have "map_of ?fold i = Some (is, claims) \<longleftrightarrow> (\<exists>k d rest. answering (matchedDocuments (mt_docRequests m)) i = (k, d) # rest
     \<and> is = k # map fst rest \<and> claims = filter (askedByNone rest) (dm_unrequested d))"
    using overDisclosure_none [of "[]" i "matchedDocuments (mt_docRequests m)"] by (auto split: list.splits)
  finally show ?thesis .
qed

end
