(* ===== verification/DeviceResponse.thy ===== *)
theory DeviceResponse imports DeviceMatch begin

text \<open>
  Creating a response in \<open>packages/mdoc/src/mdoc/models/device-response.ts\<close>: what the doc requests a document
  answers ask for together, the elements it discloses, and the checks of the whole response. Signing or
  authenticating a document and the size of the encoded response are parameters. Errors are kept without
  their texts. An index that is no natural number finds no doc request or alternative set, like one out of
  range, so indexes are natural numbers.
\<close>

section \<open>Data\<close>

datatype responseError = EitherSignatureOrMac | DocTypeMismatch | InvalidElementSelection | MissingRequestedElement
  | AgeOverLimitExceeded | DeviceKeyNotAuthorizedError | UnsatisfiedDeviceRequest | NoDocRequest

datatype deviceAuthKind = SignatureAuth | MacAuth

record documentOptions =
  dc_issuerSigned :: issuerSigned
  dc_docRequests :: "nat list"
  dc_elements :: "(string \<times> string list) list option"
  dc_alternatives :: "(string \<times> (string \<times> nat) list) list option"
  dc_deviceNamespaces :: "deviceNamespaces option"
  dc_signature :: bool
  dc_mac :: bool

section \<open>The doc requests of a document\<close>

definition findDocRequest :: "deviceRequest \<Rightarrow> nat \<Rightarrow> responseError + nat \<times> docRequest" where
  "findDocRequest request i =
     (if i < length (dv_docRequests request) then Inr (i, dv_docRequests request ! i) else Inl NoDocRequest)"

definition findDocRequests :: "deviceRequest \<Rightarrow> documentOptions \<Rightarrow> responseError + (nat \<times> docRequest) list" where
  "findDocRequests request document =
     (let indexes = rev (remdups (rev (dc_docRequests document)))
      in if indexes = [] then Inl NoDocRequest else mapR (findDocRequest request) indexes)"

record mergedRequests =
  mg_namespaces :: "(string \<times> (string \<times> bool) list) list"
  mg_alternatives :: "alternativeSet list"
  mg_conflicts :: "elementRef list"

definition mergeElement :: "(string \<times> bool) list \<Rightarrow> string \<times> bool \<Rightarrow> (string \<times> bool) list" where
  "mergeElement merged entry = AList.update (fst entry)
     ((case map_of merged (fst entry) of None \<Rightarrow> False | Some b \<Rightarrow> b) \<or> snd entry) merged"

definition mergeNamespace :: "(string \<times> (string \<times> bool) list) list \<Rightarrow> string \<times> (string \<times> bool) list \<Rightarrow>
    (string \<times> (string \<times> bool) list) list" where
  "mergeNamespace namespaces entry =
     AList.update (fst entry) (foldl mergeElement (getList namespaces (fst entry)) (snd entry)) namespaces"

definition mergeNamespaces :: "docRequest list \<Rightarrow> (string \<times> (string \<times> bool) list) list" where
  "mergeNamespaces requests = foldl mergeNamespace [] (concat (map rq_namespaces requests))"

definition findAlternative :: "docRequest \<Rightarrow> elementRef \<Rightarrow> alternativeSet option" where
  "findAlternative request ref = List.find (\<lambda>a. as_requested a = ref) (alternativesOf request)"

definition requesting :: "docRequest list \<Rightarrow> elementRef \<Rightarrow> docRequest list" where
  "requesting requests ref = filter (\<lambda>r. isRequested (rq_namespaces r) ref) requests"

definition mergeAlternatives :: "docRequest list \<Rightarrow> elementRef \<Rightarrow> alternativeSet list \<times> elementRef list" where
  "mergeAlternatives requests ref =
     (case map (\<lambda>r. findAlternative r ref) (requesting requests ref) of
        [] \<Rightarrow> ([], [])
      | None # rest \<Rightarrow> ([], if list_ex (\<lambda>a. a \<noteq> None) rest then [ref] else [])
      | Some first # rest \<Rightarrow>
          if list_all (\<lambda>a. case a of None \<Rightarrow> False | Some s \<Rightarrow> as_sets s = as_sets first) rest
          then ([first], []) else ([], [ref]))"

definition mergeDocRequests :: "docRequest list \<Rightarrow> mergedRequests" where
  "mergeDocRequests requests =
     (let namespaces = mergeNamespaces requests;
          merged = map (\<lambda>(n, e, _). mergeAlternatives requests (n, e)) (requestedElements namespaces)
      in \<lparr>mg_namespaces = namespaces, mg_alternatives = concat (map fst merged), mg_conflicts = concat (map snd merged)\<rparr>)"

section \<open>The elements a document discloses\<close>

definition listsElement :: "(string \<times> string list) list \<Rightarrow> elementRef \<Rightarrow> bool" where
  "listsElement elements ref = (case map_of elements (fst ref) of None \<Rightarrow> False | Some es \<Rightarrow> snd ref \<in> set es)"

definition isSelected :: "(string \<times> string list) list option \<Rightarrow> elementRef \<Rightarrow> bool" where
  "isSelected elements ref = (case elements of None \<Rightarrow> True | Some es \<Rightarrow> listsElement es ref)"

definition checkSelection :: "mergedRequests \<Rightarrow> (string \<times> string list) list option \<Rightarrow> responseError + unit" where
  "checkSelection merged elements = (case elements of
       None \<Rightarrow> Inr ()
     | Some es \<Rightarrow> ensure (list_all (\<lambda>(n, ids). list_all (\<lambda>e. isRequested (mg_namespaces merged) (n, e)) ids) es)
         InvalidElementSelection)"

definition alternativeOk :: "mergedRequests \<Rightarrow> (string \<times> string list) list option \<Rightarrow> elementRef \<Rightarrow> nat \<Rightarrow> bool" where
  "alternativeOk merged elements ref i =
     (isRequested (mg_namespaces merged) ref \<and> ref \<notin> set (mg_conflicts merged)
      \<and> (case List.find (\<lambda>a. as_requested a = ref) (mg_alternatives merged) of
           None \<Rightarrow> False | Some a \<Rightarrow> i < length (as_sets a))
      \<and> isSelected elements ref)"

definition checkAlternatives :: "mergedRequests \<Rightarrow> (string \<times> string list) list option \<Rightarrow>
    (string \<times> (string \<times> nat) list) list option \<Rightarrow> responseError + unit" where
  "checkAlternatives merged elements alternatives = (case alternatives of
       None \<Rightarrow> Inr ()
     | Some as \<Rightarrow> ensure (list_all (\<lambda>(n, chosen). list_all (\<lambda>(e, i). alternativeOk merged elements (n, e) i) chosen) as)
         InvalidElementSelection)"

definition claimRef :: "elementMatch \<Rightarrow> elementRef" where
  "claimRef m = (cb_namespace (cm_base (em_claim m)), cb_element (cm_base (em_claim m)))"

definition isAnsweredByAlternative :: "elementMatch \<Rightarrow> bool" where
  "isAnsweredByAlternative m = (case em_options m of
       None \<Rightarrow> False | Some [] \<Rightarrow> False | Some (op # _) \<Rightarrow> op_alternative op \<noteq> None)"

definition declinedElements :: "(string \<times> string list) list option \<Rightarrow> elementMatch list \<Rightarrow> nat list" where
  "declinedElements elements claims = concat (map (\<lambda>m. case em_element m of
       None \<Rightarrow> []
     | Some c \<Rightarrow> if \<not> isAnsweredByAlternative m \<and> \<not> isSelected elements (claimRef m) then [ec_position c] else []) claims)"

definition chosenIndex :: "(string \<times> (string \<times> nat) list) list option \<Rightarrow> elementRef \<Rightarrow> nat option" where
  "chosenIndex alternatives ref = (case alternatives of None \<Rightarrow> None | Some as \<Rightarrow>
     (case map_of as (fst ref) of None \<Rightarrow> None | Some m \<Rightarrow> map_of m (snd ref)))"

definition chosenOption :: "elementMatch \<Rightarrow> nat option \<Rightarrow> elementOption option" where
  "chosenOption m index = (case index of None \<Rightarrow> None | Some i \<Rightarrow>
     (case em_options m of None \<Rightarrow> None | Some ops \<Rightarrow> List.find (\<lambda>op. op_alternative op = Some i) ops))"

record documentDisclosure =
  ds_issuer :: "(string \<times> elementCandidate list) list"
  ds_device :: deviceNamespaces

definition discloseElement :: "documentDisclosure \<Rightarrow> elementCandidate \<Rightarrow> documentDisclosure" where
  "discloseElement d c = (case ec_item c of
       None \<Rightarrow> d\<lparr>ds_device := AList.update (ec_namespace c)
         (AList.update (ec_element c) (ec_value c) (getList (ds_device d) (ec_namespace c))) (ds_device d)\<rparr>
     | Some _ \<Rightarrow> (let items = getList (ds_issuer d) (ec_namespace c)
         in d\<lparr>ds_issuer := AList.update (ec_namespace c)
              (if ec_position c \<in> set (map ec_position items) then items else items @ [c]) (ds_issuer d)\<rparr>))"

text \<open>The elements a claim is answered with.\<close>

definition elementsFor :: "(string \<times> (string \<times> nat) list) list option \<Rightarrow> elementMatch \<Rightarrow> responseError + elementCandidate list" where
  "elementsFor alternatives m = (case em_element m of
       None \<Rightarrow> Inl MissingRequestedElement
     | Some c \<Rightarrow>
         (let index = chosenIndex alternatives (claimRef m); chosen = chosenOption m index
          in if index \<noteq> None \<and> chosen = None then Inl MissingRequestedElement
             else if isAnsweredByAlternative m \<and> chosen = None then Inl MissingRequestedElement
             else Inr (case chosen of None \<Rightarrow> [c] | Some op \<Rightarrow> op_elements op)))"

definition selectClaim :: "documentOptions \<Rightarrow> nat list \<Rightarrow> documentDisclosure \<Rightarrow> elementMatch \<Rightarrow> responseError + documentDisclosure" where
  "selectClaim opts declined d m =
     (if \<not> isSelected (dc_elements opts) (claimRef m) then Inr d
      else bindR (elementsFor (dc_alternatives opts) m) (\<lambda>disclosed.
        bindR (ensure (list_all (\<lambda>c. ec_position c \<notin> set declined) disclosed) InvalidElementSelection) (\<lambda>_.
          Inr (foldl discloseElement d disclosed))))"

definition disclosedIdentifiers :: "documentDisclosure \<Rightarrow> (string \<times> string list) list" where
  "disclosedIdentifiers d = foldl (\<lambda>m (n, items). AList.update n (getList m n @ map fst items) m)
     (map (\<lambda>(n, cs). (n, map ec_element cs)) (ds_issuer d)) (ds_device d)"

definition selectionContext :: "documentOptions \<Rightarrow> mergedRequests \<Rightarrow> matchContext" where
  "selectionContext opts merged =
     \<lparr>mc_mode = Holder, mc_elements = [], mc_available = collectElements (dc_issuerSigned opts) (dc_deviceNamespaces opts),
      mc_keyAuthorizations = is_keyAuthorizations (dc_issuerSigned opts), mc_alternatives = mg_alternatives merged\<rparr>"

definition selectElements :: "documentOptions \<Rightarrow> mergedRequests \<Rightarrow> responseError + documentDisclosure" where
  "selectElements opts merged =
     (let claims = fst (matchElements (selectionContext opts merged) (mg_namespaces merged))
      in bindR (checkSelection merged (dc_elements opts)) (\<lambda>_.
         bindR (checkAlternatives merged (dc_elements opts) (dc_alternatives opts)) (\<lambda>_.
         bindR (foldR (selectClaim opts (declinedElements (dc_elements opts) claims)) \<lparr>ds_issuer = [], ds_device = []\<rparr> claims) (\<lambda>d.
         bindR (ensure (findAgeOverLimitViolations (disclosedIdentifiers d) = []) AgeOverLimitExceeded) (\<lambda>_. Inr d)))))"

section \<open>A document\<close>

definition itemsOf :: "elementCandidate list \<Rightarrow> issuerSignedItem list" where
  "itemsOf cs = concat (map (\<lambda>c. case ec_item c of None \<Rightarrow> [] | Some item \<Rightarrow> [item]) cs)"

definition discloseDocument :: "documentOptions \<Rightarrow> documentDisclosure \<Rightarrow> document" where
  "discloseDocument opts d =
     \<lparr>do_docType = is_docType (dc_issuerSigned opts),
      do_issuerSigned = (dc_issuerSigned opts)\<lparr>is_namespaces := map (\<lambda>(n, cs). (n, itemsOf cs)) (ds_issuer d)\<rparr>,
      do_deviceNamespaces = ds_device d\<rparr>"

text \<open>\<open>authenticate\<close> signs or authenticates the docType and the device namespaces with the device key.\<close>

definition createDocument :: "(deviceAuthKind \<Rightarrow> string \<Rightarrow> deviceNamespaces \<Rightarrow> responseError + 'a) \<Rightarrow> documentOptions \<Rightarrow>
    (nat \<times> docRequest) list \<Rightarrow> responseError + document \<times> 'a" where
  "createDocument authenticate opts docRequests =
     bindR (ensure (dc_mac opts \<noteq> dc_signature opts) EitherSignatureOrMac) (\<lambda>_.
     bindR (ensure (list_all (\<lambda>(_, r). rq_docType r = is_docType (dc_issuerSigned opts)) docRequests) DocTypeMismatch) (\<lambda>_.
     bindR (selectElements opts (mergeDocRequests (map snd docRequests))) (\<lambda>d.
     bindR (ensure (findUnauthorizedDeviceSignedElements (ds_device d) (is_keyAuthorizations (dc_issuerSigned opts)) = [])
              DeviceKeyNotAuthorizedError) (\<lambda>_.
     bindR (authenticate (if dc_signature opts then SignatureAuth else MacAuth) (is_docType (dc_issuerSigned opts)) (ds_device d)) (\<lambda>auth.
       Inr (discloseDocument opts d, auth))))))"

section \<open>A response\<close>

definition countDocument :: "(bytes \<Rightarrow> string option) \<Rightarrow> documentOptions \<Rightarrow> (nat \<times> nat) list \<Rightarrow> nat \<times> docRequest \<Rightarrow>
    responseError + (nat \<times> nat) list" where
  "countDocument keyIdentifier document counts entry =
     (let (i, request) = entry;
          count = (case map_of counts i of None \<Rightarrow> 0 | Some n \<Rightarrow> n) + 1
      in bindR (ensure (matchIssuer keyIdentifier (issuersOf request) (is_certificateChain (dc_issuerSigned document)) \<noteq> Some False)
                 UnsatisfiedDeviceRequest) (\<lambda>_.
         bindR (ensure (\<not> (uniqueOf request \<and> count = 2)) UnsatisfiedDeviceRequest) (\<lambda>_.
           Inr (AList.update i count counts))))"

definition countDocuments :: "(bytes \<Rightarrow> string option) \<Rightarrow> deviceRequest \<Rightarrow> documentOptions list \<Rightarrow> responseError + (nat \<times> nat) list" where
  "countDocuments keyIdentifier request documents = foldR (\<lambda>counts document.
     bindR (findDocRequests request document) (\<lambda>entries. foldR (countDocument keyIdentifier document) counts entries)) [] documents"

definition setAnswered :: "(nat \<times> nat) list \<Rightarrow> nat list list \<Rightarrow> bool" where
  "setAnswered counts documentSets = list_ex (\<lambda>s. list_all (\<lambda>i. map_of counts i \<noteq> None) s) documentSets"

definition checkRequestInfo :: "(bytes \<Rightarrow> string option) \<Rightarrow> deviceRequest \<Rightarrow> documentOptions list \<Rightarrow> responseError + unit" where
  "checkRequestInfo keyIdentifier request documents =
     bindR (countDocuments keyIdentifier request documents) (\<lambda>counts.
       (case dv_useCases request of
          None \<Rightarrow> Inr ()
        | Some useCases \<Rightarrow>
            if documents = [] then Inr ()
            else bindR (ensure (list_all (\<lambda>u. us_mandatory u \<longrightarrow> setAnswered counts (us_documentSets u)) useCases)
                         UnsatisfiedDeviceRequest) (\<lambda>_.
                 ensure (list_ex (\<lambda>u. setAnswered counts (us_documentSets u)) useCases) UnsatisfiedDeviceRequest)))"

definition responseLimits :: "deviceRequest \<Rightarrow> nat list" where
  "responseLimits request = concat (map (\<lambda>r. case rq_info r of None \<Rightarrow> [] | Some info \<Rightarrow>
     (case ri_maximumResponseSize info of None \<Rightarrow> [] | Some n \<Rightarrow> [n])) (dv_docRequests request))"

definition checkResponseSize :: "('r \<Rightarrow> nat) \<Rightarrow> deviceRequest \<Rightarrow> 'r \<Rightarrow> responseError + unit" where
  "checkResponseSize encodedSize request response =
     (case responseLimits request of
        [] \<Rightarrow> Inr ()
      | limit # rest \<Rightarrow> ensure (encodedSize response \<le> foldl (\<lambda>smallest n. if n < smallest then n else smallest) limit rest)
          UnsatisfiedDeviceRequest)"

definition createWithDeviceRequest :: "(deviceAuthKind \<Rightarrow> string \<Rightarrow> deviceNamespaces \<Rightarrow> responseError + 'a) \<Rightarrow>
    (bytes \<Rightarrow> string option) \<Rightarrow> ((document \<times> 'a) list \<Rightarrow> nat) \<Rightarrow> deviceRequest \<Rightarrow> documentOptions list \<Rightarrow>
    responseError + (document \<times> 'a) list" where
  "createWithDeviceRequest authenticate keyIdentifier encodedSize request documents =
     bindR (checkRequestInfo keyIdentifier request documents) (\<lambda>_.
     bindR (mapR (\<lambda>document. bindR (findDocRequests request document) (createDocument authenticate document)) documents) (\<lambda>created.
     bindR (checkResponseSize encodedSize request created) (\<lambda>_. Inr created)))"

end
