(* ===== verification/DeviceResponseLaws.thy ===== *)
theory DeviceResponseLaws imports DeviceMatchLaws DeviceResponse begin

text \<open>
  What a created response discloses: only what answers a selected element, or belongs to the alternative set
  chosen for it, and all of that; and that a reader who accepts any source and takes the certificates from
  the documents finds in it what it asked for.
\<close>

section \<open>Disclosing elements\<close>

lemma set_update_cases: "p \<in> set (AList.update k v al) \<Longrightarrow> p = (k, v) \<or> p \<in> set al"
  by (induction al) (auto split: if_splits)

lemma getList_mem: "x \<in> set (getList m k) \<Longrightarrow> (k, getList m k) \<in> set m"
  by (auto simp: getList_def split: option.splits dest: map_of_SomeD)

text \<open>Everything disclosed has the property \<open>P\<close>.\<close>

definition onlyIssuer :: "(elementCandidate \<Rightarrow> bool) \<Rightarrow> (string \<times> elementCandidate list) list \<Rightarrow> bool" where
  "onlyIssuer P issuer \<longleftrightarrow> (\<forall>(n, cs) \<in> set issuer. \<forall>c \<in> set cs. ec_namespace c = n \<and> ec_item c \<noteq> None \<and> P c)"

definition onlyDevice :: "(elementCandidate \<Rightarrow> bool) \<Rightarrow> deviceNamespaces \<Rightarrow> bool" where
  "onlyDevice P device \<longleftrightarrow> (\<forall>(n, items) \<in> set device. \<forall>(e, v) \<in> set items.
     \<exists>c. ec_namespace c = n \<and> ec_element c = e \<and> ec_value c = v \<and> ec_item c = None \<and> P c)"

definition disclosesOnly :: "(elementCandidate \<Rightarrow> bool) \<Rightarrow> documentDisclosure \<Rightarrow> bool" where
  "disclosesOnly P d \<longleftrightarrow> onlyIssuer P (ds_issuer d) \<and> onlyDevice P (ds_device d)"

definition shown :: "documentDisclosure \<Rightarrow> elementCandidate \<Rightarrow> bool" where
  "shown d c \<longleftrightarrow> (case ec_item c of
       None \<Rightarrow> map_of (getList (ds_device d) (ec_namespace c)) (ec_element c) \<noteq> None
     | Some _ \<Rightarrow> ec_position c \<in> ec_position ` set (getList (ds_issuer d) (ec_namespace c)))"

lemma onlyIssuerD: "onlyIssuer P issuer \<Longrightarrow> c \<in> set (getList issuer n) \<Longrightarrow> ec_namespace c = n \<and> ec_item c \<noteq> None \<and> P c"
  using getList_mem [of c issuer n] by (force simp: onlyIssuer_def)

lemma onlyDeviceD: "onlyDevice P device \<Longrightarrow> (e, v) \<in> set (getList device n) \<Longrightarrow>
    \<exists>c. ec_namespace c = n \<and> ec_element c = e \<and> ec_value c = v \<and> ec_item c = None \<and> P c"
  using getList_mem [of "(e, v)" device n] by (fastforce simp: onlyDevice_def)

lemma onlyIssuer_update:
  "onlyIssuer P issuer \<Longrightarrow> \<forall>c \<in> set cs. ec_namespace c = n \<and> ec_item c \<noteq> None \<and> P c \<Longrightarrow> onlyIssuer P (AList.update n cs issuer)"
  unfolding onlyIssuer_def by (auto dest!: set_update_cases)

lemma onlyDevice_update:
  assumes "onlyDevice P device" "\<forall>(e, v) \<in> set items. \<exists>c. ec_namespace c = n \<and> ec_element c = e \<and> ec_value c = v \<and> ec_item c = None \<and> P c"
  shows "onlyDevice P (AList.update n items device)"
  unfolding onlyDevice_def
proof
  fix p assume p: "p \<in> set (AList.update n items device)"
  show "case p of (n, items) \<Rightarrow> \<forall>(e, v) \<in> set items.
      \<exists>c. ec_namespace c = n \<and> ec_element c = e \<and> ec_value c = v \<and> ec_item c = None \<and> P c"
    using set_update_cases [OF p]
  proof
    assume "p = (n, items)"
    then show ?thesis using assms(2) by (simp only: prod.case)
  next
    assume "p \<in> set device"
    then show ?thesis by (rule bspec [OF assms(1) [unfolded onlyDevice_def]])
  qed
qed

lemma discloseElement_only:
  assumes d: "disclosesOnly P d" and c: "P c"
  shows "disclosesOnly P (discloseElement d c)"
proof (cases "ec_item c")
  case None
  let ?items = "getList (ds_device d) (ec_namespace c)"
  have dev: "onlyDevice P (ds_device d)" using d by (simp add: disclosesOnly_def)
  have "onlyDevice P (AList.update (ec_namespace c) (AList.update (ec_element c) (ec_value c) ?items) (ds_device d))"
  proof (rule onlyDevice_update [OF dev], rule ballI, clarify)
    fix e v assume "(e, v) \<in> set (AList.update (ec_element c) (ec_value c) ?items)"
    from set_update_cases [OF this]
    show "\<exists>c'. ec_namespace c' = ec_namespace c \<and> ec_element c' = e \<and> ec_value c' = v \<and> ec_item c' = None \<and> P c'"
    proof
      assume "(e, v) = (ec_element c, ec_value c)"
      then show ?thesis using None c by blast
    next
      assume "(e, v) \<in> set ?items"
      then show ?thesis by (rule onlyDeviceD [OF dev])
    qed
  qed
  then show ?thesis using d None by (simp add: disclosesOnly_def discloseElement_def)
next
  case (Some item)
  have iss: "onlyIssuer P (ds_issuer d)" using d by (simp add: disclosesOnly_def)
  then have "onlyIssuer P (AList.update (ec_namespace c) (if ec_position c \<in> set (map ec_position (getList (ds_issuer d) (ec_namespace c)))
      then getList (ds_issuer d) (ec_namespace c) else getList (ds_issuer d) (ec_namespace c) @ [c]) (ds_issuer d))"
    by (rule onlyIssuer_update) (use onlyIssuerD [OF iss] Some c in auto)
  then show ?thesis using d Some by (simp add: disclosesOnly_def discloseElement_def Let_def)
qed

lemma discloseElement_shown: "shown (discloseElement d c) c"
  by (auto simp: shown_def discloseElement_def Let_def getList_update update_conv' split: option.split)

lemma discloseElement_keeps: "shown d c \<Longrightarrow> shown (discloseElement d c') c"
  by (auto simp: shown_def discloseElement_def Let_def getList_update update_conv' split: option.splits if_splits)

lemma foldl_disclose:
  "disclosesOnly P d \<Longrightarrow> list_all P cs \<Longrightarrow> disclosesOnly P (foldl discloseElement d cs)"
  "shown d c \<or> c \<in> set cs \<Longrightarrow> shown (foldl discloseElement d cs) c"
  by (induction cs arbitrary: d) (auto simp: discloseElement_only discloseElement_shown discloseElement_keeps)

section \<open>Selecting elements\<close>

text \<open>An element is released when a selected requested element is answered with it: as it is, or by the
  alternative set the holder chose for it.\<close>

definition releasedBy :: "documentOptions \<Rightarrow> mergedRequests \<Rightarrow> elementRef \<Rightarrow> elementOption \<Rightarrow> bool" where
  "releasedBy opts merged ref op \<longleftrightarrow> isSelected (dc_elements opts) ref \<and> optionFor (selectionContext opts merged) ref op
     \<and> op_alternative op = chosenIndex (dc_alternatives opts) ref"

definition released :: "documentOptions \<Rightarrow> mergedRequests \<Rightarrow> elementCandidate \<Rightarrow> bool" where
  "released opts merged c \<longleftrightarrow> (\<exists>(n, e, _) \<in> set (requestedElements (mg_namespaces merged)).
     \<exists>op. releasedBy opts merged (n, e) op \<and> c \<in> set (op_elements op))"

text \<open>An element that a requested element left out of the selection is answered with.\<close>

definition declines :: "documentOptions \<Rightarrow> mergedRequests \<Rightarrow> elementCandidate \<Rightarrow> bool" where
  "declines opts merged c \<longleftrightarrow> (\<exists>em \<in> set (fst (matchElements (selectionContext opts merged) (mg_namespaces merged))).
     \<exists>d. em_element em = Some d \<and> ec_position d = ec_position c
       \<and> \<not> isAnsweredByAlternative em \<and> \<not> isSelected (dc_elements opts) (claimRef em))"

lemma declinedElements_iff:
  "ec_position c \<in> set (declinedElements (dc_elements opts) (fst (matchElements (selectionContext opts merged) (mg_namespaces merged))))
     \<longleftrightarrow> declines opts merged c"
  by (force simp: declinedElements_def declines_def split: option.splits if_splits)

lemma elementsFor_option:
  assumes "elementsFor alternatives em = Inr cs" "justified ctx em"
  shows "\<exists>op. optionFor ctx (claimRef em) op \<and> op_alternative op = chosenIndex alternatives (claimRef em) \<and> op_elements op = cs"
proof -
  obtain c where c: "em_element em = Some c" using assms(1) by (auto simp: elementsFor_def split: option.splits)
  then obtain s where "cm_outcome (em_claim em) = ClaimSuccess s"
    using assms(2) by (auto simp: justified_def split: claimOutcome.splits)
  then obtain ops where ops: "ops \<noteq> []" "\<forall>op \<in> set ops. optionFor ctx (claimRef em) op" "em_element em = Some (hd (op_elements (hd ops)))"
    "if em_options em = None then \<forall>op \<in> set ops. op_alternative op = None else em_options em = Some ops"
    using assms(2) by (auto simp: justified_def claimRef_def)
  show ?thesis
  proof (cases "chosenIndex alternatives (claimRef em)")
    case (Some i)
    then obtain op where "chosenOption em (Some i) = Some op" "cs = op_elements op"
      using assms(1) c by (auto simp: elementsFor_def Let_def split: if_splits)
    then obtain os where os: "em_options em = Some os" "op \<in> set os" "op_alternative op = Some i"
      by (auto simp: chosenOption_def find_Some_iff split: option.splits)
    then have "os = ops" using ops(4) by simp
    then show ?thesis using ops(2) os Some \<open>cs = op_elements op\<close> by auto
  next
    case None
    then have alone: "\<not> isAnsweredByAlternative em" "cs = [c]"
      using assms(1) c by (auto simp: elementsFor_def Let_def chosenOption_def split: if_splits)
    obtain op os where opseq: "ops = op # os" using ops(1) by (cases ops) auto
    have alt: "op_alternative op = None"
    proof (cases "em_options em")
      case None
      then show ?thesis using ops(4) opseq by simp
    next
      case (Some os')
      then show ?thesis using ops(4) opseq alone(1) by (simp add: isAnsweredByAlternative_def)
    qed
    moreover have "optionFor ctx (claimRef em) op" using ops(2) opseq by simp
    moreover have "op_elements op = [c]"
      using \<open>optionFor ctx (claimRef em) op\<close> alt ops(3) c opseq by (auto simp: optionFor_def list_all2_Cons1)
    ultimately show ?thesis using None alone(2) by (intro exI [of _ op]) simp
  qed
qed

lemma selectClaim_cases:
  assumes "selectClaim opts declined d em = Inr d'"
  obtains "\<not> isSelected (dc_elements opts) (claimRef em)" "d' = d"
  | cs where "isSelected (dc_elements opts) (claimRef em)" "elementsFor (dc_alternatives opts) em = Inr cs"
      "\<forall>c \<in> set cs. ec_position c \<notin> set declined" "d' = foldl discloseElement d cs"
  using assms by (auto simp: selectClaim_def list_all_iff split: if_splits)

lemma foldR_keeps:
  assumes "foldR f s xs = Inr t" "x \<in> set xs"
    and set: "\<forall>u v. f u x = Inr v \<longrightarrow> Q v" and keep: "\<forall>u y v. y \<in> set xs \<longrightarrow> Q u \<longrightarrow> f u y = Inr v \<longrightarrow> Q v"
  shows "Q t"
proof -
  obtain ys zs where xs: "xs = ys @ x # zs" using split_list [OF assms(2)] by blast
  obtain u v where u: "f u x = Inr v" "foldR f v zs = Inr t" using assms(1) unfolding xs foldR_append by auto
  show ?thesis
  proof (rule foldR_invariant [where P = Q, OF u(2)])
    show "Q v" using set u(1) by blast
    fix u y w assume "y \<in> set zs" "Q u" "f u y = Inr w"
    then show "Q w" using keep [rule_format, of y u w] by (simp add: xs)
  qed
qed

lemma set_requested: "(n, e, b) \<in> set (requestedElements namespaces) \<longleftrightarrow> (\<exists>es. (n, es) \<in> set namespaces \<and> (e, b) \<in> set es)"
  by (force simp: requestedElements_def)

lemma holder_claimRefs:
  assumes "mc_mode ctx = Holder"
  shows "claimRef ` set (fst (matchElements ctx namespaces)) = (\<lambda>(n, e, _). (n, e)) ` set (requestedElements namespaces)"
proof -
  have "map claimRef (fst (matchElements ctx namespaces))
      = map (\<lambda>b. (cb_namespace b, cb_element b)) (map (\<lambda>em. cm_base (em_claim em)) (fst (matchElements ctx namespaces)))"
    by (simp add: claimRef_def)
  also have "\<dots> = map (\<lambda>(n, e, _). (n, e)) (requestedElements namespaces)"
    unfolding holder_claims [OF assms] by (simp add: comp_def case_prod_beta)
  finally show ?thesis by (metis set_map)
qed

lemma selectElements_cases:
  assumes "selectElements opts merged = Inr d"
  defines "claims \<equiv> fst (matchElements (selectionContext opts merged) (mg_namespaces merged))"
  shows "checkSelection merged (dc_elements opts) = Inr ()"
    "checkAlternatives merged (dc_elements opts) (dc_alternatives opts) = Inr ()"
    "foldR (selectClaim opts (declinedElements (dc_elements opts) claims)) \<lparr>ds_issuer = [], ds_device = []\<rparr> claims = Inr d"
    "findAgeOverLimitViolations (disclosedIdentifiers d) = []"
  using assms by (simp_all add: selectElements_def Let_def)

lemma selection_mode [simp]: "mc_mode (selectionContext opts merged) = Holder"
  by (simp add: selectionContext_def)

lemma claim_requested:
  assumes "em \<in> set (fst (matchElements (selectionContext opts merged) (mg_namespaces merged)))"
  shows "\<exists>b. (fst (claimRef em), snd (claimRef em), b) \<in> set (requestedElements (mg_namespaces merged))"
proof -
  have "claimRef em \<in> (\<lambda>(n, e, _). (n, e)) ` set (requestedElements (mg_namespaces merged))"
    unfolding holder_claimRefs [OF selection_mode, of opts merged, symmetric] using assms by (rule imageI)
  then show ?thesis by force
qed

text \<open>The elements selected are released and not declined.\<close>

lemma claim_released:
  assumes em: "em \<in> set (fst (matchElements (selectionContext opts merged) (mg_namespaces merged)))"
    and sel: "isSelected (dc_elements opts) (claimRef em)" and cs: "elementsFor (dc_alternatives opts) em = Inr cs"
  shows "\<exists>op. releasedBy opts merged (claimRef em) op \<and> op_elements op = cs" "c \<in> set cs \<Longrightarrow> released opts merged c"
proof -
  show op: "\<exists>op. releasedBy opts merged (claimRef em) op \<and> op_elements op = cs"
    using elementsFor_option [OF cs matchElements_justified [OF em]] sel unfolding releasedBy_def by blast
  assume c: "c \<in> set cs"
  obtain b where "(fst (claimRef em), snd (claimRef em), b) \<in> set (requestedElements (mg_namespaces merged))"
    using claim_requested [OF em] by blast
  then show "released opts merged c" unfolding released_def using op c
    by (intro bexI [of _ "(fst (claimRef em), snd (claimRef em), b)"]) (simp, blast)
qed

lemma selectElements_only:
  assumes "selectElements opts merged = Inr d"
  shows "disclosesOnly (\<lambda>c. released opts merged c \<and> \<not> declines opts merged c) d"
proof (rule foldR_invariant [OF selectElements_cases(3) [OF assms]])
  let ?claims = "fst (matchElements (selectionContext opts merged) (mg_namespaces merged))"
  show "disclosesOnly (\<lambda>c. released opts merged c \<and> \<not> declines opts merged c) \<lparr>ds_issuer = [], ds_device = []\<rparr>"
    by (simp add: disclosesOnly_def onlyIssuer_def onlyDevice_def)
  fix d em d'
  assume em: "em \<in> set ?claims" and d: "disclosesOnly (\<lambda>c. released opts merged c \<and> \<not> declines opts merged c) d"
    and step: "selectClaim opts (declinedElements (dc_elements opts) ?claims) d em = Inr d'"
  from step show "disclosesOnly (\<lambda>c. released opts merged c \<and> \<not> declines opts merged c) d'"
  proof (cases rule: selectClaim_cases)
    case 1
    then show ?thesis using d by simp
  next
    case (2 cs)
    have "list_all (\<lambda>c. released opts merged c \<and> \<not> declines opts merged c) cs"
      using claim_released(2) [OF em 2(1,2)] 2(3) by (simp add: list_all_iff declinedElements_iff)
    then show ?thesis unfolding 2(4) by (rule foldl_disclose(1) [OF d])
  qed
qed

lemma selectElements_all:
  assumes d: "selectElements opts merged = Inr d"
    and ref: "(n, e, b) \<in> set (requestedElements (mg_namespaces merged))" "isSelected (dc_elements opts) (n, e)"
  shows "\<exists>op. releasedBy opts merged (n, e) op \<and> (\<forall>c \<in> set (op_elements op). shown d c)"
proof -
  let ?claims = "fst (matchElements (selectionContext opts merged) (mg_namespaces merged))"
  have "(n, e) \<in> (\<lambda>(n, e, _). (n, e)) ` set (requestedElements (mg_namespaces merged))" using ref(1) by force
  then obtain em where em: "em \<in> set ?claims" "claimRef em = (n, e)"
    unfolding holder_claimRefs [OF selection_mode, of opts merged, symmetric] by auto
  show ?thesis
  proof (rule foldR_keeps [OF selectElements_cases(3) [OF d] em(1)]; intro allI impI)
    fix u v assume "selectClaim opts (declinedElements (dc_elements opts) ?claims) u em = Inr v"
    then show "\<exists>op. releasedBy opts merged (n, e) op \<and> (\<forall>c \<in> set (op_elements op). shown v c)"
    proof (cases rule: selectClaim_cases)
      case 1
      then show ?thesis using ref(2) em(2) by simp
    next
      case (2 cs)
      then show ?thesis using claim_released(1) [OF em(1) 2(1,2)] foldl_disclose(2) em(2) by metis
    qed
  next
    fix u em' v
    assume q: "\<exists>op. releasedBy opts merged (n, e) op \<and> (\<forall>c \<in> set (op_elements op). shown u c)"
      and step: "selectClaim opts (declinedElements (dc_elements opts) ?claims) u em' = Inr v"
    from step have "shown u c \<Longrightarrow> shown v c" for c by (cases rule: selectClaim_cases) (auto intro: foldl_disclose(2))
    then show "\<exists>op. releasedBy opts merged (n, e) op \<and> (\<forall>c \<in> set (op_elements op). shown v c)" using q by blast
  qed
qed

section \<open>What the doc requests of a document ask for together\<close>

lemma isRequested_iff: "isRequested namespaces (n, e) \<longleftrightarrow> map_of (getList namespaces n) e \<noteq> None"
  by (auto simp: isRequested_def getList_def split: option.splits)

lemma isRequested_mem: "isRequested namespaces (n, e) \<Longrightarrow> \<exists>b. (n, e, b) \<in> set (requestedElements namespaces)"
  unfolding set_requested by (auto simp: isRequested_def split: option.splits dest!: map_of_SomeD)

lemma requested_isRequested:
  assumes "distinct (map fst namespaces)" "(n, e, b) \<in> set (requestedElements namespaces)"
  shows "isRequested namespaces (n, e)"
proof -
  obtain es where es: "(n, es) \<in> set namespaces" "(e, b) \<in> set es" using assms(2) unfolding set_requested by blast
  then have "map_of namespaces n = Some es" using assms(1) by simp
  moreover have "e \<in> fst ` set es" using imageI [OF es(2), of fst] by simp
  then have "map_of es e \<noteq> None" by (simp add: map_of_eq_None_iff)
  ultimately show ?thesis by (simp add: isRequested_def)
qed

lemma foldl_mergeElement: "map_of (foldl mergeElement m es) e \<noteq> None \<longleftrightarrow> map_of m e \<noteq> None \<or> e \<in> fst ` set es"
  by (induction es arbitrary: m) (auto simp: mergeElement_def update_conv')

lemma foldl_mergeNamespace:
  "map_of (getList (foldl mergeNamespace m entries) n) e \<noteq> None \<longleftrightarrow>
     map_of (getList m n) e \<noteq> None \<or> (\<exists>es. (n, es) \<in> set entries \<and> e \<in> fst ` set es)"
proof (induction entries arbitrary: m)
  case (Cons entry entries)
  have "map_of (getList (mergeNamespace m entry) n) e \<noteq> None \<longleftrightarrow> map_of (getList m n) e \<noteq> None \<or> (fst entry = n \<and> e \<in> fst ` set (snd entry))"
    unfolding mergeNamespace_def getList_update using foldl_mergeElement [of "getList m (fst entry)" "snd entry" e] by auto
  then show ?case unfolding foldl.simps Cons.IH by (cases entry) auto
qed simp

lemma merged_requested:
  assumes "r \<in> set requests" "(n, e, b) \<in> set (requestedElements (rq_namespaces r))"
  shows "isRequested (mg_namespaces (mergeDocRequests requests)) (n, e)"
proof -
  obtain es where "(n, es) \<in> set (rq_namespaces r)" "(e, b) \<in> set es" using assms(2) unfolding set_requested by blast
  then have "\<exists>es. (n, es) \<in> set (concat (map rq_namespaces requests)) \<and> e \<in> fst ` set es" using assms(1) by force
  then have "map_of (getList (mergeNamespaces requests) n) e \<noteq> None" unfolding mergeNamespaces_def foldl_mergeNamespace by blast
  then show ?thesis unfolding isRequested_iff by (simp add: mergeDocRequests_def Let_def)
qed

text \<open>An alternative set chosen for the doc requests together is one of each of them.\<close>

lemma merged_alternative:
  assumes a: "a \<in> set (mg_alternatives (mergeDocRequests requests))" "as_requested a = ref"
    and r: "r \<in> set requests" "isRequested (rq_namespaces r) ref"
  shows "\<exists>a'. findAlternative r ref = Some a' \<and> as_sets a' = as_sets a"
proof -
  obtain ref' where m: "a \<in> set (fst (mergeAlternatives requests ref'))"
    using a(1) by (auto simp: mergeDocRequests_def Let_def)
  let ?as = "map (\<lambda>r. findAlternative r ref') (requesting requests ref')"
  obtain rest where rest: "?as = Some a # rest" "\<forall>x \<in> set rest. case x of None \<Rightarrow> False | Some s \<Rightarrow> as_sets s = as_sets a"
  proof (cases ?as)
    case (Cons x xs)
    then have "x = Some a \<and> (\<forall>x \<in> set xs. case x of None \<Rightarrow> False | Some s \<Rightarrow> as_sets s = as_sets a)"
      using m unfolding mergeAlternatives_def by (cases x) (auto simp: list_all_iff split: if_splits)
    then have x: "x = Some a" and xs: "\<forall>x \<in> set xs. case x of None \<Rightarrow> False | Some s \<Rightarrow> as_sets s = as_sets a" by blast+
    show ?thesis by (rule that [OF _ xs]) (simp only: Cons x)
  qed (use m in \<open>simp add: mergeAlternatives_def\<close>)
  have "Some a \<in> set ?as" unfolding rest(1) by simp
  then obtain r' where "findAlternative r' ref' = Some a" by auto
  then have ref: "ref' = ref" using a(2) by (auto simp: findAlternative_def find_Some_iff)
  have all: "x \<in> set ?as \<Longrightarrow> case x of None \<Rightarrow> False | Some s \<Rightarrow> as_sets s = as_sets a" for x
    unfolding rest(1) using rest(2) by (cases "x = Some a") auto
  have "findAlternative r ref \<in> set ?as" using r by (auto simp: requesting_def ref)
  from all [OF this] show ?thesis by (auto split: option.splits)
qed

section \<open>A reader finds what was disclosed\<close>

lemma set_issuerCandidates: "c \<in> set (issuerCandidates issuer) \<longleftrightarrow> (\<exists>n items item. (n, items) \<in> set (is_namespaces issuer) \<and> item \<in> set items
    \<and> c = \<lparr>ec_position = 0, ec_namespace = n, ec_element = it_element item, ec_value = it_value item, ec_source = IssuerSigned, ec_item = Some item\<rparr>)"
  unfolding issuerCandidates_def set_concat set_map case_prod_beta by (simp add: image_iff Bex_def) auto

lemma set_deviceCandidates: "c \<in> set (deviceCandidates device) \<longleftrightarrow> (\<exists>n items e v. (n, items) \<in> set device \<and> (e, v) \<in> set items
    \<and> c = \<lparr>ec_position = 0, ec_namespace = n, ec_element = e, ec_value = v, ec_source = DeviceSigned, ec_item = None\<rparr>)"
proof
  assume "\<exists>n items e v. (n, items) \<in> set device \<and> (e, v) \<in> set items
    \<and> c = \<lparr>ec_position = 0, ec_namespace = n, ec_element = e, ec_value = v, ec_source = DeviceSigned, ec_item = None\<rparr>"
  then obtain n items e v where i: "(n, items) \<in> set device" "(e, v) \<in> set items"
    "c = \<lparr>ec_position = 0, ec_namespace = n, ec_element = e, ec_value = v, ec_source = DeviceSigned, ec_item = None\<rparr>" by blast
  then have "c \<in> (\<lambda>(e, v). \<lparr>ec_position = 0, ec_namespace = n, ec_element = e, ec_value = v, ec_source = DeviceSigned, ec_item = None\<rparr>) ` set items"
    by (intro image_eqI [of _ _ "(e, v)"]) simp_all
  then show "c \<in> set (deviceCandidates device)" unfolding deviceCandidates_def using i(1) by (auto intro!: bexI [of _ "(n, items)"])
qed (auto simp: deviceCandidates_def)

lemma set_placed: "x \<in> set cs \<Longrightarrow> \<exists>i. x\<lparr>ec_position := i\<rparr> \<in> set (placed cs)"
proof -
  assume "x \<in> set cs"
  then obtain i where "i < length cs" "cs ! i = x" unfolding in_set_conv_nth by blast
  then have "(i, x) \<in> set (enumerate 0 cs)" by (simp add: in_set_enumerate_eq)
  then show ?thesis unfolding placed_def by (intro exI [of _ i]) (auto intro!: image_eqI [of _ _ "(i, x)"])
qed

lemma placed_from: "c \<in> set (placed cs) \<Longrightarrow> \<exists>x \<in> set cs. c = x\<lparr>ec_position := ec_position c\<rparr>"
  by (auto simp: placed_def in_set_enumerate_eq)

lemma placed_position: "c \<in> set (placed cs) \<Longrightarrow> c' \<in> set (placed cs) \<Longrightarrow> ec_position c = ec_position c' \<Longrightarrow> c = c'"
  by (auto simp: placed_def in_set_enumerate_eq)

lemma collected_fields:
  assumes "c \<in> set (collectElements issuer device)"
  shows "(ec_source c = IssuerSigned \<and> (\<exists>item. ec_item c = Some item \<and> ec_element c = it_element item \<and> ec_value c = it_value item))
     \<or> (ec_source c = DeviceSigned \<and> ec_item c = None \<and> device \<noteq> None)"
proof -
  obtain x where x: "x \<in> set (issuerCandidates issuer @ (case device of None \<Rightarrow> [] | Some d \<Rightarrow> deviceCandidates d))" "c = x\<lparr>ec_position := ec_position c\<rparr>"
    using placed_from assms unfolding collectElements_def by blast
  have "ec_source c = ec_source x" "ec_item c = ec_item x" "ec_element c = ec_element x" "ec_value c = ec_value x"
    by (subst x(2); simp)+
  then show ?thesis using x(1) by (auto simp: set_issuerCandidates set_deviceCandidates split: option.splits)
qed

lemma shown_collected:
  assumes only: "disclosesOnly (\<lambda>c. c \<in> set (collectElements (dc_issuerSigned opts) (dc_deviceNamespaces opts))) d"
    and c: "c \<in> set (collectElements (dc_issuerSigned opts) (dc_deviceNamespaces opts))" and shown: "shown d c"
  defines "doc \<equiv> discloseDocument opts d"
  shows "\<exists>c' \<in> set (collectElements (do_issuerSigned doc) (Some (do_deviceNamespaces doc))). ec_namespace c' = ec_namespace c
     \<and> ec_element c' = ec_element c \<and> ec_source c' = ec_source c \<and> (ec_source c = IssuerSigned \<longrightarrow> ec_value c' = ec_value c)"
proof -
  have keep: "\<exists>c' \<in> set (collectElements (do_issuerSigned doc) (Some (do_deviceNamespaces doc))). ec_namespace c' = ec_namespace x
     \<and> ec_element c' = ec_element x \<and> ec_source c' = ec_source x \<and> ec_value c' = ec_value x"
    if x: "x \<in> set (issuerCandidates (do_issuerSigned doc)) \<union> set (deviceCandidates (do_deviceNamespaces doc))" for x
  proof -
    have "x \<in> set (issuerCandidates (do_issuerSigned doc) @ deviceCandidates (do_deviceNamespaces doc))" using x by simp
    from set_placed [OF this] obtain i where i: "x\<lparr>ec_position := i\<rparr> \<in> set (collectElements (do_issuerSigned doc) (Some (do_deviceNamespaces doc)))"
      unfolding collectElements_def by auto
    show ?thesis by (rule bexI [OF _ i]) simp
  qed
  show ?thesis
  proof (cases "ec_item c")
    case None
    then have src: "ec_source c = DeviceSigned" using collected_fields [OF c] by auto
    obtain v where v: "(ec_element c, v) \<in> set (getList (ds_device d) (ec_namespace c))"
      using shown None by (auto simp: shown_def dest!: map_of_SomeD)
    let ?x = "\<lparr>ec_position = 0, ec_namespace = ec_namespace c, ec_element = ec_element c, ec_value = v, ec_source = DeviceSigned, ec_item = None\<rparr>"
    have "?x \<in> set (deviceCandidates (do_deviceNamespaces doc))"
      using getList_mem [OF v] v unfolding set_deviceCandidates doc_def discloseDocument_def by auto
    then show ?thesis using keep [of ?x] src by auto
  next
    case (Some item)
    then have f: "ec_source c = IssuerSigned" "ec_element c = it_element item" "ec_value c = it_value item" using collected_fields [OF c] by auto
    obtain c' where c': "c' \<in> set (getList (ds_issuer d) (ec_namespace c))" "ec_position c' = ec_position c"
      using shown Some by (auto simp: shown_def)
    have "c' \<in> set (collectElements (dc_issuerSigned opts) (dc_deviceNamespaces opts))"
      using onlyIssuerD [OF _ c'(1)] only unfolding disclosesOnly_def by blast
    then have "c' = c" using placed_position c c'(2) unfolding collectElements_def by blast
    then have m: "c \<in> set (getList (ds_issuer d) (ec_namespace c))" using c'(1) by simp
    let ?x = "\<lparr>ec_position = 0, ec_namespace = ec_namespace c, ec_element = it_element item, ec_value = it_value item, ec_source = IssuerSigned, ec_item = Some item\<rparr>"
    have item: "item \<in> set (itemsOf (getList (ds_issuer d) (ec_namespace c)))"
      using m Some by (force simp: itemsOf_def)
    have "(ec_namespace c, itemsOf (getList (ds_issuer d) (ec_namespace c))) \<in> set (is_namespaces (do_issuerSigned doc))"
      using getList_mem [OF m] by (force simp: doc_def discloseDocument_def)
    then have "?x \<in> set (issuerCandidates (do_issuerSigned doc))" using item unfolding set_issuerCandidates by blast
    then show ?thesis using keep [of ?x] f by auto
  qed
qed


text \<open>A reader accepts an element when it takes it from any source, or issuer-signed from a holder that discloses
  nothing device-signed.\<close>

definition accepts :: "elementOptions \<Rightarrow> documentOptions \<Rightarrow> elementRef \<Rightarrow> bool" where
  "accepts elements opts ref \<longleftrightarrow> sourceOf elements (fst ref) (snd ref) = AnySource
     \<or> (sourceOf elements (fst ref) (snd ref) = Only IssuerSigned \<and> dc_deviceNamespaces opts = None)"

definition acceptsAll :: "elementOptions \<Rightarrow> documentOptions \<Rightarrow> docRequest \<Rightarrow> bool" where
  "acceptsAll elements opts request \<longleftrightarrow>
     (\<forall>(n, e, _) \<in> set (requestedElements (rq_namespaces request)). accepts elements opts (n, e))
   \<and> (\<forall>a \<in> set (alternativesOf request). \<forall>s \<in> set (as_sets a). \<forall>ref \<in> set s. accepts elements opts ref)"

lemma mayAnswer_again:
  assumes c: "mayAnswer (selectionContext opts merged) ref c" and shown: "shown d c"
    and only: "disclosesOnly (\<lambda>c. c \<in> set (collectElements (dc_issuerSigned opts) (dc_deviceNamespaces opts))) d"
    and accepts: "accepts elements opts ref"
  shows "\<exists>c'. mayAnswer (verifierContext elements request (discloseDocument opts d)) ref c'"
proof -
  let ?ctx = "verifierContext elements request (discloseDocument opts d)"
  have avail: "c \<in> set (collectElements (dc_issuerSigned opts) (dc_deviceNamespaces opts))"
    using c by (simp add: mayAnswer_def selectionContext_def)
  obtain c' where c': "c' \<in> set (mc_available ?ctx)" "ec_namespace c' = ec_namespace c" "ec_element c' = ec_element c"
    "ec_source c' = ec_source c" "ec_source c = IssuerSigned \<longrightarrow> ec_value c' = ec_value c"
    using shown_collected [OF only avail shown] by (auto simp: verifierContext_def)
  have ka: "mc_keyAuthorizations ?ctx = mc_keyAuthorizations (selectionContext opts merged)"
    by (simp add: verifierContext_def selectionContext_def discloseDocument_def)
  have mode: "mc_mode ?ctx = Verifier" "mc_elements ?ctx = elements" by (simp_all add: verifierContext_def)
  have name: "answersName (snd ref) c'"
  proof (cases "ec_source c")
    case IssuerSigned
    then have "answersName (snd ref) c" using c by (simp add: mayAnswer_def)
    then show ?thesis using c'(3,5) IssuerSigned by (simp add: answersName_def decidesAge_def)
  next
    case DeviceSigned
    then show ?thesis using c c'(3) by (simp add: mayAnswer_def answersName_def)
  qed
  have "allowedFrom ?ctx ref (ec_source c')"
    using accepts collected_fields [OF avail] c'(4) unfolding accepts_def allowedFrom_def mode by auto
  then have "mayAnswer ?ctx ref c'" using c c' ka name mode(1) unfolding mayAnswer_def by auto
  then show ?thesis by blast
qed

lemma option_answers:
  assumes op: "optionFor (selectionContext opts (mergeDocRequests requests)) (n, e) op" "\<forall>c \<in> set (op_elements op). shown d c"
    and only: "disclosesOnly (\<lambda>c. c \<in> set (collectElements (dc_issuerSigned opts) (dc_deviceNamespaces opts))) d"
    and r: "request \<in> set requests" "isRequested (rq_namespaces request) (n, e)" "acceptsAll elements opts request"
  shows "answered (verifierContext elements request (discloseDocument opts d)) (n, e)"
proof -
  let ?sel = "selectionContext opts (mergeDocRequests requests)" and ?ctx = "verifierContext elements request (discloseDocument opts d)"
  show ?thesis
  proof (cases "op_alternative op")
    case None
    then obtain c where c: "op_elements op = [c]" "mayAnswer ?sel (n, e) c" using op(1) by (auto simp: optionFor_def list_all2_Cons1)
    obtain b where "(n, e, b) \<in> set (requestedElements (rq_namespaces request))" using isRequested_mem [OF r(2)] by blast
    then have "accepts elements opts (n, e)" using r(3) unfolding acceptsAll_def by fast
    then have "\<exists>c'. mayAnswer ?ctx (n, e) c'" using mayAnswer_again [OF c(2) _ only] op(2) c(1) by simp
    then show ?thesis by (simp add: answered_def)
  next
    case (Some i)
    then obtain a where a: "alternativeFor ?sel n e = Some a" "i < length (as_sets a)" "list_all2 (mayAnswer ?sel) (as_sets a ! i) (op_elements op)"
      using op(1) by (auto simp: optionFor_def)
    have am: "a \<in> set (mg_alternatives (mergeDocRequests requests))" "as_requested a = (n, e)"
      using a(1) by (auto simp: alternativeFor_def selectionContext_def find_Some_iff)
    obtain a' where a': "findAlternative request (n, e) = Some a'" "as_sets a' = as_sets a"
      using merged_alternative [OF am r(1,2)] by blast
    have mem: "a' \<in> set (alternativesOf request)" using a'(1) by (auto simp: findAlternative_def find_Some_iff)
    have "\<exists>c. mayAnswer ?ctx ref c" if ref: "ref \<in> set (as_sets a ! i)" for ref
    proof -
      obtain j where j: "j < length (as_sets a ! i)" "as_sets a ! i ! j = ref" using ref unfolding in_set_conv_nth by blast
      then have m: "mayAnswer ?sel ref (op_elements op ! j)" using list_all2_nthD [OF a(3)] by blast
      have sh: "shown d (op_elements op ! j)" using op(2) j(1) list_all2_lengthD [OF a(3)] by simp
      have "as_sets a ! i \<in> set (as_sets a')" using a(2) a'(2) by simp
      then have "accepts elements opts ref" using r(3) mem ref unfolding acceptsAll_def by blast
      then show ?thesis by (rule mayAnswer_again [OF m sh only])
    qed
    moreover have "as_sets a ! i \<noteq> []" using op(1) a(3) by (auto simp: optionFor_def)
    moreover have "alternativeFor ?ctx n e = Some a'" using a'(1) by (simp add: alternativeFor_def findAlternative_def verifierContext_def)
    ultimately have "alternativeAnswers ?ctx (n, e)" unfolding alternativeAnswers_def
      using a(2) a'(2) by (intro exI [of _ a'] conjI bexI [of _ "as_sets a ! i"]) auto
    then show ?thesis by (simp add: answered_def)
  qed
qed

lemma released_available:
  assumes "released opts merged c"
  shows "c \<in> set (collectElements (dc_issuerSigned opts) (dc_deviceNamespaces opts))"
proof -
  let ?ctx = "selectionContext opts merged"
  obtain n e op where op: "optionFor ?ctx (n, e) op" "c \<in> set (op_elements op)"
    using assms by (auto simp: released_def releasedBy_def)
  then obtain refs where "list_all2 (mayAnswer ?ctx) refs (op_elements op)" unfolding optionFor_def by (cases "op_alternative op") auto
  moreover obtain i where "i < length (op_elements op)" "op_elements op ! i = c" using op(2) unfolding in_set_conv_nth by blast
  ultimately have "mayAnswer ?ctx (refs ! i) c" by (auto simp: list_all2_conv_all_nth)
  then show ?thesis by (simp add: mayAnswer_def selectionContext_def)
qed


lemma createDocument_cases:
  assumes "createDocument authenticate opts entries = Inr (doc, auth)"
  obtains d where "\<forall>(i, r) \<in> set entries. rq_docType r = is_docType (dc_issuerSigned opts)"
    "selectElements opts (mergeDocRequests (map snd entries)) = Inr d" "doc = discloseDocument opts d"
    "findUnauthorizedDeviceSignedElements (ds_device d) (is_keyAuthorizations (dc_issuerSigned opts)) = []"
  using assms by (auto simp: createDocument_def list_all_iff)

text \<open>A created document satisfies each of its doc requests for a reader that accepts its elements.\<close>

lemma created_document_matches:
  assumes create: "createDocument authenticate opts entries = Inr (doc, auth)" and r: "(i, request) \<in> set entries"
    and wf: "distinct (map fst (rq_namespaces request))" and accepts: "acceptsAll elements opts request"
    and selected: "\<forall>(n, e, _) \<in> set (requestedElements (rq_namespaces request)). isSelected (dc_elements opts) (n, e) \<or> elementOptional elements n e"
    and issuer: "matchIssuer k (issuersOf request) chain \<noteq> Some False"
  shows "dm_success (matchDocument k elements request chain (j, doc))"
proof -
  obtain d where docType: "\<forall>(i, r) \<in> set entries. rq_docType r = is_docType (dc_issuerSigned opts)"
    and d: "selectElements opts (mergeDocRequests (map snd entries)) = Inr d" "doc = discloseDocument opts d"
    using createDocument_cases [OF create] by metis
  have type: "rq_docType request = is_docType (dc_issuerSigned opts)" using bspec [OF docType r] by simp
  show ?thesis unfolding dm_success_iff
proof (intro conjI ballI, goal_cases)
  case 1
  then show ?case using type d(2) by (simp add: discloseDocument_def)
next
  case 2
  then show ?case using type d(2) by (simp add: discloseDocument_def)
next
  case 3
  then show ?case by (rule issuer)
next
  case (4 req)
  obtain n e b where req: "req = (n, e, b)" by (cases req)
  let ?merged = "mergeDocRequests (map snd entries)"
  have request: "request \<in> set (map snd entries)" using r by force
  have "answered (verifierContext elements request doc) (n, e)" if sel: "isSelected (dc_elements opts) (n, e)"
  proof -
    have "isRequested (mg_namespaces ?merged) (n, e)" by (rule merged_requested [OF request]) (use 4 req in simp)
    then obtain b' where "(n, e, b') \<in> set (requestedElements (mg_namespaces ?merged))" using isRequested_mem by blast
    from selectElements_all [OF d(1) this sel] obtain op where op: "releasedBy opts ?merged (n, e) op" "\<forall>c \<in> set (op_elements op). shown d c"
      by blast
    have only: "disclosesOnly (\<lambda>c. c \<in> set (collectElements (dc_issuerSigned opts) (dc_deviceNamespaces opts))) d"
      using selectElements_only [OF d(1)] released_available unfolding disclosesOnly_def onlyIssuer_def onlyDevice_def by fast
    have "isRequested (rq_namespaces request) (n, e)" by (rule requested_isRequested [OF wf]) (use 4 req in simp)
    then show ?thesis unfolding d(2) using option_answers [OF _ op(2) only request _ accepts] op(1) by (simp add: releasedBy_def)
  qed
  then show ?case using bspec [OF selected 4] req by auto
qed
qed

section \<open>The documents of a response, counted\<close>

definition countOf :: "(nat \<times> nat) list \<Rightarrow> nat \<Rightarrow> nat" where
  "countOf counts i = (case map_of counts i of None \<Rightarrow> 0 | Some n \<Rightarrow> n)"

lemma findDocRequests_spec:
  assumes "findDocRequests request document = Inr entries"
  shows "distinct (map fst entries)" "fst ` set entries = set (dc_docRequests document)" "dc_docRequests document \<noteq> []"
    "\<forall>(i, r) \<in> set entries. i < length (dv_docRequests request) \<and> r = dv_docRequests request ! i"
proof -
  let ?is = "rev (remdups (rev (dc_docRequests document)))"
  have m: "mapR (findDocRequest request) ?is = Inr entries" "?is \<noteq> []"
    using assms by (auto simp: findDocRequests_def Let_def split: if_splits)
  show "dc_docRequests document \<noteq> []" using m(2) by auto
  have nth: "findDocRequest request (?is ! j) = Inr (entries ! j)" if "j < length ?is" for j using mapR_nth [OF m(1) that] .
  have entry: "?is ! j < length (dv_docRequests request) \<and> entries ! j = (?is ! j, dv_docRequests request ! (?is ! j))" if "j < length ?is" for j
    using nth [OF that] by (auto simp: findDocRequest_def split: if_splits)
  have fst: "map fst entries = ?is"
    using mapR_length [OF m(1)] entry by (intro nth_equalityI) simp_all
  then show "distinct (map fst entries)" by simp
  show "fst ` set entries = set (dc_docRequests document)" using arg_cong [OF fst, of set] by simp
  show "\<forall>(i, r) \<in> set entries. i < length (dv_docRequests request) \<and> r = dv_docRequests request ! i"
  proof
    fix p assume "p \<in> set entries"
    then obtain j where "j < length entries" "entries ! j = p" unfolding in_set_conv_nth by blast
    then show "case p of (i, r) \<Rightarrow> i < length (dv_docRequests request) \<and> r = dv_docRequests request ! i"
      using entry [of j] mapR_length [OF m(1)] by auto
  qed
qed

lemma countDocument_spec:
  assumes "countDocument k document counts (i, r) = Inr counts'"
  shows "countOf counts' l = countOf counts l + (if l = i then 1 else 0)"
    "map_of counts' l \<noteq> None \<longleftrightarrow> map_of counts l \<noteq> None \<or> l = i"
    "uniqueOf r \<longrightarrow> countOf counts' i \<noteq> 2"
    "matchIssuer k (issuersOf r) (is_certificateChain (dc_issuerSigned document)) \<noteq> Some False"
  using assms by (auto simp: countDocument_def countOf_def Let_def update_conv' split: option.splits)

lemma countEntries_spec:
  assumes "foldR (countDocument k document) counts entries = Inr counts'" "distinct (map fst entries)"
  shows "(\<forall>l. countOf counts' l = countOf counts l + (if l \<in> fst ` set entries then 1 else 0)
       \<and> (map_of counts' l \<noteq> None \<longleftrightarrow> map_of counts l \<noteq> None \<or> l \<in> fst ` set entries)) \<and>
    (\<forall>(i, r) \<in> set entries. (uniqueOf r \<longrightarrow> countOf counts' i \<noteq> 2)
       \<and> matchIssuer k (issuersOf r) (is_certificateChain (dc_issuerSigned document)) \<noteq> Some False)"
  using assms
proof (induction entries arbitrary: counts)
  case (Cons entry entries)
  obtain i r where e: "entry = (i, r)" by (cases entry)
  obtain c where c: "countDocument k document counts (i, r) = Inr c" "foldR (countDocument k document) c entries = Inr counts'"
    using Cons.prems(1) e by auto
  have d: "distinct (map fst entries)" "i \<notin> fst ` set entries" using Cons.prems(2) e by auto
  note IH = conjunct1 [OF Cons.IH [OF c(2) d(1)]] conjunct2 [OF Cons.IH [OF c(2) d(1)]] and step = countDocument_spec [OF c(1)]
  show ?case
  proof (rule conjI, rule allI)
      fix l
      show "countOf counts' l = countOf counts l + (if l \<in> fst ` set (entry # entries) then 1 else 0)
       \<and> (map_of counts' l \<noteq> None \<longleftrightarrow> map_of counts l \<noteq> None \<or> l \<in> fst ` set (entry # entries))"
        using IH(1) [rule_format, of l] step(1,2) [of l] d(2) e by auto
  next
    have "countOf counts' i = countOf c i" using IH(1) [rule_format, of i] d(2) by simp
    then show "\<forall>(i, r) \<in> set (entry # entries). (uniqueOf r \<longrightarrow> countOf counts' i \<noteq> 2)
       \<and> matchIssuer k (issuersOf r) (is_certificateChain (dc_issuerSigned document)) \<noteq> Some False"
      using IH(2) step(3,4) e by simp
  qed
qed simp_all

lemma countDocuments_spec:
  assumes "foldR (\<lambda>counts document. bindR (findDocRequests request document) (\<lambda>entries. foldR (countDocument k document) counts entries)) counts documents = Inr counts'"
  shows "(\<forall>l. countOf counts' l = countOf counts l + length (filter (\<lambda>d. l \<in> set (dc_docRequests d)) documents)
       \<and> (map_of counts' l \<noteq> None \<longleftrightarrow> map_of counts l \<noteq> None \<or> (\<exists>d \<in> set documents. l \<in> set (dc_docRequests d)))
       \<and> (l < length (dv_docRequests request) \<longrightarrow> uniqueOf (dv_docRequests request ! l) \<longrightarrow> countOf counts l \<le> 1 \<longrightarrow> countOf counts' l \<le> 1)) \<and>
    (\<forall>d \<in> set documents. dc_docRequests d \<noteq> [] \<and> (\<forall>i \<in> set (dc_docRequests d). i < length (dv_docRequests request)
       \<and> matchIssuer k (issuersOf (dv_docRequests request ! i)) (is_certificateChain (dc_issuerSigned d)) \<noteq> Some False))"
  using assms
proof (induction documents arbitrary: counts)
  case (Cons document documents)
  obtain entries c where c: "findDocRequests request document = Inr entries" "foldR (countDocument k document) counts entries = Inr c"
    "foldR (\<lambda>counts document. bindR (findDocRequests request document) (\<lambda>entries. foldR (countDocument k document) counts entries)) c documents = Inr counts'"
    using Cons.prems by auto
  note f = findDocRequests_spec [OF c(1)]
  note step = conjunct1 [OF countEntries_spec [OF c(2) f(1)], unfolded f(2)] conjunct2 [OF countEntries_spec [OF c(2) f(1)]]
    and IH = conjunct1 [OF Cons.IH [OF c(3)]] conjunct2 [OF Cons.IH [OF c(3)]]
  have named: "(l, dv_docRequests request ! l) \<in> set entries \<and> l < length (dv_docRequests request)" if l: "l \<in> set (dc_docRequests document)" for l
  proof -
    have "l \<in> fst ` set entries" using l f(2) by simp
    then obtain r where "(l, r) \<in> set entries" by force
    then show ?thesis using f(4) by fastforce
  qed
  show ?case
  proof (rule conjI)
    show "\<forall>l. countOf counts' l = countOf counts l + length (filter (\<lambda>d. l \<in> set (dc_docRequests d)) (document # documents))
       \<and> (map_of counts' l \<noteq> None \<longleftrightarrow> map_of counts l \<noteq> None \<or> (\<exists>d \<in> set (document # documents). l \<in> set (dc_docRequests d)))
       \<and> (l < length (dv_docRequests request) \<longrightarrow> uniqueOf (dv_docRequests request ! l) \<longrightarrow> countOf counts l \<le> 1 \<longrightarrow> countOf counts' l \<le> 1)"
    proof (intro allI conjI impI, goal_cases)
      case (1 l)
      then show ?case using IH(1) [rule_format, of l] step(1) [rule_format, of l] by simp
    next
      case (2 l)
      then show ?case using IH(1) [rule_format, of l] step(1) [rule_format, of l] by auto
    next
      case (3 l)
      have "countOf c l \<le> 1"
      proof (cases "l \<in> set (dc_docRequests document)")
        case True
        then have "countOf c l \<noteq> 2" using step(2) named [OF True] 3(2) by fast
        moreover have "countOf c l = countOf counts l + 1" using step(1) [rule_format, of l] True by simp
        ultimately show ?thesis using 3(3) by linarith
      next
        case False
        then show ?thesis using step(1) [rule_format, of l] 3(3) by simp
      qed
      then show ?case using IH(1) [rule_format, of l] 3 by blast
    qed
  next
    have "dc_docRequests document \<noteq> [] \<and> (\<forall>i \<in> set (dc_docRequests document). i < length (dv_docRequests request)
       \<and> matchIssuer k (issuersOf (dv_docRequests request ! i)) (is_certificateChain (dc_issuerSigned document)) \<noteq> Some False)"
      using f(3) named step(2) by fast
    then show "\<forall>d \<in> set (document # documents). dc_docRequests d \<noteq> [] \<and> (\<forall>i \<in> set (dc_docRequests d). i < length (dv_docRequests request)
       \<and> matchIssuer k (issuersOf (dv_docRequests request ! i)) (is_certificateChain (dc_issuerSigned d)) \<noteq> Some False)"
      using IH(2) by simp
  qed
qed simp_all

section \<open>A created response answers the request\<close>

text \<open>Documents that each satisfy the doc requests they name, those with \<open>uniqueDocSetRequired\<close> named once, answer
  all the doc requests named together.\<close>

lemma named_together:
  assumes wf: "wfRequests drs" and bound: "\<forall>dr \<in> set drs. set (dr_candidates dr) \<subseteq> {..<n}"
    and every: "\<forall>j < n. \<exists>i. names j i"
    and valid: "\<forall>j < n. \<forall>i. names j i \<longrightarrow> (\<exists>dr \<in> set drs. dr_index dr = i \<and> j \<in> set (dr_valid dr) \<and> (dr_unique dr \<longrightarrow> (\<forall>j' < n. names j' i \<longrightarrow> j' = j)))"
    and S: "S \<subseteq> {i. \<exists>j < n. names j i}"
  shows "answeredTogether drs S"
proof -
  have w: "distinct (map dr_index drs)" "\<And>dr. dr \<in> set drs \<Longrightarrow> set (dr_valid dr) \<subseteq> set (dr_candidates dr)"
    using wf by (auto simp: wfRequests_def)
  define f where "f j = (SOME i. names j i)" for j
  have small: "j < n" if j: "j \<in> onlyUnique drs" for j
  proof -
    obtain dr where "dr \<in> set drs" "j \<in> set (dr_candidates dr)"
      using j unfolding onlyUnique_def requestsFor_def by (auto simp: filter_empty_conv)
    then show ?thesis using bound by blast
  qed
  have f: "\<exists>dr \<in> set drs. dr_index dr = f j \<and> j \<in> set (dr_valid dr) \<and> j \<in> set (dr_candidates dr) \<and> (\<forall>j' < n. names j' (f j) \<longrightarrow> j' = j)"
    if j: "j \<in> onlyUnique drs" for j
  proof -
    have "names j (f j)" unfolding f_def by (rule someI_ex) (use every small [OF j] in blast)
    then obtain dr where dr: "dr \<in> set drs" "dr_index dr = f j" "j \<in> set (dr_valid dr)" "dr_unique dr \<longrightarrow> (\<forall>j' < n. names j' (f j) \<longrightarrow> j' = j)"
      using valid small [OF j] by blast
    then have c: "j \<in> set (dr_candidates dr)" using w(2) by blast
    then have "dr_unique dr" using j dr(1) unfolding onlyUnique_def by blast
    then show ?thesis using dr c by blast
  qed
  have inj: "inj_on f (onlyUnique drs)"
  proof (rule inj_onI)
    fix j j' assume j: "j \<in> onlyUnique drs" "j' \<in> onlyUnique drs" "f j = f j'"
    have "names j (f j)" unfolding f_def by (rule someI_ex) (use every small [OF j(1)] in blast)
    then show "j = j'" using f [OF j(2)] small [OF j(1)] j(3) by metis
  qed
  let ?M = "(\<lambda>j. (j, f j)) ` onlyUnique drs"
  note fin = finite_onlyUnique [OF w(1)]
  have M: "matching (requestsFor drs) (onlyUnique drs) ?M"
  proof (rule matchingI)
    fix j i assume "(j, i) \<in> ?M"
    then have j: "j \<in> onlyUnique drs" "i = f j" by auto
    obtain dr where "dr \<in> set drs" "dr_index dr = f j" "j \<in> set (dr_candidates dr)" using f [OF j(1)] by blast
    then show "j \<in> onlyUnique drs \<and> i \<in> set (requestsFor drs j)" using j by (force simp: requestsFor_def)
  qed (use inj in \<open>auto simp: inj_on_def\<close>)
  have none: "excessDocuments drs = {}"
  proof (rule equals0I)
    fix d assume "d \<in> excessDocuments drs"
    then obtain N where d: "d \<in> onlyUnique drs" and N: "maximum (requestsFor drs) (onlyUnique drs) N" "d \<notin> fst ` N"
      unfolding excess_iff [OF w(1)] by blast
    have m: "matching (requestsFor drs) (onlyUnique drs) N" using N(1) unfolding maximum_def by blast
    have "card ?M \<le> card N" using N(1) M unfolding maximum_def by blast
    moreover have "card ?M = card (onlyUnique drs)" by (simp add: card_image inj_on_def)
    moreover have "card N = card (fst ` N)" using matching_inj(1) [OF m] by (simp add: card_image)
    moreover have "fst ` N \<subset> onlyUnique drs" using d N(2) matching_edge [OF m] by force
    then have "card (fst ` N) < card (onlyUnique drs)" by (rule psubset_card_mono [OF fin])
    ultimately show False by simp
  qed
  then have req: "excessRequests drs = {}" by (simp add: excessRequests_eq)
  have "shares drs S f" unfolding shares_def none req Diff_empty
  proof (intro conjI inj ballI)
    fix j assume "j \<in> onlyUnique drs"
    then show "f j \<notin> {}" "\<exists>dr \<in> set drs. dr_index dr = f j \<and> j \<in> set (dr_candidates dr) \<and> (f j \<in> S \<longrightarrow> j \<in> set (dr_valid dr))"
      using f by blast+
  qed
  moreover have "\<exists>dr \<in> set drs. dr_index dr = i \<and> dr_valid dr \<noteq> []" if i: "i \<in> S" for i
  proof -
    obtain j where "j < n" "names j i" using S i by blast
    then obtain dr where "dr \<in> set drs" "dr_index dr = i" "j \<in> set (dr_valid dr)" using valid by blast
    then show ?thesis by force
  qed
  ultimately show ?thesis unfolding answeredTogether_def req by blast
qed

lemma filter_once:
  assumes "length (filter P xs) \<le> 1" "j < length xs" "j' < length xs" "P (xs ! j)" "P (xs ! j')"
  shows "j' = j"
proof -
  have "card {i. i < length xs \<and> P (xs ! i)} \<le> Suc 0" using assms(1) by (simp add: length_filter_conv_card)
  then show ?thesis using assms by (auto simp: card_le_Suc0_iff_eq)
qed

text \<open>The doc requests of which documents are disclosed, enough for a use case that a reader takes from a request
  without use cases.\<close>

definition answersRequest :: "deviceRequest \<Rightarrow> bool \<Rightarrow> documentOptions list \<Rightarrow> bool" where
  "answersRequest request alternatives documents \<longleftrightarrow> dv_useCases request \<noteq> None
     \<or> (alternatives \<and> 1 < length (dv_docRequests request))
     \<or> (\<forall>i < length (dv_docRequests request). \<exists>d \<in> set documents. i \<in> set (dc_docRequests d))"

text \<open>What a reader accepts of the documents: their sources, and requested elements left out that are optional.\<close>

definition acceptsDocument :: "(nat \<times> docRequestOptions) list \<Rightarrow> deviceRequest \<Rightarrow> documentOptions \<Rightarrow> bool" where
  "acceptsDocument found request d \<longleftrightarrow> (\<forall>i \<in> set (dc_docRequests d). acceptsAll (elementsOf found i) d (dv_docRequests request ! i)
     \<and> (\<forall>(n, e, _) \<in> set (requestedElements (rq_namespaces (dv_docRequests request ! i))).
          isSelected (dc_elements d) (n, e) \<or> elementOptional (elementsOf found i) n e))"

lemma createResponse_cases:
  assumes "createWithDeviceRequest authenticate k size request documents = Inr created"
  obtains counts where "countDocuments k request documents = Inr counts"
    "\<forall>useCases. dv_useCases request = Some useCases \<longrightarrow> documents \<noteq> [] \<longrightarrow>
       (\<forall>u \<in> set useCases. us_mandatory u \<longrightarrow> setAnswered counts (us_documentSets u)) \<and> (\<exists>u \<in> set useCases. setAnswered counts (us_documentSets u))"
    "length created = length documents"
    "\<forall>j < length documents. \<exists>entries. findDocRequests request (documents ! j) = Inr entries
       \<and> createDocument authenticate (documents ! j) entries = Inr (created ! j)"
proof -
  have c: "checkRequestInfo k request documents = Inr ()"
    "mapR (\<lambda>document. bindR (findDocRequests request document) (createDocument authenticate document)) documents = Inr created"
    using assms by (auto simp: createWithDeviceRequest_def)
  obtain counts where counts: "countDocuments k request documents = Inr counts"
    "(case dv_useCases request of None \<Rightarrow> Inr () | Some useCases \<Rightarrow> if documents = [] then Inr ()
        else bindR (ensure (list_all (\<lambda>u. us_mandatory u \<longrightarrow> setAnswered counts (us_documentSets u)) useCases) UnsatisfiedDeviceRequest)
          (\<lambda>_. ensure (list_ex (\<lambda>u. setAnswered counts (us_documentSets u)) useCases) UnsatisfiedDeviceRequest)) = Inr ()"
    using c(1) by (auto simp: checkRequestInfo_def)
  show ?thesis
  proof (rule that [OF counts(1)])
    show "\<forall>useCases. dv_useCases request = Some useCases \<longrightarrow> documents \<noteq> [] \<longrightarrow>
       (\<forall>u \<in> set useCases. us_mandatory u \<longrightarrow> setAnswered counts (us_documentSets u)) \<and> (\<exists>u \<in> set useCases. setAnswered counts (us_documentSets u))"
      using counts(2) by (auto simp: list_all_iff list_ex_iff)
    show "length created = length documents" by (rule mapR_length [OF c(2)])
    show "\<forall>j < length documents. \<exists>entries. findDocRequests request (documents ! j) = Inr entries
       \<and> createDocument authenticate (documents ! j) entries = Inr (created ! j)"
      using mapR_nth [OF c(2)] by auto
  qed
qed

lemma created_answered:
  assumes wf: "\<forall>r \<in> set (dv_docRequests request). distinct (map fst (rq_namespaces r))"
    and created: "createWithDeviceRequest authenticate k size request documents = Inr created"
    and accepts: "\<forall>d \<in> set documents. acceptsDocument found request d"
    and S: "\<forall>i \<in> S. \<exists>d \<in> set documents. i \<in> set (dc_docRequests d)"
  shows "answeredTogether (responseCandidates k (Some (map (\<lambda>d. is_certificateChain (dc_issuerSigned d)) documents)) found
      (map fst created) request) S"
proof -
  let ?cs = "Some (map (\<lambda>d. is_certificateChain (dc_issuerSigned d)) documents)"
  let ?drs = "responseCandidates k ?cs found (map fst created) request"
  let ?names = "\<lambda>j i. j < length documents \<and> i \<in> set (dc_docRequests (documents ! j))"
  obtain counts where counts: "countDocuments k request documents = Inr counts" and len: "length created = length documents"
    and docs: "\<forall>j < length documents. \<exists>entries. findDocRequests request (documents ! j) = Inr entries
       \<and> createDocument authenticate (documents ! j) entries = Inr (created ! j)"
    using createResponse_cases [OF created] by metis
  note count = conjunct1 [OF countDocuments_spec [OF counts [unfolded countDocuments_def]]]
    conjunct2 [OF countDocuments_spec [OF counts [unfolded countDocuments_def]]]
  have named: "i < length (dv_docRequests request)" "matchIssuer k (issuersOf (dv_docRequests request ! i)) (chainOf ?cs j) \<noteq> Some False"
    if "?names j i" for j i
  proof -
    have d: "documents ! j \<in> set documents" using that by simp
    show "i < length (dv_docRequests request)" using bspec [OF count(2) d] that by blast
    show "matchIssuer k (issuersOf (dv_docRequests request ! i)) (chainOf ?cs j) \<noteq> Some False"
      using bspec [OF count(2) d] that by (simp add: chainOf_def)
  qed
  have once: "j' = j" if "?names j i" "?names j' i" "uniqueOf (dv_docRequests request ! i)" for j j' i
  proof (rule filter_once [of "\<lambda>d. i \<in> set (dc_docRequests d)" documents])
    show "length (filter (\<lambda>d. i \<in> set (dc_docRequests d)) documents) \<le> 1"
      using count(1) [rule_format, of i] named(1) [OF that(1)] that(3) by (simp add: countOf_def)
  qed (use that in auto)
  have valid: "\<exists>dr \<in> set ?drs. dr_index dr = i \<and> j \<in> set (dr_valid dr) \<and> (dr_unique dr \<longrightarrow> (\<forall>j' < length documents. ?names j' i \<longrightarrow> j' = j))"
    if n: "?names j i" for j i
  proof -
    let ?r = "dv_docRequests request ! i"
    note i = named(1) [OF n]
    obtain entries where e: "findDocRequests request (documents ! j) = Inr entries"
      "createDocument authenticate (documents ! j) entries = Inr (created ! j)" using docs n by blast
    note f = findDocRequests_spec [OF e(1)]
    have "i \<in> fst ` set entries" using f(2) n by simp
    then obtain r where r: "(i, r) \<in> set entries" by force
    then have mem: "(i, ?r) \<in> set entries" using bspec [OF f(4) r] by simp
    have acc: "acceptsAll (elementsOf found i) (documents ! j) ?r" "\<forall>(n, e, _) \<in> set (requestedElements (rq_namespaces ?r)).
        isSelected (dc_elements (documents ! j)) (n, e) \<or> elementOptional (elementsOf found i) n e"
      using accepts n unfolding acceptsDocument_def by auto
    have "dm_success (matchDocument k (elementsOf found i) ?r (chainOf ?cs j) (j, fst (created ! j)))"
    proof (rule created_document_matches [OF _ mem _ acc named(2) [OF n]])
      show "createDocument authenticate (documents ! j) entries = Inr (fst (created ! j), snd (created ! j))" using e(2) by simp
      show "distinct (map fst (rq_namespaces ?r))" using wf i by simp
    qed
    moreover have "matchDocument k (elementsOf found i) ?r (chainOf ?cs j) (j, fst (created ! j))
        \<in> set (documentMatches k ?cs found (map fst created) (i, ?r))"
    proof -
      have "(j, fst (created ! j)) \<in> set (enumerate 0 (map fst created))" using n len by (simp add: in_set_enumerate_eq)
      then show ?thesis unfolding documentMatches_def set_map
        by (intro image_eqI [of _ _ "(j, fst (created ! j))"]) simp_all
    qed
    moreover have "dm_index (matchDocument k (elementsOf found i) ?r (chainOf ?cs j) (j, fst (created ! j))) = j"
      by (simp add: matchDocument_def Let_def case_prod_beta)
    ultimately have "j \<in> dm_index ` set (filter dm_success (documentMatches k ?cs found (map fst created) (i, ?r)))"
      by (intro image_eqI [of _ _ "matchDocument k (elementsOf found i) ?r (chainOf ?cs j) (j, fst (created ! j))"]) simp_all
    then have "j \<in> set (dr_valid (?drs ! i))"
      unfolding nth_responses(2) [OF i] nth_responses(1) [OF i] by (simp add: candidatesFor_def)
    moreover have "dr_index (?drs ! i) = i" "dr_unique (?drs ! i) \<longleftrightarrow> uniqueOf ?r" using i by (simp_all add: nth_responses(2) candidatesFor_def)
    moreover have "?drs ! i \<in> set ?drs" using i by simp
    ultimately show ?thesis using once [OF n] by blast
  qed
  show ?thesis
  proof (rule named_together [OF response_wf, of _ _ _ _ _ "length documents" ?names])
    show "\<forall>dr \<in> set ?drs. set (dr_candidates dr) \<subseteq> {..<length documents}"
    proof
      fix dr assume "dr \<in> set ?drs"
      then obtain i where i: "i < length (dv_docRequests request)" "dr = ?drs ! i" by (auto simp: in_set_conv_nth)
      show "set (dr_candidates dr) \<subseteq> {..<length documents}"
        unfolding i(2) nth_responses(2) [OF i(1)] nth_responses(1) [OF i(1)] candidatesFor_def documentMatches_def
        by (auto simp: matchDocument_def Let_def case_prod_beta in_set_enumerate_eq len)
    qed
    show "\<forall>j < length documents. \<exists>i. ?names j i"
    proof (intro allI impI)
      fix j assume j: "j < length documents"
      then have "dc_docRequests (documents ! j) \<noteq> []" using count(2) by simp
      then show "\<exists>i. ?names j i" using j by (cases "dc_docRequests (documents ! j)") auto
    qed
    show "\<forall>j < length documents. \<forall>i. ?names j i \<longrightarrow>
      (\<exists>dr \<in> set ?drs. dr_index dr = i \<and> j \<in> set (dr_valid dr) \<and> (dr_unique dr \<longrightarrow> (\<forall>j' < length documents. ?names j' i \<longrightarrow> j' = j)))"
      using valid by blast
    show "S \<subseteq> {i. \<exists>j < length documents. ?names j i}"
    proof
      fix i assume "i \<in> S"
      then obtain d where d: "d \<in> set documents" "i \<in> set (dc_docRequests d)" using S by blast
      then obtain j where "j < length documents" "documents ! j = d" unfolding in_set_conv_nth by blast
      then show "i \<in> {i. \<exists>j < length documents. ?names j i}" using d(2) by blast
    qed
  qed
qed

lemma setAnswered_iff:
  assumes "countDocuments k request documents = Inr counts"
  shows "setAnswered counts sets \<longleftrightarrow> (\<exists>D \<in> set sets. \<forall>i \<in> set D. \<exists>d \<in> set documents. i \<in> set (dc_docRequests d))"
  using conjunct1 [OF countDocuments_spec [OF assms [unfolded countDocuments_def]]]
  by (simp add: setAnswered_def list_ex_iff list_all_iff)


section \<open>What a document discloses\<close>

text \<open>C7. What is in a created document, issuer-signed or device-signed, is there because a selected requested
  element is answered with it, or because it is in the alternative set that the holder chose for one, and never
  because of an element left out. What is device-signed is a value the holder gave, of an element that the mobile
  security object authorizes the device key for.\<close>

theorem document_releases_only:
  assumes "createDocument authenticate opts entries = Inr (doc, auth)"
  shows "(\<forall>(n, items) \<in> set (is_namespaces (do_issuerSigned doc)). \<forall>item \<in> set items.
        \<exists>c. ec_item c = Some item \<and> ec_namespace c = n \<and> ec_element c = it_element item
          \<and> released opts (mergeDocRequests (map snd entries)) c \<and> \<not> declines opts (mergeDocRequests (map snd entries)) c)
    \<and> (\<forall>(n, items) \<in> set (do_deviceNamespaces doc). \<forall>(e, v) \<in> set items.
        isDeviceSignedElementAuthorized (is_keyAuthorizations (dc_issuerSigned opts)) n e
        \<and> (\<exists>c. ec_item c = None \<and> ec_namespace c = n \<and> ec_element c = e \<and> ec_value c = v
          \<and> released opts (mergeDocRequests (map snd entries)) c \<and> \<not> declines opts (mergeDocRequests (map snd entries)) c))"
proof -
  let ?P = "\<lambda>c. released opts (mergeDocRequests (map snd entries)) c \<and> \<not> declines opts (mergeDocRequests (map snd entries)) c"
  obtain d where d: "selectElements opts (mergeDocRequests (map snd entries)) = Inr d" "doc = discloseDocument opts d"
    and auth: "findUnauthorizedDeviceSignedElements (ds_device d) (is_keyAuthorizations (dc_issuerSigned opts)) = []"
    using createDocument_cases [OF assms] by metis
  have only: "onlyIssuer ?P (ds_issuer d)" "onlyDevice ?P (ds_device d)"
    using selectElements_only [OF d(1)] by (simp_all add: disclosesOnly_def)
  have issuer: "\<exists>c. ec_item c = Some item \<and> ec_namespace c = n \<and> ec_element c = it_element item \<and> ?P c"
    if cs: "(n, cs) \<in> set (ds_issuer d)" and item: "item \<in> set (itemsOf cs)" for n cs item
  proof -
    obtain c where c: "c \<in> set cs" "ec_item c = Some item" using item by (auto simp: itemsOf_def split: option.splits)
    then have "ec_namespace c = n" "?P c" using cs only(1) unfolding onlyIssuer_def by blast+
    moreover have "ec_element c = it_element item"
      using collected_fields [OF released_available [OF conjunct1 [OF \<open>?P c\<close>]]] c(2) by auto
    ultimately show ?thesis using c(2) by blast
  qed
  have "isDeviceSignedElementAuthorized (is_keyAuthorizations (dc_issuerSigned opts)) n e"
    if items: "(n, items) \<in> set (ds_device d)" "(e, v) \<in> set items" for n items e v
  proof -
    have "(n, e) \<in> (\<lambda>i. (n, fst i)) ` set items" by (rule image_eqI [OF _ items(2)]) simp
    then have "(n, e) \<in> set (collectDeviceSignedElements (ds_device d))"
      unfolding collectDeviceSignedElements_def set_concat set_map by (intro UN_I [OF imageI [OF items(1)]]) simp
    then show ?thesis using auth unfolding findUnauthorizedDeviceSignedElements_def filter_empty_conv by blast
  qed
  moreover have "\<exists>c. ec_item c = None \<and> ec_namespace c = n \<and> ec_element c = e \<and> ec_value c = v \<and> ?P c"
    if "(n, items) \<in> set (ds_device d)" "(e, v) \<in> set items" for n items e v
    using bspec [OF bspec [OF only(2) [unfolded onlyDevice_def] that(1), unfolded prod.case] that(2)] by auto
  ultimately have device: "\<forall>(n, items) \<in> set (ds_device d). \<forall>(e, v) \<in> set items.
      isDeviceSignedElementAuthorized (is_keyAuthorizations (dc_issuerSigned opts)) n e
      \<and> (\<exists>c. ec_item c = None \<and> ec_namespace c = n \<and> ec_element c = e \<and> ec_value c = v \<and> ?P c)" by blast
  have doc: "is_namespaces (do_issuerSigned doc) = map (\<lambda>(n, cs). (n, itemsOf cs)) (ds_issuer d)" "do_deviceNamespaces doc = ds_device d"
    by (simp_all add: d(2) discloseDocument_def)
  show ?thesis unfolding doc
  proof (intro conjI device ballI)
    fix p assume "p \<in> set (map (\<lambda>(n, cs). (n, itemsOf cs)) (ds_issuer d))"
    then obtain n cs where p: "(n, cs) \<in> set (ds_issuer d)" "p = (n, itemsOf cs)" by auto
    show "case p of (n, items) \<Rightarrow> \<forall>item \<in> set items. \<exists>c. ec_item c = Some item \<and> ec_namespace c = n \<and> ec_element c = it_element item \<and> ?P c"
      unfolding p(2) prod.case using issuer [OF p(1)] by (rule ballI)
  qed
qed

lemma discloseElement_distinct:
  "distinct (map fst (ds_issuer d)) \<Longrightarrow> distinct (map fst (ds_issuer (discloseElement d c)))"
  by (auto simp: discloseElement_def Let_def distinct_update split: option.split)

lemma selectElements_distinct:
  assumes "selectElements opts merged = Inr d"
  shows "distinct (map fst (ds_issuer d))"
proof (rule foldR_invariant [OF selectElements_cases(3) [OF assms]])
  have "distinct (map fst (ds_issuer u)) \<Longrightarrow> distinct (map fst (ds_issuer (foldl discloseElement u cs)))" for u cs
    by (induction cs arbitrary: u) (simp_all add: discloseElement_distinct)
  then show "distinct (map fst (ds_issuer u)) \<Longrightarrow> selectClaim opts declined u em = Inr v \<Longrightarrow> distinct (map fst (ds_issuer v))" for u em v declined
    by (elim selectClaim_cases) simp_all
qed simp

lemma addIdentifiers:
  "set (getList (foldl (\<lambda>m (n, items). AList.update n (getList m n @ map fst items) m) m device) n)
     = set (getList m n) \<union> {e. \<exists>items. (n, items) \<in> set device \<and> e \<in> fst ` set items}"
proof (induction device arbitrary: m)
  case (Cons entry device)
  obtain k items where e: "entry = (k, items)" by (cases entry)
  have "set (getList (AList.update k (getList m k @ map fst items) m) n) = set (getList m n) \<union> (if n = k then fst ` set items else {})"
    by (simp add: getList_update)
  then show ?case unfolding e foldl.simps prod.case Cons.IH by auto
qed simp

text \<open>The age attestations of a document in a namespace.\<close>

definition ageIdentifiers :: "document \<Rightarrow> string \<Rightarrow> string set" where
  "ageIdentifiers doc n = {e. parseAgeOverIdentifier e \<noteq> None
     \<and> ((\<exists>items. (n, items) \<in> set (is_namespaces (do_issuerSigned doc)) \<and> e \<in> it_element ` set items)
       \<or> (\<exists>items. (n, items) \<in> set (do_deviceNamespaces doc) \<and> e \<in> fst ` set items))}"

text \<open>C22. A created document discloses at most two age attestations in a namespace, issuer-signed and
  device-signed ones together, whatever its doc requests ask for and whatever alternative sets are chosen.\<close>

theorem document_age_limit:
  assumes "createDocument authenticate opts entries = Inr (doc, auth)"
  shows "card (ageIdentifiers doc n) \<le> 2"
proof -
  let ?age = "\<lambda>e. parseAgeOverIdentifier e \<noteq> None"
  let ?merged = "mergeDocRequests (map snd entries)"
  obtain d where d: "selectElements opts ?merged = Inr d" "doc = discloseDocument opts d" using createDocument_cases [OF assms] by metis
  let ?es = "getList (disclosedIdentifiers d) n"
  have only: "onlyIssuer (\<lambda>c. released opts ?merged c \<and> \<not> declines opts ?merged c) (ds_issuer d)"
    using selectElements_only [OF d(1)] by (simp add: disclosesOnly_def)
  have el: "it_element ` set (itemsOf cs) \<subseteq> ec_element ` set cs" if cs: "(n, cs) \<in> set (ds_issuer d)" for cs
  proof
    fix e assume "e \<in> it_element ` set (itemsOf cs)"
    then obtain item where item: "item \<in> set (itemsOf cs)" "e = it_element item" by blast
    then obtain c where c: "c \<in> set cs" "ec_item c = Some item" by (auto simp: itemsOf_def split: option.splits)
    then have "released opts ?merged c" using cs only unfolding onlyIssuer_def by blast
    from collected_fields [OF released_available [OF this]] show "e \<in> ec_element ` set cs" using c item by (intro image_eqI [of _ _ c]) auto
  qed
  have "ageIdentifiers doc n \<subseteq> set (filter ?age ?es)"
  proof
    fix e assume e: "e \<in> ageIdentifiers doc n"
    then consider cs where "(n, cs) \<in> set (ds_issuer d)" "e \<in> it_element ` set (itemsOf cs)"
      | items where "(n, items) \<in> set (ds_device d)" "e \<in> fst ` set items"
      unfolding ageIdentifiers_def d(2) discloseDocument_def by auto
    then have "e \<in> set ?es"
    proof cases
      case 1
      have "map_of (map (\<lambda>(n, cs). (n, map ec_element cs)) (ds_issuer d)) n = Some (map ec_element cs)"
        using 1(1) selectElements_distinct [OF d(1)] by (simp add: map_of_map)
      then have "e \<in> set (getList (map (\<lambda>(n, cs). (n, map ec_element cs)) (ds_issuer d)) n)"
        using el [OF 1(1)] 1(2) by (auto simp: getList_def)
      then show ?thesis by (simp add: disclosedIdentifiers_def addIdentifiers)
    next
      case 2
      then show ?thesis unfolding disclosedIdentifiers_def addIdentifiers by blast
    qed
    then show "e \<in> set (filter ?age ?es)" using e by (simp add: ageIdentifiers_def)
  qed
  also have "\<dots> = set (filter ?age (rev (remdups (rev ?es))))" by simp
  finally have sub: "ageIdentifiers doc n \<subseteq> set (filter ?age (rev (remdups (rev ?es))))" .
  have "length (filter ?age (rev (remdups (rev ?es)))) \<le> 2"
  proof (cases "?es = []")
    case False
    then have "(n, ?es) \<in> set (disclosedIdentifiers d)" using getList_mem by (metis list.set_intros(1) neq_Nil_conv)
    then show ?thesis using selectElements_cases(4) [OF d(1)]
      by (fastforce simp: findAgeOverLimitViolations_def maximumAgeOverRequests_def filter_empty_conv)
  qed simp
  then have "card (set (filter ?age (rev (remdups (rev ?es))))) \<le> 2" using card_length le_trans by blast
  then show ?thesis using card_mono [OF _ sub] by (metis List.finite_set le_trans)
qed

end
