(* ===== verification/DeviceExample.thy ===== *)
theory DeviceExample imports DeviceResponseLaws begin

text \<open>
  The properties of device requests and responses that combine the laws of several theories, and an example:
  a request for a licence, once, and another document with an alternative, that a holder answers.
\<close>

section \<open>An example\<close>

definition licence :: issuerSigned where
  "licence = \<lparr>is_namespaces = [(''n'', [\<lparr>it_digestId = 0, it_element = ''a'', it_value = OtherValue ''x''\<rparr>,
       \<lparr>it_digestId = 1, it_element = ''age_over_21'', it_value = BoolValue True\<rparr>])], is_docType = ''m'',
     is_keyAuthorizations = Some \<lparr>ka_namespaces = None, ka_dataElements = Some [(''n'', [''d''])]\<rparr>, is_certificateChain = None\<rparr>"

definition membership :: issuerSigned where
  "membership = \<lparr>is_namespaces = [(''n'', [\<lparr>it_digestId = 0, it_element = ''c'', it_value = OtherValue ''z''\<rparr>])],
     is_docType = ''q'', is_keyAuthorizations = None, is_certificateChain = None\<rparr>"

definition exampleRequest :: deviceRequest where
  "exampleRequest = \<lparr>dv_docRequests =
     [\<lparr>rq_docType = ''m'', rq_namespaces = [(''n'', [(''a'', False), (''age_over_18'', False), (''d'', False)])],
       rq_info = Some \<lparr>ri_alternatives = None, ri_issuerIdentifiers = None, ri_unique = Some True, ri_maximumResponseSize = None\<rparr>\<rparr>,
      \<lparr>rq_docType = ''q'', rq_namespaces = [(''n'', [(''b'', False)])],
       rq_info = Some \<lparr>ri_alternatives = Some [\<lparr>as_requested = (''n'', ''b''), as_sets = [[(''n'', ''c'')]]\<rparr>],
         ri_issuerIdentifiers = None, ri_unique = None, ri_maximumResponseSize = Some 9\<rparr>\<rparr>],
     dv_useCases = Some [\<lparr>us_mandatory = True, us_purposeHints = None, us_documentSets = [[0, 1]]\<rparr>]\<rparr>"

definition exampleDocuments :: "documentOptions list" where
  "exampleDocuments =
     [\<lparr>dc_issuerSigned = licence, dc_docRequests = [0], dc_elements = None, dc_alternatives = None,
       dc_deviceNamespaces = Some [(''n'', [(''d'', OtherValue ''y'')])], dc_signature = True, dc_mac = False\<rparr>,
      \<lparr>dc_issuerSigned = membership, dc_docRequests = [1], dc_elements = None, dc_alternatives = Some [(''n'', [(''b'', 0)])],
       dc_deviceNamespaces = None, dc_signature = False, dc_mac = True\<rparr>]"

definition exampleOptions :: matchOptions where
  "exampleOptions = \<lparr>mo_docRequests = Some [\<lparr>ro_index = jint 0, ro_elements =
     Some [(''n'', [(''*'', \<lparr>eo_optional = None, eo_source = Some AnySource\<rparr>)])]\<rparr>], mo_alternatives = False\<rparr>"

definition exampleCreated :: "(document \<times> unit) list" where
  "exampleCreated =
     [(\<lparr>do_docType = ''m'', do_issuerSigned = licence, do_deviceNamespaces = [(''n'', [(''d'', OtherValue ''y'')])]\<rparr>, ()),
      (\<lparr>do_docType = ''q'', do_issuerSigned = membership, do_deviceNamespaces = []\<rparr>, ())]"

lemma example_created:
  "createWithDeviceRequest (\<lambda>_ _ _. Inr ()) (\<lambda>_. None) length exampleRequest exampleDocuments = Inr exampleCreated"
  by code_simp

lemma example_options:
  "indexDocRequestOptions exampleRequest exampleOptions =
     Inr [(0, \<lparr>ro_index = jint 0, ro_elements = Some [(''n'', [(''*'', \<lparr>eo_optional = None, eo_source = Some AnySource\<rparr>)])]\<rparr>)]"
  by (simp add: indexDocRequestOptions_def indexStep_def exampleRequest_def exampleOptions_def)

lemma example_match: "\<exists>r. matchDeviceRequest (\<lambda>_. None) exampleRequest documents exampleOptions cs = Inr r"
  by (simp add: matchDeviceRequest_def example_options Let_def case_prod_beta)

lemma example_accepts:
  "\<forall>d \<in> set exampleDocuments. acceptsDocument [(0, \<lparr>ro_index = jint 0, ro_elements = Some [(''n'', [(''*'', \<lparr>eo_optional = None, eo_source = Some AnySource\<rparr>)])]\<rparr>)] exampleRequest d"
  by (simp add: exampleDocuments_def exampleRequest_def acceptsDocument_def acceptsAll_def accepts_def requestedElements_def
      alternativesOf_def elementsOf_def sourceOf_def optionsOf_def isSelected_def)


definition licenceEntries :: "(nat \<times> docRequest) list" where
  "licenceEntries = [(0, dv_docRequests exampleRequest ! 0)]"

lemma licence_created:
  "createDocument (\<lambda>_ _ _. Inr ()) (exampleDocuments ! 0) licenceEntries = Inr (fst (exampleCreated ! 0), ())"
  by code_simp

theorem document_releases_only_witness:
  "\<exists>c. ec_item c = None \<and> ec_namespace c = ''n'' \<and> ec_element c = ''d'' \<and> ec_value c = OtherValue ''y''
     \<and> released (exampleDocuments ! 0) (mergeDocRequests (map snd licenceEntries)) c"
proof -
  have "do_deviceNamespaces (fst (exampleCreated ! 0)) = [(''n'', [(''d'', OtherValue ''y'')])]" by (simp add: exampleCreated_def)
  then show ?thesis using conjunct2 [OF document_releases_only [OF licence_created]] by auto
qed

theorem document_age_limit_witness: "card (ageIdentifiers (fst (exampleCreated ! 0)) ''n'') \<le> 2"
  by (rule document_age_limit [OF licence_created])

section \<open>The doc requests a response answers\<close>

text \<open>C8. A response satisfies a device request exactly when every mandatory use case has a document set, and the
  doc requests of these sets can be answered together, and some use case has a document set that can be
  answered: each of these doc requests has a document that satisfies it, none is one that too many documents
  were sent for, and every document that only doc requests with \<open>uniqueDocSetRequired\<close> may answer can have one of
  its own, satisfying it when it is one of these. Searching the document sets, and the greedy choice of the
  optional ones, find such sets whenever there are any.\<close>

theorem response_success_iff:
  assumes "indexDocRequestOptions request opts = Inr found" "matchDeviceRequest k request ds opts cs = Inr r"
  shows "mt_success r \<longleftrightarrow> (let drs = responseCandidates k cs found ds request; us = snd (resolveUseCases request (mo_alternatives opts))
     in (\<exists>\<sigma>. answersMandatory us \<sigma> \<and> answeredTogether drs (mandatoryRequests us \<sigma>))
      \<and> (\<exists>u \<in> set us. \<exists>D \<in> set (us_documentSets u). answeredTogether drs (set D)))"
  by (rule device_request_satisfied [OF assms])

theorem response_success_iff_witness:
  "\<exists>r. matchDeviceRequest (\<lambda>_. None) exampleRequest [] exampleOptions None = Inr r \<and> \<not> mt_success r"
proof -
  let ?found = "[(0, \<lparr>ro_index = jint 0, ro_elements = Some [(''n'', [(''*'', \<lparr>eo_optional = None, eo_source = Some AnySource\<rparr>)])]\<rparr>)]"
  obtain r where r: "matchDeviceRequest (\<lambda>_. None) exampleRequest [] exampleOptions None = Inr r" using example_match by blast
  have "dr_valid dr = []" if "dr \<in> set (responseCandidates (\<lambda>_. None) None ?found [] exampleRequest)" for dr
    using that by (auto simp: responseCandidates_def responseMatches_def documentMatches_def candidatesFor_def set_zip)
  then have "\<not> answeredTogether (responseCandidates (\<lambda>_. None) None ?found [] exampleRequest) (set [0, 1])"
    by (auto simp: answeredTogether_def)
  moreover have "snd (resolveUseCases exampleRequest (mo_alternatives exampleOptions))
      = [\<lparr>us_mandatory = True, us_purposeHints = None, us_documentSets = [[0, 1]]\<rparr>]" by (simp add: resolveUseCases_def exampleRequest_def)
  ultimately have "\<not> mt_success r" unfolding response_success_iff [OF example_options r] Let_def by simp
  then show ?thesis using r by blast
qed

text \<open>C20. A document satisfies a doc request exactly when its docType, which is not signed, and the signed one are
  the requested one, its issuer is not refused, and every requested element that is not optional is answered:
  by an element of the document under the name requested, or an age attestation that decides the requested
  age, or by each element of an alternative set, from a source the reader allows and, when it is
  device-signed, with a device key authorized for it.\<close>

theorem document_satisfies_iff:
  "dm_success (matchDocument keyIdentifier elements request chain (i, d)) \<longleftrightarrow>
     do_docType d = rq_docType request \<and> is_docType (do_issuerSigned d) = rq_docType request
   \<and> matchIssuer keyIdentifier (issuersOf request) chain \<noteq> Some False
   \<and> (\<forall>(n, e, _) \<in> set (requestedElements (rq_namespaces request)).
        elementOptional elements n e \<or> answered (verifierContext elements request d) (n, e))"
  by (rule dm_success_iff)

theorem document_satisfies_iff_witness:
  "answered (verifierContext [] (dv_docRequests exampleRequest ! 1) (fst (exampleCreated ! 1))) (''n'', ''b'')"
proof -
  have ok: "dm_success (matchDocument (\<lambda>_. None) [] (dv_docRequests exampleRequest ! 1) None (0, fst (exampleCreated ! 1)))" by code_simp
  have ns: "requestedElements (rq_namespaces (dv_docRequests exampleRequest ! 1)) = [(''n'', ''b'', False)]" by code_simp
  have "\<not> elementOptional [] ''n'' ''b''" by code_simp
  then show ?thesis using ok unfolding document_satisfies_iff ns by simp
qed

section \<open>Attributing documents\<close>

definition exampleCandidates :: "docRequestCandidates list" where
  "exampleCandidates = [\<lparr>dr_index = 0, dr_unique = True, dr_candidates = [0, 1], dr_valid = [0, 1]\<rparr>,
     \<lparr>dr_index = 1, dr_unique = True, dr_candidates = [1], dr_valid = [1]\<rparr>]"

text \<open>C23. The matching of documents with doc requests is a maximum one: it only pairs a document with a doc request
  of its candidates, no document or doc request twice, and no such pairing has more pairs.\<close>

theorem maximumMatching_maximum:
  assumes "distinct documents"
  shows "maximum neighbours (set documents) (set (maximumMatching documents neighbours))"
  by (rule maximumMatching_spec(1) [OF assms])

theorem maximumMatching_maximum_witness: "maximum (\<lambda>d. if d = 1 then [1] else [0, 1]) {0, 1} {(0, 0), (1, 1)}"
proof -
  have "maximum (\<lambda>d. if d = 1 then [1] else [0, 1]) (set [0, 1]) (set (maximumMatching [0, 1] (\<lambda>d. if d = 1 then [1] else [0, 1])))"
    by (rule maximumMatching_maximum) simp
  moreover have "maximumMatching [0, 1] (\<lambda>d. if d = (1 :: nat) then [1] else [0, 1]) = [(0, 0), (1, 1)]" by code_simp
  ultimately show ?thesis by simp
qed

text \<open>C18. The documents reported as too many do not depend on the order in which documents and doc requests are
  tried: they are exactly those that only doc requests with \<open>uniqueDocSetRequired\<close> may answer and that some
  maximum matching leaves without one.\<close>

theorem excess_documents_iff:
  assumes "distinct (map dr_index drs)"
  shows "d \<in> excessDocuments drs \<longleftrightarrow>
    d \<in> onlyUnique drs \<and> (\<exists>M. maximum (requestsFor drs) (onlyUnique drs) M \<and> d \<notin> fst ` M)"
  by (rule excess_iff [OF assms])

theorem excess_documents_iff_witness: "\<not> (\<exists>M. maximum (requestsFor exampleCandidates) (onlyUnique exampleCandidates) M \<and> 0 \<notin> fst ` M)"
proof -
  have "ex_documents (at_excess (createAttribution exampleCandidates)) = []" by code_simp
  then have "0 \<notin> excessDocuments exampleCandidates" by simp
  moreover have "0 \<in> onlyUnique exampleCandidates" by (simp add: onlyUnique_def requestsFor_def exampleCandidates_def)
  moreover have "distinct (map dr_index exampleCandidates)" by (simp add: exampleCandidates_def)
  ultimately show ?thesis using excess_documents_iff [of exampleCandidates 0] by blast
qed

text \<open>C19. When a set of doc requests can be answered, the documents said to answer each doc request are candidates
  for it, at most one for a doc request with \<open>uniqueDocSetRequired\<close>, and one that satisfies it for each doc
  request of the set; and every document that needs a doc request of its own, and is not one too many, answers
  one.\<close>

theorem documents_attributed:
  assumes "wfRequests drs" "canAnswerUncached (createAttribution drs) S"
  shows "(\<forall>dr \<in> set drs. set (getList (answer (createAttribution drs) S) (dr_index dr)) \<subseteq> set (dr_candidates dr)
       \<and> (dr_unique dr \<longrightarrow> length (getList (answer (createAttribution drs) S) (dr_index dr)) \<le> 1)
       \<and> (dr_index dr \<in> set S \<longrightarrow> (\<exists>d \<in> set (getList (answer (createAttribution drs) S) (dr_index dr)). d \<in> set (dr_valid dr))))
    \<and> (\<forall>d \<in> onlyUnique drs - excessDocuments drs. \<exists>dr \<in> set drs. d \<in> set (getList (answer (createAttribution drs) S) (dr_index dr)))"
  using answer_valid [OF assms] by blast

theorem documents_attributed_witness:
  "length (getList (answer (createAttribution exampleCandidates) [0, 1]) 0) \<le> 1"
proof -
  have "wfRequests exampleCandidates" by (simp add: wfRequests_def exampleCandidates_def)
  moreover have "canAnswerUncached (createAttribution exampleCandidates) [0, 1]" by code_simp
  ultimately have "\<forall>dr \<in> set exampleCandidates. dr_unique dr \<longrightarrow>
      length (getList (answer (createAttribution exampleCandidates) [0, 1]) (dr_index dr)) \<le> 1"
    using documents_attributed [of exampleCandidates "[0, 1]"] by blast
  then show ?thesis by (simp add: exampleCandidates_def)
qed

section \<open>Age attestations\<close>

definition ageAttestation :: "string \<Rightarrow> bool \<Rightarrow> elementCandidate" where
  "ageAttestation e b = \<lparr>ec_position = 0, ec_namespace = ''n'', ec_element = e, ec_value = BoolValue b, ec_source = IssuerSigned, ec_item = None\<rparr>"



end
