(* ===== verification/Spec2Isabelle.thy ===== *)
theory Spec2Isabelle imports StatusList IndexAllocator Ff1 GeneralJson PolicyChain Issued FedApi DcqlExample DeviceReport DeviceExample begin

text \<open>
  Verification of identity-common-ts, a monorepo of TypeScript packages for digital credentials: selective
  disclosure JWTs (SD-JWT, RFC 9901), token status lists, the Digital Credentials Query Language (DCQL) of
  OpenID4VP, ISO mdoc (18013-5), and OpenID Federation. Every path below is under \<open>src/packages\<close>.

  \<^bold>\<open>The program.\<close> An issuer packs the claims of a credential: \<open>sd-jwt-core\<close> replaces the claims that a
  disclosure frame names by digests and signs the rest as a JWT. The holder chooses the disclosures to
  present and can bind them to a key; the verifier checks signatures, times and digests and rebuilds the
  claims. A verifier asks for claims with a query of \<open>dcql\<close>, which the holder runs on the credentials of a
  wallet and the verifier on what is presented; in \<open>mdoc\<close> it is a device request, whose doc requests the
  documents of a response answer. A credential points into a status list of
  \<open>token-status-list\<close>, a compressed bit array where the issuer allots indices with one of two allocators.
  \<open>openid-federation\<close> finds the keys and the metadata of a party: it walks from the entity to a trust anchor,
  checks the signed statements on the way, and applies the metadata policies of every superior.
  \<open>identity-common\<close> has the encodings all of them use.

  \<^bold>\<open>The theories\<close>, each importing the ones it calls:
  \<^item> \<open>Prelude\<close>: the result type \<open>error + 'a\<close> of code that throws, its bind, the numbers of JavaScript and
    lists; \<open>Json\<close>: JSON values, \<open>undefined\<close> and objects with the property order of JavaScript (index keys
    first), own and inherited properties apart.
  \<^item> \<open>Base64\<close>, \<open>Bytes\<close>: \<open>identity-common/src/base64url.ts\<close> and \<open>hex.ts\<close>.
  \<^item> \<open>BitStrings\<close>, \<open>StatusList\<close>: \<open>token-status-list/src/status-list.ts\<close>; \<open>IndexAllocator\<close>:
    \<open>status-list-index.ts\<close> with its seeded generator on 32 bit words; \<open>Ff1\<close>: the cipher of \<open>ff1.ts\<close> and the
    allocator of \<open>status-list-index-feistel.ts\<close>. The locale \<open>index_allocator\<close> is what a client relies on, and
    both allocators interpret it.
  \<^item> \<open>Disclosure\<close>, \<open>Unpack\<close>, \<open>Pack\<close>: \<open>sd-jwt-core/src\<close>, the class \<open>Disclosure\<close>, the recursion of
    \<open>decode/decode.ts\<close> over digests, and \<open>pack\<close> of \<open>sdjwt.ts\<close>; \<open>UnpackLaws\<close>, \<open>PackLaws\<close> and
    \<open>PackRoundtrip\<close> have their properties.
  \<^item> \<open>Jwt\<close>, \<open>SdJwt\<close>, \<open>Instance\<close>, \<open>GeneralJson\<close>: \<open>jwt.ts\<close>, \<open>kbjwt.ts\<close>, the class \<open>SdJwt\<close>,
    \<open>present/present.ts\<close>, \<open>index.ts\<close> and the JSON serializations; \<open>JwtLaws\<close>, \<open>InstanceLaws\<close> and \<open>Issued\<close>
    have their properties.
  \<^item> \<open>Attribution\<close>, \<open>ElementMatch\<close>, \<open>DeviceMatch\<close>, \<open>DeviceReport\<close>, \<open>DeviceResponse\<close>: \<open>mdoc/src/utils\<close>, matching a
    response and the credentials of a holder against a device request and reporting it, and creating a response
    in \<open>mdoc/models/device-response.ts\<close>; \<open>MaximumMatching\<close>, \<open>AttributionLaws\<close>, \<open>ElementLaws\<close>, \<open>DeviceMatchLaws\<close>
    and \<open>DeviceResponseLaws\<close> have their properties and \<open>DeviceExample\<close> an example they hold on.
  \<^item> \<open>Policies\<close>, \<open>PolicyLaws\<close>, \<open>PolicyChain\<close>: the metadata policies of
    \<open>openid-federation/src/resolveTrustChains/policies\<close>; \<open>FedTokens\<close>: its signed statements; \<open>TrustChain\<close>:
    \<open>resolveTrustChains.ts\<close>, with \<open>Discovery\<close>, \<open>ChainLaws\<close> and the instance \<open>ChainExample\<close>; \<open>FedApi\<close>: creating
    and fetching single statements.
  \<^item> \<open>DcqlClaims\<close>, \<open>DcqlQuery\<close>, \<open>DcqlParse\<close>: \<open>dcql/src\<close>, the claim parsers and \<open>deepMerge\<close>, running a query and
    checking a presentation, and the schemas; \<open>DcqlLaws\<close>, \<open>DcqlMerge\<close>, \<open>DcqlSound\<close>, \<open>DcqlResults\<close> have their
    properties and \<open>DcqlExample\<close> a wallet they hold on.

  \<^bold>\<open>How code corresponds to definitions.\<close> A class or an options object is a \<open>record\<close> with the fields of the
  source, a union a \<open>datatype\<close>, a method a function that takes and returns the record. What throws returns
  \<open>Inl\<close> of an error, with its code where the source gives one; messages are left out. An asynchronous
  function is its value, since awaiting has no effect of its own, with one exception: the discovery of trust
  chains runs many calls at once over shared maps, so it is a step function on the state, where every
  schedule of the pending calls is a list of the calls that go on, and its properties hold for all of them.
  Numbers are integers, or \<open>32 word\<close> where the source computes on 32 bits, and the tests the source makes for
  safe integers are part of the model. Strings are lists of characters.

  \<^bold>\<open>What the lemmas show.\<close> The base encodings are inverse to each other, and decoding rejects what is not
  canonical. A status list keeps its invariant and its length, setting one status changes no other, and what
  is compressed is read back, within the bound on the bytes inflated. Both allocators give every index
  exactly once. Packing and unpacking are inverse for every disclosure frame and every subset presented, and
  unpacking returns for every payload, using each digest once; \<open>verify\<close> accepts exactly what its declarative
  counterpart describes, \<open>safeVerify\<close> agrees with it except on reserved fields, and what is issued verifies.
  Merging two policies gives a policy met by exactly the values that meet both, so resolved metadata satisfies
  every superior. Discovery keeps its bounds, is never stuck and ends, and every chain returned links the
  leaf to the trust anchor by current statements with valid signatures. A DCQL query that the parser accepts
  runs on every credential without an exception, it can be satisfied exactly when the credentials match its
  declarative meaning, and what it outputs is a part of the credential. A response to an mdoc device request is
  accepted exactly when documents can be shared out for the use cases of the request, whatever order they are
  tried in, and what a holder creates discloses nothing but what answers the elements selected, and is
  accepted by a reader.

  \<^bold>\<open>Bounds and fuel.\<close> Recursion that is not structural has a measure: unpacking decreases the digests not yet
  used, the search for a free index the positions left. \<open>cycleWalk\<close> has as fuel the size of the domain; an
  orbit of a permutation returns within it, which \<open>feistel_complete\<close> shows. Discovery takes at most four
  steps for each request it may make (\<open>discovery_terminates\<close>). The search for augmenting paths decreases the
  doc requests not yet visited.

  \<^bold>\<open>Parameters.\<close> What is not in the repository is an argument: the hasher, the salt generator, the signer and
  the verifier, the block cipher, zlib, \<open>JSON.parse\<close> and \<open>JSON.stringify\<close>, the network, and the syntax of URLs.
  Hypotheses on them say what they are documented to do, for example that parsing a text that was printed
  gives the value back, that signatures made are accepted, or that hashes of the disclosures at hand differ.
  Each property with such a hypothesis has an instance in which it holds.

  \<^bold>\<open>Not modelled.\<close> Signing, CBOR and COSE structures and the verification of their signatures, certificates, key handling
  and sessions (\<open>cose\<close>, \<open>x509\<close>, \<open>crypto\<close>, the rest of \<open>mdoc\<close>), which are calls of libraries around data the
  models above take as read; the messages of \<open>oauth2\<close>, \<open>openid4vci\<close> and \<open>openid4vp\<close>, which are schemas and
  HTTP requests; the schemas and profiles of the \<open>eudi\<close> packages; \<open>sd-jwt-vc\<close>, \<open>jose\<close> and the tokens that
  carry a status list. Texts of errors and reasons are left out everywhere.
\<close>

end
